(* ===== verification/Prelude.thy ===== *)
theory Prelude
  imports Main "HOL-Library.Word" "HOL-Library.Char_ord" "HOL-Library.List_Lexorder"
    "HOL-Library.Product_Lexorder" "HOL-Library.Sublist" "HOL-Library.Multiset"
begin

section \<open>Prelude: what every component shares\<close>

text \<open>
  The pieces of Go and of its standard library that the modelled packages use, with the
  generic lemmas the component proofs rest on:
  \<^item> a Go \<open>string\<close> (a byte sequence) is an Isabelle \<open>string\<close>, one \<open>char\<close> per byte, and its
    byte-wise order is the lexicographic order of \<open>List_Lexorder\<close>;
  \<^item> \<open>int64\<close> is \<open>int\<close> with the two's complement wrap-around written out (\<open>i64\<close>);
  \<^item> \<open>strconv.FormatInt\<close>/\<open>ParseInt\<close>, \<open>binary.BigEndian.PutUint64\<close> and the functions of package
    \<open>strings\<close> that the code calls;
  \<^item> a Go map whose iteration order does not matter is a map \<open>'k \<rightharpoonup> 'v\<close>, and \<open>sort.Slice\<close> is a
    stable sort by a key.
\<close>

named_theorems go_simps \<open>rewriting with the standard library functions of the model\<close>
named_theorems wf_intros \<open>introduction rules for the components' invariants\<close>

subsection \<open>Generic facts on lists, options and maps\<close>

lemma Some_find_iff:
  "find P xs = Some x \<longleftrightarrow> (\<exists>i < length xs. P (xs ! i) \<and> x = xs ! i \<and> (\<forall>j < i. \<not> P (xs ! j)))"
  by (rule find_Some_iff)

lemma find_Some_mem: "find P xs = Some x \<Longrightarrow> x \<in> set xs \<and> P x"
  by (auto simp: find_Some_iff)

lemma set_map_filter_iff: "y \<in> set (List.map_filter f xs) \<longleftrightarrow> (\<exists>x \<in> set xs. f x = Some y)"
  by (induction xs) (auto simp: List.map_filter_simps split: option.splits)

lemma filter_eq_self: "(\<forall>x \<in> set xs. P x) \<Longrightarrow> filter P xs = xs"
  by (induction xs) auto

lemma append_eq_same_length:
  "length xs = length us \<Longrightarrow> xs @ ys = us @ vs \<longleftrightarrow> xs = us \<and> ys = vs"
  by simp

lemma last_in_set_conv: "xs \<noteq> [] \<Longrightarrow> last xs = xs ! (length xs - 1)"
  by (rule last_conv_nth)

subsection \<open>Machine integers\<close>

text \<open>\<open>int64\<close>: a value is kept in its range by \<open>i64\<close>, which is where an addition wraps.\<close>

definition i64 :: "int \<Rightarrow> int" where
  "i64 x = (x + 2 ^ 63) mod 2 ^ 64 - 2 ^ 63"

definition is_i64 :: "int \<Rightarrow> bool" where
  "is_i64 x \<longleftrightarrow> - (2 ^ 63) \<le> x \<and> x < 2 ^ 63"

lemma i64_id [go_simps]: "is_i64 x \<Longrightarrow> i64 x = x"
  by (simp add: i64_def is_i64_def)

lemma is_i64_i64 [simp]: "is_i64 (i64 x)"
proof -
  have "0 \<le> (x + 2 ^ 63) mod (2 ^ 64 :: int)" "(x + 2 ^ 63) mod (2 ^ 64 :: int) < 2 ^ 64"
    by simp_all
  then show ?thesis by (simp add: i64_def is_i64_def)
qed

lemma is_i64_small [intro]: "0 \<le> x \<Longrightarrow> x < 2 ^ 63 \<Longrightarrow> is_i64 x"
  by (simp add: is_i64_def)

lemma i64_small: "0 \<le> x \<Longrightarrow> x < 2 ^ 63 \<Longrightarrow> i64 x = x"
  by (simp add: i64_id is_i64_small)

text \<open>\<open>binary.BigEndian.PutUint64\<close> over a value taken modulo \<open>2 ^ 64\<close> (the conversion to
  \<open>uint64\<close>): eight bytes, most significant first.\<close>

fun be_bytes :: "nat \<Rightarrow> int \<Rightarrow> string" where
  "be_bytes 0 n = []"
| "be_bytes (Suc w) n = be_bytes w (n div 256) @ [char_of (n mod 256)]"

definition be64 :: "int \<Rightarrow> string" where
  "be64 n = be_bytes 8 n"

lemma length_be_bytes [simp]: "length (be_bytes w n) = w"
  by (induction w arbitrary: n) auto

lemma length_be64 [simp]: "length (be64 n) = 8"
  by (simp add: be64_def)

lemma char_of_mod_inj: "char_of (a mod 256 :: int) = char_of (b mod 256 :: int) \<Longrightarrow> a mod 256 = b mod 256"
proof -
  assume "char_of (a mod 256) = (char_of (b mod 256) :: char)"
  then have "of_char (char_of (a mod 256) :: char) = (of_char (char_of (b mod 256) :: char) :: int)" by simp
  then show ?thesis by (simp only: of_char_of mod_mod_trivial)
qed

lemma be_bytes_inj:
  "be_bytes w a = be_bytes w b \<Longrightarrow> a mod 256 ^ w = b mod 256 ^ w"
proof (induction w arbitrary: a b)
  case 0
  then show ?case by simp
next
  case (Suc w)
  from Suc.prems have hi: "be_bytes w (a div 256) = be_bytes w (b div 256)"
    and lo: "char_of (a mod 256) = (char_of (b mod 256) :: char)"
    by auto
  from lo have lo': "a mod 256 = b mod 256" by (rule char_of_mod_inj)
  have split: "x mod (256 * 256 ^ w) = 256 * (x div 256 mod 256 ^ w) + x mod 256" for x :: int
    by (rule zmod_zmult2_eq) simp
  show ?case using Suc.IH [OF hi] lo' by (simp add: split)
qed

lemma be64_inj_mod: "be64 a = be64 b \<Longrightarrow> a mod 2 ^ 64 = b mod 2 ^ 64"
  using be_bytes_inj [of 8 a b] by (simp add: be64_def)

lemma be64_inj_i64: "be64 a = be64 b \<Longrightarrow> is_i64 a \<Longrightarrow> is_i64 b \<Longrightarrow> a = b"
proof -
  assume eq: "be64 a = be64 b" and a: "is_i64 a" and b: "is_i64 b"
  from be64_inj_mod [OF eq] have "(a + 2 ^ 63) mod 2 ^ 64 = (b + 2 ^ 63) mod 2 ^ 64"
    by (rule mod_add_cong) simp
  then have "i64 a = i64 b" by (simp add: i64_def)
  with a b show "a = b" by (simp add: i64_id)
qed

subsection \<open>Decimal numbers: strconv\<close>

definition digit :: "nat \<Rightarrow> char" where
  "digit n = char_of (48 + n)"

definition digit_val :: "char \<Rightarrow> nat option" where
  "digit_val c = (let n = (of_char c :: nat) in if 48 \<le> n \<and> n \<le> 57 then Some (n - 48) else None)"

lemma digit_val_digit [simp]: "n < 10 \<Longrightarrow> digit_val (digit n) = Some n"
proof -
  assume "n < 10"
  then have "(of_char (digit n) :: nat) = 48 + n" by (simp only: digit_def of_char_of mod_less)
  with \<open>n < 10\<close> show ?thesis by (simp only: digit_val_def Let_def) simp
qed

lemma digit_val_sign: "digit_val (CHR ''-'') = None" "digit_val (CHR ''+'') = None"
  by (simp_all add: digit_val_def)

lemma digit_ne_minus: "n < 10 \<Longrightarrow> digit n \<noteq> CHR ''-''"
  by (rule notI) (use digit_val_digit [of n] digit_val_sign in simp)

lemma digit_ne_plus: "n < 10 \<Longrightarrow> digit n \<noteq> CHR ''+''"
  by (rule notI) (use digit_val_digit [of n] digit_val_sign in simp)

fun dec :: "nat \<Rightarrow> string" where
  "dec n = (if n < 10 then [digit n] else dec (n div 10) @ [digit (n mod 10)])"

declare dec.simps [simp del]

fun dec_val_from :: "nat \<Rightarrow> string \<Rightarrow> nat option" where
  "dec_val_from a [] = Some a"
| "dec_val_from a (c # cs) =
     (case digit_val c of None \<Rightarrow> None | Some d \<Rightarrow> dec_val_from (10 * a + d) cs)"

definition dec_val :: "string \<Rightarrow> nat option" where
  "dec_val s = (if s = [] then None else dec_val_from 0 s)"

lemma dec_nonempty [simp]: "dec n \<noteq> []"
  by (subst dec.simps) simp

lemma dec_val_from_append:
  "dec_val_from a (xs @ ys) = (case dec_val_from a xs of None \<Rightarrow> None | Some b \<Rightarrow> dec_val_from b ys)"
  by (induction xs arbitrary: a) (auto split: option.splits)

lemma dec_val_from_dec: "dec_val_from 0 (dec n) = Some n"
proof (induction n rule: dec.induct)
  case (1 n)
  show ?case
  proof (cases "n < 10")
    case True
    then show ?thesis by (simp add: dec.simps [of n])
  next
    case False
    with "1.IH" show ?thesis
      by (simp add: dec.simps [of n] dec_val_from_append)
  qed
qed

lemma dec_val_dec [simp]: "dec_val (dec n) = Some n"
  by (simp add: dec_val_def dec_val_from_dec)

lemma dec_inj: "dec a = dec b \<Longrightarrow> a = b"
  by (metis dec_val_dec option.inject)

lemma hd_dec: "\<exists>d. d < 10 \<and> hd (dec n) = digit d"
proof (induction n rule: dec.induct)
  case (1 n)
  show ?case
  proof (cases "n < 10")
    case True
    then show ?thesis by (auto simp: dec.simps [of n])
  next
    case False
    with "1.IH" show ?thesis by (auto simp: dec.simps [of n])
  qed
qed

text \<open>\<open>strconv.FormatInt(i, 10)\<close>, and \<open>strconv.ParseInt(s, 10, 64)\<close> read the way the code reads
  it, with the error dropped: a syntax error is 0, a value out of range is the bound it
  passes.\<close>

definition format_int :: "int \<Rightarrow> string" where
  "format_int i = (if i < 0 then CHR ''-'' # dec (nat (- i)) else dec (nat i))"

definition clamp_i64 :: "int \<Rightarrow> int" where
  "clamp_i64 x = (if x < - (2 ^ 63) then - (2 ^ 63) else if 2 ^ 63 \<le> x then 2 ^ 63 - 1 else x)"

definition parse_int :: "string \<Rightarrow> int" where
  "parse_int s =
     (let neg = (s \<noteq> [] \<and> hd s = CHR ''-'');
          body = (if s \<noteq> [] \<and> (hd s = CHR ''-'' \<or> hd s = CHR ''+'') then tl s else s)
      in case dec_val body of
           None \<Rightarrow> 0
         | Some n \<Rightarrow> clamp_i64 (if neg then - int n else int n))"

lemma clamp_i64_id [simp]: "is_i64 x \<Longrightarrow> clamp_i64 x = x"
  by (auto simp: clamp_i64_def is_i64_def)

lemma is_i64_clamp [simp]: "is_i64 (clamp_i64 x)"
  by (auto simp: clamp_i64_def is_i64_def)

lemma is_i64_parse_int [simp]: "is_i64 (parse_int s)"
  by (auto simp: parse_int_def Let_def is_i64_small split: option.splits)

lemma parse_format_int [simp]: "is_i64 i \<Longrightarrow> parse_int (format_int i) = i"
proof -
  assume i: "is_i64 i"
  obtain d where d: "d < 10" "hd (dec (nat i)) = digit d" using hd_dec by blast
  then have hd: "hd (dec (nat i)) \<noteq> CHR ''-''" "hd (dec (nat i)) \<noteq> CHR ''+''"
    using digit_ne_minus digit_ne_plus by auto
  show ?thesis using i hd
    by (cases "i < 0") (simp_all add: parse_int_def format_int_def Let_def)
qed

text \<open>Zero padding to a width, as the fields of a formatted time are written.\<close>

definition pad0 :: "nat \<Rightarrow> string \<Rightarrow> string" where
  "pad0 w s = replicate (w - length s) (CHR ''0'') @ s"

lemma dec_val_from_zeros: "dec_val_from 0 (replicate k (CHR ''0'') @ s) = dec_val_from 0 s"
proof (induction k)
  case 0
  then show ?case by simp
next
  case (Suc k)
  have "digit_val (CHR ''0'') = Some 0" by (simp add: digit_val_def)
  with Suc show ?case by simp
qed

lemma pad0_dec_inj: "pad0 w (dec a) = pad0 w (dec b) \<Longrightarrow> a = b"
proof -
  assume "pad0 w (dec a) = pad0 w (dec b)"
  then have "dec_val_from 0 (pad0 w (dec a)) = dec_val_from 0 (pad0 w (dec b))" by simp
  then show "a = b" by (simp add: pad0_def dec_val_from_zeros dec_val_from_dec)
qed

lemma length_dec_le: "n < 10 ^ k \<Longrightarrow> 0 < k \<Longrightarrow> length (dec n) \<le> k"
proof (induction k arbitrary: n)
  case 0
  then show ?case by simp
next
  case (Suc k)
  show ?case
  proof (cases "n < 10")
    case True
    then show ?thesis by (simp add: dec.simps [of n])
  next
    case False
    with Suc.prems have "0 < k" by (cases k) auto
    moreover from Suc.prems have "n div 10 < 10 ^ k" by (simp add: less_mult_imp_div_less)
    ultimately have "length (dec (n div 10)) \<le> k" by (intro Suc.IH)
    with False show ?thesis by (simp add: dec.simps [of n])
  qed
qed

lemma length_pad0_dec: "n < 10 ^ k \<Longrightarrow> 0 < k \<Longrightarrow> length (pad0 k (dec n)) = k"
  using length_dec_le [of n k] by (simp add: pad0_def)

subsection \<open>Package strings\<close>

text \<open>
  Case folding: \<open>strings.EqualFold\<close> compares under Unicode simple folding. On ASCII letters
  that is lower-casing; two further code points fold to an ASCII letter and are written out
  (the Kelvin sign, bytes E2 84 AA, folds to \<open>k\<close>, and the long s, bytes C5 BF, to \<open>s\<close>). Every
  other byte stands for itself, so two spellings of a non-ASCII letter that differ in case
  only are told apart here.
\<close>

definition lower_char :: "char \<Rightarrow> char" where
  "lower_char c = (let n = (of_char c :: nat) in if 65 \<le> n \<and> n \<le> 90 then char_of (n + 32) else c)"

text \<open>
  \<open>strings.ToLower\<close>: ASCII letters, and the two code points whose lower case is an ASCII letter
  (the Kelvin sign, and the dotted capital I, bytes C4 B0). The case of other letters is kept.
\<close>

fun to_lower :: "string \<Rightarrow> string" where
  "to_lower [] = []"
| "to_lower (a # s) =
     (if a = CHR 0xE2 \<and> take 2 s = [CHR 0x84, CHR 0xAA] then CHR ''k'' # to_lower (drop 2 s)
      else if a = CHR 0xC4 \<and> take 1 s = [CHR 0xB0] then CHR ''i'' # to_lower (drop 1 s)
      else lower_char a # to_lower s)"

fun case_fold :: "string \<Rightarrow> string" where
  "case_fold [] = []"
| "case_fold (a # s) =
     (if a = CHR 0xE2 \<and> take 2 s = [CHR 0x84, CHR 0xAA] then CHR ''k'' # case_fold (drop 2 s)
      else if a = CHR 0xC5 \<and> take 1 s = [CHR 0xBF] then CHR ''s'' # case_fold (drop 1 s)
      else lower_char a # case_fold s)"

definition equal_fold :: "string \<Rightarrow> string \<Rightarrow> bool" where
  "equal_fold s t \<longleftrightarrow> case_fold s = case_fold t"

lemma equal_fold_refl [simp]: "equal_fold s s"
  by (simp add: equal_fold_def)

lemma equal_fold_sym: "equal_fold s t \<Longrightarrow> equal_fold t s"
  by (simp add: equal_fold_def)

lemma equal_fold_trans: "equal_fold s t \<Longrightarrow> equal_fold t u \<Longrightarrow> equal_fold s u"
  by (simp add: equal_fold_def)

text \<open>A lower-case hexadecimal string folds to itself, so folding hashes loses nothing.\<close>

definition is_hex_char :: "char \<Rightarrow> bool" where
  "is_hex_char c \<longleftrightarrow> c \<in> set ''0123456789abcdef''"

lemma is_hex_char_lower: "is_hex_char c \<Longrightarrow> lower_char c = c \<and> c \<noteq> CHR 0xE2 \<and> c \<noteq> CHR 0xC5"
  by (auto simp: is_hex_char_def lower_char_def)

lemma case_fold_plain:
  "CHR 0xE2 \<notin> set s \<Longrightarrow> CHR 0xC5 \<notin> set s \<Longrightarrow> case_fold s = map lower_char s"
  by (induction s) auto

lemma case_fold_hex: "list_all is_hex_char s \<Longrightarrow> case_fold s = s"
proof -
  assume hex: "list_all is_hex_char s"
  then have "CHR 0xE2 \<notin> set s" "CHR 0xC5 \<notin> set s"
    using is_hex_char_lower by (auto simp: list_all_iff)
  then have "case_fold s = map lower_char s" by (rule case_fold_plain)
  also have "\<dots> = s"
    using hex is_hex_char_lower by (auto simp: list_all_iff intro!: map_idI)
  finally show ?thesis .
qed

lemma equal_fold_hex:
  "list_all is_hex_char s \<Longrightarrow> list_all is_hex_char t \<Longrightarrow> equal_fold s t \<longleftrightarrow> s = t"
  by (simp add: equal_fold_def case_fold_hex)

definition is_space :: "char \<Rightarrow> bool" where
  "is_space c \<longleftrightarrow> c \<in> {CHR '' '', CHR 0x09, CHR 0x0A, CHR 0x0B, CHR 0x0C, CHR 0x0D}"

text \<open>
  Unicode white space, by the number of bytes of a white-space rune that a string starts with
  (0 where it starts with something else): the six ASCII ones, U+0085, U+00A0, U+1680, U+2000 to
  U+200A, U+2028, U+2029, U+202F, U+205F and U+3000. No byte of an encoded rune but the first can
  start one of these encodings, so scanning bytes and scanning runes agree.
\<close>

definition wide_space :: "char \<Rightarrow> char \<Rightarrow> char \<Rightarrow> bool" where
  "wide_space a b c \<longleftrightarrow>
     a = CHR 0xE1 \<and> b = CHR 0x9A \<and> c = CHR 0x80
     \<or> a = CHR 0xE2 \<and> b = CHR 0x80
       \<and> (of_char c \<in> {0x80..0x8A :: nat} \<or> c \<in> {CHR 0xA8, CHR 0xA9, CHR 0xAF})
     \<or> a = CHR 0xE2 \<and> b = CHR 0x81 \<and> c = CHR 0x9F
     \<or> a = CHR 0xE3 \<and> b = CHR 0x80 \<and> c = CHR 0x80"

fun white :: "string \<Rightarrow> nat" where
  "white [] = 0"
| "white (a # s) =
     (if is_space a then 1
      else if a = CHR 0xC2 then (case s of b # _ \<Rightarrow> if b \<in> {CHR 0x85, CHR 0xA0} then 2 else 0 | [] \<Rightarrow> 0)
      else if a \<in> {CHR 0xE1, CHR 0xE2, CHR 0xE3}
        then (case s of b # c # _ \<Rightarrow> if wide_space a b c then 3 else 0 | _ \<Rightarrow> 0)
      else 0)"

text \<open>The same at the end of a string, read backwards.\<close>

definition white_end :: "string \<Rightarrow> nat" where
  "white_end r =
     (if white (take 1 r) = 1 then 1
      else if white (rev (take 2 r)) = 2 then 2
      else if white (rev (take 3 r)) = 3 then 3 else 0)"

function trim_left :: "string \<Rightarrow> string" where
  "trim_left s = (if white s = 0 \<or> s = [] then s else trim_left (drop (white s) s))"
  by pat_completeness auto

termination trim_left
  by (relation "measure length") auto

function trim_right_rev :: "string \<Rightarrow> string" where
  "trim_right_rev r = (if white_end r = 0 \<or> r = [] then r else trim_right_rev (drop (white_end r) r))"
  by pat_completeness auto

termination trim_right_rev
  by (relation "measure length") auto

declare trim_left.simps [simp del] trim_right_rev.simps [simp del]

definition trim_space :: "string \<Rightarrow> string" where
  "trim_space s = rev (trim_right_rev (rev (trim_left s)))"

text \<open>Lower-case ASCII text without white space is left alone by both.\<close>

definition plain_char :: "char \<Rightarrow> bool" where
  "plain_char c \<longleftrightarrow> \<not> is_space c \<and> (of_char c :: nat) < 0x80 \<and> lower_char c = c"

lemma white_plain [simp]: "plain_char c \<Longrightarrow> white (c # s) = 0"
  by (auto simp: plain_char_def split: list.splits)

lemma white_plain_all: "list_all plain_char s \<Longrightarrow> white s = 0"
proof (cases s)
  case (Cons c cs)
  then show "list_all plain_char s \<Longrightarrow> white s = 0" by (simp del: white.simps)
qed simp

lemma white_end_plain:
  assumes "list_all plain_char r"
  shows "white_end r = 0"
proof -
  have "white (rev (take n r)) = 0" "white (take n r) = 0" for n
    using assms set_take_subset [of n r] by (auto simp: list_all_iff subset_iff intro!: white_plain_all)
  then show ?thesis by (simp add: white_end_def)
qed

lemma to_lower_plain: "list_all plain_char s \<Longrightarrow> to_lower s = s"
  by (induction s) (auto simp: plain_char_def)

lemma trim_space_id: "white s = 0 \<Longrightarrow> white_end (rev s) = 0 \<Longrightarrow> trim_space s = s"
  by (simp add: trim_space_def trim_left.simps trim_right_rev.simps)

lemma trim_space_plain: "list_all plain_char s \<Longrightarrow> trim_space s = s"
  by (rule trim_space_id) (simp_all add: white_plain_all white_end_plain list_all_iff)

definition contains_byte :: "char \<Rightarrow> string \<Rightarrow> bool" where
  "contains_byte c s \<longleftrightarrow> c \<in> set s"

definition has_prefix :: "string \<Rightarrow> string \<Rightarrow> bool" where
  "has_prefix s p \<longleftrightarrow> take (length p) s = p"

definition has_suffix :: "string \<Rightarrow> string \<Rightarrow> bool" where
  "has_suffix s t \<longleftrightarrow> has_prefix (rev s) (rev t)"

text \<open>\<open>strings.CutPrefix\<close> and \<open>strings.CutSuffix\<close>: the rest, or None when the affix is absent.\<close>

definition cut_prefix :: "string \<Rightarrow> string \<Rightarrow> string option" where
  "cut_prefix s p = (if has_prefix s p then Some (drop (length p) s) else None)"

definition cut_suffix :: "string \<Rightarrow> string \<Rightarrow> string option" where
  "cut_suffix s p = map_option rev (cut_prefix (rev s) (rev p))"

text \<open>\<open>strings.Cut\<close> at the first separator byte, and the same at the last one.\<close>

definition cut_first :: "char \<Rightarrow> string \<Rightarrow> (string \<times> string) option" where
  "cut_first c s =
     (if c \<in> set s then Some (takeWhile (\<lambda>x. x \<noteq> c) s, tl (dropWhile (\<lambda>x. x \<noteq> c) s)) else None)"

definition cut_last :: "char \<Rightarrow> string \<Rightarrow> (string \<times> string) option" where
  "cut_last c s = map_option (\<lambda>(a, b). (rev b, rev a)) (cut_first c (rev s))"

text \<open>\<open>strings.Split\<close> on one byte, and \<open>strings.Fields\<close>.\<close>

fun split_on :: "char \<Rightarrow> string \<Rightarrow> string list" where
  "split_on c [] = [[]]"
| "split_on c (x # xs) =
     (if x = c then [] # split_on c xs
      else (case split_on c xs of [] \<Rightarrow> [[x]] | w # ws \<Rightarrow> (x # w) # ws))"

function fields_from :: "string \<Rightarrow> string \<Rightarrow> string list" where
  "fields_from w [] = (if w = [] then [] else [rev w])"
| "fields_from w (c # cs) =
     (case white (c # cs) of
        0 \<Rightarrow> fields_from (c # w) cs
      | Suc n \<Rightarrow> if w = [] then fields_from [] (drop n cs) else rev w # fields_from [] (drop n cs))"
  by pat_completeness auto

termination fields_from
  by (relation "measure (\<lambda>(w, s). length s)") auto

definition split_fields :: "string \<Rightarrow> string list" where
  "split_fields s = fields_from [] s"

text \<open>Characters beyond ASCII in the messages of the code, in UTF-8.\<close>

definition em_dash :: string where
  "em_dash = [CHR 0xE2, CHR 0x80, CHR 0x94]"

definition ellipsis :: string where
  "ellipsis = [CHR 0xE2, CHR 0x80, CHR 0xA6]"

definition join :: "string \<Rightarrow> string list \<Rightarrow> string" where
  "join sep ws = concat (case ws of [] \<Rightarrow> [] | w # r \<Rightarrow> w # map (\<lambda>x. sep @ x) r)"

lemma has_prefix_append [simp]: "has_prefix (p @ s) p"
  by (simp add: has_prefix_def)

lemma has_prefix_iff: "has_prefix s p \<longleftrightarrow> (\<exists>r. s = p @ r)"
  by (metis append_take_drop_id has_prefix_append has_prefix_def)

lemma cut_prefix_Some: "cut_prefix s p = Some r \<longleftrightarrow> s = p @ r"
  by (auto simp: cut_prefix_def has_prefix_iff)

lemma cut_suffix_Some: "cut_suffix s p = Some r \<longleftrightarrow> s = r @ p"
proof -
  have "cut_suffix s p = Some r \<longleftrightarrow> cut_prefix (rev s) (rev p) = Some (rev r)"
    by (auto simp: cut_suffix_def)
  also have "\<dots> \<longleftrightarrow> s = r @ p"
    by (metis cut_prefix_Some rev_append rev_rev_ident)
  finally show ?thesis .
qed

lemma takeWhile_ne_append: "c \<notin> set a \<Longrightarrow> takeWhile (\<lambda>x. x \<noteq> c) (a @ c # b) = a"
  by (induction a) auto

lemma dropWhile_ne_append: "c \<notin> set a \<Longrightarrow> dropWhile (\<lambda>x. x \<noteq> c) (a @ c # b) = c # b"
  by (induction a) auto

lemma cut_first_Some:
  "cut_first c s = Some (a, b) \<longleftrightarrow> s = a @ c # b \<and> c \<notin> set a"
proof
  assume cut: "cut_first c s = Some (a, b)"
  then have "c \<in> set s" by (simp add: cut_first_def split: if_splits)
  then obtain us vs where s: "s = us @ c # vs" and us: "c \<notin> set us"
    by (auto dest: split_list_first)
  from cut s us show "s = a @ c # b \<and> c \<notin> set a"
    by (simp add: cut_first_def takeWhile_ne_append dropWhile_ne_append)
next
  assume "s = a @ c # b \<and> c \<notin> set a"
  then show "cut_first c s = Some (a, b)"
    by (simp add: cut_first_def takeWhile_ne_append dropWhile_ne_append)
qed

lemma cut_last_Some:
  "cut_last c s = Some (a, b) \<longleftrightarrow> s = a @ c # b \<and> c \<notin> set b"
proof -
  have "cut_last c s = Some (a, b) \<longleftrightarrow> cut_first c (rev s) = Some (rev b, rev a)"
    by (auto simp: cut_last_def)
  also have "\<dots> \<longleftrightarrow> rev s = rev b @ c # rev a \<and> c \<notin> set b"
    by (simp add: cut_first_Some)
  also have "\<dots> \<longleftrightarrow> s = a @ c # b \<and> c \<notin> set b"
    by (metis append.assoc append_Cons append_Nil rev.simps(2) rev_append rev_rev_ident)
  finally show ?thesis .
qed

lemma split_on_none: "c \<notin> set s \<Longrightarrow> split_on c s = [s]"
  by (induction s) auto

lemma split_on_append: "c \<notin> set s \<Longrightarrow> split_on c (s @ c # t) = s # split_on c t"
  by (induction s) auto

end
