(* ===== verification/GoTime.thy ===== *)
theory GoTime
  imports Prelude
begin

section \<open>Package time\<close>

text \<open>
  A \<open>time.Time\<close> is its wall-clock instant: the number of nanoseconds since the Unix epoch, an
  \<open>int\<close>. Go's zero time (year 1) is \<open>zero_time\<close>, so \<open>IsZero\<close>, \<open>Before\<close>, \<open>After\<close>, \<open>Add\<close> and \<open>Sub\<close>
  are comparison and arithmetic on \<open>int\<close>; the monotonic reading a \<open>Time\<close> may carry is dropped
  by \<open>UTC\<close>, which every modelled use applies or does not depend on. The calendar is the
  proleptic Gregorian one, computed per 400-year era; \<open>format_ms\<close> is
  \<open>Format("2006-01-02T15:04:05.000Z")\<close>.
\<close>

type_synonym time = int

definition zero_time :: time where
  "zero_time = - 62135596800000000000"

definition is_zero :: "time \<Rightarrow> bool" where
  "is_zero t \<longleftrightarrow> t = zero_time"

definition second :: int where "second = 1000000000"

definition day :: int where "day = 86400000000000"

text \<open>\<open>Truncate(time.Millisecond)\<close>: down to a multiple of a millisecond since the zero time.\<close>

definition truncate_ms :: "time \<Rightarrow> time" where
  "truncate_ms t = t - (t - zero_time) mod 1000000"

lemma div_bounds:
  fixes x k n :: int
  assumes "0 \<le> x" "x < n * k" "0 < n"
  shows "0 \<le> x div n" "x div n < k"
proof -
  show "0 \<le> x div n" using assms by (simp add: pos_imp_zdiv_nonneg_iff)
  have "n * (x div n) \<le> x" using mult_div_mod_eq [of n x] pos_mod_sign [OF \<open>0 < n\<close>, of x] by linarith
  then have "n * (x div n) < n * k" using assms(2) by linarith
  then show "x div n < k" using assms(3) by simp
qed

lemma zero_time_mod: "(t - zero_time) mod 1000000 = t mod 1000000"
proof -
  have "t - zero_time = t + 1000000 * 62135596800000" by (simp add: zero_time_def)
  then show ?thesis by (simp only: mod_mult_self2)
qed

lemma truncate_ms_eq: "truncate_ms t = 1000000 * (t div 1000000)"
  unfolding truncate_ms_def zero_time_mod by (rule minus_mod_eq_mult_div)

lemma truncate_ms_dvd: "truncate_ms t mod 1000000 = 0"
  by (simp add: truncate_ms_eq)

lemma truncate_ms_id: "t mod 1000000 = 0 \<Longrightarrow> truncate_ms t = t"
  by (simp add: truncate_ms_def zero_time_mod)

lemma truncate_ms_idem [simp]: "truncate_ms (truncate_ms t) = truncate_ms t"
  by (rule truncate_ms_id) (rule truncate_ms_dvd)

subsection \<open>The calendar\<close>

text \<open>
  Days since 0001-01-01 to year, month and day, as package time computes it: 400-year cycles,
  then centuries, 4-year cycles and years, where the last century of a cycle and the last year
  of a 4-year cycle are one day longer than the quotient allows for.
\<close>

definition is_leap :: "int \<Rightarrow> bool" where
  "is_leap y \<longleftrightarrow> y mod 4 = 0 \<and> (y mod 100 \<noteq> 0 \<or> y mod 400 = 0)"

definition year_yday :: "int \<Rightarrow> int \<times> int" where
  "year_yday d0 =
     (let y400 = d0 div 146097; d1 = d0 mod 146097;
          c = d1 div 36524; n100 = c - c div 4; d2 = d1 - 36524 * n100;
          n4 = d2 div 1461; d3 = d2 mod 1461;
          q = d3 div 365; n1 = q - q div 4;
          yday = d3 - 365 * n1
      in (400 * y400 + 100 * n100 + 4 * n4 + n1 + 1, yday))"

fun walk_months :: "int list \<Rightarrow> int \<Rightarrow> int \<Rightarrow> int \<times> int" where
  "walk_months [] m d = (m, d + 1)"
| "walk_months (l # ls) m d = (if d < l then (m, d + 1) else walk_months ls (m + 1) (d - l))"

definition month_lengths :: "int \<Rightarrow> int list" where
  "month_lengths y = [31, if is_leap y then 29 else 28, 31, 30, 31, 30, 31, 31, 30, 31, 30, 31]"

definition civil :: "int \<Rightarrow> int \<times> int \<times> int" where
  "civil d0 = (let (y, yday) = year_yday d0; (m, d) = walk_months (month_lengths y) 1 yday in (y, m, d))"

lemma civil_examples:
  "civil 0 = (1, 1, 1)" "civil 719162 = (1970, 1, 1)" "civil 730178 = (2000, 2, 29)"
  "civil 739981 = (2027, 1, 1)" "civil 730484 = (2000, 12, 31)"
  by (simp_all add: civil_def year_yday_def month_lengths_def is_leap_def)

text \<open>The quotients are digits of a mixed-radix number, so the year and the day of the year
  determine the day.\<close>

lemma quarter_digit:
  fixes d n :: int
  assumes "0 \<le> d" "d \<le> 4 * n" "0 < n"
  defines "q \<equiv> d div n"
  shows "0 \<le> q - q div 4" "q - q div 4 \<le> 3" "0 \<le> d - n * (q - q div 4)"
proof -
  have q0: "0 \<le> q" using assms by (simp add: q_def pos_imp_zdiv_nonneg_iff)
  have "q \<le> (4 * n) div n" unfolding q_def using assms by (intro zdiv_mono1) auto
  then have q4: "q \<le> 4" using \<open>0 < n\<close> by simp
  have nq: "n * q \<le> d" unfolding q_def using mult_div_mod_eq [of n d] pos_mod_sign [OF \<open>0 < n\<close>, of d] by linarith
  show "0 \<le> q - q div 4" using q0 by presburger
  show "q - q div 4 \<le> 3" using q0 q4 by presburger
  have "q - q div 4 \<le> q" using q0 by presburger
  then have "n * (q - q div 4) \<le> n * q" using \<open>0 < n\<close> by (intro mult_left_mono) auto
  with nq show "0 \<le> d - n * (q - q div 4)" by linarith
qed

lemma year_yday_digits:
  obtains y400 n100 n4 n1 yday where
    "year_yday d0 = (400 * y400 + 100 * n100 + 4 * n4 + n1 + 1, yday)"
    "d0 = 146097 * y400 + 36524 * n100 + 1461 * n4 + 365 * n1 + yday"
    "0 \<le> n100" "n100 \<le> 3" "0 \<le> n4" "n4 \<le> 24" "0 \<le> n1" "n1 \<le> 3" "0 \<le> yday" "yday \<le> 365"
proof -
  define y400 where "y400 = d0 div 146097"
  define d1 where "d1 = d0 mod 146097"
  define c where "c = d1 div 36524"
  define n100 where "n100 = c - c div 4"
  define d2 where "d2 = d1 - 36524 * n100"
  define n4 where "n4 = d2 div 1461"
  define d3 where "d3 = d2 mod 1461"
  define q where "q = d3 div 365"
  define n1 where "n1 = q - q div 4"
  define yday where "yday = d3 - 365 * n1"
  have d1: "0 \<le> d1" "d1 \<le> 4 * 36524" unfolding d1_def using pos_mod_bound [of 146097 d0] by simp_all
  have d1_lt: "d1 < 146097" unfolding d1_def by simp
  note n100 = quarter_digit [OF d1, folded c_def, folded n100_def, folded d2_def, simplified]
  have c: "36524 * c \<le> d1" "d1 < 36524 * c + 36524"
    unfolding c_def using div_mult_mod_eq [of d1 36524] pos_mod_bound [of 36524 d1] pos_mod_sign [of 36524 d1]
    by linarith+
  have c4: "0 \<le> c" "c \<le> 4" using c d1 by linarith+
  then have "c = n100 \<or> (c = 4 \<and> n100 = 3)" unfolding n100_def by presburger
  with c d1_lt have d2: "0 \<le> d2" "d2 \<le> 36524" unfolding d2_def by linarith+
  have n4: "0 \<le> n4" "n4 \<le> 24" using div_bounds [of d2 1461 25] d2 unfolding n4_def by simp_all
  have d3: "0 \<le> d3" "d3 \<le> 4 * 365" unfolding d3_def using pos_mod_bound [of 1461 d2] by simp_all
  note n1 = quarter_digit [OF d3, folded q_def, folded n1_def, folded yday_def, simplified]
  have q: "365 * q \<le> d3" "d3 < 365 * q + 365"
    unfolding q_def using div_mult_mod_eq [of d3 365] pos_mod_bound [of 365 d3] pos_mod_sign [of 365 d3]
    by linarith+
  have q4: "0 \<le> q" "q \<le> 4" using q d3 by linarith+
  then have "q = n1 \<or> (q = 4 \<and> n1 = 3)" unfolding n1_def by presburger
  with q d3 have yday: "0 \<le> yday" "yday \<le> 365" unfolding yday_def by linarith+
  have "year_yday d0 = (400 * y400 + 100 * n100 + 4 * n4 + n1 + 1, yday)"
    unfolding year_yday_def Let_def y400_def n100_def c_def d1_def n4_def d2_def n1_def q_def d3_def yday_def
    by (rule refl)
  moreover have "d0 = 146097 * y400 + d1" unfolding y400_def d1_def by simp
  moreover have "d2 = 1461 * n4 + d3" unfolding n4_def d3_def by simp
  ultimately have "d0 = 146097 * y400 + 36524 * n100 + 1461 * n4 + 365 * n1 + yday"
    using d2_def yday_def by linarith
  then show ?thesis
    by (rule that [OF \<open>year_yday d0 = _\<close> _ n100(1,2) n4 n1(1,2) yday])
qed

lemma year_yday_inj: "year_yday a = year_yday b \<Longrightarrow> a = b"
proof -
  assume eq: "year_yday a = year_yday b"
  obtain y400 n100 n4 n1 yday where a: "year_yday a = (400 * y400 + 100 * n100 + 4 * n4 + n1 + 1, yday)"
    "a = 146097 * y400 + 36524 * n100 + 1461 * n4 + 365 * n1 + yday"
    "0 \<le> n100" "n100 \<le> 3" "0 \<le> n4" "n4 \<le> 24" "0 \<le> n1" "n1 \<le> 3"
    using year_yday_digits [of a] by metis
  obtain y400' n100' n4' n1' yday' where b: "year_yday b = (400 * y400' + 100 * n100' + 4 * n4' + n1' + 1, yday')"
    "b = 146097 * y400' + 36524 * n100' + 1461 * n4' + 365 * n1' + yday'"
    "0 \<le> n100'" "n100' \<le> 3" "0 \<le> n4'" "n4' \<le> 24" "0 \<le> n1'" "n1' \<le> 3"
    using year_yday_digits [of b] by metis
  from eq a(1) b(1) have y: "400 * y400 + 100 * n100 + 4 * n4 + n1 = 400 * y400' + 100 * n100' + 4 * n4' + n1'"
    and d: "yday = yday'" by auto
  from y a b have "y400 = y400'" by linarith
  moreover from this y a b have "n100 = n100'" by linarith
  moreover from calculation y a b have "n4 = n4'" by linarith
  ultimately show "a = b" using y d a(2) b(2) by linarith
qed

lemma walk_months_ge: "m \<le> fst (walk_months ls m d)"
proof (induction ls arbitrary: m d)
  case (Cons l ls)
  have "m + 1 \<le> fst (walk_months ls (m + 1) (d - l))" by (rule Cons.IH)
  then show ?case by simp
qed simp

lemma walk_months_inj: "walk_months ls m d = walk_months ls m d' \<Longrightarrow> d = d'"
proof (induction ls arbitrary: m d d')
  case (Cons l ls)
  have ge: "fst (walk_months ls (m + 1) e) \<noteq> m" for e
    using walk_months_ge [of "m + 1" ls e] by linarith
  show ?case
    using Cons.prems Cons.IH [of "m + 1" "d - l" "d' - l"] ge [of "d - l"] ge [of "d' - l"]
    by (auto split: if_splits) (metis fst_conv)+
qed simp

lemma walk_months_bounds:
  assumes "0 \<le> d" "d < sum_list ls" "\<forall>l \<in> set ls. 0 \<le> l \<and> l \<le> 31"
  shows "fst (walk_months ls m d) \<le> m + int (length ls)"
    and "1 \<le> snd (walk_months ls m d)" and "snd (walk_months ls m d) \<le> 31"
  using assms
proof (induction ls arbitrary: m d)
  case (Cons l ls)
  case 1 show ?case using Cons.IH(1) [of "d - l" "m + 1"] 1 by auto
  case 2 show ?case using Cons.IH(2) [of "d - l" "m + 1"] 2 by auto
  case 3 show ?case using Cons.IH(3) [of "d - l" "m + 1"] 3 by auto
qed simp_all

lemma civil_inj: "civil a = civil b \<Longrightarrow> a = b"
  by (auto simp: civil_def split: prod.splits dest: walk_months_inj intro!: year_yday_inj)

lemma civil_bounds:
  assumes "civil d0 = (y, m, d)"
  shows "1 \<le> m" "m \<le> 13" "1 \<le> d" "d \<le> 31"
proof -
  obtain yday where yd: "year_yday d0 = (y, yday)" and w: "walk_months (month_lengths y) 1 yday = (m, d)"
    using assms by (auto simp: civil_def split: prod.splits)
  show "1 \<le> m" using walk_months_ge [of 1 "month_lengths y" yday] w by simp
  obtain y400 n100 n4 n1 yday' where dig: "year_yday d0 = (400 * y400 + 100 * n100 + 4 * n4 + n1 + 1, yday')"
    "d0 = 146097 * y400 + 36524 * n100 + 1461 * n4 + 365 * n1 + yday'"
    "0 \<le> yday'" "yday' \<le> 365"
    using year_yday_digits [of d0] by metis
  with yd have b: "0 \<le> yday" "yday \<le> 365" by auto
  show "m \<le> 13" "1 \<le> d" "d \<le> 31"
    using w b by (auto simp: month_lengths_def split: if_splits)
qed

subsection \<open>The hashed and stored form of a timestamp\<close>

definition unix_days :: int where "unix_days = 719162"

definition pad_int :: "nat \<Rightarrow> int \<Rightarrow> string" where
  "pad_int w i = (if i < 0 then CHR ''-'' # pad0 w (dec (nat (- i))) else pad0 w (dec (nat i)))"

definition year_of :: "time \<Rightarrow> int" where
  "year_of t = fst (civil (t div day + unix_days))"

definition stamp :: "int \<times> int \<times> int \<Rightarrow> int \<Rightarrow> int \<Rightarrow> int \<Rightarrow> int \<Rightarrow> string" where
  "stamp ymd h mi s ms = (case ymd of (y, m, d) \<Rightarrow>
     pad_int 4 y @ ''-'' @ pad_int 2 m @ ''-'' @ pad_int 2 d @ ''T''
     @ pad_int 2 h @ '':'' @ pad_int 2 mi @ '':'' @ pad_int 2 s @ ''.'' @ pad_int 3 ms @ ''Z'')"

definition format_ms :: "time \<Rightarrow> string" where
  "format_ms t =
     (let ms = t mod day div 1000000
      in stamp (civil (t div day + unix_days)) (ms div 3600000) (ms div 60000 mod 60)
           (ms div 1000 mod 60) (ms mod 1000))"

text \<open>\<open>time.RFC3339\<close> of an instant in UTC.\<close>

definition format_rfc3339 :: "time \<Rightarrow> string" where
  "format_rfc3339 t =
     (let s = t mod day div second
      in case civil (t div day + unix_days) of (y, m, d) \<Rightarrow>
           pad_int 4 y @ ''-'' @ pad_int 2 m @ ''-'' @ pad_int 2 d @ ''T''
           @ pad_int 2 (s div 3600) @ '':'' @ pad_int 2 (s div 60 mod 60) @ '':'' @ pad_int 2 (s mod 60) @ ''Z'')"

lemma pad_int_length: "0 \<le> i \<Longrightarrow> i < 10 ^ w \<Longrightarrow> 0 < w \<Longrightarrow> length (pad_int w i) = w"
  by (simp add: pad_int_def length_pad0_dec nat_less_iff)

lemma pad_int_inj: "pad_int w i = pad_int w j \<Longrightarrow> 0 \<le> i \<Longrightarrow> 0 \<le> j \<Longrightarrow> i = j"
  by (auto simp: pad_int_def dest!: pad0_dec_inj)

lemma pad_int_len2: "0 \<le> i \<Longrightarrow> i < 100 \<Longrightarrow> length (pad_int 2 i) = 2"
  and pad_int_len3: "0 \<le> i \<Longrightarrow> i < 1000 \<Longrightarrow> length (pad_int 3 i) = 3"
  and pad_int_len4: "0 \<le> i \<Longrightarrow> i < 10000 \<Longrightarrow> length (pad_int 4 i) = 4"
  by (simp_all add: pad_int_length)

text \<open>The fields of a stamp, each in the range its width holds.\<close>

definition stamp_ok :: "int \<times> int \<times> int \<Rightarrow> int \<Rightarrow> int \<Rightarrow> int \<Rightarrow> int \<Rightarrow> bool" where
  "stamp_ok ymd h mi s ms \<longleftrightarrow> (case ymd of (y, m, d) \<Rightarrow>
     0 \<le> y \<and> y < 10000 \<and> 0 \<le> m \<and> m < 100 \<and> 0 \<le> d \<and> d < 100
     \<and> 0 \<le> h \<and> h < 100 \<and> 0 \<le> mi \<and> mi < 100 \<and> 0 \<le> s \<and> s < 100 \<and> 0 \<le> ms \<and> ms < 1000)"

lemma stamp_length: "stamp_ok ymd h mi s ms \<Longrightarrow> length (stamp ymd h mi s ms) = 24"
  by (auto simp: stamp_ok_def stamp_def pad_int_len2 pad_int_len3 pad_int_len4)

lemma stamp_inj:
  assumes "stamp ymd h mi s ms = stamp ymd' h' mi' s' ms'"
    and ok: "stamp_ok ymd h mi s ms" "stamp_ok ymd' h' mi' s' ms'"
  shows "ymd = ymd' \<and> h = h' \<and> mi = mi' \<and> s = s' \<and> ms = ms'"
proof -
  obtain y m d where [simp]: "ymd = (y, m, d)" by (cases ymd)
  obtain y' m' d' where [simp]: "ymd' = (y', m', d')" by (cases ymd')
  have len: "length (pad_int 4 y) = length (pad_int 4 y')" "length (pad_int 2 m) = length (pad_int 2 m')"
    "length (pad_int 2 d) = length (pad_int 2 d')" "length (pad_int 2 h) = length (pad_int 2 h')"
    "length (pad_int 2 mi) = length (pad_int 2 mi')" "length (pad_int 2 s) = length (pad_int 2 s')"
    using ok by (simp_all add: stamp_ok_def pad_int_len2 pad_int_len4)
  have "pad_int 4 y = pad_int 4 y'" "pad_int 2 m = pad_int 2 m'" "pad_int 2 d = pad_int 2 d'"
    "pad_int 2 h = pad_int 2 h'" "pad_int 2 mi = pad_int 2 mi'" "pad_int 2 s = pad_int 2 s'"
    "pad_int 3 ms = pad_int 3 ms'"
    using assms(1) by (simp_all add: stamp_def len)
  then show ?thesis using ok by (auto simp: stamp_ok_def dest!: pad_int_inj)
qed

definition clock_of :: "time \<Rightarrow> int" where
  "clock_of t = t mod day div 1000000"

lemma clock_bounds: "0 \<le> clock_of t" "clock_of t < 86400000"
proof -
  define r where "r = t mod day"
  have r: "0 \<le> r" "r < 86400000000000" by (simp_all add: r_def day_def)
  show "0 \<le> clock_of t" "clock_of t < 86400000"
    using div_bounds [of r 1000000 86400000] r unfolding clock_of_def r_def [symmetric] by simp_all
qed

lemma ms_digits:
  fixes a b :: int
  assumes "a div 3600000 = b div 3600000" "a div 60000 mod 60 = b div 60000 mod 60"
    "a div 1000 mod 60 = b div 1000 mod 60" "a mod 1000 = b mod 1000"
  shows "a = b"
proof -
  have m: "a div 60000 = a div 1000 div 60" "b div 60000 = b div 1000 div 60"
    "a div 3600000 = a div 60000 div 60" "b div 3600000 = b div 60000 div 60"
    by (simp_all add: zdiv_zmult2_eq [symmetric])
  have digits: "u = v" if "u div k = v div k" "u mod k = v mod k" for u v k :: int
    using that by (metis mult_div_mod_eq)
  have "a div 60000 div 60 = b div 60000 div 60" using assms(1) by (simp only: m)
  then have minutes: "a div 60000 = b div 60000" using assms(2) by (rule digits)
  then have "a div 1000 div 60 = b div 1000 div 60" by (simp only: m)
  then have "a div 1000 = b div 1000" using assms(3) by (rule digits)
  then show ?thesis using assms(4) by (rule digits)
qed

lemma stamp_ok_format:
  assumes "0 \<le> year_of t" "year_of t < 10000"
  shows "stamp_ok (civil (t div day + unix_days)) (clock_of t div 3600000)
           (clock_of t div 60000 mod 60) (clock_of t div 1000 mod 60) (clock_of t mod 1000)"
proof -
  obtain y m d where c: "civil (t div day + unix_days) = (y, m, d)" by (cases "civil (t div day + unix_days)")
  note cb = civil_bounds [OF c]
  have h: "0 \<le> clock_of t div 3600000" "clock_of t div 3600000 < 100"
    using div_bounds [of "clock_of t" 3600000 100] clock_bounds [of t] by simp_all
  have r: "0 \<le> x mod 60" "x mod 60 < 100" "0 \<le> x mod 1000" "x mod 1000 < 1000" for x :: int
    by (simp_all add: order.strict_trans [OF pos_mod_bound])
  have y: "0 \<le> y" "y < 10000" using assms c by (simp_all add: year_of_def)
  have md: "0 \<le> m" "m < 100" "0 \<le> d" "d < 100" using cb by linarith+
  show ?thesis
    unfolding stamp_ok_def c prod.case by (intro conjI y md h r)
qed

lemma format_ms_clock:
  "format_ms t = stamp (civil (t div day + unix_days)) (clock_of t div 3600000)
     (clock_of t div 60000 mod 60) (clock_of t div 1000 mod 60) (clock_of t mod 1000)"
  by (simp add: format_ms_def clock_of_def Let_def)

lemma format_ms_length: "0 \<le> year_of t \<Longrightarrow> year_of t < 10000 \<Longrightarrow> length (format_ms t) = 24"
  unfolding format_ms_clock by (rule stamp_length) (rule stamp_ok_format)

text \<open>Two stored timestamps with four-digit years read alike only when they are equal, so
  hashing the formatted form loses nothing of a truncated timestamp.\<close>

lemma format_ms_inj:
  assumes eq: "format_ms s = format_ms t"
    and s: "truncate_ms s = s" "0 \<le> year_of s" "year_of s < 10000"
    and t: "truncate_ms t = t" "0 \<le> year_of t" "year_of t < 10000"
  shows "s = t"
proof -
  from stamp_inj [OF eq [unfolded format_ms_clock] stamp_ok_format [OF s(2,3)] stamp_ok_format [OF t(2,3)]]
  have "civil (s div day + unix_days) = civil (t div day + unix_days)" and clock: "clock_of s = clock_of t"
    by (auto intro: ms_digits)
  then have days: "s div day = t div day" using civil_inj by fastforce
  have "x = day * (x div day) + 1000000 * clock_of x" if "truncate_ms x = x" for x
  proof -
    from that have "x mod 1000000 = 0" using truncate_ms_dvd [of x] by simp
    moreover have "x mod day mod 1000000 = x mod 1000000" by (rule mod_mod_cancel) (simp add: day_def)
    ultimately show ?thesis
      using mult_div_mod_eq [of day x] mult_div_mod_eq [of 1000000 "x mod day"] by (simp add: clock_of_def)
  qed
  then show "s = t" using s(1) t(1) days clock by metis
qed

subsection \<open>Durations\<close>

text \<open>\<open>Time.Sub\<close> stops at the ends of an int64.\<close>

definition time_sub :: "time \<Rightarrow> time \<Rightarrow> int" where
  "time_sub a b = clamp_i64 (a - b)"

definition minute :: int where "minute = 60 * second"
definition hour :: int where "hour = 60 * minute"

lemmas duration_units = second_def minute_def hour_def

text \<open>
  \<open>Duration.String\<close>: \<open>fmtFrac\<close> writes the digits of \<open>u mod 10 ^ prec\<close> without trailing zeros, with
  a point when any is left.
\<close>

definition fmt_frac :: "int \<Rightarrow> nat \<Rightarrow> string" where
  "fmt_frac u prec =
     (let digits = rev (dropWhile (\<lambda>c. c = CHR ''0'') (rev (pad0 prec (dec (nat (u mod 10 ^ prec))))))
      in if digits = [] then [] else CHR ''.'' # digits)"

definition duration_string :: "int \<Rightarrow> string" where
  "duration_string d =
     (let u = \<bar>d\<bar>;
          body = (if u = 0 then ''0s''
            else if u < 1000 then dec (nat u) @ ''ns''
            else if u < 1000000 then dec (nat (u div 1000)) @ fmt_frac u 3 @ [CHR 0xC2, CHR 0xB5] @ ''s''
            else if u < second then dec (nat (u div 1000000)) @ fmt_frac u 6 @ ''ms''
            else
              (let secs = u div second; mins = secs div 60; hours = mins div 60;
                   tail_part = dec (nat (secs mod 60)) @ fmt_frac u 9 @ ''s''
               in if mins = 0 then tail_part
                  else if hours = 0 then dec (nat (mins mod 60)) @ ''m'' @ tail_part
                  else dec (nat hours) @ ''h'' @ dec (nat (mins mod 60)) @ ''m'' @ tail_part))
      in if d < 0 then CHR ''-'' # body else body)"

lemma duration_string_examples:
  "duration_string (15 * minute) = ''15m0s''" "duration_string (720 * hour) = ''720h0m0s''"
  "duration_string 1500000 = ''1.5ms''" "duration_string 0 = ''0s''"
  by (simp_all add: duration_string_def fmt_frac_def pad0_def duration_units Let_def digit_def dec.simps char_of_def bit_0)

end
