(* ===== verification/GoSha256.thy ===== *)
theory GoSha256
  imports Prelude
begin

section \<open>Package crypto/sha256 and encoding/hex\<close>

text \<open>
  SHA-256 as FIPS 180-4 defines it, over byte strings: the padded message is cut into words of
  32 bits, each block of sixteen is expanded to sixty-four and folded through the round
  function. No proof of the development looks inside: what they use is that the digest is a
  function, that it is not empty and that its hexadecimal form folds to itself. Two messages
  with the same digest are never assumed away: a theorem that would need it has the explicit
  collision as an alternative of its conclusion.
\<close>

unbundle bit_operations_syntax

type_synonym u32 = "32 word"

definition rotr :: "nat \<Rightarrow> u32 \<Rightarrow> u32" where
  "rotr n x = (drop_bit n x) OR (push_bit (32 - n) x)"

definition k256 :: "u32 list" where
  "k256 = [
   1116352408, 1899447441, 3049323471, 3921009573, 961987163, 1508970993, 2453635748, 2870763221,
   3624381080, 310598401, 607225278, 1426881987, 1925078388, 2162078206, 2614888103, 3248222580,
   3835390401, 4022224774, 264347078, 604807628, 770255983, 1249150122, 1555081692, 1996064986,
   2554220882, 2821834349, 2952996808, 3210313671, 3336571891, 3584528711, 113926993, 338241895,
   666307205, 773529912, 1294757372, 1396182291, 1695183700, 1986661051, 2177026350, 2456956037,
   2730485921, 2820302411, 3259730800, 3345764771, 3516065817, 3600352804, 4094571909, 275423344,
   430227734, 506948616, 659060556, 883997877, 958139571, 1322822218, 1537002063, 1747873779,
   1955562222, 2024104815, 2227730452, 2361852424, 2428436474, 2756734187, 3204031479, 3329325298]"

definition h256 :: "u32 list" where
  "h256 = [1779033703, 3144134277, 1013904242, 2773480762, 1359893119, 2600822924, 528734635, 1541459225]"

text \<open>The schedule is grown newest word first.\<close>

fun expand256 :: "nat \<Rightarrow> u32 list \<Rightarrow> u32 list" where
  "expand256 0 ws = ws"
| "expand256 (Suc n) ws =
    (let w16 = ws ! 15; w15 = ws ! 14; w7 = ws ! 6; w2 = ws ! 1;
         s0 = rotr 7 w15 XOR rotr 18 w15 XOR drop_bit 3 w15;
         s1 = rotr 17 w2 XOR rotr 19 w2 XOR drop_bit 10 w2
     in expand256 n ((w16 + s0 + w7 + s1) # ws))"

fun round256 :: "u32 list \<Rightarrow> u32 \<times> u32 \<Rightarrow> u32 list" where
  "round256 [a, b, c, d, e, f, g, h] (k, w) =
    (let S1 = rotr 6 e XOR rotr 11 e XOR rotr 25 e;
         ch = (e AND f) XOR (NOT e AND g);
         t1 = h + S1 + ch + k + w;
         S0 = rotr 2 a XOR rotr 13 a XOR rotr 22 a;
         maj = (a AND b) XOR (a AND c) XOR (b AND c);
         t2 = S0 + maj
     in [t1 + t2, a, b, c, d + t1, e, f, g])"
| "round256 s _ = s"

fun words_of :: "string \<Rightarrow> u32 list" where
  "words_of (a # b # c # d # bs) =
     (((of_char a * 256 + of_char b) * 256 + of_char c) * 256 + of_char d) # words_of bs"
| "words_of _ = []"

definition compress256 :: "u32 list \<Rightarrow> u32 list \<Rightarrow> u32 list" where
  "compress256 h ws = map2 (+) h (foldl round256 h (zip k256 (rev (expand256 48 (rev ws)))))"

definition pad256 :: "string \<Rightarrow> string" where
  "pad256 m = m @ [CHR 0x80] @ replicate ((119 - length m mod 64) mod 64) (CHR 0x00)
     @ be64 (8 * int (length m))"

function blocks256 :: "u32 list \<Rightarrow> u32 list \<Rightarrow> u32 list" where
  "blocks256 h ws = (if ws = [] then h else blocks256 (compress256 h (take 16 ws)) (drop 16 ws))"
  by pat_completeness auto
termination
  by (relation "measure (\<lambda>(h, ws). length ws)") auto

declare blocks256.simps [simp del]

definition sha256 :: "string \<Rightarrow> string" where
  "sha256 m = concat (map (\<lambda>w. be_bytes 4 (uint w)) (blocks256 h256 (words_of (pad256 m))))"

definition hex_digit :: "nat \<Rightarrow> char" where
  "hex_digit n = ''0123456789abcdef'' ! n"

definition hex_byte :: "char \<Rightarrow> string" where
  "hex_byte c = (let n = (of_char c :: nat) in [hex_digit (n div 16), hex_digit (n mod 16)])"

definition hex :: "string \<Rightarrow> string" where
  "hex bs = concat (map hex_byte bs)"

subsection \<open>What the proofs use of them\<close>

lemma length_round256 [simp]: "length (round256 s kw) = length s"
  by (cases "(s, kw)" rule: round256.cases) (simp_all add: Let_def)

lemma length_foldl_round256 [simp]: "length (foldl round256 s kws) = length s"
  by (induction kws arbitrary: s) auto

lemma length_compress256 [simp]: "length (compress256 h ws) = length h"
  by (simp add: compress256_def)

lemma length_blocks256 [simp]: "length (blocks256 h ws) = length h"
proof (induction h ws rule: blocks256.induct)
  case (1 h ws)
  then show ?case by (subst blocks256.simps) simp
qed

lemma length_concat_const: "\<forall>x \<in> set xs. length (f x) = k \<Longrightarrow> length (concat (map f xs)) = k * length xs"
  by (induction xs) auto

lemma length_sha256 [simp]: "length (sha256 m) = 32"
proof -
  have "length (sha256 m) = 4 * length h256"
    unfolding sha256_def by (subst length_concat_const [of _ _ 4]) simp_all
  then show ?thesis by (simp add: h256_def)
qed

lemma length_hex [simp]: "length (hex bs) = 2 * length bs"
  by (simp add: hex_def length_concat_const hex_byte_def Let_def)

lemma hex_digit_is_hex: "n < 16 \<Longrightarrow> is_hex_char (hex_digit n)"
  unfolding is_hex_char_def hex_digit_def by (rule nth_mem) simp

lemma hex_digit_inj: "hex_digit a = hex_digit b \<Longrightarrow> a < 16 \<Longrightarrow> b < 16 \<Longrightarrow> a = b"
proof -
  assume eq: "hex_digit a = hex_digit b" and "a < 16" "b < 16"
  then have len: "a < length ''0123456789abcdef''" "b < length ''0123456789abcdef''" by simp_all
  have "distinct ''0123456789abcdef''" by simp
  from nth_eq_iff_index_eq [OF this len] eq show "a = b" unfolding hex_digit_def by blast
qed

lemma char_nibbles: "(of_char c :: nat) div 16 < 16" "(of_char c :: nat) mod 16 < 16"
proof -
  have "(of_char c :: nat) < 256" by (rule nat_of_char_less_256)
  then show "(of_char c :: nat) div 16 < 16" by (simp add: less_mult_imp_div_less)
qed simp

lemma hex_byte_inj: "hex_byte a = hex_byte b \<Longrightarrow> a = b"
proof -
  assume "hex_byte a = hex_byte b"
  then have "(of_char a :: nat) div 16 = of_char b div 16" "(of_char a :: nat) mod 16 = of_char b mod 16"
    using char_nibbles [of a] char_nibbles [of b] by (auto simp: hex_byte_def Let_def dest: hex_digit_inj)
  then have "(of_char a :: nat) = of_char b" by (metis div_mult_mod_eq)
  then show "a = b" by simp
qed

lemma hex_inj: "hex a = hex b \<Longrightarrow> a = b"
proof (induction a arbitrary: b)
  case Nil
  then show ?case by (cases b) (simp_all add: hex_def hex_byte_def Let_def)
next
  case (Cons c a)
  then obtain d b' where b: "b = d # b'" by (cases b) (auto simp: hex_def hex_byte_def Let_def)
  have len: "length (hex_byte c) = length (hex_byte d)" by (simp add: hex_byte_def Let_def)
  from Cons.prems have "hex_byte c @ hex a = hex_byte d @ hex b'" by (simp add: hex_def b)
  with len have "hex_byte c = hex_byte d" "hex a = hex b'" by (simp_all add: append_eq_append_conv)
  then show ?case using Cons.IH b hex_byte_inj by auto
qed

lemma hex_is_hex: "list_all is_hex_char (hex bs)"
  by (auto simp: hex_def hex_byte_def Let_def list_all_iff intro!: hex_digit_is_hex char_nibbles)

end
