(* ===== verification/AuditChain.thy ===== *)
theory AuditChain
  imports GoTime GoSha256
begin

section \<open>The hash chain of the audit log (internal/audit/chain.go)\<close>

text \<open>
  The records of the audit log, the hash each carries over its content and its predecessor's
  hash, \<open>Seal\<close>, which links a record to the one before it, and the verifier: \<open>Verify\<close> walks a
  run of records and reports every break, \<open>AgainstAnchor\<close> compares the run with the anchor kept
  outside the table. The lemmas show what the encoding under the hash determines, that a run
  built by \<open>Seal\<close> verifies, and what a run that verifies is.
\<close>

subsection \<open>Records (clickhouse.AuditRecord)\<close>

record audit_record =
  ar_sequence :: int
  ar_timestamp :: time
  ar_actor :: string
  ar_actor_kind :: string
  ar_correlation :: string
  ar_operation :: string
  ar_kind :: string
  ar_namespace :: string
  ar_name :: string
  ar_uid :: string
  ar_project :: string
  ar_from_state :: string
  ar_to_state :: string
  ar_reason :: string
  ar_details :: string
  ar_prev_hash :: string
  ar_hash :: string

definition zero_record :: audit_record where
  "zero_record = \<lparr>ar_sequence = 0, ar_timestamp = zero_time, ar_actor = [], ar_actor_kind = [],
     ar_correlation = [], ar_operation = [], ar_kind = [], ar_namespace = [], ar_name = [],
     ar_uid = [], ar_project = [], ar_from_state = [], ar_to_state = [], ar_reason = [],
     ar_details = [], ar_prev_hash = [], ar_hash = []\<rparr>"

subsection \<open>The hash\<close>

definition GenesisHash :: string where
  "GenesisHash = ''0000000000000000000000000000000000000000000000000000000000000000''"

definition writeUint :: "int \<Rightarrow> string" where
  "writeUint n = be64 n"

definition writeField :: "string \<Rightarrow> string" where
  "writeField v = writeUint (int (length v)) @ v"

text \<open>What \<open>ChainHash\<close> writes to the digest, in the order it writes it.\<close>

definition hashed_bytes :: "audit_record \<Rightarrow> string" where
  "hashed_bytes r =
     writeField (ar_prev_hash r) @ writeUint (ar_sequence r)
     @ writeField (format_ms (ar_timestamp r)) @ writeField (ar_actor r)
     @ writeField (ar_actor_kind r) @ writeField (ar_correlation r)
     @ writeField (ar_operation r) @ writeField (ar_kind r) @ writeField (ar_namespace r)
     @ writeField (ar_name r) @ writeField (ar_uid r) @ writeField (ar_project r)
     @ writeField (ar_from_state r) @ writeField (ar_to_state r) @ writeField (ar_reason r)
     @ writeField (ar_details r)"

definition ChainHash :: "audit_record \<Rightarrow> string" where
  "ChainHash r = hex (sha256 (hashed_bytes r))"

definition Seal :: "time \<Rightarrow> audit_record \<Rightarrow> audit_record \<Rightarrow> audit_record" where
  "Seal now record previous =
     (let r1 = record\<lparr>ar_sequence := i64 (ar_sequence previous + 1)\<rparr>;
          r2 = r1\<lparr>ar_prev_hash := ar_hash previous\<rparr>;
          r3 = (if ar_prev_hash r2 = [] then r2\<lparr>ar_prev_hash := GenesisHash\<rparr> else r2);
          r4 = (if is_zero (ar_timestamp r3) then r3\<lparr>ar_timestamp := now\<rparr> else r3);
          r5 = r4\<lparr>ar_timestamp := truncate_ms (ar_timestamp r4)\<rparr>
      in r5\<lparr>ar_hash := ChainHash r5\<rparr>)"

subsection \<open>Verification\<close>

datatype brk = BreakMutated | BreakMissing | BreakUnlinked | BreakTruncated | BreakUnclaimed | BreakUnanchored

record finding =
  f_sequence :: int
  f_break :: brk
  f_detail :: string

record verification =
  v_from :: int
  v_to :: int
  v_checked :: int
  v_intact :: bool
  v_findings :: "finding list"

definition shortHash :: "string \<Rightarrow> string" where
  "shortHash v = (if length v \<le> 12 then (if v = [] then ''(empty)'' else v) else take 12 v @ ellipsis)"

definition missing_finding :: "int \<Rightarrow> audit_record \<Rightarrow> finding" where
  "missing_finding expected r = \<lparr>f_sequence = expected, f_break = BreakMissing,
     f_detail = ''expected sequence '' @ format_int expected @ '', found '' @ format_int (ar_sequence r)
       @ '' '' @ em_dash @ '' '' @ format_int (i64 (ar_sequence r - expected)) @ '' record(s) are not there''\<rparr>"

definition unlinked_finding :: "string \<Rightarrow> audit_record \<Rightarrow> finding" where
  "unlinked_finding expected r = \<lparr>f_sequence = ar_sequence r, f_break = BreakUnlinked,
     f_detail = ''prev_hash is '' @ shortHash (ar_prev_hash r)
       @ '', the record before it hashes to '' @ shortHash expected\<rparr>"

definition mutated_finding :: "audit_record \<Rightarrow> finding" where
  "mutated_finding r = \<lparr>f_sequence = ar_sequence r, f_break = BreakMutated,
     f_detail = ''stored hash is '' @ shortHash (ar_hash r)
       @ '', the record's content hashes to '' @ shortHash (ChainHash r)\<rparr>"

text \<open>One turn of \<open>Verify\<close>'s loop, and the loop: it continues from what is there rather than
  from what should have been.\<close>

definition record_findings :: "int \<Rightarrow> string \<Rightarrow> audit_record \<Rightarrow> finding list" where
  "record_findings expectedSequence expectedPrevHash r =
     (if ar_sequence r \<noteq> expectedSequence then [missing_finding expectedSequence r] else [])
     @ (if \<not> equal_fold (ar_prev_hash r) expectedPrevHash then [unlinked_finding expectedPrevHash r] else [])
     @ (if \<not> equal_fold (ChainHash r) (ar_hash r) then [mutated_finding r] else [])"

fun verify_loop :: "int \<Rightarrow> string \<Rightarrow> audit_record list \<Rightarrow> finding list" where
  "verify_loop expectedSequence expectedPrevHash [] = []"
| "verify_loop expectedSequence expectedPrevHash (r # rs) =
     record_findings expectedSequence expectedPrevHash r
     @ verify_loop (i64 (ar_sequence r + 1)) (ar_hash r) rs"

definition prev_link :: "audit_record \<Rightarrow> string" where
  "prev_link previous = (if ar_hash previous = [] then GenesisHash else ar_hash previous)"

definition Verify :: "audit_record list \<Rightarrow> audit_record \<Rightarrow> verification" where
  "Verify records previous =
     (if records = [] then
        \<lparr>v_from = 0, v_to = 0, v_checked = 0, v_intact = True, v_findings = []\<rparr>
      else
        (let findings = verify_loop (i64 (ar_sequence previous + 1)) (prev_link previous) records
         in \<lparr>v_from = ar_sequence (hd records), v_to = ar_sequence (last records),
              v_checked = int (length records), v_intact = (findings = []), v_findings = findings\<rparr>))"

definition OriginGenesis :: string where "OriginGenesis = ''genesis''"
definition OriginAdopted :: string where "OriginAdopted = ''adopted''"
definition OriginUnknown :: string where "OriginUnknown = ''unknown''"

record anchor =
  an_present :: bool
  an_sequence :: int
  an_hash :: string
  an_origin :: string
  an_established :: string
  an_adopted_from :: int
  an_unreadable :: string

definition Absence :: "anchor \<Rightarrow> string" where
  "Absence a = (if an_unreadable a \<noteq> [] then an_unreadable a
     else ''the head object outside the table is not there'')"

definition AgainstAnchor :: "verification \<Rightarrow> anchor \<Rightarrow> bool \<Rightarrow> verification" where
  "AgainstAnchor v a partial =
     (let added =
        (if \<not> an_present a then
           [\<lparr>f_sequence = v_to v, f_break = BreakUnanchored,
             f_detail = ''there is no anchor to check this run against: the head object outside ''
               @ ''the table is not there, so a log cut short from the end would rehash perfectly and ''
               @ ''nothing here would show it ('' @ Absence a @ '')''\<rparr>]
         else if partial then []
         else if v_to v < an_sequence a then
           [\<lparr>f_sequence = i64 (v_to v + 1), f_break = BreakTruncated,
             f_detail = ''the anchor outside the table says the chain ends at '' @ format_int (an_sequence a)
               @ '' and the log stops at '' @ format_int (v_to v) @ '': ''
               @ format_int (i64 (an_sequence a - v_to v)) @ '' record(s) have been cut off the end''\<rparr>]
         else if an_sequence a < v_to v then
           [\<lparr>f_sequence = i64 (an_sequence a + 1), f_break = BreakUnclaimed,
             f_detail = ''the log runs to '' @ format_int (v_to v)
               @ '' and the anchor outside the table says the chain ends at '' @ format_int (an_sequence a)
               @ '': '' @ format_int (i64 (v_to v - an_sequence a))
               @ '' record(s) claimed no sequence number, or the anchor has been wound back''\<rparr>]
         else []);
          findings = v_findings v @ added
      in v\<lparr>v_findings := findings, v_intact := (findings = [])\<rparr>)"

subsection \<open>What the encoding determines\<close>

definition go_string :: "string \<Rightarrow> bool" where
  "go_string s \<longleftrightarrow> int (length s) < 2 ^ 63"

text \<open>A record as the log can hold it: its sequence is an \<open>int64\<close>, its timestamp a millisecond of
  a four-digit year, and no string is longer than a Go string can be.\<close>

definition storable :: "audit_record \<Rightarrow> bool" where
  "storable r \<longleftrightarrow> is_i64 (ar_sequence r) \<and> truncate_ms (ar_timestamp r) = ar_timestamp r
     \<and> 0 \<le> year_of (ar_timestamp r) \<and> year_of (ar_timestamp r) < 10000
     \<and> list_all go_string [ar_prev_hash r, ar_actor r, ar_actor_kind r, ar_correlation r, ar_operation r,
          ar_kind r, ar_namespace r, ar_name r, ar_uid r, ar_project r, ar_from_state r, ar_to_state r,
          ar_reason r, ar_details r]"

text \<open>The content of a record: everything but the hash stored beside it.\<close>

definition content :: "audit_record \<Rightarrow> audit_record" where
  "content r = r\<lparr>ar_hash := []\<rparr>"

text \<open>Two different messages with one digest, exhibited.\<close>

definition sha_collision :: "string \<Rightarrow> string \<Rightarrow> bool" where
  "sha_collision a b \<longleftrightarrow> a \<noteq> b \<and> sha256 a = sha256 b"

lemma writeUint_append_inj:
  "writeUint a @ x = writeUint b @ y \<Longrightarrow> is_i64 a \<Longrightarrow> is_i64 b \<Longrightarrow> a = b \<and> x = y"
  by (auto simp: writeUint_def append_eq_append_conv dest: be64_inj_i64)

lemma writeField_append_inj:
  assumes "writeField s @ x = writeField t @ y" "go_string s" "go_string t"
  shows "s = t \<and> x = y"
proof -
  have "int (length s) = int (length t) \<and> s @ x = t @ y"
    by (rule writeUint_append_inj) (use assms in \<open>auto simp: writeField_def go_string_def\<close>)
  then show ?thesis by auto
qed

lemma writeField_inj: "writeField s = writeField t \<Longrightarrow> go_string s \<Longrightarrow> go_string t \<Longrightarrow> s = t"
  using writeField_append_inj [of s "[]" t "[]"] by simp

text \<open>A list of length-prefixed fields reads back one way only.\<close>

lemma writeFields_inj:
  "concat (map writeField xs) = concat (map writeField ys) \<Longrightarrow> list_all go_string xs
     \<Longrightarrow> list_all go_string ys \<Longrightarrow> length xs = length ys \<Longrightarrow> xs = ys"
proof (induction xs arbitrary: ys)
  case (Cons x xs)
  then obtain y ys' where ys: "ys = y # ys'" by (cases ys) auto
  have "x = y \<and> concat (map writeField xs) = concat (map writeField ys')"
    by (rule writeField_append_inj) (use Cons.prems ys in auto)
  then show ?case using Cons ys by auto
qed simp

definition text_fields :: "audit_record \<Rightarrow> string list" where
  "text_fields r = [ar_actor r, ar_actor_kind r, ar_correlation r, ar_operation r,
     ar_kind r, ar_namespace r, ar_name r, ar_uid r, ar_project r, ar_from_state r, ar_to_state r,
     ar_reason r, ar_details r]"

lemma hashed_bytes_fields:
  "hashed_bytes r = writeField (ar_prev_hash r) @ writeUint (ar_sequence r)
     @ concat (map writeField (format_ms (ar_timestamp r) # text_fields r))"
  by (simp add: hashed_bytes_def text_fields_def)

lemma storable_go: "storable r \<Longrightarrow>
    go_string (ar_prev_hash r) \<and> is_i64 (ar_sequence r)
    \<and> list_all go_string (format_ms (ar_timestamp r) # text_fields r)"
  by (simp add: storable_def text_fields_def format_ms_length go_string_def)

lemma content_eqI:
  "ar_prev_hash r = ar_prev_hash s \<Longrightarrow> ar_sequence r = ar_sequence s \<Longrightarrow> ar_timestamp r = ar_timestamp s
     \<Longrightarrow> text_fields r = text_fields s \<Longrightarrow> content r = content s"
  by (cases r, cases s) (simp add: content_def text_fields_def)

lemma hashed_bytes_inj:
  assumes eq: "hashed_bytes r = hashed_bytes s" and r: "storable r" and s: "storable s"
  shows "content r = content s"
proof -
  note go = storable_go [OF r] storable_go [OF s]
  have 1: "ar_prev_hash r = ar_prev_hash s \<and>
      writeUint (ar_sequence r) @ concat (map writeField (format_ms (ar_timestamp r) # text_fields r)) =
      writeUint (ar_sequence s) @ concat (map writeField (format_ms (ar_timestamp s) # text_fields s))"
    by (rule writeField_append_inj) (use eq go in \<open>auto simp: hashed_bytes_fields\<close>)
  then have 2: "ar_sequence r = ar_sequence s \<and>
      concat (map writeField (format_ms (ar_timestamp r) # text_fields r)) =
      concat (map writeField (format_ms (ar_timestamp s) # text_fields s))"
    by (intro writeUint_append_inj) (use go in auto)
  then have 3: "format_ms (ar_timestamp r) # text_fields r = format_ms (ar_timestamp s) # text_fields s"
    by (intro writeFields_inj) (use go in \<open>auto simp: text_fields_def\<close>)
  have "ar_timestamp r = ar_timestamp s"
    by (rule format_ms_inj) (use 3 r s in \<open>auto simp: storable_def\<close>)
  then show ?thesis using 1 2 3 by (intro content_eqI) auto
qed

lemma ChainHash_nonempty [simp]: "ChainHash r \<noteq> []"
proof
  assume "ChainHash r = []"
  then have "length (ChainHash r) = 0" by simp
  then show False by (simp add: ChainHash_def)
qed

lemma length_ChainHash [simp]: "length (ChainHash r) = 64"
  by (simp add: ChainHash_def)

lemma ChainHash_hex: "list_all is_hex_char (ChainHash r)"
  by (simp add: ChainHash_def hex_is_hex)

lemma ChainHash_fold: "equal_fold (ChainHash r) (ChainHash s) \<longleftrightarrow> ChainHash r = ChainHash s"
  by (rule equal_fold_hex) (rule ChainHash_hex)+

lemma ChainHash_content: "ChainHash (content r) = ChainHash r"
  by (simp add: ChainHash_def hashed_bytes_def content_def)

lemma ChainHash_hash_irrelevant [simp]: "ChainHash (r\<lparr>ar_hash := h\<rparr>) = ChainHash r"
  by (simp add: ChainHash_def hashed_bytes_def)

lemma ChainHash_binds:
  assumes "ChainHash r = ChainHash s" "storable r" "storable s"
  shows "content r = content s \<or> sha_collision (hashed_bytes r) (hashed_bytes s)"
proof (cases "hashed_bytes r = hashed_bytes s")
  case True
  then show ?thesis using hashed_bytes_inj assms(2,3) by blast
next
  case False
  have "sha256 (hashed_bytes r) = sha256 (hashed_bytes s)"
    using assms(1) by (simp add: ChainHash_def hex_inj)
  with False show ?thesis by (simp add: sha_collision_def)
qed

subsection \<open>Seal\<close>

lemma Seal_fields [simp]:
  "ar_sequence (Seal now r p) = i64 (ar_sequence p + 1)"
  "ar_prev_hash (Seal now r p) = prev_link p"
  "ar_timestamp (Seal now r p) = truncate_ms (if is_zero (ar_timestamp r) then now else ar_timestamp r)"
  "text_fields (Seal now r p) = text_fields r"
  by (simp_all add: Seal_def Let_def prev_link_def text_fields_def)

lemma Seal_hash [simp]: "ar_hash (Seal now r p) = ChainHash (Seal now r p)"
  by (simp add: Seal_def Let_def)

text \<open>Sealing a batch, each record onto the one before it, at the instants the clock gave.\<close>

fun seal_run :: "(time \<times> audit_record) list \<Rightarrow> audit_record \<Rightarrow> audit_record list" where
  "seal_run [] p = []"
| "seal_run ((now, r) # rs) p = (let s = Seal now r p in s # seal_run rs s)"

lemma length_seal_run [simp]: "length (seal_run rs p) = length rs"
  by (induction rs p rule: seal_run.induct) (simp_all add: Let_def)

subsection \<open>What an intact run is\<close>

text \<open>The run a verification accepts, record by record: it is numbered densely from its
  predecessor, each record links to the one before it, and each one's content hashes to the hash
  stored beside it.\<close>

definition link_before :: "audit_record list \<Rightarrow> audit_record \<Rightarrow> nat \<Rightarrow> string" where
  "link_before rs p i = (if i = 0 then prev_link p else ar_hash (rs ! (i - 1)))"

definition sound_run :: "audit_record list \<Rightarrow> audit_record \<Rightarrow> bool" where
  "sound_run rs p \<longleftrightarrow> (\<forall>i < length rs.
     ar_sequence (rs ! i) = i64 (ar_sequence p + 1 + int i)
     \<and> equal_fold (ar_prev_hash (rs ! i)) (link_before rs p i)
     \<and> equal_fold (ChainHash (rs ! i)) (ar_hash (rs ! i)))"

lemma record_findings_empty_iff:
  "record_findings e h r = [] \<longleftrightarrow>
     ar_sequence r = e \<and> equal_fold (ar_prev_hash r) h \<and> equal_fold (ChainHash r) (ar_hash r)"
  by (simp add: record_findings_def)

lemma i64_add: "i64 (i64 x + y) = i64 (x + y)"
proof -
  have "(i64 x + y + 2 ^ 63) mod 2 ^ 64 = ((x + 2 ^ 63) mod 2 ^ 64 + y) mod 2 ^ 64"
    by (simp add: i64_def)
  also have "\<dots> = (x + 2 ^ 63 + y) mod 2 ^ 64" by (rule mod_add_left_eq)
  also have "\<dots> = (x + y + 2 ^ 63) mod 2 ^ 64" by (simp add: algebra_simps)
  finally show ?thesis by (simp add: i64_def)
qed

lemma verify_loop_empty_iff:
  "verify_loop (i64 e) h rs = [] \<longleftrightarrow> (\<forall>i < length rs.
     ar_sequence (rs ! i) = i64 (e + int i)
     \<and> equal_fold (ar_prev_hash (rs ! i)) (if i = 0 then h else ar_hash (rs ! (i - 1)))
     \<and> equal_fold (ChainHash (rs ! i)) (ar_hash (rs ! i)))"
proof (induction rs arbitrary: e h)
  case (Cons r rs)
  have before: "ar_hash ((r # rs) ! i) = (if i = 0 then ar_hash r else ar_hash (rs ! (i - 1)))" for i
    by (simp add: nth_Cons')
  have shift: "i64 (e + int (Suc i)) = i64 (e + 1 + int i)" for i by (simp add: algebra_simps)
  have "verify_loop (i64 e) h (r # rs) = [] \<longleftrightarrow>
      (ar_sequence r = i64 e \<and> equal_fold (ar_prev_hash r) h \<and> equal_fold (ChainHash r) (ar_hash r))
      \<and> verify_loop (i64 (e + 1)) (ar_hash r) rs = []"
    by (auto simp: record_findings_empty_iff i64_add)
  then show ?case
    unfolding length_Cons All_less_Suc2 Cons.IH [of "e + 1" "ar_hash r"]
    by (simp add: before shift del: of_nat_Suc)
qed simp

lemma Verify_intact: "v_intact (Verify rs p) \<longleftrightarrow> sound_run rs p"
proof (cases "rs = []")
  case False
  then show ?thesis
    unfolding Verify_def Let_def sound_run_def link_before_def by (simp add: verify_loop_empty_iff)
qed (simp add: Verify_def sound_run_def)

lemma Verify_findings: "v_findings (Verify rs p) = verify_loop (i64 (ar_sequence p + 1)) (prev_link p) rs"
  by (simp add: Verify_def Let_def)

lemma Verify_range: "rs \<noteq> [] \<Longrightarrow> v_from (Verify rs p) = ar_sequence (hd rs) \<and> v_to (Verify rs p) = ar_sequence (last rs)"
  by (simp add: Verify_def Let_def)

lemma v_intact_iff: "v_intact (Verify rs p) \<longleftrightarrow> v_findings (Verify rs p) = []"
  by (simp add: Verify_def Let_def)

subsection \<open>Runs in two parts\<close>

definition next_sequence :: "int \<Rightarrow> audit_record list \<Rightarrow> int" where
  "next_sequence e rs = (if rs = [] then e else i64 (ar_sequence (last rs) + 1))"

definition next_link :: "string \<Rightarrow> audit_record list \<Rightarrow> string" where
  "next_link h rs = (if rs = [] then h else ar_hash (last rs))"

lemma verify_loop_append:
  "verify_loop e h (xs @ ys) = verify_loop e h xs @ verify_loop (next_sequence e xs) (next_link h xs) ys"
proof (induction xs arbitrary: e h)
  case Nil
  then show ?case by (simp add: next_sequence_def next_link_def)
next
  case (Cons x xs)
  then show ?case by (cases "xs = []") (simp_all add: next_sequence_def next_link_def)
qed

lemma i64_eq_mod: "i64 x = i64 y \<Longrightarrow> 2 ^ 64 dvd x - y"
proof -
  assume "i64 x = i64 y"
  then have "(x + 2 ^ 63) mod 2 ^ 64 = (y + 2 ^ 63) mod 2 ^ 64" by (simp add: i64_def)
  then have "2 ^ 64 dvd (x + 2 ^ 63) - (y + 2 ^ 63)" by (simp only: mod_eq_dvd_iff)
  then show ?thesis by (simp only: add_diff_cancel_right)
qed

lemma i64_Suc_neq: "is_i64 s \<Longrightarrow> i64 (s + 1) \<noteq> s"
proof
  assume "is_i64 s" and "i64 (s + 1) = s"
  then have "i64 (s + 1) = i64 s" by (simp only: i64_id)
  from i64_eq_mod [OF this] have "(2 ^ 64 :: int) dvd 1" by (simp only: add_diff_cancel_left')
  then show False by simp
qed

lemma sound_run_append:
  assumes "sound_run (xs @ ys) p"
  shows "verify_loop (i64 (ar_sequence p + 1)) (prev_link p) xs = []"
    and "verify_loop (next_sequence (i64 (ar_sequence p + 1)) xs) (next_link (prev_link p) xs) ys = []"
  using assms by (simp_all add: Verify_intact [symmetric] v_intact_iff Verify_findings verify_loop_append)

lemma sound_run_iff: "sound_run rs p \<longleftrightarrow> verify_loop (i64 (ar_sequence p + 1)) (prev_link p) rs = []"
  by (simp add: Verify_intact [symmetric] v_intact_iff Verify_findings)

lemma sound_run_prefix: "sound_run (xs @ ys) p \<Longrightarrow> sound_run xs p"
  by (simp add: sound_run_iff verify_loop_append)

lemma sound_run_sequence:
  assumes "sound_run rs p" "i < length rs" "0 \<le> ar_sequence p" "ar_sequence p + int (length rs) < 2 ^ 63"
  shows "ar_sequence (rs ! i) = ar_sequence p + 1 + int i"
proof -
  have "i64 (ar_sequence p + 1 + int i) = ar_sequence p + 1 + int i"
    by (rule i64_small) (use assms in linarith)+
  then show ?thesis using assms(1,2) by (simp add: sound_run_def)
qed

lemma sound_run_last:
  assumes "sound_run rs p" "rs \<noteq> []" "0 \<le> ar_sequence p" "ar_sequence p + int (length rs) < 2 ^ 63"
  shows "ar_sequence (last rs) = ar_sequence p + int (length rs)"
proof -
  have "length rs - 1 < length rs" using assms(2) by simp
  from sound_run_sequence [OF assms(1) this assms(3,4)] assms(2)
  show ?thesis by (simp add: last_conv_nth of_nat_diff Suc_leI)
qed

lemma verify_loop_seal_run:
  "verify_loop (i64 (ar_sequence p + 1)) (prev_link p) (seal_run rs p) = []"
proof (induction rs p rule: seal_run.induct)
  case (2 now r rs p)
  define s where "s = Seal now r p"
  have "prev_link s = ar_hash s" by (simp add: prev_link_def s_def)
  with 2 [OF s_def] show ?case
    by (simp add: s_def [symmetric] Let_def record_findings_empty_iff) (simp add: s_def)
qed simp

lemma sound_run_seal_run: "sound_run (seal_run rs p) p"
  using verify_loop_seal_run by (simp add: Verify_intact [symmetric] v_intact_iff Verify_findings)

subsection \<open>Properties\<close>

text \<open>
  C1. A verification answers intact exactly when the run is one the chain allows: numbered
  densely (modulo \<open>2 ^ 64\<close>) from its predecessor, every record linked to the one before it and
  every record's content hashing to the hash stored beside it.
\<close>

theorem Verify_intact_iff_sound: "v_intact (Verify rs p) \<longleftrightarrow> sound_run rs p"
  by (rule Verify_intact)

text \<open>
  C2. What the platform seals, the platform verifies: any batch of records sealed one onto the
  other, after any predecessor and whatever the clock read, is a run without a finding, and the
  answer counts all of them.
\<close>

theorem Verify_seal_run:
  "v_intact (Verify (seal_run batch p) p) \<and> v_findings (Verify (seal_run batch p) p) = []
   \<and> v_checked (Verify (seal_run batch p) p) = int (length batch)"
proof (intro conjI)
  show "v_findings (Verify (seal_run batch p) p) = []"
    by (simp add: Verify_findings verify_loop_seal_run)
  then show "v_intact (Verify (seal_run batch p) p)" by (simp add: v_intact_iff)
  have "v_checked (Verify rs p) = int (length rs)" for rs by (simp add: Verify_def Let_def)
  then show "v_checked (Verify (seal_run batch p) p) = int (length batch)" by simp
qed

text \<open>
  C3. An edit inside the chain cannot hide: if a run still verifies after one record before its
  end was replaced by any record whatever, its own hash rewritten to match included, then the
  replacement has the same content, or the edit exhibits two different byte strings with one
  SHA-256 digest.
\<close>

theorem interior_edit_detected:
  assumes "v_intact (Verify rs p)" and "Suc i < length rs"
    and "storable (rs ! i)" and "storable r'"
    and "v_intact (Verify (rs[i := r']) p)"
  shows "content r' = content (rs ! i) \<or> sha_collision (hashed_bytes r') (hashed_bytes (rs ! i))"
proof -
  let ?rs = "rs[i := r']"
  from assms(1) have old: "sound_run rs p" by (simp add: Verify_intact)
  from assms(5) have new: "sound_run ?rs p" by (simp add: Verify_intact)
  have 1: "equal_fold (ChainHash (rs ! i)) (ar_hash (rs ! i))"
    using old assms(2) by (simp add: sound_run_def)
  have 2: "equal_fold (ar_prev_hash (rs ! Suc i)) (ar_hash (rs ! i))"
    using old [unfolded sound_run_def, rule_format, OF assms(2)] by (simp add: link_before_def)
  have "Suc i < length ?rs" using assms(2) by simp
  from new [unfolded sound_run_def, rule_format, OF this]
  have 3: "equal_fold (ar_prev_hash (rs ! Suc i)) (ar_hash r')"
    using assms(2) by (simp add: link_before_def)
  have "i < length ?rs" using assms(2) by simp
  from new [unfolded sound_run_def, rule_format, OF this]
  have 4: "equal_fold (ChainHash r') (ar_hash r')" using assms(2) by simp
  have "equal_fold (ChainHash r') (ChainHash (rs ! i))"
    using 1 2 3 4 by (simp add: equal_fold_def)
  then have "ChainHash r' = ChainHash (rs ! i)" by (simp add: ChainHash_fold)
  then show ?thesis by (rule ChainHash_binds) (rule assms(4), rule assms(3))
qed

text \<open>
  C4. A record deleted from inside a sound run is reported where it was: the verification of
  what is left has a finding \<open>missing\<close> at the deleted record's own sequence number.
\<close>

theorem deletion_detected:
  assumes "v_intact (Verify (xs @ r # ys) p)" and "ys \<noteq> []" and "is_i64 (ar_sequence r)"
  shows "\<exists>f \<in> set (v_findings (Verify (xs @ ys) p)). f_break f = BreakMissing \<and> f_sequence f = ar_sequence r"
proof -
  let ?e = "next_sequence (i64 (ar_sequence p + 1)) xs" and ?h = "next_link (prev_link p) xs"
  obtain y ys' where ys: "ys = y # ys'" using assms(2) by (cases ys) auto
  have "sound_run (xs @ r # ys) p" using assms(1) by (simp add: Verify_intact)
  from sound_run_append(2) [OF this] have loop: "verify_loop ?e ?h (r # y # ys') = []" by (simp add: ys)
  then have r: "ar_sequence r = ?e" and y: "ar_sequence y = i64 (ar_sequence r + 1)"
    by (simp_all add: record_findings_empty_iff)
  have "missing_finding ?e y \<in> set (record_findings ?e ?h y)"
    using r y i64_Suc_neq [OF assms(3)] by (simp add: record_findings_def)
  then have "missing_finding ?e y \<in> set (v_findings (Verify (xs @ ys) p))"
    by (simp add: Verify_findings verify_loop_append ys)
  moreover have "f_break (missing_finding ?e y) = BreakMissing" "f_sequence (missing_finding ?e y) = ar_sequence r"
    using r by (simp_all add: missing_finding_def)
  ultimately show ?thesis by blast
qed

text \<open>
  C5. A log cut short from the end is what the anchor is for: of a sound log whose anchor names
  its last record, the first \<open>k\<close> records verify against the anchor exactly when \<open>k\<close> is all of
  them, and otherwise the finding is \<open>truncated\<close>, at the first missing number.
\<close>

theorem truncation_detected:
  assumes "v_intact (Verify rs p)" and "0 \<le> ar_sequence p" and "ar_sequence p + int (length rs) < 2 ^ 63"
    and "0 < k" and "k \<le> length rs"
    and "an_present a" and "an_sequence a = ar_sequence (last rs)"
  shows "(v_intact (AgainstAnchor (Verify (take k rs) p) a False) \<longleftrightarrow> k = length rs)
    \<and> (k < length rs \<longrightarrow>
      map (\<lambda>f. (f_break f, f_sequence f)) (v_findings (AgainstAnchor (Verify (take k rs) p) a False))
        = [(BreakTruncated, ar_sequence p + int k + 1)])"
proof -
  have old: "sound_run rs p" using assms(1) by (simp add: Verify_intact)
  have "take k rs @ drop k rs = rs" by simp
  then have new: "sound_run (take k rs) p" using sound_run_prefix old by metis
  have ne: "rs \<noteq> []" "take k rs \<noteq> []" using assms(4,5) by auto
  have len: "length (take k rs) = k" using assms(5) by simp
  have a: "an_sequence a = ar_sequence p + int (length rs)"
    using sound_run_last [OF old ne(1) assms(2,3)] assms(7) by simp
  have "ar_sequence (last (take k rs)) = ar_sequence p + int k"
    using sound_run_last [OF new ne(2) assms(2)] assms(3,5) len by simp
  then have to: "v_to (Verify (take k rs) p) = ar_sequence p + int k" using Verify_range [OF ne(2)] by simp
  have nf: "v_findings (Verify (take k rs) p) = []"
    using new by (simp add: Verify_intact [symmetric] v_intact_iff)
  have small: "i64 (ar_sequence p + int k + 1) = ar_sequence p + int k + 1" if "k < length rs"
    by (rule i64_small) (use that assms(2,3) in linarith)+
  show ?thesis
    using assms(5,6) a to nf small by (auto simp: AgainstAnchor_def Let_def)
qed

text \<open>
  What the anchor does not bound: a tail sealed anew is accepted. Whatever records take the
  place of the end of a log, resealed onto what is before them, the result verifies against the
  anchor of the original log as long as it has the same length, although the anchor holds the
  hash of the last original record: only its sequence is compared.
\<close>

lemma rewritten_tail_accepted:
  assumes "length zs = length ys" and "ys \<noteq> []"
    and "0 \<le> ar_sequence p" and "ar_sequence p + int (length (xs @ ys)) < 2 ^ 63"
    and "an_present a" and "an_sequence a = ar_sequence (last (seal_run (xs @ ys) p))"
    and "an_hash a = ar_hash (last (seal_run (xs @ ys) p))"
  shows "v_intact (AgainstAnchor (Verify (seal_run (xs @ zs) p) p) a False)"
proof -
  have last: "ar_sequence (last (seal_run (xs @ vs) p)) = ar_sequence p + int (length (xs @ vs))"
    if "length vs = length ys" for vs
  proof -
    have ne: "seal_run (xs @ vs) p \<noteq> []" using that assms(2) by (metis Nil_is_append_conv length_0_conv length_seal_run)
    show ?thesis
      using sound_run_last [OF sound_run_seal_run ne assms(3)] assms(4) that by simp
  qed
  have ne: "seal_run (xs @ zs) p \<noteq> []" using assms(1,2) by (metis Nil_is_append_conv length_0_conv length_seal_run)
  have "v_to (Verify (seal_run (xs @ zs) p) p) = an_sequence a"
    using Verify_range [OF ne] last [OF assms(1)] last [OF refl] assms(1,6) by simp
  moreover have "v_findings (Verify (seal_run (xs @ zs) p) p) = []"
    by (simp add: Verify_findings verify_loop_seal_run)
  ultimately show ?thesis using assms(5) by (simp add: AgainstAnchor_def Let_def)
qed

subsection \<open>Witnesses\<close>

definition demo_batch :: "(time \<times> audit_record) list" where
  "demo_batch = [(0, zero_record\<lparr>ar_actor := ''anna''\<rparr>), (second, zero_record\<lparr>ar_actor := ''ben''\<rparr>)]"

definition demo_run :: "audit_record list" where
  "demo_run = seal_run demo_batch zero_record"

definition demo_anchor :: anchor where
  "demo_anchor = \<lparr>an_present = True, an_sequence = 2, an_hash = [], an_origin = OriginGenesis,
     an_established = [], an_adopted_from = 0, an_unreadable = []\<rparr>"

lemma demo_run_eq:
  "demo_run = [Seal 0 (zero_record\<lparr>ar_actor := ''anna''\<rparr>) zero_record,
     Seal second (zero_record\<lparr>ar_actor := ''ben''\<rparr>) (Seal 0 (zero_record\<lparr>ar_actor := ''anna''\<rparr>) zero_record)]"
  by (simp add: demo_run_def demo_batch_def Let_def)

lemma demo_sequences: "ar_sequence (demo_run ! 0) = 1" "ar_sequence (demo_run ! 1) = 2"
  by (simp_all add: demo_run_eq zero_record_def i64_def)

lemma demo_first_storable: "storable (demo_run ! 0)"
proof -
  have "list_all go_string (text_fields (demo_run ! 0))"
    unfolding demo_run_eq by (simp only: nth_Cons_0 Seal_fields) (simp add: text_fields_def zero_record_def go_string_def)
  moreover have "go_string (ar_prev_hash (demo_run ! 0))"
    by (simp add: demo_run_eq prev_link_def zero_record_def GenesisHash_def go_string_def)
  moreover have "ar_timestamp (demo_run ! 0) = 0"
    by (simp add: demo_run_eq zero_record_def is_zero_def truncate_ms_eq)
  moreover have "year_of 0 = 1970" by (simp add: year_of_def unix_days_def civil_examples)
  ultimately show ?thesis
    using demo_sequences by (simp add: storable_def text_fields_def is_i64_def truncate_ms_eq)
qed

lemma demo_intact: "v_intact (Verify demo_run zero_record)"
  by (simp add: Verify_intact demo_run_def sound_run_seal_run)

theorem interior_edit_detected_witness:
  "content (demo_run ! 0) = content (demo_run ! 0)
   \<or> sha_collision (hashed_bytes (demo_run ! 0)) (hashed_bytes (demo_run ! 0))"
proof (rule interior_edit_detected [where i = 0 and rs = demo_run and p = zero_record])
  show "v_intact (Verify demo_run zero_record)" by (rule demo_intact)
  show "Suc 0 < length demo_run" by (simp add: demo_run_eq)
  show "v_intact (Verify (demo_run[0 := demo_run ! 0]) zero_record)" by (simp add: demo_intact)
qed (rule demo_first_storable)+

theorem deletion_detected_witness:
  "\<exists>f \<in> set (v_findings (Verify [demo_run ! 1] zero_record)). f_break f = BreakMissing \<and> f_sequence f = 1"
proof -
  have run: "demo_run = [] @ demo_run ! 0 # [demo_run ! 1]" by (simp add: demo_run_eq)
  have "\<exists>f \<in> set (v_findings (Verify ([] @ [demo_run ! 1]) zero_record)).
      f_break f = BreakMissing \<and> f_sequence f = ar_sequence (demo_run ! 0)"
  proof (rule deletion_detected)
    show "v_intact (Verify ([] @ demo_run ! 0 # [demo_run ! 1]) zero_record)"
      unfolding run [symmetric] by (rule demo_intact)
    show "is_i64 (ar_sequence (demo_run ! 0))" by (simp add: demo_sequences is_i64_def)
  qed simp
  then show ?thesis by (simp add: demo_sequences)
qed

theorem truncation_detected_witness:
  "\<not> v_intact (AgainstAnchor (Verify (take 1 demo_run) zero_record) demo_anchor False)"
proof -
  have len: "length demo_run = 2" by (simp add: demo_run_eq)
  have last: "last demo_run = demo_run ! 1" by (simp add: demo_run_eq)
  have "(v_intact (AgainstAnchor (Verify (take 1 demo_run) zero_record) demo_anchor False) \<longleftrightarrow> 1 = length demo_run)
    \<and> (1 < length demo_run \<longrightarrow>
      map (\<lambda>f. (f_break f, f_sequence f)) (v_findings (AgainstAnchor (Verify (take 1 demo_run) zero_record) demo_anchor False))
        = [(BreakTruncated, ar_sequence zero_record + int 1 + 1)])"
    by (rule truncation_detected [OF demo_intact])
      (simp_all add: len last demo_sequences [simplified] demo_anchor_def zero_record_def)
  then show ?thesis using len by simp
qed

lemma rewritten_tail_accepted_witness:
  "v_intact (AgainstAnchor (Verify (seal_run [(0, zero_record\<lparr>ar_actor := ''anna''\<rparr>), (second, zero_record\<lparr>ar_actor := ''eve''\<rparr>)]
      zero_record) zero_record) (demo_anchor\<lparr>an_hash := ar_hash (demo_run ! 1)\<rparr>) False)"
proof -
  let ?xs = "[(0, zero_record\<lparr>ar_actor := ''anna''\<rparr>)]" and ?ys = "[(second, zero_record\<lparr>ar_actor := ''ben''\<rparr>)]"
    and ?zs = "[(second, zero_record\<lparr>ar_actor := ''eve''\<rparr>)]"
  have run: "seal_run (?xs @ ?ys) zero_record = demo_run" by (simp add: demo_run_def demo_batch_def)
  have last: "last demo_run = demo_run ! 1" by (simp add: demo_run_eq)
  have "v_intact (AgainstAnchor (Verify (seal_run (?xs @ ?zs) zero_record) zero_record)
      (demo_anchor\<lparr>an_hash := ar_hash (demo_run ! 1)\<rparr>) False)"
    by (rule rewritten_tail_accepted [where ys = ?ys])
      (unfold run last, simp_all add: demo_sequences [simplified] demo_anchor_def, simp_all add: zero_record_def)
  then show ?thesis by simp
qed

end
