(* ===== verification/AuditPage.thy ===== *)
theory AuditPage
  imports AuditChain
begin

section \<open>Verifying a page of the log (internal/api/audit.go)\<close>

text \<open>
  The REST handler that verifies a run of the log: it reads the record before the run and the
  run itself from the table, walks it, and compares it with the anchor unless the run came back
  as full as was asked for. The table is the list of its rows and \<open>ScanAuditRecords\<close> is its
  \<open>SELECT \<dots> WHERE sequence >= from ORDER BY sequence ASC LIMIT limit\<close>; the store and the
  cluster answer (their failures end the request before anything is verified). The theorems
  say on which pages a sound log is reported sound, and where it is not.
\<close>

definition DefaultAuditLimit :: int where "DefaultAuditLimit = 100"
definition MaxAuditLimit :: int where "MaxAuditLimit = 1000"

definition ScanAuditRecords :: "audit_record list \<Rightarrow> int \<Rightarrow> int \<Rightarrow> audit_record list" where
  "ScanAuditRecords table from limit =
     (let l1 = (if limit < 1 then DefaultAuditLimit else limit);
          l2 = (if MaxAuditLimit < l1 then MaxAuditLimit else l1);
          f = (if from < 0 then 0 else from)
      in take (nat l2) (sort_key ar_sequence (filter (\<lambda>r. f \<le> ar_sequence r) table)))"

datatype refusal = BadFrom int | BadLimit int | NotLinked int

record verification_body =
  vb_from :: int
  vb_to :: int
  vb_checked :: int
  vb_intact :: bool
  vb_findings :: "finding list"
  vb_anchor_present :: bool
  vb_anchor :: "int option"
  vb_anchor_origin :: string
  vb_anchor_adopted_from :: int
  vb_anchor_message :: string
  vb_truncated :: bool

definition verification_answer :: "verification \<Rightarrow> anchor \<Rightarrow> bool \<Rightarrow> verification_body" where
  "verification_answer result a partial =
     \<lparr>vb_from = v_from result, vb_to = v_to result, vb_checked = v_checked result,
      vb_intact = v_intact result, vb_findings = v_findings result,
      vb_anchor_present = an_present a,
      vb_anchor = (if an_present a then Some (an_sequence a) else None),
      vb_anchor_origin = an_origin a,
      vb_anchor_adopted_from = (if an_present a then an_adopted_from a else 0),
      vb_anchor_message = (if an_present a then [] else Absence a),
      vb_truncated = partial\<rparr>"

text \<open>\<open>from\<close> and \<open>limit\<close> are the query parameters as \<open>intParam\<close> read them (None when absent).\<close>

definition verifyAuditChain ::
  "audit_record list \<Rightarrow> anchor \<Rightarrow> int option \<Rightarrow> int option \<Rightarrow> refusal + verification_body" where
  "verifyAuditChain table a fromParam limitParam =
     (let from = (case fromParam of None \<Rightarrow> 1 | Some f \<Rightarrow> f);
          limit = (case limitParam of None \<Rightarrow> MaxAuditLimit | Some l \<Rightarrow> l)
      in if from < 1 then Inl (BadFrom from)
         else if limit < 1 then Inl (BadLimit limit)
         else
           (let preceding = ScanAuditRecords table (from - 1) 1
            in if 1 < from \<and> (preceding = [] \<or> ar_sequence (hd preceding) \<noteq> from - 1) then Inl (NotLinked from)
               else
                 (let previous = (if 1 < from then hd preceding else zero_record);
                      records = ScanAuditRecords table from limit;
                      partial = (limit \<le> int (length records));
                      result = AgainstAnchor (Verify records previous) a partial
                  in Inr (verification_answer result a partial))))"

subsection \<open>The pages of a dense table\<close>

text \<open>The table of a sound log, from its first record on: numbered 1 to \<open>n\<close>, in order.\<close>

lemma sound_log_sequences:
  assumes "sound_run table zero_record" "int (length table) < 2 ^ 63"
  shows "map ar_sequence table = map (\<lambda>i. 1 + int i) [0..<length table]"
proof (rule nth_equalityI)
  fix i assume "i < length (map ar_sequence table)"
  then have "i < length table" by simp
  moreover have "0 \<le> ar_sequence zero_record" "ar_sequence zero_record + int (length table) < 2 ^ 63"
    using assms(2) by (simp_all add: zero_record_def)
  ultimately have "ar_sequence (table ! i) = ar_sequence zero_record + 1 + int i"
    using sound_run_sequence [OF assms(1)] by blast
  then show "map ar_sequence table ! i = map (\<lambda>i. 1 + int i) [0..<length table] ! i"
    using \<open>i < length table\<close> by (simp add: zero_record_def)
qed simp

lemma filter_sorted_drop:
  assumes "map ar_sequence table = map (\<lambda>i. 1 + int i) [0..<length table]" and "1 \<le> f"
  shows "sort_key ar_sequence (filter (\<lambda>r. f \<le> ar_sequence r) table) = drop (nat (f - 1)) table"
proof -
  let ?k = "nat (f - 1)"
  have nth: "ar_sequence (table ! i) = 1 + int i" if "i < length table" for i
  proof -
    have "map ar_sequence table ! i = map (\<lambda>i. 1 + int i) [0..<length table] ! i" using assms(1) by simp
    then show ?thesis using that by simp
  qed
  have low: "\<not> f \<le> ar_sequence r" if "r \<in> set (take ?k table)" for r
  proof -
    from that obtain i where "i < ?k" "i < length table" "r = table ! i" by (auto simp: in_set_conv_nth)
    then show ?thesis using nth [of i] by simp
  qed
  have high: "f \<le> ar_sequence r" if "r \<in> set (drop ?k table)" for r
  proof -
    from that obtain i where i: "i < length table - ?k" "r = table ! (?k + i)" by (auto simp: in_set_conv_nth)
    then have "?k + i < length table" by simp
    from nth [OF this] i(2) assms(2) show ?thesis by simp
  qed
  have "filter (\<lambda>r. f \<le> ar_sequence r) table
      = filter (\<lambda>r. f \<le> ar_sequence r) (take ?k table @ drop ?k table)" by simp
  also have "\<dots> = drop ?k table"
    using low high by (simp only: filter_append) (simp add: filter_empty_conv filter_eq_self)
  finally have flt: "filter (\<lambda>r. f \<le> ar_sequence r) table = drop ?k table" .
  have "sorted (map ar_sequence table)" unfolding assms(1) by (simp add: sorted_iff_nth_mono)
  then have "sorted (map ar_sequence (drop ?k table))" by (simp add: drop_map [symmetric] sorted_wrt_drop)
  then show ?thesis by (simp add: flt sorted_sort_id sort_key_id_if_sorted)
qed

lemma scan_sound_log:
  assumes "sound_run table zero_record" "int (length table) < 2 ^ 63" "1 \<le> f" "1 \<le> l"
  shows "ScanAuditRecords table f l = take (nat (min l MaxAuditLimit)) (drop (nat (f - 1)) table)"
  using filter_sorted_drop [OF sound_log_sequences [OF assms(1,2)] assms(3)] assms(3,4)
  by (auto simp: ScanAuditRecords_def Let_def min_def)

text \<open>The tail of a sound run continues from the record before it.\<close>

lemma sound_run_tail:
  assumes "sound_run (xs @ r # ys) p"
  shows "sound_run ys r"
proof -
  from sound_run_append(2) [OF assms]
  have rec: "record_findings (next_sequence (i64 (ar_sequence p + 1)) xs) (next_link (prev_link p) xs) r = []"
    and ys: "verify_loop (i64 (ar_sequence r + 1)) (ar_hash r) ys = []" by simp_all
  from rec have "equal_fold (ChainHash r) (ar_hash r)" by (simp add: record_findings_empty_iff)
  then have "ar_hash r \<noteq> []"
    by (metis ChainHash_hex ChainHash_nonempty case_fold.simps(1) case_fold_hex equal_fold_def)
  with ys show ?thesis by (simp add: sound_run_iff prev_link_def)
qed

text \<open>What the handler answers on a page of a sound log: the run it verified and the record that
  run continues from.\<close>

definition page_before :: "audit_record list \<Rightarrow> int \<Rightarrow> audit_record" where
  "page_before table f = (if 1 < f then table ! nat (f - 2) else zero_record)"

definition page_run :: "audit_record list \<Rightarrow> int \<Rightarrow> int \<Rightarrow> audit_record list" where
  "page_run table f l = take (nat (min l MaxAuditLimit)) (drop (nat (f - 1)) table)"

lemma verifyAuditChain_sound_log:
  assumes "sound_run table zero_record" "int (length table) < 2 ^ 63"
    and "1 \<le> f" "f \<le> int (length table) + 1" "1 \<le> l"
  shows "verifyAuditChain table a (Some f) (Some l) = Inr
     (verification_answer
        (AgainstAnchor (Verify (page_run table f l) (page_before table f)) a (l \<le> int (length (page_run table f l))))
        a (l \<le> int (length (page_run table f l))))"
proof (cases "1 < f")
  case False
  with assms show ?thesis
    by (simp add: verifyAuditChain_def Let_def scan_sound_log page_run_def page_before_def)
next
  case True
  have pre: "ScanAuditRecords table (f - 1) 1 = [table ! nat (f - 2)]"
  proof -
    have "nat (f - 2) < length table" using assms(4) True by linarith
    moreover have "nat (f - 1 - 1) = nat (f - 2)" by simp
    moreover have "ScanAuditRecords table (f - 1) 1 = take 1 (drop (nat (f - 1 - 1)) table)"
      using scan_sound_log [OF assms(1,2), of "f - 1" 1] True by (simp add: MaxAuditLimit_def)
    ultimately show ?thesis by (simp add: take_Suc hd_drop_conv_nth)
  qed
  have "ar_sequence (table ! nat (f - 2)) = ar_sequence zero_record + 1 + int (nat (f - 2))"
    by (rule sound_run_sequence [OF assms(1)]) (use assms True in \<open>simp_all add: zero_record_def\<close>)
  then have seq: "ar_sequence (table ! nat (f - 2)) = f - 1"
    using True by (simp add: zero_record_def)
  show ?thesis
    using assms True
    by (simp add: verifyAuditChain_def Let_def pre seq scan_sound_log page_run_def page_before_def)
qed

lemma page_run_sound:
  assumes "sound_run table zero_record" "1 \<le> f" "f \<le> int (length table) + 1"
  shows "sound_run (page_run table f l) (page_before table f)"
proof -
  let ?k = "nat (f - 1)"
  have "sound_run (drop ?k table) (page_before table f)"
  proof (cases "1 < f")
    case False
    with assms show ?thesis by (simp add: page_before_def)
  next
    case True
    then have k: "?k = Suc (nat (f - 2))" "nat (f - 2) < length table" using assms(3) by linarith+
    then have "table = take (nat (f - 2)) table @ table ! nat (f - 2) # drop ?k table"
      by (simp add: id_take_nth_drop)
    then show ?thesis using sound_run_tail assms(1) True unfolding page_before_def by metis
  qed
  then show ?thesis
    unfolding page_run_def
    by (metis append_take_drop_id sound_run_prefix)
qed

subsection \<open>Properties\<close>

text \<open>
  C6. A sound log reads as sound: over a dense, linked table with its anchor at the last record,
  every page that starts inside the log and asks for at most a thousand records is answered
  intact, without a finding, and counts the records from its start up to the limit.
\<close>

theorem sound_log_page_intact:
  assumes "sound_run table zero_record" and "int (length table) < 2 ^ 63"
    and "an_present a" and "an_sequence a = int (length table)"
    and "1 \<le> f" and "f \<le> int (length table)" and "1 \<le> l" and "l \<le> MaxAuditLimit"
  shows "\<exists>b. verifyAuditChain table a (Some f) (Some l) = Inr b \<and> vb_intact b \<and> vb_findings b = []
      \<and> vb_from b = f \<and> vb_checked b = min l (int (length table) - f + 1)"
proof -
  let ?run = "page_run table f l" and ?p = "page_before table f"
  have f1: "f \<le> int (length table) + 1" using assms(6) by simp
  note ans = verifyAuditChain_sound_log [OF assms(1,2,5) f1 assms(7), of a]
  have len: "int (length ?run) = min l (int (length table) - f + 1)"
    using assms(5-8) by (auto simp: page_run_def min_def)
  then have ne: "?run \<noteq> []" using assms(6,7) by (auto simp: min_def split: if_splits)
  have sound: "sound_run ?run ?p" by (rule page_run_sound [OF assms(1,5) f1])
  then have nf: "v_findings (Verify ?run ?p) = []" by (simp add: Verify_intact [symmetric] v_intact_iff)
  have p: "ar_sequence ?p = f - 1"
  proof (cases "1 < f")
    case True
    then show ?thesis
      using sound_run_sequence [OF assms(1), of "nat (f - 2)"] assms(2,6) by (simp add: page_before_def zero_record_def)
  qed (use assms(5) in \<open>simp add: page_before_def zero_record_def\<close>)
  have bound: "ar_sequence ?p + int (length ?run) < 2 ^ 63" using p len assms(2) by (auto simp: min_def)
  have last: "v_to (Verify ?run ?p) = f - 1 + int (length ?run)"
    using Verify_range [OF ne] sound_run_last [OF sound ne _ bound] p assms(5) by simp
  have first: "v_from (Verify ?run ?p) = f"
  proof -
    have "ar_sequence (?run ! 0) = ar_sequence ?p + 1 + int 0"
      by (rule sound_run_sequence [OF sound]) (use ne p assms(5) bound in auto)
    then show ?thesis using Verify_range [OF ne] p ne by (simp add: hd_conv_nth)
  qed
  have added: "v_findings (AgainstAnchor (Verify ?run ?p) a q) = []"
    if "q \<longleftrightarrow> l \<le> int (length ?run)" for q
    using that nf assms(3,4) last len by (auto simp: AgainstAnchor_def Let_def min_def split: if_splits)
  have frame: "v_from (AgainstAnchor v a q) = v_from v" "v_checked (AgainstAnchor v a q) = v_checked v"
    "v_intact (AgainstAnchor v a q) \<longleftrightarrow> v_findings (AgainstAnchor v a q) = []" for v q
    by (simp_all add: AgainstAnchor_def Let_def)
  have checked: "v_checked (Verify ?run ?p) = min l (int (length table) - f + 1)"
    by (simp add: Verify_def Let_def len ne)
  show ?thesis
    unfolding ans verification_answer_def
    by (simp add: frame added first checked del: of_nat_le_iff)
qed

lemma empty_page_reports_truncation:
  assumes "sound_run table zero_record" and "int (length table) < 2 ^ 63" and "table \<noteq> []"
    and "an_present a" and "an_sequence a = int (length table)" and "1 \<le> l"
  shows "\<exists>b. verifyAuditChain table a (Some (int (length table) + 1)) (Some l) = Inr b \<and> \<not> vb_intact b
      \<and> map (\<lambda>x. (f_break x, f_sequence x)) (vb_findings b) = [(BreakTruncated, 1)]"
proof -
  let ?f = "int (length table) + 1"
  have empty: "page_run table ?f l = []" by (simp add: page_run_def)
  have pos: "0 < int (length table)" using assms(3) by simp
  have "1 \<le> ?f" by simp
  from verifyAuditChain_sound_log [OF assms(1,2) this order.refl assms(6), of a]
  show ?thesis
    using assms(4-6) pos
    by (simp add: empty verification_answer_def AgainstAnchor_def Verify_def Let_def i64_def)
qed

lemma large_limit_reports_truncation:
  assumes "sound_run table zero_record" and "int (length table) < 2 ^ 63"
    and "MaxAuditLimit < int (length table)"
    and "an_present a" and "an_sequence a = int (length table)" and "MaxAuditLimit < l"
  shows "\<exists>b. verifyAuditChain table a (Some 1) (Some l) = Inr b \<and> \<not> vb_intact b
      \<and> map (\<lambda>x. (f_break x, f_sequence x)) (vb_findings b) = [(BreakTruncated, 1001)]"
proof -
  let ?run = "page_run table 1 l"
  have run: "?run = take 1000 table" using assms(6) by (simp add: page_run_def MaxAuditLimit_def)
  have len: "length ?run = 1000" using assms(3) by (simp add: run MaxAuditLimit_def)
  have ne: "?run \<noteq> []" using len by auto
  have sound: "sound_run ?run zero_record"
    using page_run_sound [OF assms(1), of 1 l] by (simp add: page_before_def)
  then have nf: "v_findings (Verify ?run zero_record) = []" by (simp add: Verify_intact [symmetric] v_intact_iff)
  have "ar_sequence (last ?run) = ar_sequence zero_record + int (length ?run)"
    by (rule sound_run_last [OF sound ne]) (simp_all add: len zero_record_def)
  then have to: "v_to (Verify ?run zero_record) = 1000"
    using Verify_range [OF ne] len by (simp add: zero_record_def)
  have "(1::int) \<le> l" using assms(6) by (simp add: MaxAuditLimit_def)
  then have "verifyAuditChain table a (Some 1) (Some l) = Inr
     (verification_answer (AgainstAnchor (Verify ?run zero_record) a (l \<le> int (length ?run))) a (l \<le> int (length ?run)))"
    using verifyAuditChain_sound_log [OF assms(1,2), of 1 l a] by (simp add: page_before_def)
  then show ?thesis
    using assms(3-6) nf to len
    by (simp add: verification_answer_def AgainstAnchor_def Let_def MaxAuditLimit_def i64_def)
qed

text \<open>
  Two ways a sound log is reported as truncated. The page after the last record: a client that
  continues from where a full page ended and finds nothing more is answered not intact, with a
  finding \<open>truncated\<close> at sequence 1 (this happens whenever the log's length is a multiple of the
  page size). And a limit above a thousand over a longer log: the answer is not intact, with a finding
  \<open>truncated\<close> at 1001, because a short page is told by the limit asked for and not by the one applied.
\<close>

lemma sound_log_read_as_truncated:
  assumes "sound_run table zero_record" and "int (length table) < 2 ^ 63"
    and "an_present a" and "an_sequence a = int (length table)"
    and "f = int (length table) + 1 \<and> table \<noteq> [] \<and> 1 \<le> l \<and> at = 1
      \<or> f = 1 \<and> MaxAuditLimit < int (length table) \<and> MaxAuditLimit < l \<and> at = 1001"
  shows "\<exists>b. verifyAuditChain table a (Some f) (Some l) = Inr b \<and> \<not> vb_intact b
      \<and> map (\<lambda>x. (f_break x, f_sequence x)) (vb_findings b) = [(BreakTruncated, at)]"
  using assms(5) empty_page_reports_truncation [OF assms(1,2) _ assms(3,4)]
    large_limit_reports_truncation [OF assms(1,2) _ assms(3,4)] by blast

subsection \<open>Witnesses\<close>

lemma demo_run_sound: "sound_run demo_run zero_record"
  by (simp add: demo_run_def sound_run_seal_run)

lemma demo_run_length: "length demo_run = 2"
  by (simp add: demo_run_eq)

theorem sound_log_page_intact_witness:
  "\<exists>b. verifyAuditChain demo_run demo_anchor (Some 2) (Some 100) = Inr b \<and> vb_intact b \<and> vb_findings b = []
      \<and> vb_from b = 2 \<and> vb_checked b = 1"
proof -
  have "\<exists>b. verifyAuditChain demo_run demo_anchor (Some 2) (Some 100) = Inr b \<and> vb_intact b \<and> vb_findings b = []
      \<and> vb_from b = 2 \<and> vb_checked b = min 100 (int (length demo_run) - 2 + 1)"
    by (rule sound_log_page_intact [OF demo_run_sound])
      (simp_all add: demo_run_length demo_anchor_def MaxAuditLimit_def)
  then show ?thesis by (simp add: demo_run_length)
qed

definition long_run :: "audit_record list" where
  "long_run = seal_run (replicate 1001 (0, zero_record)) zero_record"

lemma length_seal_run_replicate: "length (seal_run (replicate n x) p) = n"
  by (induction n arbitrary: p) (cases x; simp add: Let_def)+

lemma long_run_length: "length long_run = 1001"
  unfolding long_run_def by (rule length_seal_run_replicate)

lemma sound_log_read_as_truncated_witness:
  "(\<exists>b. verifyAuditChain demo_run demo_anchor (Some 3) (Some 2) = Inr b \<and> \<not> vb_intact b
      \<and> map (\<lambda>x. (f_break x, f_sequence x)) (vb_findings b) = [(BreakTruncated, 1)])
   \<and> (\<exists>b. verifyAuditChain long_run (demo_anchor\<lparr>an_sequence := 1001\<rparr>) (Some 1) (Some 2000) = Inr b \<and> \<not> vb_intact b
      \<and> map (\<lambda>x. (f_break x, f_sequence x)) (vb_findings b) = [(BreakTruncated, 1001)])"
proof
  have ne: "demo_run \<noteq> []" by (simp add: demo_run_eq)
  show "\<exists>b. verifyAuditChain demo_run demo_anchor (Some 3) (Some 2) = Inr b \<and> \<not> vb_intact b
      \<and> map (\<lambda>x. (f_break x, f_sequence x)) (vb_findings b) = [(BreakTruncated, 1)]"
    by (rule sound_log_read_as_truncated [OF demo_run_sound]) (simp_all add: demo_run_length demo_anchor_def ne)
  have "sound_run long_run zero_record" by (simp add: long_run_def sound_run_seal_run)
  then show "\<exists>b. verifyAuditChain long_run (demo_anchor\<lparr>an_sequence := 1001\<rparr>) (Some 1) (Some 2000) = Inr b \<and> \<not> vb_intact b
      \<and> map (\<lambda>x. (f_break x, f_sequence x)) (vb_findings b) = [(BreakTruncated, 1001)]"
    by (rule sound_log_read_as_truncated) (simp_all add: long_run_length demo_anchor_def MaxAuditLimit_def)
qed

end
