(* ===== verification/Json.thy ===== *)
theory Json
  imports GoSha256
begin

section \<open>Package encoding/json, as far as the program uses it\<close>

text \<open>
  The values \<open>json.Marshal\<close> writes and \<open>json.Unmarshal\<close> reads, with the byte-level rules for
  strings: HTML characters and control characters are escaped, bytes that are not UTF-8 are
  written as the replacement character, U+2028 and U+2029 are escaped. A Go map is written with
  its keys in byte order; a struct in the order of its fields. Numbers keep their literal text.
  The lemmas show that what is written reads back, for values whose strings are UTF-8.
\<close>

datatype gojson =
    JNull
  | JBool bool
  | JNum string
  | JString string
  | JArray "gojson list"
  | JObject "(string \<times> gojson) list"

text \<open>A \<open>map[string]any\<close>: its entries in byte order of the keys.\<close>

definition json_map :: "(string \<times> gojson) list \<Rightarrow> gojson" where
  "json_map kvs = JObject (sort_key fst kvs)"

definition json_int :: "int \<Rightarrow> gojson" where
  "json_int i = JNum (format_int i)"

subsection \<open>Runes\<close>

abbreviation byte :: "char \<Rightarrow> nat" where
  "byte c \<equiv> of_char c"

definition in_range :: "nat \<Rightarrow> nat \<Rightarrow> char \<Rightarrow> bool" where
  "in_range lo hi c \<longleftrightarrow> lo \<le> byte c \<and> byte c \<le> hi"

abbreviation cont :: "char \<Rightarrow> bool" where
  "cont \<equiv> in_range 0x80 0xBF"

text \<open>The second byte a leading byte of a three- or four-byte rune accepts.\<close>

definition second_ok :: "char \<Rightarrow> char \<Rightarrow> bool" where
  "second_ok a b \<longleftrightarrow>
     (if byte a = 0xE0 then in_range 0xA0 0xBF b
      else if byte a = 0xED then in_range 0x80 0x9F b
      else if byte a = 0xF0 then in_range 0x90 0xBF b
      else if byte a = 0xF4 then in_range 0x80 0x8F b
      else cont b)"

text \<open>The bytes of the rune a string starts with, 0 when they are not UTF-8.\<close>

fun rune_size :: "string \<Rightarrow> nat" where
  "rune_size [] = 0"
| "rune_size (a # s) =
     (if byte a < 0x80 then 1
      else if in_range 0xC2 0xDF a then (case s of b # _ \<Rightarrow> if cont b then 2 else 0 | _ \<Rightarrow> 0)
      else if in_range 0xE0 0xEF a then
        (case s of b # c # _ \<Rightarrow> if second_ok a b \<and> cont c then 3 else 0 | _ \<Rightarrow> 0)
      else if in_range 0xF0 0xF4 a then
        (case s of b # c # d # _ \<Rightarrow> if second_ok a b \<and> cont c \<and> cont d then 4 else 0 | _ \<Rightarrow> 0)
      else 0)"

declare rune_size.simps [simp del]

fun valid_utf8 :: "string \<Rightarrow> bool" where
  "valid_utf8 [] = True"
| "valid_utf8 (c # cs) = (case rune_size (c # cs) of 0 \<Rightarrow> False | Suc n \<Rightarrow> valid_utf8 (drop n cs))"

lemma rune_size_le: "rune_size s \<le> length s"
  by (cases s) (auto simp: rune_size.simps split: list.splits)

lemma rune_size_ascii [simp]: "byte c < 0x80 \<Longrightarrow> rune_size (c # cs) = 1"
  by (simp add: rune_size.simps)

lemma valid_utf8_ascii: "list_all (\<lambda>c. byte c < 0x80) s \<Longrightarrow> valid_utf8 s"
  by (induction s) (auto simp: rune_size_ascii)

text \<open>A rune is known by its own bytes.\<close>

lemma rune_size_take:
  assumes "rune_size (c # cs) = Suc n"
  shows "rune_size (c # take n cs @ t) = Suc n"
  using assms by (auto simp: rune_size.simps split: if_splits list.splits)

definition replacement :: string where
  "replacement = [CHR 0xEF, CHR 0xBF, CHR 0xBD]"

subsection \<open>Strings\<close>

definition quote_ascii :: "char \<Rightarrow> string" where
  "quote_ascii c =
     (if c = CHR 0x22 \<or> c = CHR 0x5C then [CHR 0x5C, c]
      else if c = CHR 0x08 then [CHR 0x5C, CHR ''b'']
      else if c = CHR 0x0C then [CHR 0x5C, CHR ''f'']
      else if c = CHR 0x0A then [CHR 0x5C, CHR ''n'']
      else if c = CHR 0x0D then [CHR 0x5C, CHR ''r'']
      else if c = CHR 0x09 then [CHR 0x5C, CHR ''t'']
      else if byte c < 0x20 \<or> c \<in> {CHR ''<'', CHR ''>'', CHR ''&''} then
        [CHR 0x5C, CHR ''u'', CHR ''0'', CHR ''0''] @ hex_byte c
      else [c])"

fun quote_body :: "string \<Rightarrow> string" where
  "quote_body [] = []"
| "quote_body (c # cs) =
     (if byte c < 0x80 then quote_ascii c @ quote_body cs
      else (case rune_size (c # cs) of
          0 \<Rightarrow> [CHR 0x5C] @ ''ufffd'' @ quote_body cs
        | Suc n \<Rightarrow>
            (if c # take n cs = [CHR 0xE2, CHR 0x80, CHR 0xA8] then [CHR 0x5C] @ ''u2028''
             else if c # take n cs = [CHR 0xE2, CHR 0x80, CHR 0xA9] then [CHR 0x5C] @ ''u2029''
             else c # take n cs) @ quote_body (drop n cs)))"

definition json_quote :: "string \<Rightarrow> string" where
  "json_quote s = CHR 0x22 # quote_body s @ [CHR 0x22]"

definition hex_val :: "char \<Rightarrow> nat option" where
  "hex_val c =
     (if in_range 0x30 0x39 c then Some (byte c - 0x30)
      else if in_range 0x61 0x66 c then Some (byte c - 0x57)
      else if in_range 0x41 0x46 c then Some (byte c - 0x37)
      else None)"

definition hex4 :: "char \<Rightarrow> char \<Rightarrow> char \<Rightarrow> char \<Rightarrow> nat option" where
  "hex4 a b c d =
     (case (hex_val a, hex_val b, hex_val c, hex_val d) of
        (Some i, Some j, Some k, Some l) \<Rightarrow> Some (((i * 16 + j) * 16 + k) * 16 + l)
      | _ \<Rightarrow> None)"

text \<open>\<open>utf8.AppendRune\<close>; a surrogate is not a rune.\<close>

definition rune_bytes :: "nat \<Rightarrow> string" where
  "rune_bytes r =
     (if r < 0x80 then [char_of r]
      else if r < 0x800 then [char_of (0xC0 + r div 64), char_of (0x80 + r mod 64)]
      else if 0xD800 \<le> r \<and> r < 0xE000 \<or> 0x110000 \<le> r then replacement
      else if r < 0x10000 then
        [char_of (0xE0 + r div 4096), char_of (0x80 + r div 64 mod 64), char_of (0x80 + r mod 64)]
      else [char_of (0xF0 + r div 262144), char_of (0x80 + r div 4096 mod 64),
            char_of (0x80 + r div 64 mod 64), char_of (0x80 + r mod 64)])"

definition unescape :: "char \<Rightarrow> char option" where
  "unescape e =
     (if e = CHR 0x22 \<or> e = CHR 0x5C \<or> e = CHR ''/'' then Some e
      else if e = CHR ''b'' then Some (CHR 0x08)
      else if e = CHR ''f'' then Some (CHR 0x0C)
      else if e = CHR ''n'' then Some (CHR 0x0A)
      else if e = CHR ''r'' then Some (CHR 0x0D)
      else if e = CHR ''t'' then Some (CHR 0x09)
      else None)"

definition before :: "string \<Rightarrow> (string \<times> string) option \<Rightarrow> (string \<times> string) option" where
  "before p res = map_option (\<lambda>(s, rest). (p @ s, rest)) res"

text \<open>A string after its opening quote: its bytes and what follows the closing one. An escaped
  high surrogate takes an escaped low one with it.\<close>

fun unquote :: "string \<Rightarrow> (string \<times> string) option" where
  "unquote [] = None"
| "unquote (c # cs) =
     (if c = CHR 0x22 then Some ([], cs)
      else if c = CHR 0x5C then
        (case cs of
           [] \<Rightarrow> None
         | e # ds \<Rightarrow>
             (if e = CHR ''u'' then
                (case ds of
                   h1 # h2 # h3 # h4 # es \<Rightarrow>
                     (case hex4 h1 h2 h3 h4 of
                        None \<Rightarrow> None
                      | Some v \<Rightarrow>
                          (if 0xD800 \<le> v \<and> v < 0xDC00 then
                             (case es of
                                x # y # l1 # l2 # l3 # l4 # fs \<Rightarrow>
                                  (case hex4 l1 l2 l3 l4 of
                                     None \<Rightarrow> before replacement (unquote es)
                                   | Some w \<Rightarrow>
                                       (if x = CHR 0x5C \<and> y = CHR ''u'' \<and> 0xDC00 \<le> w \<and> w < 0xE000 then
                                          before (rune_bytes (0x10000 + (v - 0xD800) * 1024 + (w - 0xDC00)))
                                            (unquote fs)
                                        else before replacement (unquote es)))
                              | _ \<Rightarrow> before replacement (unquote es))
                           else before (rune_bytes v) (unquote es)))
                 | _ \<Rightarrow> None)
              else (case unescape e of None \<Rightarrow> None | Some d \<Rightarrow> before [d] (unquote ds))))
      else if byte c < 0x20 then None
      else if byte c < 0x80 then before [c] (unquote cs)
      else (case rune_size (c # cs) of
          0 \<Rightarrow> before replacement (unquote cs)
        | Suc n \<Rightarrow> before (c # take n cs) (unquote (drop n cs))))"

declare unquote.simps(2) [simp del]

lemma before_Some [simp]: "before p (Some (s, r)) = Some (p @ s, r)"
  by (simp add: before_def)

subsection \<open>Strings read back\<close>

lemma unquote_end [simp]: "unquote (CHR 0x22 # cs) = Some ([], cs)"
  by (simp add: unquote.simps(2))

lemma unquote_escape: "unescape e = Some d \<Longrightarrow> unquote (CHR 0x5C # e # ds) = before [d] (unquote ds)"
  by (auto simp: unquote.simps(2) unescape_def split: if_splits)

lemma unquote_u:
  "hex4 h1 h2 h3 h4 = Some v \<Longrightarrow> v < 0xD800 \<or> 0xDC00 \<le> v
    \<Longrightarrow> unquote (CHR 0x5C # CHR ''u'' # h1 # h2 # h3 # h4 # es) = before (rune_bytes v) (unquote es)"
  by (auto simp: unquote.simps(2))

lemma unquote_plain:
  "0x20 \<le> byte c \<Longrightarrow> byte c < 0x80 \<Longrightarrow> c \<noteq> CHR 0x22 \<Longrightarrow> c \<noteq> CHR 0x5C
    \<Longrightarrow> unquote (c # cs) = before [c] (unquote cs)"
  by (simp add: unquote.simps(2))

lemma byte_nibbles:
  "hex_val (hex_digit (byte c div 16)) = Some (byte c div 16)"
  "hex_val (hex_digit (byte c mod 16)) = Some (byte c mod 16)"
proof -
  have all: "\<forall>n \<in> set [0..<16]. hex_val (hex_digit n) = Some n" by code_simp
  have "hex_val (hex_digit n) = Some n" if "n < 16" for n
    using all that by (simp del: upt_rec_numeral)
  moreover have "byte c div 16 < 16" by (rule char_nibbles)
  ultimately show "hex_val (hex_digit (byte c div 16)) = Some (byte c div 16)"
    "hex_val (hex_digit (byte c mod 16)) = Some (byte c mod 16)" by simp_all
qed

lemma hex4_byte: "hex_byte c = [x, y] \<Longrightarrow> hex4 (CHR ''0'') (CHR ''0'') x y = Some (byte c)"
  using byte_nibbles [of c]
  by (auto simp: hex_byte_def Let_def hex4_def) (simp add: hex_val_def in_range_def)

lemma unquote_u00:
  assumes "byte c < 0x80"
  shows "unquote (CHR 0x5C # CHR ''u'' # CHR ''0'' # CHR ''0'' # hex_byte c @ s) = before [c] (unquote s)"
proof -
  obtain x y where xy: "hex_byte c = [x, y]" by (simp add: hex_byte_def Let_def)
  have "rune_bytes (byte c) = [c]" using assms by (simp add: rune_bytes_def)
  then show ?thesis using assms unquote_u [OF hex4_byte [OF xy]] by (simp add: xy)
qed

lemma unquote_quote_ascii:
  assumes "byte c < 0x80"
  shows "unquote (quote_ascii c @ s) = before [c] (unquote s)"
proof (cases "c \<in> {CHR 0x22, CHR 0x5C, CHR 0x08, CHR 0x0C, CHR 0x0A, CHR 0x0D, CHR 0x09}")
  case True
  then obtain e where "quote_ascii c = [CHR 0x5C, e]" "unescape e = Some c"
    unfolding quote_ascii_def unescape_def by auto
  then show ?thesis by (simp add: unquote_escape)
next
  case False
  show ?thesis
  proof (cases "byte c < 0x20 \<or> c \<in> {CHR ''<'', CHR ''>'', CHR ''&''}")
    case True
    then have "quote_ascii c @ s = CHR 0x5C # CHR ''u'' # CHR ''0'' # CHR ''0'' # hex_byte c @ s"
      using False by (simp add: quote_ascii_def)
    then show ?thesis using unquote_u00 [OF assms] by (simp only:)
  next
    case plain: False
    with False have "quote_ascii c = [c]" by (simp add: quote_ascii_def)
    moreover have "0x20 \<le> byte c" using plain by auto
    ultimately show ?thesis using False assms by (simp add: unquote_plain)
  qed
qed

lemma unquote_multi:
  assumes "\<not> byte c < 0x80" "rune_size (c # cs) = Suc n"
  shows "unquote (c # take n cs @ t) = before (c # take n cs) (unquote t)"
proof -
  have ne: "c \<noteq> CHR 0x22" "c \<noteq> CHR 0x5C" "\<not> byte c < 0x20" using assms(1) by auto
  have le: "n \<le> length cs" using rune_size_le [of "c # cs"] assms(2) by simp
  from rune_size_take [OF assms(2)] have "rune_size (c # take n cs @ t) = Suc n" .
  then show ?thesis
    using ne assms(1) le by (subst unquote.simps) (simp add: min_def)
qed

lemma rune_bytes_separators:
  "rune_bytes 0x2028 = [CHR 0xE2, CHR 0x80, CHR 0xA8]" "rune_bytes 0x2029 = [CHR 0xE2, CHR 0x80, CHR 0xA9]"
  by (simp_all add: rune_bytes_def char_of_def bit_0)

lemma unquote_separators:
  "unquote (CHR 0x5C # ''u2028'' @ t) = before [CHR 0xE2, CHR 0x80, CHR 0xA8] (unquote t)"
  "unquote (CHR 0x5C # ''u2029'' @ t) = before [CHR 0xE2, CHR 0x80, CHR 0xA9] (unquote t)"
  by (simp_all add: unquote_u hex4_def hex_val_def in_range_def rune_bytes_separators)

lemma unquote_quote_rune:
  assumes n: "rune_size (c # cs) = Suc n"
  shows "unquote (quote_body (c # cs) @ t) = before (c # take n cs) (unquote (quote_body (drop n cs) @ t))"
proof (cases "byte c < 0x80")
  case True
  then have "n = 0" using n by (simp add: rune_size_ascii)
  with True show ?thesis by (simp add: unquote_quote_ascii)
next
  case False
  consider "c # take n cs = [CHR 0xE2, CHR 0x80, CHR 0xA8]" | "c # take n cs = [CHR 0xE2, CHR 0x80, CHR 0xA9]"
    | "c # take n cs \<notin> {[CHR 0xE2, CHR 0x80, CHR 0xA8], [CHR 0xE2, CHR 0x80, CHR 0xA9]}" by blast
  then show ?thesis
  proof cases
    case 1
    then have "quote_body (c # cs) = (CHR 0x5C # ''u2028'') @ quote_body (drop n cs)"
      using False n by simp
    then show ?thesis unfolding 1 using unquote_separators(1) by (simp del: quote_body.simps)
  next
    case 2
    then have "quote_body (c # cs) = (CHR 0x5C # ''u2029'') @ quote_body (drop n cs)"
      using False n by simp
    then show ?thesis unfolding 2 using unquote_separators(2) by (simp del: quote_body.simps)
  next
    case 3
    then have "quote_body (c # cs) = (c # take n cs) @ quote_body (drop n cs)"
      using False n by auto
    then show ?thesis using unquote_multi [OF False n] by simp
  qed
qed

text \<open>
  What a string is read back as: every byte that is not part of a valid rune has become U+FFFD.
\<close>

fun repaired :: "string \<Rightarrow> string" where
  "repaired [] = []"
| "repaired (c # cs) =
     (case rune_size (c # cs) of
        0 \<Rightarrow> replacement @ repaired cs
      | Suc n \<Rightarrow> c # take n cs @ repaired (drop n cs))"

lemma repaired_valid [simp]: "valid_utf8 s \<Longrightarrow> repaired s = s"
  by (induction s rule: valid_utf8.induct) (auto split: nat.splits)

lemma rune_size_replacement: "rune_size (replacement @ s) = 3"
  by (simp add: replacement_def rune_size.simps second_ok_def in_range_def)

lemma valid_utf8_replacement: "valid_utf8 (replacement @ s) \<longleftrightarrow> valid_utf8 s"
  using rune_size_replacement [of s] by (simp add: replacement_def numeral_3_eq_3)

lemma valid_utf8_rune:
  assumes "rune_size (c # cs) = Suc n"
  shows "valid_utf8 (c # take n cs @ t) \<longleftrightarrow> valid_utf8 t"
proof -
  have "n \<le> length cs" using rune_size_le [of "c # cs"] assms by simp
  then show ?thesis using rune_size_take [OF assms, of t] by simp
qed

lemma valid_utf8_repaired [simp]: "valid_utf8 (repaired s)"
  by (induction s rule: repaired.induct)
    (auto simp: valid_utf8_replacement valid_utf8_rune simp del: valid_utf8.simps(2) split: nat.split)

lemma valid_utf8_append: "valid_utf8 s \<Longrightarrow> valid_utf8 t \<Longrightarrow> valid_utf8 (s @ t)"
proof (induction s rule: valid_utf8.induct)
  case (2 c cs)
  then obtain n where n: "rune_size (c # cs) = Suc n" by (cases "rune_size (c # cs)") auto
  then have le: "n \<le> length cs" using rune_size_le [of "c # cs"] by simp
  have "valid_utf8 (drop n cs @ t)" using 2 n by simp
  then have "valid_utf8 (c # take n cs @ (drop n cs @ t))" using valid_utf8_rune [OF n] by blast
  then show ?case by (metis append.assoc append_Cons append_take_drop_id)
qed simp

lemma unquote_replacement: "unquote (CHR 0x5C # ''ufffd'' @ t) = before replacement (unquote t)"
  by (simp add: unquote_u hex4_def hex_val_def in_range_def rune_bytes_def replacement_def char_of_def bit_0)

lemma unquote_quote_body:
  "unquote (quote_body s @ CHR 0x22 # rest) = Some (repaired s, rest)"
proof (induction s rule: repaired.induct)
  case (2 c cs)
  show ?case
  proof (cases "rune_size (c # cs)")
    case 0
    then have "\<not> byte c < 0x80" by (metis rune_size_ascii zero_neq_one)
    then have "quote_body (c # cs) = (CHR 0x5C # ''ufffd'') @ quote_body cs" using 0 by simp
    then show ?thesis
      using 2(1) [OF 0] unquote_replacement by (simp add: 0 before_def)
  next
    case (Suc n)
    then show ?thesis using 2(2) [OF Suc] unquote_quote_rune [OF Suc] by (simp add: before_def)
  qed
qed simp

subsection \<open>Values\<close>

fun marshal :: "gojson \<Rightarrow> string" and marshal_elems :: "gojson list \<Rightarrow> string"
  and marshal_members :: "(string \<times> gojson) list \<Rightarrow> string" where
  "marshal JNull = ''null''"
| "marshal (JBool b) = (if b then ''true'' else ''false'')"
| "marshal (JNum t) = t"
| "marshal (JString s) = json_quote s"
| "marshal (JArray vs) = CHR ''['' # marshal_elems vs"
| "marshal (JObject kvs) = CHR ''{'' # marshal_members kvs"
| "marshal_elems [] = '']''"
| "marshal_elems (v # vs) = marshal v @ (if vs = [] then '']'' else CHR '','' # marshal_elems vs)"
| "marshal_members [] = ''}''"
| "marshal_members (kv # kvs) =
     json_quote (fst kv) @ CHR '':'' # marshal (snd kv) @ (if kvs = [] then ''}'' else CHR '','' # marshal_members kvs)"

definition ws :: "char \<Rightarrow> bool" where
  "ws c \<longleftrightarrow> c \<in> {CHR '' '', CHR 0x09, CHR 0x0A, CHR 0x0D}"

definition skip_ws :: "string \<Rightarrow> string" where
  "skip_ws s = dropWhile ws s"

definition is_digit :: "char \<Rightarrow> bool" where
  "is_digit c \<longleftrightarrow> in_range 0x30 0x39 c"

text \<open>The longest number a string starts with, and what follows it.\<close>

definition scan_int :: "string \<Rightarrow> (string \<times> string) option" where
  "scan_int s =
     (case s of
        [] \<Rightarrow> None
      | c # cs \<Rightarrow>
          if c = CHR ''0'' then Some ([c], cs)
          else if is_digit c then Some (c # takeWhile is_digit cs, dropWhile is_digit cs)
          else None)"

definition scan_digits :: "string \<Rightarrow> (string \<times> string) option" where
  "scan_digits s =
     (case takeWhile is_digit s of [] \<Rightarrow> None | d # ds \<Rightarrow> Some (d # ds, dropWhile is_digit s))"

definition scan_frac :: "string \<Rightarrow> (string \<times> string) option" where
  "scan_frac s =
     (case s of
        c # cs \<Rightarrow> if c = CHR ''.'' then before [c] (scan_digits cs) else Some ([], s)
      | [] \<Rightarrow> Some ([], []))"

definition scan_exp :: "string \<Rightarrow> (string \<times> string) option" where
  "scan_exp s =
     (case s of
        c # cs \<Rightarrow>
          if c \<in> {CHR ''e'', CHR ''E''} then
            (case cs of
               d # ds \<Rightarrow> if d \<in> {CHR ''+'', CHR ''-''} then before [c, d] (scan_digits ds) else before [c] (scan_digits cs)
             | [] \<Rightarrow> None)
          else Some ([], s)
      | [] \<Rightarrow> Some ([], []))"

definition and_then :: "(string \<times> string) option \<Rightarrow> (string \<Rightarrow> (string \<times> string) option) \<Rightarrow> (string \<times> string) option" where
  "and_then r f = (case r of None \<Rightarrow> None | Some (p, s) \<Rightarrow> before p (f s))"

definition scan_number :: "string \<Rightarrow> (string \<times> string) option" where
  "scan_number s =
     (let unsigned = (\<lambda>s. and_then (scan_int s) (\<lambda>s. and_then (scan_frac s) scan_exp))
      in case s of
           c # cs \<Rightarrow> if c = CHR ''-'' then before [c] (unsigned cs) else unsigned s
         | [] \<Rightarrow> None)"

text \<open>The parser; its fuel bounds the values, elements and members it may read.\<close>

fun parse_value :: "nat \<Rightarrow> string \<Rightarrow> (gojson \<times> string) option"
  and parse_elems :: "nat \<Rightarrow> string \<Rightarrow> (gojson list \<times> string) option"
  and parse_members :: "nat \<Rightarrow> string \<Rightarrow> ((string \<times> gojson) list \<times> string) option" where
  "parse_value 0 s = None"
| "parse_value (Suc n) s =
     (case skip_ws s of
        [] \<Rightarrow> None
      | c # cs \<Rightarrow>
          if c = CHR ''{'' then
            (case cut_prefix (skip_ws cs) ''}'' of
               Some r \<Rightarrow> Some (JObject [], r)
             | None \<Rightarrow> map_option (map_prod JObject id) (parse_members n cs))
          else if c = CHR ''['' then
            (case cut_prefix (skip_ws cs) '']'' of
               Some r \<Rightarrow> Some (JArray [], r)
             | None \<Rightarrow> map_option (map_prod JArray id) (parse_elems n cs))
          else if c = CHR 0x22 then map_option (map_prod JString id) (unquote cs)
          else if c = CHR ''t'' then map_option (Pair (JBool True)) (cut_prefix cs ''rue'')
          else if c = CHR ''f'' then map_option (Pair (JBool False)) (cut_prefix cs ''alse'')
          else if c = CHR ''n'' then map_option (Pair JNull) (cut_prefix cs ''ull'')
          else map_option (map_prod JNum id) (scan_number (c # cs)))"
| "parse_elems 0 s = None"
| "parse_elems (Suc n) s =
     (case parse_value n s of
        None \<Rightarrow> None
      | Some (v, r) \<Rightarrow>
          (case skip_ws r of
             [] \<Rightarrow> None
           | c # cs \<Rightarrow>
               if c = CHR '','' then map_option (map_prod (Cons v) id) (parse_elems n cs)
               else if c = CHR '']'' then Some ([v], cs)
               else None))"
| "parse_members 0 s = None"
| "parse_members (Suc n) s =
     (case cut_prefix (skip_ws s) [CHR 0x22] of
        None \<Rightarrow> None
      | Some cs \<Rightarrow>
          (case unquote cs of
             None \<Rightarrow> None
           | Some (k, r) \<Rightarrow>
               (case cut_prefix (skip_ws r) '':'' of
                  None \<Rightarrow> None
                | Some vs \<Rightarrow>
                    (case parse_value n vs of
                       None \<Rightarrow> None
                     | Some (v, r) \<Rightarrow>
                         (case skip_ws r of
                            [] \<Rightarrow> None
                          | c # cs \<Rightarrow>
                              if c = CHR '','' then map_option (map_prod (Cons (k, v)) id) (parse_members n cs)
                              else if c = CHR ''}'' then Some ([(k, v)], cs)
                              else None)))))"

text \<open>\<open>json.Unmarshal\<close> into an \<open>any\<close>: the whole input is one value.\<close>

definition unmarshal :: "string \<Rightarrow> gojson option" where
  "unmarshal s =
     (case parse_value (Suc (length s)) s of
        Some (v, r) \<Rightarrow> if skip_ws r = [] then Some v else None
      | None \<Rightarrow> None)"

subsection \<open>Values read back\<close>

definition number_text :: "string \<Rightarrow> bool" where
  "number_text t \<longleftrightarrow>
     (let u = (case t of c # cs \<Rightarrow> if c = CHR ''-'' then cs else t | [] \<Rightarrow> t)
      in scan_int u = Some (u, []))"

fun wf_json :: "gojson \<Rightarrow> bool" and wf_elems :: "gojson list \<Rightarrow> bool"
  and wf_members :: "(string \<times> gojson) list \<Rightarrow> bool" where
  "wf_json JNull = True"
| "wf_json (JBool b) = True"
| "wf_json (JNum t) = number_text t"
| "wf_json (JString s) = valid_utf8 s"
| "wf_json (JArray vs) = wf_elems vs"
| "wf_json (JObject kvs) = wf_members kvs"
| "wf_elems [] = True"
| "wf_elems (v # vs) = (wf_json v \<and> wf_elems vs)"
| "wf_members [] = True"
| "wf_members (kv # kvs) = (valid_utf8 (fst kv) \<and> wf_json (snd kv) \<and> wf_members kvs)"

text \<open>
  What \<open>json.Unmarshal\<close> reads back of what \<open>json.Marshal\<close> wrote: the value itself when its strings
  are valid UTF-8 (\<open>wf_json\<close>), otherwise the value with its strings repaired. A number is text Go writes.
\<close>

fun decoded :: "gojson \<Rightarrow> gojson" and decoded_elems :: "gojson list \<Rightarrow> gojson list"
  and decoded_members :: "(string \<times> gojson) list \<Rightarrow> (string \<times> gojson) list" where
  "decoded JNull = JNull"
| "decoded (JBool b) = JBool b"
| "decoded (JNum t) = JNum t"
| "decoded (JString s) = JString (repaired s)"
| "decoded (JArray vs) = JArray (decoded_elems vs)"
| "decoded (JObject kvs) = JObject (decoded_members kvs)"
| "decoded_elems [] = []"
| "decoded_elems (v # vs) = decoded v # decoded_elems vs"
| "decoded_members [] = []"
| "decoded_members (kv # kvs) = (repaired (fst kv), decoded (snd kv)) # decoded_members kvs"

fun num_json :: "gojson \<Rightarrow> bool" and num_elems :: "gojson list \<Rightarrow> bool"
  and num_members :: "(string \<times> gojson) list \<Rightarrow> bool" where
  "num_json JNull = True"
| "num_json (JBool b) = True"
| "num_json (JNum t) = number_text t"
| "num_json (JString s) = True"
| "num_json (JArray vs) = num_elems vs"
| "num_json (JObject kvs) = num_members kvs"
| "num_elems [] = True"
| "num_elems (v # vs) = (num_json v \<and> num_elems vs)"
| "num_members [] = True"
| "num_members (kv # kvs) = (num_json (snd kv) \<and> num_members kvs)"

lemma wf_num_json:
  "wf_json v \<Longrightarrow> num_json v" "wf_elems vs \<Longrightarrow> num_elems vs" "wf_members kvs \<Longrightarrow> num_members kvs"
  by (induction v and vs and kvs rule: wf_json_wf_elems_wf_members.induct) auto

lemma wf_decoded:
  "wf_json v \<Longrightarrow> decoded v = v" "wf_elems vs \<Longrightarrow> decoded_elems vs = vs" "wf_members kvs \<Longrightarrow> decoded_members kvs = kvs"
  by (induction v and vs and kvs rule: wf_json_wf_elems_wf_members.induct) auto

text \<open>What follows a number must not continue it.\<close>

definition delim :: "string \<Rightarrow> bool" where
  "delim r \<longleftrightarrow> (case r of [] \<Rightarrow> True | c # _ \<Rightarrow> \<not> is_digit c \<and> c \<notin> {CHR ''.'', CHR ''e'', CHR ''E''})"

lemma delim_simps [simp]:
  "delim []" "delim (CHR '','' # r)" "delim (CHR '']'' # r)" "delim (CHR ''}'' # r)"
  by (simp_all add: delim_def is_digit_def in_range_def)

lemma is_digit_digit: "n < 10 \<Longrightarrow> is_digit (digit n)"
  by (simp add: is_digit_def in_range_def digit_def)

lemma dec_digits: "list_all is_digit (dec n)"
  by (induction n rule: dec.induct) (subst dec.simps, simp add: is_digit_digit)

lemma digit_0: "digit 0 = CHR ''0''"
  by (simp add: digit_def char_of_def bit_0)

lemma hd_dec_zero: "hd (dec n) = CHR ''0'' \<Longrightarrow> n = 0"
proof (induction n rule: dec.induct)
  case (1 n)
  show ?case
  proof (cases "n < 10")
    case True
    with 1(2) have "digit n = digit 0" by (subst (asm) dec.simps) (simp add: digit_0)
    then have "digit_val (digit n) = digit_val (digit 0)" by simp
    then show ?thesis using True by simp
  next
    case False
    with 1(2) have "hd (dec (n div 10)) = CHR ''0''" by (subst (asm) dec.simps) simp
    with 1(1) False show ?thesis by simp
  qed
qed

lemma scan_int_dec: "scan_int (dec n) = Some (dec n, [])"
proof -
  obtain d ds where d: "dec n = d # ds" by (cases "dec n") auto
  have digits: "is_digit d" "list_all is_digit ds" using dec_digits [of n] by (simp_all add: d)
  have tw: "takeWhile is_digit ds = ds" "dropWhile is_digit ds = []"
    using digits(2) by (simp_all add: list_all_iff)
  show ?thesis
  proof (cases "d = CHR ''0''")
    case True
    then have "n = 0" using hd_dec_zero [of n] d by simp
    then show ?thesis by (simp add: scan_int_def dec.simps [of 0] digit_0)
  qed (use digits(1) tw d in \<open>simp add: scan_int_def\<close>)
qed

lemma number_text_format_int [simp]: "number_text (format_int i)"
proof (cases "i < 0")
  case True
  then show ?thesis by (simp add: number_text_def format_int_def scan_int_dec)
next
  case False
  obtain d ds where d: "dec (nat i) = d # ds" by (cases "dec (nat i)") auto
  then have "d \<noteq> CHR ''-''" using dec_digits [of "nat i"] by (auto simp: is_digit_def in_range_def)
  with False d show ?thesis using scan_int_dec [of "nat i"] by (simp add: number_text_def format_int_def)
qed

lemma scan_int_append: "scan_int u = Some (u, []) \<Longrightarrow> delim r \<Longrightarrow> scan_int (u @ r) = Some (u, r)"
  by (cases u; cases r)
     (auto simp: scan_int_def delim_def takeWhile_append dropWhile_append dropWhile_eq_Nil_conv split: if_splits)

lemma scan_rest: "delim r \<Longrightarrow> scan_frac r = Some ([], r) \<and> scan_exp r = Some ([], r)"
  by (cases r) (auto simp: delim_def scan_frac_def scan_exp_def)

lemma scan_number_text: "number_text t \<Longrightarrow> delim r \<Longrightarrow> scan_number (t @ r) = Some (t, r)"
proof -
  assume "number_text t" and r: "delim r"
  then obtain c cs where t: "t = c # cs" by (cases t) (auto simp: number_text_def scan_int_def)
  have unsigned: "and_then (scan_int (u @ r)) (\<lambda>s. and_then (scan_frac s) scan_exp) = Some (u, r)"
    if "scan_int u = Some (u, [])" for u
    using scan_int_append [OF that r] scan_rest [OF r] by (simp add: and_then_def)
  show "scan_number (t @ r) = Some (t, r)"
  proof (cases "c = CHR ''-''")
    case True
    then show ?thesis using \<open>number_text t\<close> unsigned [of cs] by (simp add: t number_text_def scan_number_def Let_def)
  next
    case False
    then show ?thesis using \<open>number_text t\<close> unsigned [of t] by (simp add: t number_text_def scan_number_def Let_def)
  qed
qed

text \<open>The fuel a value takes.\<close>

fun nodes :: "gojson \<Rightarrow> nat" and nodes_elems :: "gojson list \<Rightarrow> nat"
  and nodes_members :: "(string \<times> gojson) list \<Rightarrow> nat" where
  "nodes JNull = 1"
| "nodes (JBool b) = 1"
| "nodes (JNum t) = 1"
| "nodes (JString s) = 1"
| "nodes (JArray vs) = 1 + nodes_elems vs"
| "nodes (JObject kvs) = 1 + nodes_members kvs"
| "nodes_elems [] = 0"
| "nodes_elems (v # vs) = 1 + nodes v + nodes_elems vs"
| "nodes_members [] = 0"
| "nodes_members (kv # kvs) = 1 + nodes (snd kv) + nodes_members kvs"

lemma number_text_nonempty: "number_text t \<Longrightarrow> t \<noteq> []"
  by (auto simp: number_text_def scan_int_def)

lemma nodes_le_length:
  "num_json v \<Longrightarrow> nodes v \<le> length (marshal v)"
  "num_elems vs \<Longrightarrow> nodes_elems vs \<le> length (marshal_elems vs)"
  "num_members kvs \<Longrightarrow> nodes_members kvs \<le> length (marshal_members kvs)"
proof (induction v and vs and kvs rule: marshal_marshal_elems_marshal_members.induct)
  case (3 t)
  then show ?case using number_text_nonempty [of t] by (cases t) auto
next
  case (8 v vs)
  then show ?case by (cases "vs = []") auto
qed (auto simp: json_quote_def)

lemma skip_ws_id: "\<not> ws c \<Longrightarrow> skip_ws (c # cs) = c # cs"
  by (simp add: skip_ws_def)

lemma ws_simps [simp]:
  "\<not> ws (CHR '','')" "\<not> ws (CHR '']'')" "\<not> ws (CHR ''}'')" "\<not> ws (CHR 0x22)" "\<not> ws (CHR '':'')"
  "\<not> ws (CHR ''{'')" "\<not> ws (CHR ''['')" "\<not> ws (CHR ''n'')" "\<not> ws (CHR ''t'')" "\<not> ws (CHR ''f'')"
  by (simp_all add: ws_def)

lemma cut_prefix_Cons [simp]:
  "cut_prefix (c # cs) [d] = (if c = d then Some cs else None)"
  "cut_prefix (c # cs) (c # ds) = cut_prefix cs ds"
  "cut_prefix cs [] = Some cs"
  by (auto simp: cut_prefix_def has_prefix_def)

definition number_start :: "char \<Rightarrow> bool" where
  "number_start c \<longleftrightarrow> c = CHR ''-'' \<or> is_digit c"

lemma number_text_hd:
  assumes "number_text t"
  obtains c cs where "t = c # cs" "number_start c"
  using assms
  by (cases t) (auto simp: number_text_def scan_int_def number_start_def is_digit_def in_range_def split: if_splits)

lemma number_start_other:
  assumes "number_start c"
  shows "\<not> ws c" "c \<noteq> CHR ''{''" "c \<noteq> CHR ''[''" "c \<noteq> CHR ''t''" "c \<noteq> CHR ''f''" "c \<noteq> CHR ''n''"
    "c \<noteq> CHR 0x22" "c \<noteq> CHR '']''" "c \<noteq> CHR ''}''"
  using assms by (auto simp: number_start_def is_digit_def in_range_def ws_def)

lemma marshal_hd:
  assumes "num_json v"
  obtains c cs where "marshal v = c # cs" "\<not> ws c" "c \<noteq> CHR '']''"
proof (cases v)
  case (JNum t)
  with assms have "number_text t" by simp
  then obtain c cs where c: "t = c # cs" "number_start c" by (rule number_text_hd)
  show thesis using number_start_other [OF c(2)] by (intro that [of c cs]) (simp_all add: JNum c)
next
  case (JBool b)
  then show thesis using that by (cases b) simp_all
qed (use that in \<open>simp_all add: json_quote_def\<close>)

lemma marshal_elems_hd:
  assumes "num_elems (v # vs)"
  obtains c cs where "marshal_elems (v # vs) = c # cs" "\<not> ws c" "c \<noteq> CHR '']''"
proof -
  from assms have "num_json v" by simp
  then obtain c cs where c: "marshal v = c # cs" "\<not> ws c" "c \<noteq> CHR '']''" by (rule marshal_hd)
  show thesis
    by (rule that [OF _ c(2,3), of "cs @ (if vs = [] then '']'' else CHR '','' # marshal_elems vs)"]) (simp add: c)
qed

lemma parse_marshal:
  "num_json v \<Longrightarrow> nodes v \<le> n \<Longrightarrow> delim r \<Longrightarrow> parse_value n (marshal v @ r) = Some (decoded v, r)"
  "num_elems vs \<Longrightarrow> vs \<noteq> [] \<Longrightarrow> nodes_elems vs \<le> n \<Longrightarrow> parse_elems n (marshal_elems vs @ r) = Some (decoded_elems vs, r)"
  "num_members kvs \<Longrightarrow> kvs \<noteq> [] \<Longrightarrow> nodes_members kvs \<le> n \<Longrightarrow> parse_members n (marshal_members kvs @ r) = Some (decoded_members kvs, r)"
proof (induction v and vs and kvs arbitrary: n r and n r and n r
    rule: marshal_marshal_elems_marshal_members.induct)
  case 1
  then show ?case by (cases n) (simp_all add: skip_ws_id)
next
  case (2 b)
  then show ?case by (cases n; cases b) (simp_all add: skip_ws_id)
next
  case (3 t)
  then obtain m where m: "n = Suc m" by (cases n) auto
  from 3 have "number_text t" by simp
  then obtain c cs where c: "t = c # cs" "number_start c" by (rule number_text_hd)
  note other = number_start_other [OF c(2)]
  have "skip_ws (t @ r) = c # cs @ r" using other(1) by (simp add: c skip_ws_id)
  moreover have "scan_number (c # cs @ r) = Some (t, r)"
    using scan_number_text [OF \<open>number_text t\<close> 3(3)] by (simp add: c)
  ultimately show ?case using other by (simp add: m)
next
  case (4 s)
  then show ?case by (cases n) (simp_all add: json_quote_def skip_ws_id unquote_quote_body)
next
  case (5 vs)
  then obtain m where m: "n = Suc m" "nodes_elems vs \<le> m" by (cases n) auto
  show ?case
  proof (cases vs)
    case Nil
    then show ?thesis by (simp add: m skip_ws_id)
  next
    case (Cons v vs')
    with 5 have "num_elems (v # vs')" by simp
    then obtain c cs where c: "marshal_elems (v # vs') = c # cs" "\<not> ws c" "c \<noteq> CHR '']''"
      by (rule marshal_elems_hd)
    have "parse_elems m (marshal_elems vs @ r) = Some (decoded_elems vs, r)"
      using 5(1) [of m r] 5(2) m(2) Cons by simp
    then have "parse_elems m (c # cs @ r) = Some (decoded_elems vs, r)" by (simp only: Cons c(1) append_Cons)
    then show ?thesis using c by (simp add: m Cons skip_ws_id del: marshal_elems.simps)
  qed
next
  case (6 kvs)
  then obtain m where m: "n = Suc m" "nodes_members kvs \<le> m" by (cases n) auto
  show ?case
  proof (cases kvs)
    case Nil
    then show ?thesis by (simp add: m skip_ws_id)
  next
    case (Cons kv kvs')
    have "\<exists>cs. marshal_members kvs @ r = CHR 0x22 # cs" by (simp add: Cons json_quote_def)
    then obtain cs where cs: "marshal_members kvs @ r = CHR 0x22 # cs" by blast
    have "parse_members m (marshal_members kvs @ r) = Some (decoded_members kvs, r)"
      using 6(1) [of m r] 6(2) m(2) Cons by simp
    then show ?thesis using cs by (simp add: m skip_ws_id)
  qed
next
  case (8 v vs)
  then obtain m where m: "n = Suc m" by (cases n) auto
  let ?t = "(if vs = [] then '']'' else CHR '','' # marshal_elems vs) @ r"
  have "parse_value m (marshal v @ ?t) = Some (decoded v, ?t)"
    by (rule 8(1)) (use 8(3-) m in auto)
  with 8 m show ?case by (cases "vs = []") (simp_all add: skip_ws_id)
next
  case (10 kv kvs)
  then obtain m where m: "n = Suc m" by (cases n) auto
  let ?t = "(if kvs = [] then ''}'' else CHR '','' # marshal_members kvs) @ r"
  have val: "parse_value m (marshal (snd kv) @ ?t) = Some (decoded (snd kv), ?t)"
    by (rule 10(1)) (use 10(3-) m in auto)
  have key: "unquote (quote_body (fst kv) @ CHR 0x22 # CHR '':'' # marshal (snd kv) @ ?t)
      = Some (repaired (fst kv), CHR '':'' # marshal (snd kv) @ ?t)"
    by (rule unquote_quote_body)
  show ?case
  proof (cases "kvs = []")
    case True
    then show ?thesis using key val by (simp add: m json_quote_def skip_ws_id)
  next
    case False
    then have "parse_members m (marshal_members kvs @ r) = Some (decoded_members kvs, r)"
      using 10(2) [of m r] 10(3,5) m by simp
    then show ?thesis using key val False by (simp add: m json_quote_def skip_ws_id)
  qed
qed simp_all

text \<open>What \<open>json.Marshal\<close> writes, \<open>json.Unmarshal\<close> reads: the fuel, the input's own length,
  is enough.\<close>

lemma unmarshal_marshal_decoded: "num_json v \<Longrightarrow> unmarshal (marshal v) = Some (decoded v)"
proof -
  assume v: "num_json v"
  have "parse_value (Suc (length (marshal v))) (marshal v @ []) = Some (decoded v, [])"
    by (rule parse_marshal(1)) (use v nodes_le_length(1) [OF v] in auto)
  then show ?thesis by (simp add: unmarshal_def skip_ws_def)
qed

lemma unmarshal_marshal: "wf_json v \<Longrightarrow> unmarshal (marshal v) = Some v"
  by (simp add: unmarshal_marshal_decoded wf_num_json wf_decoded)

subsection \<open>Reading members\<close>

text \<open>A decoded map holds the last of the members of one name; \<open>json_get\<close> looks one up.\<close>

definition json_get :: "(string \<times> gojson) list \<Rightarrow> string \<Rightarrow> gojson option" where
  "json_get kvs k = map_of (rev kvs) k"

lemma map_of_perm: "distinct (map fst xs) \<Longrightarrow> mset xs = mset ys \<Longrightarrow> map_of ys = map_of xs"
  by (metis map_of_eqI map_of_inject_set mset_eq_imp_distinct_iff mset_eq_setD mset_map set_map)

lemma json_get_distinct: "distinct (map fst kvs) \<Longrightarrow> json_get kvs k = map_of kvs k"
  unfolding json_get_def using map_of_perm [of kvs "rev kvs"] by simp

end
