(* ===== verification/AuditTransition.thy ===== *)
theory AuditTransition
  imports AuditChain Json
begin

section \<open>Transitions and their classification (internal/audit/recorder.go, privilege.go)\<close>

text \<open>
  What a reconciler hands to the recorder and the row it becomes: who the change is attributed
  to, and the details with the privilege class inside them, where the chain hashes it. The
  properties show that the class reads back from the record, that a record nobody classified
  does not read as privileged, and who a row names.
\<close>

definition RequestedByAnnotation :: string where
  "RequestedByAnnotation = ''kitchen.bermos.dev/requested-by''"

definition UnknownActor :: string where "UnknownActor = ''unknown''"

definition ControllerActor :: "string \<Rightarrow> string" where
  "ControllerActor controller =
     (if controller = [] then UnknownActor else ''system:controller/'' @ controller)"

definition AuditCreate :: string where "AuditCreate = ''create''"
definition AuditUpdate :: string where "AuditUpdate = ''update''"
definition AuditTransition :: string where "AuditTransition = ''transition''"
definition AuditDelete :: string where "AuditDelete = ''delete''"
definition AuditExport :: string where "AuditExport = ''export''"
definition ActorUser :: string where "ActorUser = ''user''"
definition ActorService :: string where "ActorService = ''service''"

subsection \<open>The classes of privileged act\<close>

definition PrivilegeBreakGlass :: string where "PrivilegeBreakGlass = ''break-glass''"
definition PrivilegeRequirements :: string where "PrivilegeRequirements = ''requirements''"
definition PrivilegeClassification :: string where "PrivilegeClassification = ''classification''"
definition PrivilegeAccess :: string where "PrivilegeAccess = ''access''"
definition PrivilegeCredential :: string where "PrivilegeCredential = ''credential''"
definition PrivilegeIntegrity :: string where "PrivilegeIntegrity = ''integrity''"

definition PrivilegedDetail :: string where "PrivilegedDetail = ''privileged''"
definition PrivilegeClassDetail :: string where "PrivilegeClassDetail = ''privilegedClass''"

lemmas privilege_defs = PrivilegeBreakGlass_def PrivilegeRequirements_def PrivilegeClassification_def
  PrivilegeAccess_def PrivilegeCredential_def PrivilegeIntegrity_def

definition Privilege_Valid :: "string \<Rightarrow> bool" where
  "Privilege_Valid p \<longleftrightarrow> p = PrivilegeBreakGlass \<or> p = PrivilegeRequirements \<or> p = PrivilegeClassification
     \<or> p = PrivilegeAccess \<or> p = PrivilegeCredential \<or> p = PrivilegeIntegrity"

definition Privileges :: "string list" where
  "Privileges = [PrivilegeBreakGlass, PrivilegeRequirements, PrivilegeClassification,
     PrivilegeAccess, PrivilegeCredential, PrivilegeIntegrity]"

definition PrivilegeOf :: "string \<Rightarrow> string \<times> bool" where
  "PrivilegeOf details =
     (if details = [] then ([], False)
      else (case unmarshal details of
          Some (JObject members) \<Rightarrow>
            (case json_get members PrivilegedDetail of
               Some (JBool True) \<Rightarrow>
                 (case json_get members PrivilegeClassDetail of
                    Some (JString class) \<Rightarrow> (class, True)
                  | _ \<Rightarrow> ([], True))
             | _ \<Rightarrow> ([], False))
        | _ \<Rightarrow> ([], False)))"

subsection \<open>The transition and its row\<close>

record kube_object =
  ob_namespace :: string
  ob_name :: string
  ob_uid :: string
  ob_annotations :: "string \<rightharpoonup> string"

text \<open>The details are a Go map: its entries, one per key, each a value and whether
  \<open>json.Marshal\<close> can write it (None is one it refuses).\<close>

type_synonym details = "(string \<times> gojson option) list"

record transition =
  tr_object :: "kube_object option"
  tr_kind :: string
  tr_operation :: string
  tr_from :: string
  tr_to :: string
  tr_project :: string
  tr_reason :: string
  tr_controller :: string
  tr_actor :: string
  tr_correlation :: string
  tr_details :: details
  tr_privileged :: string

definition map_set :: "string \<Rightarrow> 'v \<Rightarrow> (string \<times> 'v) list \<Rightarrow> (string \<times> 'v) list" where
  "map_set k v kvs = (k, v) # filter (\<lambda>kv. fst kv \<noteq> k) kvs"

definition recorded_fields :: "transition \<Rightarrow> details" where
  "recorded_fields t =
     (if tr_privileged t \<noteq> [] then
        map_set PrivilegeClassDetail (Some (JString (tr_privileged t)))
          (map_set PrivilegedDetail (Some (JBool True)) (tr_details t))
      else tr_details t)"

definition marshal_details :: "details \<Rightarrow> string option" where
  "marshal_details fs =
     (if list_all (\<lambda>kv. snd kv \<noteq> None) fs
      then Some (marshal (json_map (map (\<lambda>kv. (fst kv, the (snd kv))) fs))) else None)"

text \<open>Who a transition is attributed to; asked only of a transition that names its object.\<close>

definition transition_actor :: "transition \<Rightarrow> kube_object \<Rightarrow> string \<Rightarrow> string \<times> string" where
  "transition_actor t obj operation =
     (if tr_actor t \<noteq> [] then (tr_actor t, ActorUser)
      else
        (let requester = (case ob_annotations obj RequestedByAnnotation of None \<Rightarrow> [] | Some v \<Rightarrow> v)
         in if operation \<noteq> AuditTransition \<and> requester \<noteq> [] then (requester, ActorUser)
            else (ControllerActor (tr_controller t), ActorService)))"

datatype record_error = NamesNoObject | NotEncodable

definition transition_record :: "transition \<Rightarrow> record_error + audit_record" where
  "transition_record t =
     (case tr_object t of
        None \<Rightarrow> Inl NamesNoObject
      | Some obj \<Rightarrow>
          (let operation = (if tr_operation t = [] then AuditTransition else tr_operation t);
               fs = recorded_fields t;
               correlation = (if tr_correlation t = [] then ob_uid obj else tr_correlation t);
               row = (\<lambda>details. zero_record\<lparr>
                 ar_actor := fst (transition_actor t obj operation),
                 ar_actor_kind := snd (transition_actor t obj operation),
                 ar_correlation := correlation, ar_operation := operation,
                 ar_kind := tr_kind t, ar_namespace := ob_namespace obj, ar_name := ob_name obj,
                 ar_uid := ob_uid obj, ar_project := tr_project t, ar_from_state := tr_from t,
                 ar_to_state := tr_to t, ar_reason := tr_reason t, ar_details := details\<rparr>)
           in if fs = [] then Inr (row [])
              else (case marshal_details fs of
                  None \<Rightarrow> Inl NotEncodable
                | Some details \<Rightarrow> Inr (row details))))"

subsection \<open>Go maps as lists of entries\<close>

lemma map_of_map_set: "map_of (map_set k v kvs) = (map_of kvs)(k \<mapsto> v)"
proof -
  have "map_of (filter (\<lambda>kv. fst kv \<noteq> k) kvs) x = (if x = k then None else map_of kvs x)" for x
    by (induction kvs) auto
  then show ?thesis by (rule_tac ext) (simp add: map_set_def)
qed

lemma distinct_map_set: "distinct (map fst kvs) \<Longrightarrow> distinct (map fst (map_set k v kvs))"
  by (auto simp: map_set_def distinct_map inj_on_def)

lemma map_of_sort_key: "distinct (map fst kvs) \<Longrightarrow> map_of (sort_key fst kvs) = map_of kvs"
  by (rule map_of_perm) simp_all

text \<open>Details a JSON decoder reads back: one entry per key, every value writable, all text UTF-8.\<close>

definition wf_details :: "details \<Rightarrow> bool" where
  "wf_details d \<longleftrightarrow> distinct (map fst d)
     \<and> list_all (\<lambda>kv. valid_utf8 (fst kv) \<and> (case snd kv of None \<Rightarrow> False | Some v \<Rightarrow> wf_json v)) d"

lemma wf_members_iff: "wf_members kvs \<longleftrightarrow> list_all (\<lambda>kv. valid_utf8 (fst kv) \<and> wf_json (snd kv)) kvs"
  by (induction kvs) auto

lemma wf_json_map: "list_all (\<lambda>kv. valid_utf8 (fst kv) \<and> wf_json (snd kv)) kvs \<Longrightarrow> wf_json (json_map kvs)"
  by (simp add: json_map_def wf_members_iff list_all_iff)

lemma wf_details_set:
  "wf_details d \<Longrightarrow> valid_utf8 k \<Longrightarrow> wf_json v \<Longrightarrow> wf_details (map_set k (Some v) d)"
  by (auto simp: wf_details_def distinct_map_set) (auto simp: map_set_def list_all_iff)

lemma marshal_details_read:
  assumes "wf_details d"
  obtains s kvs where "marshal_details d = Some s" "s \<noteq> []" "unmarshal s = Some (JObject kvs)"
    "\<And>k. json_get kvs k = (case map_of d k of None \<Rightarrow> None | Some v \<Rightarrow> v)"
proof -
  let ?vs = "map (\<lambda>kv. (fst kv, the (snd kv))) d"
  have some: "list_all (\<lambda>kv. snd kv \<noteq> None) d" and dist: "distinct (map fst d)"
    using assms by (auto simp: wf_details_def list_all_iff split: option.splits)
  have keys: "map fst ?vs = map fst d" by simp
  have dv: "distinct (map fst ?vs)" by (simp only: keys dist)
  have "wf_json (json_map ?vs)"
    by (rule wf_json_map) (use assms in \<open>auto simp: wf_details_def list_all_iff split: option.splits\<close>)
  from unmarshal_marshal [OF this]
  have read: "unmarshal (marshal (json_map ?vs)) = Some (JObject (sort_key fst ?vs))"
    unfolding json_map_def .
  have get: "json_get (sort_key fst ?vs) k = (case map_of d k of None \<Rightarrow> None | Some v \<Rightarrow> v)" for k
  proof -
    have "distinct (map fst (sort_key fst ?vs))"
    proof -
      have "mset (map fst (sort_key fst ?vs)) = mset (map fst d)" by (simp only: mset_map mset_sort keys [symmetric])
      then show ?thesis using dist by (blast dest: mset_eq_imp_distinct_iff)
    qed
    then have "json_get (sort_key fst ?vs) k = map_of ?vs k"
      by (simp only: json_get_distinct map_of_sort_key [OF dv])
    also have "\<dots> = (case map_of d k of None \<Rightarrow> None | Some v \<Rightarrow> v)"
      using some by (induction d) auto
    finally show ?thesis .
  qed
  have "marshal_details d = Some (marshal (json_map ?vs))" using some by (simp only: marshal_details_def if_True)
  moreover have "marshal (json_map ?vs) \<noteq> []" by (simp only: json_map_def marshal.simps) simp
  ultimately show thesis by (rule that [OF _ _ read get])
qed

lemma transition_record_Inr:
  assumes "transition_record t = Inr r"
  obtains obj operation where "tr_object t = Some obj"
    "operation = (if tr_operation t = [] then AuditTransition else tr_operation t)"
    "ar_actor r = fst (transition_actor t obj operation)"
    "ar_actor_kind r = snd (transition_actor t obj operation)"
    "ar_operation r = operation"
    "if recorded_fields t = [] then ar_details r = [] else marshal_details (recorded_fields t) = Some (ar_details r)"
  using assms by (auto simp: transition_record_def Let_def split: option.splits if_splits)

lemma PrivilegeOf_details:
  assumes "wf_details d"
  obtains s where "marshal_details d = Some s"
    "PrivilegeOf s = (case map_of d PrivilegedDetail of
         Some (Some (JBool True)) \<Rightarrow>
           (case map_of d PrivilegeClassDetail of Some (Some (JString c)) \<Rightarrow> (c, True) | _ \<Rightarrow> ([], True))
       | _ \<Rightarrow> ([], False))"
proof -
  from marshal_details_read [OF assms] obtain s kvs where s:
    "marshal_details d = Some s" "s \<noteq> []" "unmarshal s = Some (JObject kvs)"
    and get: "\<And>k. json_get kvs k = (case map_of d k of None \<Rightarrow> None | Some v \<Rightarrow> v)" by blast
  show thesis
    by (rule that [OF s(1)])
      (use s get in \<open>auto simp: PrivilegeOf_def split: option.splits gojson.splits bool.splits\<close>)
qed

subsection \<open>Properties\<close>

lemma classified_reads_back:
  assumes "transition_record t = Inr r" and "wf_details (tr_details t)"
    and "Privilege_Valid (tr_privileged t)"
  shows "PrivilegeOf (ar_details r) = (tr_privileged t, True)"
proof -
  have ne: "tr_privileged t \<noteq> []" using assms(3) by (auto simp: Privilege_Valid_def privilege_defs)
  have utf8: "valid_utf8 (tr_privileged t)" "valid_utf8 PrivilegedDetail" "valid_utf8 PrivilegeClassDetail"
    by (rule valid_utf8_ascii, use assms(3) in \<open>auto simp: Privilege_Valid_def privilege_defs
      PrivilegedDetail_def PrivilegeClassDetail_def\<close>)+
  have wf: "wf_details (recorded_fields t)"
    using ne utf8 assms(2) by (simp add: recorded_fields_def wf_details_set)
  have keys: "PrivilegedDetail \<noteq> PrivilegeClassDetail" by (simp add: PrivilegedDetail_def PrivilegeClassDetail_def)
  have "map_of (recorded_fields t) PrivilegedDetail = Some (Some (JBool True))"
    "map_of (recorded_fields t) PrivilegeClassDetail = Some (Some (JString (tr_privileged t)))"
    using ne keys by (simp_all add: recorded_fields_def map_of_map_set)
  moreover from this have "recorded_fields t \<noteq> []" by auto
  moreover obtain s where "marshal_details (recorded_fields t) = Some s"
    "PrivilegeOf s = (case map_of (recorded_fields t) PrivilegedDetail of
         Some (Some (JBool True)) \<Rightarrow>
           (case map_of (recorded_fields t) PrivilegeClassDetail of Some (Some (JString c)) \<Rightarrow> (c, True) | _ \<Rightarrow> ([], True))
       | _ \<Rightarrow> ([], False))" by (rule PrivilegeOf_details [OF wf])
  ultimately show ?thesis by (rule_tac transition_record_Inr [OF assms(1)]) simp
qed

lemma unclassified_is_ordinary:
  assumes "transition_record t = Inr r" and "wf_details (tr_details t)"
    and "tr_privileged t = []" and "PrivilegedDetail \<notin> set (map fst (tr_details t))"
  shows "PrivilegeOf (ar_details r) = ([], False)"
proof (cases "tr_details t = []")
  case True
  then have "ar_details r = []"
    using assms(3) by (rule_tac transition_record_Inr [OF assms(1)]) (simp add: recorded_fields_def)
  then show ?thesis by (simp add: PrivilegeOf_def)
next
  case False
  have f: "recorded_fields t = tr_details t" using assms(3) by (simp add: recorded_fields_def)
  have "map_of (tr_details t) PrivilegedDetail = None"
    using assms(4) by (simp add: map_of_eq_None_iff)
  moreover obtain s where "marshal_details (tr_details t) = Some s"
    "PrivilegeOf s = (case map_of (tr_details t) PrivilegedDetail of
         Some (Some (JBool True)) \<Rightarrow>
           (case map_of (tr_details t) PrivilegeClassDetail of Some (Some (JString c)) \<Rightarrow> (c, True) | _ \<Rightarrow> ([], True))
       | _ \<Rightarrow> ([], False))" by (rule PrivilegeOf_details [OF assms(2)])
  ultimately show ?thesis using False by (rule_tac transition_record_Inr [OF assms(1)]) (simp add: f)
qed

text \<open>
  C9. The class a caller gives a transition is the class its record reads back as: whatever else
  the details hold (a \<open>privileged\<close> or a class of the caller's own included), the record that
  \<open>record\<close> builds answers \<open>PrivilegeOf\<close> with that class, and privileged; and nothing reads as
  privileged that nobody classified.
\<close>

theorem privilege_roundtrip:
  assumes "transition_record t = Inr r" and "wf_details (tr_details t)"
    and "Privilege_Valid (tr_privileged t) \<or> tr_privileged t = [] \<and> PrivilegedDetail \<notin> set (map fst (tr_details t))"
  shows "PrivilegeOf (ar_details r) = (tr_privileged t, tr_privileged t \<noteq> [])"
proof (cases "tr_privileged t = []")
  case True
  then have "\<not> Privilege_Valid (tr_privileged t)" by (simp add: Privilege_Valid_def privilege_defs)
  with True assms(3) unclassified_is_ordinary [OF assms(1,2) True] show ?thesis by simp
next
  case False
  with assms(3) classified_reads_back [OF assms(1,2)] show ?thesis by simp
qed

text \<open>
  A decision the platform made is never attributed to the person whose request is still
  annotated on the object: without an explicit actor, a transition (the default operation) names
  its controller as a service; any other operation names the requester when there is one.
\<close>

lemma attribution:
  assumes "transition_record t = Inr r" and "tr_actor t = []"
  shows "(ar_operation r = AuditTransition \<longrightarrow>
            ar_actor r = ControllerActor (tr_controller t) \<and> ar_actor_kind r = ActorService)
    \<and> (ar_operation r \<noteq> AuditTransition \<longrightarrow>
        (\<exists>obj. tr_object t = Some obj \<and>
          (case ob_annotations obj RequestedByAnnotation of
             Some v \<Rightarrow> if v = [] then ar_actor r = ControllerActor (tr_controller t) \<and> ar_actor_kind r = ActorService
                        else ar_actor r = v \<and> ar_actor_kind r = ActorUser
           | None \<Rightarrow> ar_actor r = ControllerActor (tr_controller t) \<and> ar_actor_kind r = ActorService)))"
  by (rule transition_record_Inr [OF assms(1)])
    (auto simp: assms(2) transition_actor_def Let_def split: option.splits)

subsection \<open>Witnesses\<close>

definition demo_object :: kube_object where
  "demo_object = \<lparr>ob_namespace = ''kitchen'', ob_name = ''shop'', ob_uid = ''u1'',
     ob_annotations = [RequestedByAnnotation \<mapsto> ''anna'']\<rparr>"

definition demo_transition :: transition where
  "demo_transition = \<lparr>tr_object = Some demo_object, tr_kind = ''Project'', tr_operation = [],
     tr_from = ''Pending'', tr_to = ''Ready'', tr_project = ''shop'', tr_reason = ''ready'',
     tr_controller = ''project'', tr_actor = [], tr_correlation = [],
     tr_details = [(''image'', Some (JString ''a&b''))], tr_privileged = PrivilegeAccess\<rparr>"

lemma demo_details: "wf_details (tr_details demo_transition)"
  by (simp add: demo_transition_def wf_details_def)

lemma demo_recorded:
  "\<exists>r. transition_record demo_transition = Inr r \<and> ar_operation r = AuditTransition"
  "\<exists>r. transition_record (demo_transition\<lparr>tr_privileged := []\<rparr>) = Inr r"
  by (simp_all add: transition_record_def demo_transition_def recorded_fields_def map_set_def
      marshal_details_def Let_def PrivilegeAccess_def)

theorem privilege_roundtrip_witness:
  "(\<exists>r. transition_record demo_transition = Inr r \<and> PrivilegeOf (ar_details r) = (PrivilegeAccess, True))
   \<and> (\<exists>r. transition_record (demo_transition\<lparr>tr_privileged := []\<rparr>) = Inr r \<and> PrivilegeOf (ar_details r) = ([], False))"
proof
  obtain r where r: "transition_record demo_transition = Inr r" using demo_recorded(1) by blast
  have cls: "tr_privileged demo_transition = PrivilegeAccess" "PrivilegeAccess \<noteq> []" by (simp_all add: demo_transition_def PrivilegeAccess_def)
  have "Privilege_Valid (tr_privileged demo_transition)" by (simp add: demo_transition_def Privilege_Valid_def)
  with privilege_roundtrip [OF r demo_details] r show
    "\<exists>r. transition_record demo_transition = Inr r \<and> PrivilegeOf (ar_details r) = (PrivilegeAccess, True)" by (simp add: cls)
next
  obtain r where r: "transition_record (demo_transition\<lparr>tr_privileged := []\<rparr>) = Inr r" using demo_recorded(2) by blast
  have "PrivilegeOf (ar_details r) = ([], False)"
    using privilege_roundtrip [OF r] demo_details by (simp add: demo_transition_def PrivilegedDetail_def)
  with r show "\<exists>r. transition_record (demo_transition\<lparr>tr_privileged := []\<rparr>) = Inr r \<and> PrivilegeOf (ar_details r) = ([], False)"
    by blast
qed

lemma attribution_witness:
  "\<exists>r. transition_record demo_transition = Inr r \<and> ar_actor r = ''system:controller/project''"
proof -
  obtain r where r: "transition_record demo_transition = Inr r" "ar_operation r = AuditTransition"
    using demo_recorded(1) by blast
  have "tr_actor demo_transition = []" by (simp add: demo_transition_def)
  from attribution [OF r(1) this] r show ?thesis by (simp add: demo_transition_def ControllerActor_def)
qed

end
