(* ===== verification/Kube.thy ===== *)
theory Kube
  imports Prelude
begin

section \<open>Answers of the Kubernetes API\<close>

text \<open>
  What a request to the API server is answered with when it is not answered with an object: the
  three refusals the code tells apart (\<open>apierrors.IsNotFound\<close>, \<open>IsConflict\<close>, \<open>IsAlreadyExists\<close>)
  and everything else, by its text.
\<close>

datatype kube_error = NotFound | Conflict | AlreadyExists | Unanswered string

text \<open>A Secret as the code reads one: a key that is absent reads as the empty value.\<close>

record kube_secret =
  ks_name :: string
  ks_uid :: string
  ks_version :: string
  ks_data :: "string \<rightharpoonup> string"

definition secret_value :: "kube_secret \<Rightarrow> string \<Rightarrow> string" where
  "secret_value s k = (case ks_data s k of None \<Rightarrow> [] | Some v \<Rightarrow> v)"

text \<open>The namespace a project's workloads run in.\<close>

definition AppNamespace :: "string \<Rightarrow> string" where
  "AppNamespace project = ''kitchen-'' @ project"

end
