(* ===== verification/AuditHead.thy ===== *)
theory AuditHead
  imports AuditTransition Kube
begin

section \<open>Claiming, appending and anchoring (internal/audit/head.go, recorder.go)\<close>

text \<open>
  The recorder: it claims the next number of the chain through a ConfigMap (\<open>claim\<close>), inserts
  the sealed record into the table, and gives the number back when the insert fails
  (\<open>release\<close>). \<open>establishAnchor\<close> and \<open>recordAdoption\<close> make an anchor taken from the table say so
  in the log. The API server and the store are a parameter, the record \<open>services\<close>; what the code
  relies on of them is the locale \<open>audit_services\<close>. A call takes the world before it and returns
  its answer with the world after it; the recorder is passed along the same way. An error is a
  value of \<open>audit_error\<close>: its constructor says which error the code returns, its wording is left
  out.
\<close>

subsection \<open>The object the head lives in\<close>

record config_map =
  cm_namespace :: string
  cm_name :: string
  cm_labels :: "(string \<times> string) list"
  cm_version :: nat
  cm_data :: "string \<rightharpoonup> string"

definition HeadName :: string where "HeadName = ''kitchen-audit-head''"
definition headKeySequence :: string where "headKeySequence = ''sequence''"
definition headKeyHash :: string where "headKeyHash = ''hash''"
definition headKeyOrigin :: string where "headKeyOrigin = ''origin''"
definition headKeyEstablished :: string where "headKeyEstablished = ''establishedAt''"
definition headKeyAdoptedFrom :: string where "headKeyAdoptedFrom = ''adoptedFrom''"
definition headKeyAdoptionRecorded :: string where "headKeyAdoptionRecorded = ''adoptionRecorded''"
definition headAdoptionDone :: string where "headAdoptionDone = ''true''"
definition headClaimAttempts :: nat where "headClaimAttempts = 5"
definition KindAuditAnchor :: string where "KindAuditAnchor = ''AuditAnchor''"
definition ChangeAuditAnchorAdopted :: string where "ChangeAuditAnchorAdopted = ''audit-anchor-adopted''"

lemmas head_key_defs = headKeySequence_def headKeyHash_def headKeyOrigin_def headKeyEstablished_def
  headKeyAdoptedFrom_def headKeyAdoptionRecorded_def

text \<open>A key the data does not have reads as the empty string.\<close>

definition cm_value :: "config_map \<Rightarrow> string \<Rightarrow> string" where
  "cm_value config k = (case cm_data config k of None \<Rightarrow> [] | Some v \<Rightarrow> v)"

definition cm_set :: "string \<Rightarrow> string \<Rightarrow> config_map \<Rightarrow> config_map" where
  "cm_set k v config = config\<lparr>cm_data := (cm_data config)(k \<mapsto> v)\<rparr>"

definition readHeadData :: "config_map \<Rightarrow> audit_record" where
  "readHeadData config =
     zero_record\<lparr>ar_sequence := parse_int (cm_value config headKeySequence), ar_hash := cm_value config headKeyHash\<rparr>"

definition writeHead :: "config_map \<Rightarrow> audit_record \<Rightarrow> config_map" where
  "writeHead config r = cm_set headKeyHash (ar_hash r) (cm_set headKeySequence (format_int (ar_sequence r)) config)"

definition anchorFrom :: "config_map \<Rightarrow> anchor" where
  "anchorFrom config =
     (let h = readHeadData config; origin = cm_value config headKeyOrigin
      in \<lparr>an_present = True, an_sequence = ar_sequence h, an_hash = ar_hash h,
           an_origin = (if origin = OriginGenesis \<or> origin = OriginAdopted then origin else OriginUnknown),
           an_established = cm_value config headKeyEstablished,
           an_adopted_from = parse_int (cm_value config headKeyAdoptedFrom), an_unreadable = []\<rparr>)"

text \<open>The object \<open>readHead\<close> creates: an adoption when the table already holds records.\<close>

definition fresh_head :: "string \<Rightarrow> time \<Rightarrow> audit_record \<Rightarrow> config_map" where
  "fresh_head ns now seed =
     (let config = \<lparr>cm_namespace = ns, cm_name = HeadName,
            cm_labels = [(''app.kubernetes.io/managed-by'', ''kitchen'')], cm_version = 0,
            cm_data = [headKeyOrigin \<mapsto> OriginGenesis, headKeyEstablished \<mapsto> format_rfc3339 now]\<rparr>
      in if 0 < ar_sequence seed then
           cm_set headKeyAdoptionRecorded ''false''
             (cm_set headKeyAdoptedFrom (format_int (ar_sequence seed)) (cm_set headKeyOrigin OriginAdopted config))
         else config)"

subsection \<open>The configuration of the log\<close>

record kitchen =
  ki_audit_enabled :: bool
  ki_secret_ref :: "string option"

record store_secret =
  ss_namespace :: string
  ss_name :: string
  ss_data :: "string \<rightharpoonup> string"

record conn =
  co_host :: string
  co_http_port :: string
  co_database :: string
  co_username :: string
  co_password :: string
  co_scheme :: string
  co_ca_file :: string
  co_bounded :: bool

definition identifier_ok :: "string \<Rightarrow> bool" where
  "identifier_ok s \<longleftrightarrow> s \<noteq> []
     \<and> (in_range 0x41 0x5A (hd s) \<or> in_range 0x61 0x7A (hd s) \<or> hd s = CHR ''_'')
     \<and> list_all (\<lambda>c. in_range 0x41 0x5A c \<or> in_range 0x61 0x7A c \<or> in_range 0x30 0x39 c \<or> c = CHR ''_'') (tl s)"

datatype secret_error = MissingKeys "string list" | UnusableDatabase string | UnknownScheme string

definition ConfigFromSecret :: "store_secret \<Rightarrow> secret_error + conn" where
  "ConfigFromSecret secret =
     (let value = (\<lambda>k. case ss_data secret k of None \<Rightarrow> [] | Some v \<Rightarrow> v);
          cfg = \<lparr>co_host = value ''host'', co_http_port = value ''httpPort'', co_database = value ''database'',
            co_username = value ''username'', co_password = value ''password'',
            co_scheme = (if value ''scheme'' = [] then ''http'' else value ''scheme''),
            co_ca_file = value ''caFile'', co_bounded = (value ''systemLogsBounded'' = ''true'')\<rparr>;
          missing = map fst (filter (\<lambda>kv. snd kv = [])
            [(''database'', co_database cfg), (''host'', co_host cfg), (''httpPort'', co_http_port cfg),
             (''username'', co_username cfg)])
      in if missing \<noteq> [] then Inl (MissingKeys missing)
         else if \<not> identifier_ok (co_database cfg) then Inl (UnusableDatabase (co_database cfg))
         else if co_scheme cfg \<noteq> ''http'' \<and> co_scheme cfg \<noteq> ''https'' then Inl (UnknownScheme (co_scheme cfg))
         else Inr cfg)"

subsection \<open>The recorder and what it calls\<close>

type_synonym store_error = string

datatype audit_error =
    GoneBackwards int int
  | Contended
  | Kube kube_error
  | BadSecret secret_error
  | HeadUnreadable store_error
  | Unreachable audit_error
  | AdoptionNotRecorded store_error
  | NotAppended store_error
  | BadTransition record_error

record 'w services =
  svc_now :: "'w \<Rightarrow> time"
  svc_kitchen :: "string \<Rightarrow> 'w \<Rightarrow> (kube_error + kitchen) \<times> 'w"
  svc_secret :: "string \<Rightarrow> string \<Rightarrow> 'w \<Rightarrow> (kube_error + store_secret) \<times> 'w"
  svc_get :: "string \<Rightarrow> string \<Rightarrow> 'w \<Rightarrow> (kube_error + config_map) \<times> 'w"
  svc_create :: "config_map \<Rightarrow> 'w \<Rightarrow> (kube_error + config_map) \<times> 'w"
  svc_update :: "config_map \<Rightarrow> 'w \<Rightarrow> kube_error option \<times> 'w"
  svc_audit_head :: "conn \<Rightarrow> 'w \<Rightarrow> (store_error + audit_record) \<times> 'w"
  svc_insert :: "conn \<Rightarrow> audit_record \<Rightarrow> 'w \<Rightarrow> store_error option \<times> 'w"

record recorder =
  rc_namespace :: string
  rc_singleton :: string
  rc_store :: "conn option"
  rc_enabled :: bool
  rc_resolved :: time
  rc_sequence :: int
  rc_anchored :: bool
  rc_floor :: int
  rc_unavailable :: string

definition readHead ::
  "'w services \<Rightarrow> conn \<Rightarrow> recorder \<Rightarrow> 'w \<Rightarrow> (audit_error + (audit_record \<times> config_map)) \<times> 'w" where
  "readHead svc store r w =
     (case svc_get svc (rc_namespace r) HeadName w of
        (Inr config, w1) \<Rightarrow> (Inr (readHeadData config, config), w1)
      | (Inl e, w1) \<Rightarrow>
          if e \<noteq> NotFound then (Inl (Kube e), w1)
          else
            (case svc_audit_head svc store w1 of
               (Inl e, w2) \<Rightarrow> (Inl (HeadUnreadable e), w2)
             | (Inr seed, w2) \<Rightarrow>
                 (case svc_create svc (writeHead (fresh_head (rc_namespace r) (svc_now svc w2) seed) seed) w2 of
                    (Inr config, w3) \<Rightarrow> (Inr (seed, config), w3)
                  | (Inl e, w3) \<Rightarrow>
                      if e = AlreadyExists then
                        (case svc_get svc (rc_namespace r) HeadName w3 of
                           (Inr config, w4) \<Rightarrow> (Inr (readHeadData config, config), w4)
                         | (Inl e, w4) \<Rightarrow> (Inl (Kube e), w4))
                      else (Inl (Kube e), w3))))"

text \<open>The turns of \<open>claim\<close>'s loop.\<close>

fun claim_loop ::
  "'w services \<Rightarrow> conn \<Rightarrow> audit_record \<Rightarrow> nat \<Rightarrow> recorder \<Rightarrow> 'w
   \<Rightarrow> (audit_error + (audit_record \<times> audit_record)) \<times> recorder \<times> 'w" where
  "claim_loop svc store rec 0 r w = (Inl Contended, r, w)"
| "claim_loop svc store rec (Suc n) r w =
     (case readHead svc store r w of
        (Inl e, w1) \<Rightarrow> (Inl e, r, w1)
      | (Inr (tip, config), w1) \<Rightarrow>
          if ar_sequence tip < rc_floor r then (Inl (GoneBackwards (rc_floor r) (ar_sequence tip)), r, w1)
          else
            (let sealed = Seal (svc_now svc w1) rec tip
             in case svc_update svc (writeHead config sealed) w1 of
                  (None, w2) \<Rightarrow> (Inr (sealed, tip), r\<lparr>rc_floor := ar_sequence sealed\<rparr>, w2)
                | (Some e, w2) \<Rightarrow>
                    if e = Conflict then claim_loop svc store rec n r w2 else (Inl (Kube e), r, w2)))"

definition claim ::
  "'w services \<Rightarrow> conn \<Rightarrow> audit_record \<Rightarrow> recorder \<Rightarrow> 'w
   \<Rightarrow> (audit_error + (audit_record \<times> audit_record)) \<times> recorder \<times> 'w" where
  "claim svc store rec r w = claim_loop svc store rec headClaimAttempts r w"

definition release :: "'w services \<Rightarrow> audit_record \<Rightarrow> audit_record \<Rightarrow> recorder \<Rightarrow> 'w \<Rightarrow> recorder \<times> 'w" where
  "release svc claimed previous r w =
     (case svc_get svc (rc_namespace r) HeadName w of
        (Inl e, w1) \<Rightarrow> (r, w1)
      | (Inr config, w1) \<Rightarrow>
          (let current = readHeadData config
           in if ar_sequence current \<noteq> ar_sequence claimed \<or> ar_hash current \<noteq> ar_hash claimed then (r, w1)
              else
                (case svc_update svc (writeHead config previous) w1 of
                   (Some e, w2) \<Rightarrow> (r, w2)
                 | (None, w2) \<Rightarrow> (r\<lparr>rc_floor := ar_sequence previous\<rparr>, w2))))"

definition Head :: "'w services \<Rightarrow> recorder option \<Rightarrow> 'w \<Rightarrow> (anchor \<times> kube_error option) \<times> 'w" where
  "Head svc rc w =
     (let absent = \<lparr>an_present = False, an_sequence = 0, an_hash = [], an_origin = [], an_established = [],
            an_adopted_from = 0, an_unreadable = []\<rparr>
      in case rc of
           None \<Rightarrow> ((absent\<lparr>an_unreadable := ''this build records no audit log, so there is no anchor''\<rparr>, None), w)
         | Some r \<Rightarrow>
             (case svc_get svc (rc_namespace r) HeadName w of
                (Inr config, w1) \<Rightarrow> ((anchorFrom config, None), w1)
              | (Inl e, w1) \<Rightarrow>
                  if e = NotFound then ((absent, None), w1)
                  else ((absent\<lparr>an_unreadable := ''the cluster did not answer for the anchor''\<rparr>, Some e), w1)))"

fun mark_loop :: "'w services \<Rightarrow> nat \<Rightarrow> kube_error option \<Rightarrow> recorder \<Rightarrow> 'w \<Rightarrow> kube_error option \<times> 'w" where
  "mark_loop svc 0 lastErr r w = (lastErr, w)"
| "mark_loop svc (Suc n) lastErr r w =
     (case svc_get svc (rc_namespace r) HeadName w of
        (Inl e, w1) \<Rightarrow> (Some e, w1)
      | (Inr config, w1) \<Rightarrow>
          (case svc_update svc (cm_set headKeyAdoptionRecorded headAdoptionDone config) w1 of
             (None, w2) \<Rightarrow> (None, w2)
           | (Some e, w2) \<Rightarrow> if e = Conflict then mark_loop svc n (Some e) r w2 else (Some e, w2)))"

definition markAdoptionRecorded :: "'w services \<Rightarrow> recorder \<Rightarrow> 'w \<Rightarrow> kube_error option \<times> 'w" where
  "markAdoptionRecorded svc r w = mark_loop svc headClaimAttempts None r w"

text \<open>The row that says the anchor was taken from the table.\<close>

definition adoption_record :: "string \<Rightarrow> int \<Rightarrow> audit_record" where
  "adoption_record ns adopted = zero_record\<lparr>
     ar_actor := ControllerActor ''audit'', ar_actor_kind := ActorService, ar_correlation := HeadName,
     ar_operation := AuditCreate, ar_kind := KindAuditAnchor, ar_namespace := ns, ar_name := HeadName,
     ar_to_state := OriginAdopted,
     ar_reason := ''the audit chain had no anchor, and one was adopted from the log's own last record, ''
       @ ''sequence '' @ format_int adopted @ ''. Records up to '' @ format_int adopted
       @ '' are bounded by the chain alone; everything after is bounded by the anchor as well'',
     ar_details := marshal (json_map [(PrivilegedDetail, JBool True),
       (PrivilegeClassDetail, JString PrivilegeIntegrity), (''change'', JString ChangeAuditAnchorAdopted),
       (''adoptedFrom'', json_int adopted), (''origin'', JString OriginAdopted)])\<rparr>"

definition recordAdoption ::
  "'w services \<Rightarrow> conn \<Rightarrow> config_map \<Rightarrow> recorder \<Rightarrow> 'w \<Rightarrow> audit_error option \<times> recorder \<times> 'w" where
  "recordAdoption svc store config r w =
     (let adopted = parse_int (cm_value config headKeyAdoptedFrom)
      in case claim svc store (adoption_record (rc_namespace r) adopted) r w of
           (Inl e, r1, w1) \<Rightarrow> (Some e, r1, w1)
         | (Inr (sealed, previous), r1, w1) \<Rightarrow>
             (case svc_insert svc store sealed w1 of
                (Some e, w2) \<Rightarrow> (Some (AdoptionNotRecorded e), release svc sealed previous r1 w2)
              | (None, w2) \<Rightarrow>
                  (let r2 = r1\<lparr>rc_sequence := ar_sequence sealed\<rparr>
                   in case markAdoptionRecorded svc r2 w2 of (e, w3) \<Rightarrow> (map_option Kube e, r2, w3))))"

definition establishAnchor ::
  "'w services \<Rightarrow> conn \<Rightarrow> recorder \<Rightarrow> 'w \<Rightarrow> audit_error option \<times> recorder \<times> 'w" where
  "establishAnchor svc store r w =
     (if rc_anchored r then (None, r, w)
      else
        (case readHead svc store r w of
           (Inl e, w1) \<Rightarrow> (Some e, r, w1)
         | (Inr (tip, config), w1) \<Rightarrow>
             if cm_value config headKeyOrigin = OriginAdopted \<and> cm_value config headKeyAdoptionRecorded \<noteq> headAdoptionDone
             then (case recordAdoption svc store config r w1 of
                     (Some e, r2, w2) \<Rightarrow> (Some e, r2, w2)
                   | (None, r2, w2) \<Rightarrow> (None, r2\<lparr>rc_anchored := True\<rparr>, w2))
             else (None, r\<lparr>rc_anchored := True\<rparr>, w1)))"

definition configCacheTTL :: int where "configCacheTTL = 60000000000"

definition no_store_message :: string where
  "no_store_message = ''spec.compliance.audit is on but this installation has no telemetry store to append to: ''
     @ ''set spec.observability.clickhouse.secretRef''"

definition resolve ::
  "'w services \<Rightarrow> recorder \<Rightarrow> 'w \<Rightarrow> (audit_error + conn option) \<times> recorder \<times> 'w" where
  "resolve svc r w =
     (if svc_now svc w - rc_resolved r < configCacheTTL then
        (Inr (if rc_enabled r then rc_store r else None), r, w)
      else
        (case svc_kitchen svc (rc_singleton r) w of
           (Inl e, w1) \<Rightarrow> (Inl (Kube e), r, w1)
         | (Inr k, w1) \<Rightarrow>
             (let r1 = r\<lparr>rc_enabled := ki_audit_enabled k\<rparr>
              in if \<not> rc_enabled r1 then
                   (Inr None, r1\<lparr>rc_store := None, rc_resolved := svc_now svc w1, rc_unavailable := []\<rparr>, w1)
                 else
                   (case ki_secret_ref k of
                      None \<Rightarrow> (Inr None, r1\<lparr>rc_store := None, rc_resolved := svc_now svc w1,
                                  rc_unavailable := no_store_message\<rparr>, w1)
                    | Some name \<Rightarrow>
                        (case svc_secret svc (rc_namespace r1) name w1 of
                           (Inl e, w2) \<Rightarrow> (Inl (Kube e), r1, w2)
                         | (Inr secret, w2) \<Rightarrow>
                             (case ConfigFromSecret secret of
                                Inl e \<Rightarrow> (Inl (BadSecret e), r1, w2)
                              | Inr cfg \<Rightarrow> (Inr (Some cfg), r1\<lparr>rc_store := Some cfg,
                                    rc_resolved := svc_now svc w2, rc_unavailable := []\<rparr>, w2)))))))"

definition EnsureAnchor ::
  "'w services \<Rightarrow> recorder option \<Rightarrow> 'w \<Rightarrow> audit_error option \<times> recorder option \<times> 'w" where
  "EnsureAnchor svc rc w =
     (case rc of
        None \<Rightarrow> (None, None, w)
      | Some r \<Rightarrow>
          (case resolve svc r w of
             (Inl e, r1, w1) \<Rightarrow> (Some (Unreachable e), Some r1, w1)
           | (Inr None, r1, w1) \<Rightarrow> (None, Some r1, w1)
           | (Inr (Some store), r1, w1) \<Rightarrow> map_prod id (map_prod Some id) (establishAnchor svc store r1 w1)))"

text \<open>\<open>Record\<close> after the configuration is known: the anchor, the number, the row.\<close>

definition append_record ::
  "'w services \<Rightarrow> conn \<Rightarrow> audit_record \<Rightarrow> recorder \<Rightarrow> 'w \<Rightarrow> audit_error option \<times> recorder \<times> 'w" where
  "append_record svc store rec r w =
     (case establishAnchor svc store r w of
        (Some e, r1, w1) \<Rightarrow> (Some e, r1, w1)
      | (None, r1, w1) \<Rightarrow>
          (case claim svc store rec r1 w1 of
             (Inl e, r2, w2) \<Rightarrow> (Some e, r2, w2)
           | (Inr (sealed, previous), r2, w2) \<Rightarrow>
               (case svc_insert svc store sealed w2 of
                  (Some e, w3) \<Rightarrow> (Some (NotAppended e), release svc sealed previous r2 w3)
                | (None, w3) \<Rightarrow> (None, r2\<lparr>rc_sequence := ar_sequence sealed\<rparr>, w3))))"

definition Record ::
  "'w services \<Rightarrow> recorder option \<Rightarrow> transition \<Rightarrow> 'w \<Rightarrow> audit_error option \<times> recorder option \<times> 'w" where
  "Record svc rc t w =
     (case rc of
        None \<Rightarrow> (None, None, w)
      | Some r \<Rightarrow>
          (case transition_record t of
             Inl e \<Rightarrow> (Some (BadTransition e), Some r, w)
           | Inr rec \<Rightarrow>
               (case resolve svc r w of
                  (Inl e, r1, w1) \<Rightarrow> (Some (Unreachable e), Some r1, w1)
                | (Inr None, r1, w1) \<Rightarrow> (None, Some r1, w1)
                | (Inr (Some store), r1, w1) \<Rightarrow>
                    map_prod id (map_prod Some id) (append_record svc store rec r1 w1))))"

record audit_status =
  st_recording :: bool
  st_sequence :: int
  st_message :: string

definition Status :: "recorder option \<Rightarrow> audit_status" where
  "Status rc =
     (case rc of
        None \<Rightarrow> \<lparr>st_recording = False, st_sequence = 0, st_message = ''this build records no audit log''\<rparr>
      | Some r \<Rightarrow>
          if \<not> rc_enabled r \<and> is_zero (rc_resolved r) then
            \<lparr>st_recording = False, st_sequence = 0, st_message = ''the audit log has not been configured yet''\<rparr>
          else if \<not> rc_enabled r then
            \<lparr>st_recording = False, st_sequence = 0,
              st_message = ''the audit log is turned off in spec.compliance.audit''\<rparr>
          else if rc_store r = None then
            \<lparr>st_recording = False, st_sequence = 0,
              st_message = (if rc_unavailable r \<noteq> [] then rc_unavailable r
                else ''this installation has no telemetry store, so there is nowhere to append to'')\<rparr>
          else \<lparr>st_recording = True, st_sequence = rc_sequence r, st_message = []\<rparr>)"

end
