(* ===== verification/AuditAppend.thy ===== *)
theory AuditAppend
  imports AuditHead
begin

section \<open>What appending promises\<close>

text \<open>
  The contract of the recorder over the services it calls. The locale \<open>audit_services\<close> states
  what the API server and the store do when nobody else writes: a read answers what is there, an
  update succeeds only against the version that is there, a failed call changes nothing. The
  lemmas inside it give each operation's effect on the head object and on the table;
  \<open>cluster\<close> is a model of the services, with faults, on which the locale is interpreted.
\<close>

subsection \<open>A table and its head\<close>

definition last_record :: "audit_record list \<Rightarrow> audit_record" where
  "last_record table = (if table = [] then zero_record else last table)"

definition same_head :: "audit_record \<Rightarrow> audit_record \<Rightarrow> bool" where
  "same_head a b \<longleftrightarrow> ar_sequence a = ar_sequence b \<and> ar_hash a = ar_hash b"

text \<open>A sound table, and a head object, if there is one, that names its last record.\<close>

definition chained :: "config_map option \<Rightarrow> audit_record list \<Rightarrow> bool" where
  "chained h table \<longleftrightarrow> sound_run table zero_record
     \<and> (\<forall>c. h = Some c \<longrightarrow> same_head (readHeadData c) (last_record table))"

lemma same_head_refl [simp]: "same_head a a"
  by (simp add: same_head_def)

lemma same_head_trans: "same_head a b \<Longrightarrow> same_head b c \<Longrightarrow> same_head a c"
  by (simp add: same_head_def)

lemma Seal_same_head: "same_head a b \<Longrightarrow> Seal now r a = Seal now r b"
  by (simp add: same_head_def Seal_def Let_def)

lemma cm_value_set [simp]: "cm_value (cm_set k v c) j = (if j = k then v else cm_value c j)"
  by (simp add: cm_value_def cm_set_def)

lemma head_keys_distinct [simp]:
  "headKeySequence \<noteq> headKeyHash" "headKeyHash \<noteq> headKeySequence"
  "headKeyAdoptionRecorded \<noteq> headKeyHash" "headKeyAdoptionRecorded \<noteq> headKeySequence"
  "headKeyHash \<noteq> headKeyAdoptionRecorded" "headKeySequence \<noteq> headKeyAdoptionRecorded"
  by (simp_all add: head_key_defs)

lemma readHeadData_writeHead [simp]:
  "is_i64 (ar_sequence r) \<Longrightarrow> same_head (readHeadData (writeHead c r)) r"
  by (simp add: same_head_def readHeadData_def writeHead_def)

lemma readHeadData_mark [simp]: "readHeadData (cm_set headKeyAdoptionRecorded v c) = readHeadData c"
  by (simp add: readHeadData_def)

lemma readHeadData_version [simp]: "readHeadData (c\<lparr>cm_version := v\<rparr>) = readHeadData c"
  by (simp add: readHeadData_def cm_value_def)

lemma cm_value_version [simp]: "cm_value (c\<lparr>cm_version := v\<rparr>) k = cm_value c k"
  by (simp add: cm_value_def)

lemma writeHead_key [simp]:
  "cm_namespace (writeHead c r) = cm_namespace c" "cm_name (writeHead c r) = cm_name c"
  "cm_version (writeHead c r) = cm_version c"
  by (simp_all add: writeHead_def cm_set_def)

lemma cm_set_key [simp]:
  "cm_namespace (cm_set k v c) = cm_namespace c" "cm_name (cm_set k v c) = cm_name c"
  "cm_version (cm_set k v c) = cm_version c"
  by (simp_all add: cm_set_def)

lemma fresh_head_key [simp]: "cm_namespace (fresh_head ns now s) = ns" "cm_name (fresh_head ns now s) = HeadName"
  by (simp_all add: fresh_head_def Let_def)

lemma last_record_sequence:
  assumes "sound_run table zero_record" "int (length table) < 2 ^ 63"
  shows "ar_sequence (last_record table) = int (length table)"
proof (cases "table = []")
  case False
  then show ?thesis
    using sound_run_last [OF assms(1) False] assms(2) by (simp add: last_record_def zero_record_def)
qed (simp add: last_record_def zero_record_def)

text \<open>The record the store answers as the head of a sound table is its last one.\<close>

lemma last_record_max:
  assumes "sound_run table zero_record" "int (length table) < 2 ^ 63" "table \<noteq> []"
    and "h \<in> set table" "\<forall>r \<in> set table. ar_sequence r \<le> ar_sequence h"
  shows "h = last_record table"
proof -
  obtain i where i: "i < length table" "h = table ! i" using assms(4) by (auto simp: in_set_conv_nth)
  have "ar_sequence h = 1 + int i"
    using sound_run_sequence [OF assms(1) i(1)] assms(2) i by (simp add: zero_record_def)
  moreover have "ar_sequence (last table) \<le> ar_sequence h" using assms(3,5) by simp
  moreover have "ar_sequence (last table) = int (length table)"
    using last_record_sequence [OF assms(1,2)] assms(3) by (simp add: last_record_def)
  ultimately have "i = length table - 1" using i(1) by linarith
  then show ?thesis using i assms(3) by (simp add: last_record_def last_conv_nth)
qed

text \<open>A record sealed onto the last one extends a sound table.\<close>

lemma sound_run_snoc:
  assumes "sound_run table zero_record"
  shows "sound_run (table @ [Seal now r (last_record table)]) zero_record"
proof (cases "table = []")
  case True
  then show ?thesis using sound_run_seal_run [of "[(now, r)]" zero_record] by (simp add: last_record_def Let_def)
next
  case False
  then have split: "table = butlast table @ [last table]" by simp
  from assms have "verify_loop (next_sequence (i64 (ar_sequence zero_record + 1)) (butlast table))
      (next_link (prev_link zero_record) (butlast table)) [last table] = []"
    using sound_run_append(2) split by metis
  then have "equal_fold (ChainHash (last table)) (ar_hash (last table))"
    by (simp add: record_findings_empty_iff)
  then have "ar_hash (last table) \<noteq> []"
    by (metis ChainHash_hex ChainHash_nonempty case_fold.simps(1) case_fold_hex equal_fold_def)
  then show ?thesis
    using assms False
    by (simp add: sound_run_iff verify_loop_append next_sequence_def next_link_def last_record_def
        record_findings_empty_iff prev_link_def)
qed

lemma chained_snoc:
  assumes "chained h table" "same_head (readHeadData c) (Seal now r (last_record table))"
  shows "chained (Some c) (table @ [Seal now r (last_record table)])"
  using assms sound_run_snoc by (simp add: chained_def last_record_def)

text \<open>A head object that says its anchor was adopted and that no record says so yet.\<close>

definition adopted_unsaid :: "config_map \<Rightarrow> bool" where
  "adopted_unsaid c \<longleftrightarrow> cm_value c headKeyOrigin = OriginAdopted \<and> cm_value c headKeyAdoptionRecorded \<noteq> headAdoptionDone"

lemma adopted_unsaid_keeps [simp]:
  "adopted_unsaid (c\<lparr>cm_version := v\<rparr>) = adopted_unsaid c"
  "adopted_unsaid (writeHead c s) = adopted_unsaid c"
  by (simp_all add: adopted_unsaid_def writeHead_def head_key_defs)

lemma adopted_unsaid_fresh: "0 < ar_sequence s \<Longrightarrow> adopted_unsaid (fresh_head ns t s)"
  by (simp add: adopted_unsaid_def fresh_head_def Let_def head_key_defs headAdoptionDone_def)

text \<open>The rows a call of the recorder adds beside the one it was asked for: at most one, an
  adoption.\<close>

definition adoptions :: "audit_record list \<Rightarrow> bool" where
  "adoptions rs \<longleftrightarrow> length rs \<le> 1 \<and> list_all (\<lambda>s. ar_kind s = KindAuditAnchor) rs"

lemma adoption_kind: "ar_kind (Seal now (adoption_record n a) p) = KindAuditAnchor"
  by (simp add: Seal_def Let_def adoption_record_def)

subsection \<open>The services\<close>

locale audit_services =
  fixes svc :: "'w services" and ns :: string
    and head :: "'w \<Rightarrow> config_map option" and table :: "'w \<Rightarrow> audit_record list"
  assumes head_key: "head w = Some c \<Longrightarrow> cm_namespace c = ns \<and> cm_name c = HeadName"
    and kitchen: "svc_kitchen svc n w = (ki, w') \<Longrightarrow> head w' = head w \<and> table w' = table w"
    and secret: "svc_secret svc m n w = (se, w') \<Longrightarrow> head w' = head w \<and> table w' = table w"
    and get: "svc_get svc ns HeadName w = (gr, w') \<Longrightarrow> head w' = head w \<and> table w' = table w
      \<and> (\<forall>c. gr = Inr c \<longrightarrow> head w = Some c) \<and> (gr = Inl NotFound \<longrightarrow> head w = None)"
    and create: "svc_create svc c w = (cr, w') \<Longrightarrow> cm_namespace c = ns \<Longrightarrow> cm_name c = HeadName
      \<Longrightarrow> table w' = table w \<and> (\<forall>e. cr = Inl e \<longrightarrow> head w' = head w)
      \<and> (\<forall>d. cr = Inr d \<longrightarrow> head w = None \<and> head w' = Some d \<and> (\<exists>v. d = c\<lparr>cm_version := v\<rparr>))"
    and update: "svc_update svc c w = (ur, w') \<Longrightarrow> cm_namespace c = ns \<Longrightarrow> cm_name c = HeadName
      \<Longrightarrow> table w' = table w \<and> (\<forall>e. ur = Some e \<longrightarrow> head w' = head w)
      \<and> (ur = None \<longrightarrow> (\<exists>d. head w = Some d \<and> cm_version d = cm_version c)
          \<and> (\<exists>v. head w' = Some (c\<lparr>cm_version := v\<rparr>)))"
    and audit_head: "svc_audit_head svc store w = (ar, w') \<Longrightarrow> head w' = head w \<and> table w' = table w
      \<and> (\<forall>h. ar = Inr h \<longrightarrow> (if table w = [] then h = zero_record
           else h \<in> set (table w) \<and> (\<forall>r \<in> set (table w). ar_sequence r \<le> ar_sequence h)))"
    and insert: "svc_insert svc store r w = (ir, w') \<Longrightarrow> head w' = head w
      \<and> table w' = (if ir = None then table w @ [r] else table w)"
begin

lemma readHead_quiet:
  assumes "readHead svc store r w = (res, w')" "rc_namespace r = ns"
  shows "table w' = table w"
  using assms(1) unfolding readHead_def assms(2)
  by (auto split: sum.splits prod.splits if_splits dest!: get create audit_head)

lemma readHead_error:
  assumes "readHead svc store r w = (Inl e, w')" "rc_namespace r = ns"
  shows "head w' = head w \<and> (\<forall>a b. e \<noteq> GoneBackwards a b)"
  using assms(1) unfolding readHead_def assms(2)
  by (auto split: sum.splits prod.splits if_splits dest!: get create audit_head)

lemma readHead_present:
  assumes "readHead svc store r w = (Inr (h, c), w')" "rc_namespace r = ns" "head w = Some d"
  shows "c = d \<and> h = readHeadData d \<and> head w' = Some d"
  using assms(1,3) unfolding readHead_def assms(2)
  by (auto split: sum.splits prod.splits if_splits dest!: get create audit_head)

lemma readHead_absent:
  assumes "readHead svc store r w = (Inr (h, c), w')" "rc_namespace r = ns" "head w = None"
  shows "\<exists>t v. c = (writeHead (fresh_head ns t h) h)\<lparr>cm_version := v\<rparr> \<and> head w' = Some c"
    and "if table w = [] then h = zero_record
     else h \<in> set (table w) \<and> (\<forall>r \<in> set (table w). ar_sequence r \<le> ar_sequence h)"
proof -
  obtain g w1 where g: "svc_get svc ns HeadName w = (g, w1)" by force
  from get [OF g] assms(3) have 1: "head w1 = None" "table w1 = table w" "\<And>d. g \<noteq> Inr d" by auto
  then have "g = Inl NotFound" using assms g by (cases g) (auto simp: readHead_def split: if_splits)
  obtain a w2 where a: "svc_audit_head svc store w1 = (a, w2)" by force
  from audit_head [OF a] 1 have 2: "head w2 = None" "table w2 = table w" by auto
  obtain s where s: "a = Inr s" using assms g a \<open>g = Inl NotFound\<close> by (cases a) (auto simp: readHead_def)
  let ?f = "writeHead (fresh_head ns (svc_now svc w2) s) s"
  obtain k w3 where k: "svc_create svc ?f w2 = (k, w3)" by force
  from create [OF k] 2 have 3: "\<And>e. k = Inl e \<Longrightarrow> head w3 = None"
    "\<And>d. k = Inr d \<Longrightarrow> head w3 = Some d \<and> (\<exists>v. d = ?f\<lparr>cm_version := v\<rparr>)" by auto
  obtain d where d: "k = Inr d"
  proof (cases k)
    case (Inl e)
    obtain g2 w4 where g2: "svc_get svc ns HeadName w3 = (g2, w4)" by force
    from get [OF g2] 3(1) [OF Inl] have "\<And>d. g2 \<noteq> Inr d" by auto
    with assms g a k g2 Inl s \<open>g = Inl NotFound\<close> show thesis
      by (cases g2) (auto simp: readHead_def split: if_splits)
  qed
  have "c = d" "h = s" "w' = w3" using assms g a k s d \<open>g = Inl NotFound\<close> by (auto simp: readHead_def)
  then show "\<exists>t v. c = (writeHead (fresh_head ns t h) h)\<lparr>cm_version := v\<rparr> \<and> head w' = Some c"
    using 3(2) [OF d] by blast
  show "if table w = [] then h = zero_record
     else h \<in> set (table w) \<and> (\<forall>r \<in> set (table w). ar_sequence r \<le> ar_sequence h)"
    using audit_head [OF a] s 1 \<open>h = s\<close> by auto
qed

text \<open>Against a sound table, what \<open>readHead\<close> answers is the end of it.\<close>

lemma readHead_chained:
  assumes "readHead svc store r w = (Inr (h, c), w')" "rc_namespace r = ns"
    and "chained (head w) (table w)" "int (length (table w)) < 2 ^ 63"
  shows "same_head h (last_record (table w))" "head w' = Some c" "chained (head w') (table w')"
    "cm_namespace c = ns" "cm_name c = HeadName"
proof -
  have "same_head h (last_record (table w)) \<and> head w' = Some c \<and> same_head (readHeadData c) (last_record (table w))"
  proof (cases "head w")
    case (Some d)
    from readHead_present [OF assms(1,2) this] assms(3) Some show ?thesis by (simp add: chained_def)
  next
    case None
    note abs = readHead_absent [OF assms(1,2) None]
    from assms(3) have sound: "sound_run (table w) zero_record" by (simp add: chained_def)
    have "h = last_record (table w)"
      using abs(2) last_record_max [OF sound assms(4)] by (auto simp: last_record_def split: if_splits)
    moreover from this have "is_i64 (ar_sequence h)"
      using last_record_sequence [OF sound assms(4)] assms(4) by (auto intro: is_i64_small)
    moreover obtain t v where "c = (writeHead (fresh_head ns t h) h)\<lparr>cm_version := v\<rparr>" "head w' = Some c"
      using abs(1) by blast
    ultimately show ?thesis by simp
  qed
  moreover have "table w' = table w" by (rule readHead_quiet [OF assms(1,2)])
  ultimately show "same_head h (last_record (table w))" "head w' = Some c" "chained (head w') (table w')"
    "cm_namespace c = ns" "cm_name c = HeadName"
    using assms(3) head_key by (auto simp: chained_def)
qed

text \<open>A claim either leaves a chained world chained and says why, or has sealed the record onto
  the last one and moved the head to it, ahead of the table.\<close>

definition ahead :: "audit_record \<Rightarrow> 'w \<Rightarrow> bool" where
  "ahead sealed w \<longleftrightarrow> (\<exists>c. head w = Some c \<and> same_head (readHeadData c) sealed)"

lemma claim_loop_chained:
  assumes "claim_loop svc store rec n r w = (res, r', w')" "rc_namespace r = ns"
    and "chained (head w) (table w)" "int (length (table w)) < 2 ^ 63"
  shows "table w' = table w \<and>
    (case res of
       Inl e \<Rightarrow> r' = r \<and> chained (head w') (table w')
         \<and> (\<forall>f q. e = GoneBackwards f q \<longrightarrow> f = rc_floor r \<and> q = int (length (table w)) \<and> q < f)
     | Inr (sealed, prev) \<Rightarrow> (\<exists>now. sealed = Seal now rec (last_record (table w))) \<and> ahead sealed w'
         \<and> same_head prev (last_record (table w)) \<and> r' = r\<lparr>rc_floor := ar_sequence sealed\<rparr>)"
  using assms
proof (induction n arbitrary: w)
  case 0
  then show ?case by auto
next
  case (Suc n)
  obtain res1 w1 where read: "readHead svc store r w = (res1, w1)" by force
  have quiet: "table w1 = table w" by (rule readHead_quiet [OF read Suc.prems(2)])
  show ?case
  proof (cases res1)
    case (Inl e)
    with read have "readHead svc store r w = (Inl e, w1)" by simp
    from readHead_error [OF this Suc.prems(2)] Suc.prems read Inl quiet show ?thesis by auto
  next
    case (Inr hc)
    obtain h c where hc: "res1 = Inr (h, c)" using Inr by (cases hc) auto
    note rd = readHead_chained [OF read [unfolded hc] Suc.prems(2-4)]
    have seqs: "ar_sequence h = int (length (table w))"
      using rd(1) last_record_sequence [of "table w"] Suc.prems(3,4) by (simp add: same_head_def chained_def)
    show ?thesis
    proof (cases "ar_sequence h < rc_floor r")
      case True
      with Suc.prems(1) read hc rd quiet seqs show ?thesis by auto
    next
      case False
      define sealed where "sealed = Seal (svc_now svc w1) rec h"
      have sealed: "sealed = Seal (svc_now svc w1) rec (last_record (table w))"
        using Seal_same_head [OF rd(1)] by (simp add: sealed_def)
      obtain ur w2 where up: "svc_update svc (writeHead c sealed) w1 = (ur, w2)" by force
      have law: "table w2 = table w" "\<And>e. ur = Some e \<Longrightarrow> head w2 = head w1"
        "ur = None \<Longrightarrow> \<exists>v. head w2 = Some ((writeHead c sealed)\<lparr>cm_version := v\<rparr>)"
        using update [OF up] rd(4,5) quiet by auto
      have i64: "is_i64 (ar_sequence sealed)" by (simp add: sealed_def)
      show ?thesis
      proof (cases ur)
        case None
        with law(3) i64 have "ahead sealed w2" by (auto simp: ahead_def)
        with Suc.prems(1) read hc False up None law(1) rd(1) sealed show ?thesis
          by (auto simp: sealed_def [symmetric] Let_def)
      next
        case (Some e)
        with law have w2: "chained (head w2) (table w2)" "int (length (table w2)) < 2 ^ 63"
          using rd(3) quiet Suc.prems(4) by simp_all
        show ?thesis
        proof (cases "e = Conflict")
          case True
          then have "claim_loop svc store rec n r w2 = (res, r', w')"
            using Suc.prems(1) read hc False up Some by (simp add: sealed_def [symmetric] Let_def)
          from Suc.IH [OF this Suc.prems(2) w2] show ?thesis unfolding law(1) .
        next
          case other: False
          with Suc.prems(1) read hc False up Some w2 law(1) show ?thesis
            by (auto simp: sealed_def [symmetric] Let_def)
        qed
      qed
    qed
  qed
qed

text \<open>The states a recorder alone on its cluster can leave: \<open>settled\<close>, and after a number that
  could not be given back \<open>stranded\<close>, the head one record ahead of a sound table.\<close>

definition settled :: "recorder \<Rightarrow> 'w \<Rightarrow> bool" where
  "settled r w \<longleftrightarrow> rc_namespace r = ns \<and> chained (head w) (table w) \<and> rc_floor r \<le> int (length (table w))"

definition stranded :: "recorder \<Rightarrow> 'w \<Rightarrow> bool" where
  "stranded r w \<longleftrightarrow> rc_namespace r = ns \<and> sound_run (table w) zero_record
     \<and> (\<exists>now rec. ahead (Seal now rec (last_record (table w))) w) \<and> rc_floor r \<le> int (length (table w)) + 1"

lemma sealed_sequence:
  assumes "chained h t" "int (length t) + 1 < 2 ^ 63"
  shows "ar_sequence (Seal now rec (last_record t)) = int (length t) + 1"
proof -
  have "ar_sequence (last_record t) = int (length t)"
    using assms by (intro last_record_sequence) (simp_all add: chained_def)
  then show ?thesis using assms(2) by (simp add: i64_small)
qed

lemma claim_settled:
  assumes "claim svc store rec r w = (res, r', w')" "settled r w" "int (length (table w)) + 1 < 2 ^ 63"
  obtains e where "res = Inl e" "r' = r" "settled r w'" "table w' = table w" "\<And>f q. e \<noteq> GoneBackwards f q"
  | now prev where "res = Inr (Seal now rec (last_record (table w)), prev)" "table w' = table w"
      "ahead (Seal now rec (last_record (table w))) w'" "same_head prev (last_record (table w))"
      "r' = r\<lparr>rc_floor := int (length (table w)) + 1\<rparr>"
proof -
  from assms(2) have st: "rc_namespace r = ns" "chained (head w) (table w)" "rc_floor r \<le> int (length (table w))"
    by (simp_all add: settled_def)
  have "int (length (table w)) < 2 ^ 63" using assms(3) by simp
  from claim_loop_chained [OF assms(1) [unfolded claim_def] st(1,2) this]
  have spec: "table w' = table w" "case res of
       Inl e \<Rightarrow> r' = r \<and> chained (head w') (table w')
         \<and> (\<forall>f q. e = GoneBackwards f q \<longrightarrow> f = rc_floor r \<and> q = int (length (table w)) \<and> q < f)
     | Inr (sealed, prev) \<Rightarrow> (\<exists>now. sealed = Seal now rec (last_record (table w))) \<and> ahead sealed w'
         \<and> same_head prev (last_record (table w)) \<and> r' = r\<lparr>rc_floor := ar_sequence sealed\<rparr>" by simp_all
  show thesis
  proof (cases res)
    case (Inl e)
    with spec(2) have e: "r' = r" "chained (head w') (table w')"
      "\<And>f q. e = GoneBackwards f q \<Longrightarrow> f = rc_floor r \<and> q = int (length (table w)) \<and> q < f" by simp_all
    have "e \<noteq> GoneBackwards f q" for f q using e(3) [of f q] st(3) by linarith
    then show ?thesis by (intro that(1) [OF Inl e(1)]) (use e st spec(1) in \<open>simp_all add: settled_def\<close>)
  next
    case (Inr sp)
    with spec(2) obtain now prev where "sp = (Seal now rec (last_record (table w)), prev)"
      "ahead (Seal now rec (last_record (table w))) w'" "same_head prev (last_record (table w))"
      "r' = r\<lparr>rc_floor := ar_sequence (Seal now rec (last_record (table w)))\<rparr>" by (cases sp) auto
    with Inr spec(1) show ?thesis
      using that(2) sealed_sequence [OF st(2) assms(3)] by (simp del: Seal_fields)
  qed
qed

text \<open>Giving the number back settles the world again, or leaves it stranded.\<close>

lemma release_settles:
  assumes "release svc (Seal now rec (last_record (table w))) prev r w = (r', w')"
    and "ahead (Seal now rec (last_record (table w))) w" "same_head prev (last_record (table w))"
    and "rc_namespace r = ns" "sound_run (table w) zero_record" "int (length (table w)) + 1 < 2 ^ 63"
    and "rc_floor r \<le> int (length (table w)) + 1"
  shows "table w' = table w" "settled r' w' \<or> stranded r' w'"
proof -
  let ?s = "Seal now rec (last_record (table w))"
  obtain c where c: "head w = Some c" "same_head (readHeadData c) ?s" using assms(2) by (auto simp: ahead_def)
  note key = head_key [OF c(1)]
  have seq: "ar_sequence prev = int (length (table w))" "is_i64 (ar_sequence prev)"
    using assms(3,6) last_record_sequence [OF assms(5)] by (auto simp: same_head_def intro: is_i64_small)
  have left: "table v = table w \<Longrightarrow> head v = head w \<Longrightarrow> stranded r v" for v
    using assms(2,4,5,7) c by (auto simp: stranded_def ahead_def)
  obtain g w1 where g: "svc_get svc ns HeadName w = (g, w1)" by force
  note law = get [OF g]
  have "table w' = table w \<and> (settled r' w' \<or> stranded r' w')"
  proof (cases g)
    case (Inl e)
    with assms(1,4) g law left show ?thesis by (auto simp: release_def)
  next
    case (Inr d)
    then have d: "d = c" using law c(1) by simp
    obtain u w2 where u: "svc_update svc (writeHead d prev) w1 = (u, w2)" by force
    have up: "table w2 = table w" "\<And>e. u = Some e \<Longrightarrow> head w2 = head w"
      "u = None \<Longrightarrow> \<exists>v. head w2 = Some ((writeHead d prev)\<lparr>cm_version := v\<rparr>)"
      using update [OF u] key d law by auto
    have res: "(r', w') = (if u = None then r\<lparr>rc_floor := ar_sequence prev\<rparr> else r, w2)"
      using assms(1,4) g Inr u c(2) d by (auto simp: release_def Let_def same_head_def split: option.splits)
    show ?thesis
    proof (cases u)
      case None
      then obtain v where v: "head w2 = Some ((writeHead d prev)\<lparr>cm_version := v\<rparr>)" using up(3) by blast
      have "same_head (readHeadData ((writeHead d prev)\<lparr>cm_version := v\<rparr>)) (last_record (table w))"
        using readHeadData_writeHead [OF seq(2), of d] same_head_trans assms(3) by auto
      with None res up(1) v seq(1) assms(4,5) show ?thesis by (simp add: settled_def chained_def)
    next
      case (Some e)
      with res up left show ?thesis by auto
    qed
  qed
  then show "table w' = table w" "settled r' w' \<or> stranded r' w'" by auto
qed

text \<open>The record that lands settles the world: the head is its.\<close>

lemma landed_settles:
  assumes "ahead (Seal now rec (last_record (table w))) w" "head w' = head w"
    and "table w' = table w @ [Seal now rec (last_record (table w))]"
    and "rc_namespace r = ns" "sound_run (table w) zero_record" "rc_floor r \<le> int (length (table w)) + 1"
  shows "settled r w'"
proof -
  obtain c where c: "head w = Some c" "same_head (readHeadData c) (Seal now rec (last_record (table w)))"
    using assms(1) by (auto simp: ahead_def)
  have "chained None (table w)" using assms(5) by (simp add: chained_def)
  from chained_snoc [OF this c(2)] assms c(1) show ?thesis by (simp add: settled_def)
qed

lemma mark_loop_settled:
  assumes "mark_loop svc n le r w = (res, w')" "settled r w"
  shows "table w' = table w \<and> settled r w'"
  using assms
proof (induction n arbitrary: le w)
  case (Suc n)
  from Suc.prems(2) have ns: "rc_namespace r = ns" by (simp add: settled_def)
  obtain g w1 where g: "svc_get svc ns HeadName w = (g, w1)" by force
  note law = get [OF g]
  then have w1: "settled r w1" "table w1 = table w" using Suc.prems(2) by (auto simp: settled_def)
  show ?case
  proof (cases g)
    case (Inl e)
    with Suc.prems(1) g w1 ns show ?thesis by simp
  next
    case (Inr c)
    then have hw: "head w1 = Some c" using law by simp
    let ?c = "cm_set headKeyAdoptionRecorded headAdoptionDone c"
    obtain u w2 where u: "svc_update svc ?c w1 = (u, w2)" by force
    have up: "table w2 = table w1" "\<And>e. u = Some e \<Longrightarrow> head w2 = head w1"
      "u = None \<Longrightarrow> \<exists>v. head w2 = Some (?c\<lparr>cm_version := v\<rparr>)"
      using update [OF u] head_key [OF hw] by auto
    have w2: "settled r w2"
      using w1(1) up hw by (cases u) (auto simp: settled_def chained_def)
    show ?thesis
    proof (cases "u = Some Conflict")
      case True
      then have "mark_loop svc n (Some Conflict) r w2 = (res, w')" using Suc.prems(1) g Inr u ns by simp
      from Suc.IH [OF this w2] up(1) w1(2) show ?thesis by simp
    next
      case False
      with Suc.prems(1) g Inr u ns have "w' = w2" by (auto split: option.splits if_splits)
      with w2 up(1) w1(2) show ?thesis by simp
    qed
  qed
qed simp

lemma recordAdoption_settled:
  assumes "recordAdoption svc store config r w = (res, r', w')" "settled r w" "int (length (table w)) + 1 < 2 ^ 63"
  shows "\<exists>adopt. adoptions adopt \<and> table w' = table w @ adopt \<and> (settled r' w' \<or> res \<noteq> None \<and> stranded r' w')
    \<and> (\<forall>f q. res \<noteq> Some (GoneBackwards f q)) \<and> (res = None \<longrightarrow> adopt \<noteq> [])"
proof -
  let ?rec = "adoption_record (rc_namespace r) (parse_int (cm_value config headKeyAdoptedFrom))"
  obtain cl r1 w1 where cl: "claim svc store ?rec r w = (cl, r1, w1)" by (metis prod_cases3)
  from assms(2) have ns: "rc_namespace r = ns" and sound: "sound_run (table w) zero_record"
    by (simp_all add: settled_def chained_def)
  show ?thesis
  proof (rule claim_settled [OF cl assms(2,3)])
    fix e
    assume a: "cl = Inl e" "r1 = r" "settled r w1" "table w1 = table w" "\<And>f q. e \<noteq> GoneBackwards f q"
    with assms(1) cl have "res = Some e" "r' = r" "w' = w1" by (auto simp: recordAdoption_def Let_def)
    with a show ?thesis by (intro exI [of _ "[]"]) (simp add: adoptions_def)
  next
    fix now prev
    let ?s = "Seal now ?rec (last_record (table w))"
    assume ok: "cl = Inr (?s, prev)" "table w1 = table w" "ahead ?s w1" "same_head prev (last_record (table w))"
      "r1 = r\<lparr>rc_floor := int (length (table w)) + 1\<rparr>"
    obtain ir w2 where ins: "svc_insert svc store ?s w1 = (ir, w2)" by force
    note law = insert [OF ins]
    show ?thesis
    proof (cases ir)
      case (Some e)
      obtain r2 w3 where rel: "release svc ?s prev r1 w2 = (r2, w3)" by force
      from law Some ok(2) have tw: "table w2 = table w" by simp
      then have "ahead (Seal now ?rec (last_record (table w2))) w2" using law ok(3) by (simp add: ahead_def)
      from release_settles [OF rel [folded tw] this] ok tw ns sound assms(3)
      have "table w3 = table w" "settled r2 w3 \<or> stranded r2 w3" by auto
      moreover have "res = Some (AdoptionNotRecorded e)" "r' = r2" "w' = w3"
        using assms(1) cl ok(1) ins Some rel by (auto simp: recordAdoption_def Let_def)
      ultimately show ?thesis by (intro exI [of _ "[]"]) (simp add: adoptions_def)
    next
      case None
      let ?r2 = "r1\<lparr>rc_sequence := ar_sequence ?s\<rparr>"
      have grow: "table w2 = table w1 @ [?s]" "head w2 = head w1" using law None by simp_all
      have st: "settled ?r2 w2"
        by (rule landed_settles [of now ?rec w1]) (use ok grow ns sound in simp_all)
      obtain m w3 where mk: "markAdoptionRecorded svc ?r2 w2 = (m, w3)" by force
      from mark_loop_settled [OF mk [unfolded markAdoptionRecorded_def] st]
      have "table w3 = table w @ [?s]" "settled ?r2 w3" using grow(1) ok(2) by simp_all
      moreover have "res = map_option Kube m" "r' = ?r2" "w' = w3"
        using assms(1) cl ok(1) ins None mk by (auto simp: recordAdoption_def Let_def)
      ultimately show ?thesis
        by (intro exI [of _ "[?s]"]) (simp add: adoptions_def adoption_kind)
    qed
  qed
qed

lemma establishAnchor_settled:
  assumes "establishAnchor svc store r w = (res, r', w')" "settled r w" "int (length (table w)) + 1 < 2 ^ 63"
  shows "\<exists>adopt. adoptions adopt \<and> table w' = table w @ adopt \<and> (settled r' w' \<or> res \<noteq> None \<and> stranded r' w')
    \<and> (\<forall>f q. res \<noteq> Some (GoneBackwards f q))"
proof (cases "rc_anchored r")
  case True
  with assms show ?thesis by (intro exI [of _ "[]"]) (simp add: establishAnchor_def adoptions_def)
next
  case False
  from assms(2) have ns: "rc_namespace r = ns" and ch: "chained (head w) (table w)" and fl: "rc_floor r \<le> int (length (table w))"
    by (simp_all add: settled_def)
  obtain rd w1 where rd: "readHead svc store r w = (rd, w1)" by force
  have tw: "table w1 = table w" by (rule readHead_quiet [OF rd ns])
  show ?thesis
  proof (cases rd)
    case (Inl e)
    from readHead_error [OF rd [unfolded Inl] ns] assms(1,2) False rd Inl tw show ?thesis
      by (intro exI [of _ "[]"]) (auto simp: establishAnchor_def adoptions_def settled_def)
  next
    case (Inr hc)
    obtain h c where hc: "rd = Inr (h, c)" using Inr by (cases hc) auto
    have st: "settled r w1"
      using readHead_chained(3) [OF rd [unfolded hc] ns ch] ns fl tw assms(3) by (simp add: settled_def)
    show ?thesis
    proof (cases "cm_value c headKeyOrigin = OriginAdopted \<and> cm_value c headKeyAdoptionRecorded \<noteq> headAdoptionDone")
      case True
      obtain e r2 w2 where ra: "recordAdoption svc store c r w1 = (e, r2, w2)" by (metis prod_cases3)
      from recordAdoption_settled [OF ra st] tw assms(3) obtain adopt where
        "adoptions adopt" "table w2 = table w @ adopt" "settled r2 w2 \<or> e \<noteq> None \<and> stranded r2 w2"
        "\<forall>f q. e \<noteq> Some (GoneBackwards f q)" by auto
      moreover have "res = e" "w' = w2" "r' = (if e = None then r2\<lparr>rc_anchored := True\<rparr> else r2)"
        using assms(1) False rd hc True ra by (auto simp: establishAnchor_def split: option.splits)
      ultimately show ?thesis by (intro exI [of _ adopt]) (auto simp: settled_def)
    next
      case other: False
      then have "res = None" "r' = r\<lparr>rc_anchored := True\<rparr>" "w' = w1"
        using assms(1) False rd hc by (auto simp: establishAnchor_def)
      with st tw show ?thesis by (intro exI [of _ "[]"]) (simp add: adoptions_def settled_def)
    qed
  qed
qed

lemma append_settled:
  assumes "append_record svc store rec r w = (res, r', w')" "settled r w" "int (length (table w)) + 2 < 2 ^ 63"
  obtains e adopt where "res = Some e" "adoptions adopt" "table w' = table w @ adopt"
    "settled r' w' \<or> stranded r' w'" "\<And>f q. e \<noteq> GoneBackwards f q"
  | adopt now where "res = None" "adoptions adopt" "settled r' w'"
    "table w' = table w @ adopt @ [Seal now rec (last_record (table w @ adopt))]"
    "ahead (Seal now rec (last_record (table w @ adopt))) w'"
proof -
  obtain ea r1 w1 where ea: "establishAnchor svc store r w = (ea, r1, w1)" by (metis prod_cases3)
  from establishAnchor_settled [OF ea assms(2)] assms(3) obtain adopt where
    adopt: "adoptions adopt" "table w1 = table w @ adopt" "settled r1 w1 \<or> ea \<noteq> None \<and> stranded r1 w1"
    "\<forall>f q. ea \<noteq> Some (GoneBackwards f q)" by auto
  show thesis
  proof (cases ea)
    case (Some e)
    then have "res = Some e" "r' = r1" "w' = w1" using assms(1) ea by (auto simp: append_record_def)
    with adopt Some that(1) show ?thesis by blast
  next
    case None
    then have st: "settled r1 w1" using adopt(3) by simp
    have len: "int (length (table w1)) + 1 < 2 ^ 63" using adopt(1,2) assms(3) by (simp add: adoptions_def)
    from st have ns: "rc_namespace r1 = ns" and sound: "sound_run (table w1) zero_record"
      by (simp_all add: settled_def chained_def)
    obtain cl r2 w2 where cl: "claim svc store rec r1 w1 = (cl, r2, w2)" by (metis prod_cases3)
    show ?thesis
    proof (rule claim_settled [OF cl st len])
      fix e
      assume "cl = Inl e" "r2 = r1" "settled r1 w2" "table w2 = table w1" "\<And>f q. e \<noteq> GoneBackwards f q"
      moreover from this have "res = Some e" "r' = r1" "w' = w2"
        using assms(1) ea None cl by (auto simp: append_record_def)
      ultimately show ?thesis using that(1) [OF _ adopt(1)] adopt(2) by simp
    next
      fix now prev
      let ?s = "Seal now rec (last_record (table w1))"
      assume ok: "cl = Inr (?s, prev)" "table w2 = table w1" "ahead ?s w2" "same_head prev (last_record (table w1))"
        "r2 = r1\<lparr>rc_floor := int (length (table w1)) + 1\<rparr>"
      obtain ir w3 where ins: "svc_insert svc store ?s w2 = (ir, w3)" by force
      note law = insert [OF ins]
      show ?thesis
      proof (cases ir)
        case (Some e)
        obtain r3 w4 where rel: "release svc ?s prev r2 w3 = (r3, w4)" by force
        from law Some ok(2) have tw: "table w3 = table w1" by simp
        then have "ahead (Seal now rec (last_record (table w3))) w3" using law ok(3) by (simp add: ahead_def)
        from release_settles [OF rel [folded tw] this] ok tw ns sound len
        have "table w4 = table w1" "settled r3 w4 \<or> stranded r3 w4" by auto
        moreover have "res = Some (NotAppended e)" "r' = r3" "w' = w4"
          using assms(1) ea None cl ok(1) ins Some rel by (auto simp: append_record_def)
        ultimately show ?thesis using that(1) [OF _ adopt(1)] adopt(2) by simp
      next
        case land: None
        have grow: "table w3 = table w2 @ [?s]" "head w3 = head w2" using law land by simp_all
        have "settled (r2\<lparr>rc_sequence := ar_sequence ?s\<rparr>) w3"
          by (rule landed_settles [of now rec w2]) (use ok grow ns sound in simp_all)
        moreover have "res = None" "r' = r2\<lparr>rc_sequence := ar_sequence ?s\<rparr>" "w' = w3"
          using assms(1) ea None cl ok(1) ins land by (auto simp: append_record_def)
        moreover have "ahead ?s w3" using ok(3) grow(2) by (simp add: ahead_def)
        ultimately show ?thesis using that(2) [OF _ adopt(1)] grow(1) ok(2) adopt(2) by simp
      qed
    qed
  qed
qed

lemma resolve_settled:
  assumes "resolve svc r w = (res, r', w')" "settled r w"
  shows "settled r' w' \<and> table w' = table w \<and> rc_anchored r' = rc_anchored r
    \<and> (\<forall>store. res = Inr store \<longrightarrow> (if rc_enabled r' then rc_store r' else None) = store)"
  using assms
  by (auto simp: resolve_def settled_def Let_def split: if_splits sum.splits prod.splits option.splits
      dest!: kitchen secret)

lemma resolve_head:
  assumes "resolve svc r w = (res, r', w')"
  shows "head w' = head w"
  using assms
  by (auto simp: resolve_def Let_def split: if_splits sum.splits prod.splits option.splits
      dest!: kitchen secret)

lemma Record_settled:
  assumes "Record svc (Some r) t w = (res, Some r', w')" "settled r w" "int (length (table w)) + 2 < 2 ^ 63"
  obtains e adopt where "res = Some e" "adoptions adopt" "table w' = table w @ adopt"
    "settled r' w' \<or> stranded r' w'" "\<And>f q. e \<noteq> GoneBackwards f q"
  | "res = None" "table w' = table w" "\<not> st_recording (Status (Some r'))" "settled r' w'"
  | rec adopt now where "res = None" "transition_record t = Inr rec" "adoptions adopt" "settled r' w'"
    "table w' = table w @ adopt @ [Seal now rec (last_record (table w @ adopt))]"
    "ahead (Seal now rec (last_record (table w @ adopt))) w'"
proof (cases "transition_record t")
  case (Inl e)
  then have "res = Some (BadTransition e)" "r' = r" "w' = w" using assms(1) by (auto simp: Record_def)
  with assms(2) show thesis by (intro that(1) [of "BadTransition e" "[]"]) (simp_all add: adoptions_def)
next
  case (Inr rec)
  obtain rs r1 w1 where rs: "resolve svc r w = (rs, r1, w1)" by (metis prod_cases3)
  note st = resolve_settled [OF rs assms(2)]
  show thesis
  proof (cases rs)
    case (Inl e)
    then have "res = Some (Unreachable e)" "r' = r1" "w' = w1" using assms(1) Inr rs by (auto simp: Record_def)
    with st show ?thesis by (intro that(1) [of "Unreachable e" "[]"]) (simp_all add: adoptions_def)
  next
    case store: (Inr so)
    show ?thesis
    proof (cases so)
      case None
      then have "res = None" "r' = r1" "w' = w1" using assms(1) Inr rs store by (auto simp: Record_def)
      with st store None show ?thesis by (intro that(2)) (auto simp: Status_def split: if_splits)
    next
      case (Some store')
      obtain e r2 w2 where ap: "append_record svc store' rec r1 w1 = (e, r2, w2)" by (metis prod_cases3)
      have eqs: "res = e" "r' = r2" "w' = w2" using assms(1) Inr rs store Some ap by (auto simp: Record_def)
      have st1: "settled r1 w1" "table w1 = table w" using st by simp_all
      have len: "int (length (table w1)) + 2 < 2 ^ 63" using st1 assms(3) by simp
      show ?thesis
      proof (rule append_settled [OF ap st1(1) len])
        fix err adopt
        assume "e = Some err" "adoptions adopt" "table w2 = table w1 @ adopt" "settled r2 w2 \<or> stranded r2 w2"
          "\<And>f q. err \<noteq> GoneBackwards f q"
        with eqs st1 show ?thesis by (intro that(1)) simp_all
      next
        fix adopt now
        assume "e = None" "adoptions adopt" "settled r2 w2"
          "table w2 = table w1 @ adopt @ [Seal now rec (last_record (table w1 @ adopt))]"
          "ahead (Seal now rec (last_record (table w1 @ adopt))) w2"
        with eqs st1 Inr show ?thesis by (intro that(3)) simp_all
      qed
    qed
  qed
qed

text \<open>What a claim makes of a missing head object over a table that has records.\<close>

lemma claim_loop_unsaid:
  assumes "claim_loop svc store rec n r w = (Inr sp, r', w')" "rc_namespace r = ns"
    and "chained (head w) (table w)" "int (length (table w)) < 2 ^ 63" "table w \<noteq> []"
    and "\<forall>c. head w = Some c \<longrightarrow> adopted_unsaid c"
  shows "\<exists>c. head w' = Some c \<and> adopted_unsaid c"
  using assms
proof (induction n arbitrary: w)
  case (Suc n)
  obtain rd w1 where rd: "readHead svc store r w = (rd, w1)" by force
  obtain h c where hc: "rd = Inr (h, c)" using Suc.prems(1) rd by (cases rd) auto
  note rdc = readHead_chained [OF rd [unfolded hc] Suc.prems(2-4)]
  have quiet: "table w1 = table w" by (rule readHead_quiet [OF rd Suc.prems(2)])
  have seq: "ar_sequence h = int (length (table w))"
    using rdc(1) last_record_sequence [of "table w"] Suc.prems(3,4) by (simp add: same_head_def chained_def)
  have unsaid: "adopted_unsaid c"
  proof (cases "head w")
    case (Some d)
    with readHead_present [OF rd [unfolded hc] Suc.prems(2) Some] Suc.prems(6) show ?thesis by simp
  next
    case None
    have "0 < ar_sequence h" using seq Suc.prems(5) by simp
    from readHead_absent(1) [OF rd [unfolded hc] Suc.prems(2) None] adopted_unsaid_fresh [OF this]
    show ?thesis by auto
  qed
  define sealed where "sealed = Seal (svc_now svc w1) rec h"
  obtain u w2 where up: "svc_update svc (writeHead c sealed) w1 = (u, w2)" by force
  have law: "table w2 = table w" "\<And>e. u = Some e \<Longrightarrow> head w2 = head w1"
    "u = None \<Longrightarrow> \<exists>v. head w2 = Some ((writeHead c sealed)\<lparr>cm_version := v\<rparr>)"
    using update [OF up] rdc(4,5) quiet by auto
  show ?case
  proof (cases u)
    case None
    with Suc.prems(1) rd hc up have "w' = w2" by (auto simp: sealed_def [symmetric] Let_def split: if_splits)
    with law(3) [OF None] unsaid show ?thesis by auto
  next
    case (Some e)
    then have conflict: "claim_loop svc store rec n r w2 = (Inr sp, r', w')"
      using Suc.prems(1) rd hc up by (auto simp: sealed_def [symmetric] Let_def split: if_splits)
    show ?thesis
      by (rule Suc.IH [OF conflict Suc.prems(2)]) (use law Some rdc quiet Suc.prems unsaid in simp_all)
  qed
qed simp

lemma live_readoption:
  assumes "Record svc (Some r) t w = (None, Some r', w')" "st_recording (Status (Some r'))"
    and "rc_namespace r = ns" "head w = None" "table w \<noteq> []" "sound_run (table w) zero_record"
    and "int (length (table w)) + 2 < 2 ^ 63" "rc_floor r \<le> int (length (table w))" "rc_anchored r"
  shows "\<exists>rec now c. transition_record t = Inr rec \<and> table w' = table w @ [Seal now rec (last_record (table w))]
    \<and> head w' = Some c \<and> adopted_unsaid c \<and> rc_anchored r'"
proof -
  have st: "settled r w" using assms by (simp add: settled_def chained_def)
  obtain rec where rec: "transition_record t = Inr rec" using assms(1) by (auto simp: Record_def split: sum.splits)
  obtain rs r1 w1 where rs: "resolve svc r w = (rs, r1, w1)" by (metis prod_cases3)
  note st1 = resolve_settled [OF rs st]
  have hw1: "head w1 = None" using resolve_head [OF rs] assms(4) by simp
  obtain so where so: "rs = Inr so" using assms(1) rec rs by (cases rs) (auto simp: Record_def)
  show ?thesis
  proof (cases so)
    case None
    then have "r' = r1" using assms(1) rec rs so by (auto simp: Record_def)
    with st1 so None assms(2) show ?thesis by (auto simp: Status_def split: if_splits)
  next
    case (Some store)
    have ap: "append_record svc store rec r1 w1 = (None, r', w')"
      using assms(1) rec rs so Some by (cases "append_record svc store rec r1 w1") (auto simp: Record_def)
    have an: "establishAnchor svc store r1 w1 = (None, r1, w1)" using st1 assms(9) by (simp add: establishAnchor_def)
    obtain cl r2 w2 where cl: "claim svc store rec r1 w1 = (cl, r2, w2)" by (metis prod_cases3)
    have s1: "settled r1 w1" "table w1 = table w" "rc_anchored r1" using st1 assms(9) by simp_all
    have len: "int (length (table w1)) + 1 < 2 ^ 63" using s1(2) assms(7) by simp
    show ?thesis
    proof (rule claim_settled [OF cl s1(1) len])
      fix e
      assume "cl = Inl e"
      with ap an cl show ?thesis by (simp add: append_record_def)
    next
      fix now prev
      let ?s = "Seal now rec (last_record (table w1))"
      assume ok: "cl = Inr (?s, prev)" "table w2 = table w1" "r2 = r1\<lparr>rc_floor := int (length (table w1)) + 1\<rparr>"
      obtain ir w3 where ins: "svc_insert svc store ?s w2 = (ir, w3)" by force
      have land: "ir = None" "w' = w3" "r' = r2\<lparr>rc_sequence := ar_sequence ?s\<rparr>"
        using ap an cl ok(1) ins by (auto simp: append_record_def split: option.splits)
      have "\<exists>c. head w2 = Some c \<and> adopted_unsaid c"
        by (rule claim_loop_unsaid [OF cl [unfolded claim_def ok(1)]])
          (use s1 hw1 assms(5) len in \<open>auto simp: settled_def\<close>)
      with insert [OF ins] land ok(2,3) s1 rec show ?thesis by auto
    qed
  qed
qed

lemma wound_back:
  assumes "Record svc (Some r) t w = (res, Some r', w')" "st_recording (Status (Some r'))"
    and "rc_namespace r = ns" "head w = Some c" "ar_sequence (readHeadData c) < rc_floor r" "rc_anchored r"
  shows "res \<noteq> None \<and> table w' = table w \<and> head w' = head w"
proof -
  obtain rs r1 w1 where rs: "resolve svc r w = (rs, r1, w1)" by (metis prod_cases3)
  have quiet: "head w1 = head w" "table w1 = table w"
    and r1: "rc_namespace r1 = ns" "rc_floor r1 = rc_floor r" "rc_anchored r1"
    and st: "\<forall>store. rs = Inr store \<longrightarrow> (if rc_enabled r1 then rc_store r1 else None) = store"
    using rs assms(3,6)
    by (auto simp: resolve_def Let_def split: if_splits sum.splits prod.splits option.splits
        dest!: kitchen secret)
  show ?thesis
  proof (cases "\<exists>rec store. transition_record t = Inr rec \<and> rs = Inr (Some store)")
    case True
    then obtain rec store where inr: "transition_record t = Inr rec" "rs = Inr (Some store)" by blast
    obtain rd w2 where rd: "readHead svc store r1 w1 = (rd, w2)" by force
    have tw: "table w2 = table w" using readHead_quiet [OF rd r1(1)] quiet by simp
    have an: "establishAnchor svc store r1 w1 = (None, r1, w1)" using r1(3) by (simp add: establishAnchor_def)
    obtain n where five: "headClaimAttempts = Suc n" by (simp add: headClaimAttempts_def numeral_eq_Suc)
    obtain e where cl: "claim svc store rec r1 w1 = (Inl e, r1, w2) \<and> head w2 = head w"
    proof (cases rd)
      case (Inl e)
      with readHead_error [OF rd [unfolded Inl] r1(1)] quiet that [of e] rd show thesis
        by (simp add: claim_def five)
    next
      case (Inr hc)
      obtain h d where hc: "rd = Inr (h, d)" using Inr by (cases hc) auto
      from readHead_present [OF rd [unfolded hc] r1(1)] quiet(1) assms(4)
      have "h = readHeadData c" "head w2 = head w" by simp_all
      with rd hc r1(2) assms(5) that show thesis by (simp add: claim_def five)
    qed
    then have "append_record svc store rec r1 w1 = (Some e, r1, w2)" by (simp add: append_record_def an)
    with assms(1) inr rs cl tw show ?thesis by (auto simp: Record_def)
  next
    case False
    then show ?thesis
      using assms(1,2) rs quiet st
      by (auto simp: Record_def Status_def split: sum.splits option.splits if_splits)
  qed
qed

end

subsection \<open>A cluster\<close>

text \<open>A model of the services: one slot for the head object with optimistic concurrency on its
  version, the table, the configuration, and a script of faults, one per call, where True is a
  call that is not answered and has no effect.\<close>

record cluster =
  cl_head :: "config_map option"
  cl_table :: "audit_record list"
  cl_version :: nat
  cl_clock :: time
  cl_kitchen :: "kitchen option"
  cl_secrets :: "string \<rightharpoonup> store_secret"
  cl_faults :: "bool list"

definition cl_head_of :: "string \<Rightarrow> cluster \<Rightarrow> config_map option" where
  "cl_head_of ns w = (case cl_head w of None \<Rightarrow> None
     | Some c \<Rightarrow> if cm_namespace c = ns \<and> cm_name c = HeadName then Some c else None)"

definition cl_call :: "(cluster \<Rightarrow> 'a \<times> cluster) \<Rightarrow> 'a \<Rightarrow> cluster \<Rightarrow> 'a \<times> cluster" where
  "cl_call f failed w =
     (case cl_faults w of
        [] \<Rightarrow> f w
      | b # bs \<Rightarrow> if b then (failed, w\<lparr>cl_faults := bs\<rparr>) else f (w\<lparr>cl_faults := bs\<rparr>))"

definition cl_down :: "kube_error + 'a" where "cl_down = Inl (Unanswered ''timeout'')"

definition cl_get_config :: "string \<Rightarrow> string \<Rightarrow> cluster \<Rightarrow> (kube_error + config_map) \<times> cluster" where
  "cl_get_config ns n = cl_call (\<lambda>w. (case cl_head w of
       Some c \<Rightarrow> if cm_namespace c = ns \<and> cm_name c = n then Inr c else Inl NotFound
     | None \<Rightarrow> Inl NotFound, w)) cl_down"

definition cl_create_config :: "config_map \<Rightarrow> cluster \<Rightarrow> (kube_error + config_map) \<times> cluster" where
  "cl_create_config c = cl_call (\<lambda>w.
     if cl_head_of (cm_namespace c) w = None
     then (Inr (c\<lparr>cm_version := cl_version w\<rparr>),
           w\<lparr>cl_head := Some (c\<lparr>cm_version := cl_version w\<rparr>), cl_version := Suc (cl_version w)\<rparr>)
     else (Inl AlreadyExists, w)) cl_down"

definition cl_update_config :: "config_map \<Rightarrow> cluster \<Rightarrow> kube_error option \<times> cluster" where
  "cl_update_config c = cl_call (\<lambda>w. case cl_head_of (cm_namespace c) w of
       None \<Rightarrow> (Some NotFound, w)
     | Some d \<Rightarrow> if cm_version d = cm_version c
         then (None, w\<lparr>cl_head := Some (c\<lparr>cm_version := cl_version w\<rparr>), cl_version := Suc (cl_version w)\<rparr>)
         else (Some Conflict, w)) (Some (Unanswered ''timeout''))"

definition cl_max :: "audit_record list \<Rightarrow> audit_record" where
  "cl_max t = foldr (\<lambda>r m. if ar_sequence m \<le> ar_sequence r then r else m) t (last_record t)"

definition cluster_services :: "cluster services" where
  "cluster_services = \<lparr>svc_now = cl_clock,
     svc_kitchen = (\<lambda>n. cl_call (\<lambda>w. (case cl_kitchen w of None \<Rightarrow> Inl NotFound | Some k \<Rightarrow> Inr k, w)) cl_down),
     svc_secret = (\<lambda>m n. cl_call (\<lambda>w. (case cl_secrets w n of None \<Rightarrow> Inl NotFound | Some k \<Rightarrow> Inr k, w)) cl_down),
     svc_get = cl_get_config, svc_create = cl_create_config, svc_update = cl_update_config,
     svc_audit_head = (\<lambda>st. cl_call (\<lambda>w. (Inr (cl_max (cl_table w)), w)) (Inl ''timeout'')),
     svc_insert = (\<lambda>st r. cl_call (\<lambda>w. (None, w\<lparr>cl_table := cl_table w @ [r]\<rparr>)) (Some ''timeout''))\<rparr>"

lemma cl_max_props: "t \<noteq> [] \<Longrightarrow> cl_max t \<in> set t \<and> (\<forall>r \<in> set t. ar_sequence r \<le> ar_sequence (cl_max t))"
proof -
  have "foldr (\<lambda>r m. if ar_sequence m \<le> ar_sequence r then r else m) xs a \<in> insert a (set xs)
      \<and> (\<forall>r \<in> insert a (set xs). ar_sequence r
          \<le> ar_sequence (foldr (\<lambda>r m. if ar_sequence m \<le> ar_sequence r then r else m) xs a))" for xs a
    by (induction xs) auto
  moreover assume "t \<noteq> []"
  then have "last_record t \<in> set t" by (simp add: last_record_def)
  ultimately show ?thesis by (force simp: cl_max_def)
qed

lemma cl_call_cases:
  assumes "cl_call f failed w = (res, w')"
  obtains bs where "res = failed" "w' = w\<lparr>cl_faults := bs\<rparr>" | bs where "f (w\<lparr>cl_faults := bs\<rparr>) = (res, w')"
proof (cases "cl_faults w")
  case Nil
  then have "cl_call f failed w = f (w\<lparr>cl_faults := []\<rparr>)" by (cases w) (simp add: cl_call_def)
  then have "f (w\<lparr>cl_faults := []\<rparr>) = (res, w')" using assms by (simp only:)
  then show thesis by (rule that(2))
next
  case (Cons b bs)
  then show thesis using assms that by (auto simp: cl_call_def split: if_splits)
qed

lemma cl_head_of_faults [simp]: "cl_head_of ns (w\<lparr>cl_faults := bs\<rparr>) = cl_head_of ns w"
  by (simp add: cl_head_of_def)

interpretation cluster: audit_services cluster_services ns "cl_head_of ns" cl_table for ns
proof unfold_locales
  fix w c assume "cl_head_of ns w = Some c"
  then show "cm_namespace c = ns \<and> cm_name c = HeadName" by (auto simp: cl_head_of_def split: option.splits if_splits)
next
  fix n w res w' assume "svc_kitchen cluster_services n w = (res, w')"
  then show "cl_head_of ns w' = cl_head_of ns w \<and> cl_table w' = cl_table w"
    by (auto simp: cluster_services_def elim!: cl_call_cases)
next
  fix m n w res w' assume "svc_secret cluster_services m n w = (res, w')"
  then show "cl_head_of ns w' = cl_head_of ns w \<and> cl_table w' = cl_table w"
    by (auto simp: cluster_services_def elim!: cl_call_cases)
next
  fix w res w' assume "svc_get cluster_services ns HeadName w = (res, w')"
  then show "cl_head_of ns w' = cl_head_of ns w \<and> cl_table w' = cl_table w
      \<and> (\<forall>c. res = Inr c \<longrightarrow> cl_head_of ns w = Some c) \<and> (res = Inl NotFound \<longrightarrow> cl_head_of ns w = None)"
    by (auto simp: cluster_services_def cl_get_config_def cl_down_def cl_head_of_def
        elim!: cl_call_cases split: option.splits if_splits)
next
  fix c w res w' assume "svc_create cluster_services c w = (res, w')" "cm_namespace c = ns" "cm_name c = HeadName"
  then show "cl_table w' = cl_table w \<and> (\<forall>e. res = Inl e \<longrightarrow> cl_head_of ns w' = cl_head_of ns w)
      \<and> (\<forall>d. res = Inr d \<longrightarrow> cl_head_of ns w = None \<and> cl_head_of ns w' = Some d \<and> (\<exists>v. d = c\<lparr>cm_version := v\<rparr>))"
    by (auto simp: cluster_services_def cl_create_config_def cl_down_def cl_head_of_def
        elim!: cl_call_cases split: option.splits if_splits)
next
  fix c w res w' assume "svc_update cluster_services c w = (res, w')" "cm_namespace c = ns" "cm_name c = HeadName"
  then show "cl_table w' = cl_table w \<and> (\<forall>e. res = Some e \<longrightarrow> cl_head_of ns w' = cl_head_of ns w)
      \<and> (res = None \<longrightarrow> (\<exists>d. cl_head_of ns w = Some d \<and> cm_version d = cm_version c)
          \<and> (\<exists>v. cl_head_of ns w' = Some (c\<lparr>cm_version := v\<rparr>)))"
    by (auto simp: cluster_services_def cl_update_config_def cl_head_of_def
        elim!: cl_call_cases split: option.splits if_splits) (blast+)?
next
  fix st w res w' assume "svc_audit_head cluster_services st w = (res, w')"
  then show "cl_head_of ns w' = cl_head_of ns w \<and> cl_table w' = cl_table w
      \<and> (\<forall>h. res = Inr h \<longrightarrow> (if cl_table w = [] then h = zero_record
           else h \<in> set (cl_table w) \<and> (\<forall>r \<in> set (cl_table w). ar_sequence r \<le> ar_sequence h)))"
    using cl_max_props [of "cl_table w"]
    by (auto simp: cluster_services_def cl_max_def last_record_def elim!: cl_call_cases)
next
  fix st r w res w' assume "svc_insert cluster_services st r w = (res, w')"
  then show "cl_head_of ns w' = cl_head_of ns w \<and> cl_table w' = (if res = None then cl_table w @ [r] else cl_table w)"
    by (auto simp: cluster_services_def cl_head_of_def elim!: cl_call_cases)
qed

subsection \<open>Properties\<close>

lemma chained_verifies:
  assumes "chained (Some c) t" "int (length t) < 2 ^ 63" "t \<noteq> []"
  shows "v_intact (AgainstAnchor (Verify t zero_record) (anchorFrom c) False)"
proof -
  have sound: "sound_run t zero_record" and hd: "same_head (readHeadData c) (last_record t)"
    using assms(1) by (simp_all add: chained_def)
  have "v_findings (Verify t zero_record) = []" using sound by (simp add: Verify_intact [symmetric] v_intact_iff)
  moreover have "v_to (Verify t zero_record) = an_sequence (anchorFrom c)"
    using hd Verify_range [OF assms(3)] assms(3)
    by (simp add: anchorFrom_def Let_def same_head_def last_record_def)
  moreover have "an_present (anchorFrom c)" by (simp add: anchorFrom_def Let_def)
  ultimately show ?thesis by (simp add: AgainstAnchor_def Let_def)
qed

lemmas services_settled = audit_services.settled_def audit_services.stranded_def audit_services.ahead_def

text \<open>
  C12. A recorded transition is in the log, and the log verifies: on a cluster where nobody else
  writes, whatever calls failed or were retried on the way, when \<open>Record\<close> returns no error and
  the recorder says it is recording, the table has grown by the sealed row of that transition
  (before it, at most one row that says the anchor was adopted), the head object names that row,
  and the whole table verifies against it without a finding.
\<close>

theorem Record_appends:
  assumes "audit_services svc ns head table"
    and "rc_namespace r = ns" and "chained (head w) (table w)" and "rc_floor r \<le> int (length (table w))"
    and "int (length (table w)) + 2 < 2 ^ 63"
    and "Record svc (Some r) t w = (None, Some r', w')" and "st_recording (Status (Some r'))"
  shows "\<exists>rec adopt now c. transition_record t = Inr rec \<and> adoptions adopt
    \<and> table w' = table w @ adopt @ [Seal now rec (last_record (table w @ adopt))]
    \<and> head w' = Some c \<and> chained (Some c) (table w') \<and> rc_floor r' \<le> int (length (table w'))
    \<and> v_intact (AgainstAnchor (Verify (table w') zero_record) (anchorFrom c) False)"
proof -
  note defs = services_settled [OF assms(1)]
  have st: "audit_services.settled ns head table r w" using assms(2-4) by (simp add: defs)
  show ?thesis
  proof (rule audit_services.Record_settled [OF assms(1,6) st assms(5)])
    fix rec adopt now
    let ?s = "Seal now rec (last_record (table w @ adopt))"
    assume a: "transition_record t = Inr rec" "adoptions adopt" "audit_services.settled ns head table r' w'"
      "table w' = table w @ adopt @ [?s]" "audit_services.ahead head ?s w'"
    then obtain c where c: "head w' = Some c" by (auto simp: defs)
    then have ch: "chained (Some c) (table w')" using a(3) by (simp add: defs)
    have "v_intact (AgainstAnchor (Verify (table w') zero_record) (anchorFrom c) False)"
      by (rule chained_verifies [OF ch]) (use a(2,4) assms(5) in \<open>simp_all add: adoptions_def\<close>)
    with a c ch show ?thesis unfolding defs by blast
  qed (use assms(7) in simp_all)
qed


text \<open>
  A head wound back under a running recorder stops it: when the head object names a number
  below one this process has taken, \<open>Record\<close> returns an error and neither the table nor the
  head changes, whatever the services answer.
\<close>

lemma wound_back_head_refused:
  assumes "audit_services svc ns head table"
    and "rc_namespace r = ns" and "rc_anchored r"
    and "head w = Some c" and "an_sequence (anchorFrom c) < rc_floor r"
    and "Record svc (Some r) t w = (res, Some r', w')" and "st_recording (Status (Some r'))"
  shows "res \<noteq> None \<and> table w' = table w \<and> head w' = head w"
  by (rule audit_services.wound_back [OF assms(1,6,7,2,4) _ assms(3)])
    (use assms(5) in \<open>simp add: anchorFrom_def Let_def\<close>)

text \<open>
  An anchor deleted under a running recorder is taken from the table again without a word
  in the log: a process that has appended before (its \<open>anchored\<close> flag is set) and finds no head
  object seeds a new one, marked adopted and unrecorded, and appends the transition only; the
  reconcile's \<open>EnsureAnchor\<close>, asked right after, adds no row either.
\<close>

lemma live_readoption_unrecorded:
  assumes "audit_services svc ns head table"
    and "rc_namespace r = ns" and "rc_anchored r" and "rc_floor r \<le> int (length (table w))"
    and "head w = None" and "table w \<noteq> []" and "sound_run (table w) zero_record"
    and "int (length (table w)) + 2 < 2 ^ 63"
    and "Record svc (Some r) t w = (None, Some r', w')" and "st_recording (Status (Some r'))"
  shows "\<exists>rec now c. transition_record t = Inr rec
    \<and> table w' = table w @ [Seal now rec (last_record (table w))]
    \<and> head w' = Some c \<and> an_origin (anchorFrom c) = OriginAdopted
    \<and> cm_value c headKeyAdoptionRecorded \<noteq> headAdoptionDone
    \<and> table (snd (snd (EnsureAnchor svc (Some r') w'))) = table w'"
proof -
  from audit_services.live_readoption [OF assms(1,9,10,2,5,6,7,8,4,3)] obtain rec now c where
    c: "transition_record t = Inr rec" "table w' = table w @ [Seal now rec (last_record (table w))]"
      "head w' = Some c" "adopted_unsaid c" "rc_anchored r'" by blast
  have origin: "an_origin (anchorFrom c) = OriginAdopted" "cm_value c headKeyAdoptionRecorded \<noteq> headAdoptionDone"
    using c(4) by (simp_all add: adopted_unsaid_def anchorFrom_def Let_def)
  obtain rs r1 w1 where rs: "resolve svc r' w' = (rs, r1, w1)" by (metis prod_cases3)
  have "rc_anchored r1" "table w1 = table w'"
    using rs c(5) audit_services.kitchen [OF assms(1)] audit_services.secret [OF assms(1)]
    by (auto simp: resolve_def Let_def split: if_splits sum.splits prod.splits option.splits)
  then have "table (snd (snd (EnsureAnchor svc (Some r') w'))) = table w'"
    using rs by (auto simp: EnsureAnchor_def establishAnchor_def split: sum.splits option.splits)
  with c origin show ?thesis by blast
qed

subsection \<open>Witnesses\<close>

definition demo_conn :: conn where
  "demo_conn = \<lparr>co_host = ''ch'', co_http_port = ''8123'', co_database = ''kitchen'', co_username = ''k'',
     co_password = [], co_scheme = ''http'', co_ca_file = [], co_bounded = True\<rparr>"

definition demo_recorder :: recorder where
  "demo_recorder = \<lparr>rc_namespace = ''kitchen'', rc_singleton = ''kitchen'', rc_store = Some demo_conn,
     rc_enabled = True, rc_resolved = 0, rc_sequence = 0, rc_anchored = False, rc_floor = 0, rc_unavailable = []\<rparr>"

definition demo_cluster :: cluster where
  "demo_cluster = \<lparr>cl_head = None, cl_table = [], cl_version = 0, cl_clock = second, cl_kitchen = None,
     cl_secrets = (\<lambda>n. None), cl_faults = []\<rparr>"

lemmas demo_defs = demo_recorder_def demo_cluster_def second_def configCacheTTL_def headClaimAttempts_def

lemmas call_defs = cluster_services_def cl_get_config_def cl_create_config_def cl_update_config_def cl_call_def
  cl_head_of_def cl_max_def last_record_def cl_down_def

lemmas record_defs = Record_def resolve_def append_record_def establishAnchor_def readHead_def claim_def
  release_def Status_def Let_def

lemma demo_five: "(5::nat) = Suc (Suc (Suc (Suc (Suc 0))))" by simp

lemma demo_zero_seq: "ar_sequence zero_record = 0" "ar_hash zero_record = []" by (simp_all add: zero_record_def)

lemma demo_read_written:
  "is_i64 (ar_sequence r) \<Longrightarrow> ar_sequence (readHeadData (writeHead c r)) = ar_sequence r"
  "is_i64 (ar_sequence r) \<Longrightarrow> ar_hash (readHeadData (writeHead c r)) = ar_hash r"
  using readHeadData_writeHead [of r c] by (simp_all add: same_head_def)

lemma demo_value_written:
  "k \<noteq> headKeySequence \<Longrightarrow> k \<noteq> headKeyHash \<Longrightarrow> cm_value (writeHead c r) k = cm_value c k"
  by (simp add: writeHead_def)

lemma demo_origin_key: "headKeyOrigin \<noteq> headKeySequence" "headKeyOrigin \<noteq> headKeyHash"
  by (simp_all add: head_key_defs)

lemma demo_fresh_origin:
  "cm_value (fresh_head ns t s) headKeyOrigin = (if 0 < ar_sequence s then OriginAdopted else OriginGenesis)"
  by (simp add: fresh_head_def Let_def) (simp add: cm_value_def head_key_defs)

lemma demo_origins: "OriginGenesis \<noteq> OriginAdopted"
  by (simp add: OriginGenesis_def OriginAdopted_def)

lemma demo_small_i64: "is_i64 0" "is_i64 1" "is_i64 2"
  by (simp_all add: is_i64_def)

lemma demo_i64_1: "i64 1 = 1" by (simp add: i64_def)

lemmas demo_read = demo_zero_seq demo_read_written demo_value_written demo_origin_key demo_fresh_origin
  demo_origins demo_small_i64 demo_i64_1 demo_five

lemmas demo_eval = record_defs demo_defs call_defs demo_read

lemma demo_record_ok:
  "\<exists>r' w'. Record cluster_services (Some demo_recorder) demo_transition demo_cluster = (None, Some r', w')
     \<and> st_recording (Status (Some r'))"
proof -
  obtain rec where rec: "transition_record demo_transition = Inr rec" using demo_recorded(1) by blast
  show ?thesis
    by (simp add: demo_eval rec)
qed

lemma demo_record_fails:
  "\<exists>e r' w'. Record cluster_services (Some demo_recorder) demo_transition
      (demo_cluster\<lparr>cl_faults := [False, False, False, False, False, True]\<rparr>) = (Some e, Some r', w')"
proof -
  obtain rec where rec: "transition_record demo_transition = Inr rec" using demo_recorded(1) by blast
  show ?thesis
    by (simp add: demo_eval rec)
qed

definition demo_head :: config_map where
  "demo_head = writeHead (fresh_head ''kitchen'' 0 zero_record) (demo_run ! 0)"

lemma demo_wound_back:
  "\<exists>e r' w'. Record cluster_services (Some (demo_recorder\<lparr>rc_anchored := True, rc_floor := 5\<rparr>)) demo_transition
      (demo_cluster\<lparr>cl_head := Some demo_head\<rparr>) = (Some e, Some r', w') \<and> st_recording (Status (Some r'))"
proof -
  obtain rec where rec: "transition_record demo_transition = Inr rec" using demo_recorded(1) by blast
  show ?thesis
    by (simp add: demo_eval rec demo_head_def demo_sequences)
qed

lemma demo_readoption:
  "\<exists>r' w'. Record cluster_services (Some (demo_recorder\<lparr>rc_anchored := True, rc_floor := 2\<rparr>)) demo_transition
      (demo_cluster\<lparr>cl_table := demo_run\<rparr>) = (None, Some r', w') \<and> st_recording (Status (Some r'))"
proof -
  obtain rec where rec: "transition_record demo_transition = Inr rec" using demo_recorded(1) by blast
  have m: "cl_max demo_run = demo_run ! 1"
    by (simp add: cl_max_def demo_run_eq last_record_def demo_zero_seq i64_def)
  show ?thesis
    by (simp add: record_defs demo_defs cluster_services_def cl_get_config_def cl_create_config_def
        cl_update_config_def cl_call_def cl_head_of_def demo_read rec m demo_sequences [simplified])
qed


lemma demo_empty: "chained (cl_head_of ''kitchen'' demo_cluster) (cl_table demo_cluster)"
  by (simp add: chained_def demo_cluster_def cl_head_of_def sound_run_def)

lemma demo_run_chain: "sound_run demo_run zero_record" "length demo_run = 2" "demo_run \<noteq> []"
  by (simp add: demo_run_def sound_run_seal_run) (simp_all add: demo_run_eq)

theorem Record_appends_witness:
  "\<exists>r' w' rec adopt now c. Record cluster_services (Some demo_recorder) demo_transition demo_cluster = (None, Some r', w')
    \<and> adoptions adopt \<and> cl_table w' = adopt @ [Seal now rec (last_record adopt)]
    \<and> v_intact (AgainstAnchor (Verify (cl_table w') zero_record) (anchorFrom c) False)"
proof -
  obtain r' w' where rec: "Record cluster_services (Some demo_recorder) demo_transition demo_cluster = (None, Some r', w')"
    "st_recording (Status (Some r'))" using demo_record_ok by blast
  have "\<exists>rec adopt now c. transition_record demo_transition = Inr rec \<and> adoptions adopt
    \<and> cl_table w' = cl_table demo_cluster @ adopt @ [Seal now rec (last_record (cl_table demo_cluster @ adopt))]
    \<and> cl_head_of ''kitchen'' w' = Some c \<and> chained (Some c) (cl_table w') \<and> rc_floor r' \<le> int (length (cl_table w'))
    \<and> v_intact (AgainstAnchor (Verify (cl_table w') zero_record) (anchorFrom c) False)"
    by (rule Record_appends [OF cluster.audit_services_axioms _ demo_empty _ _ rec])
      (simp_all add: demo_recorder_def demo_cluster_def)
  moreover have "cl_table demo_cluster = []" by (simp add: demo_cluster_def)
  ultimately show ?thesis using rec(1) by auto
qed


lemma wound_back_head_refused_witness:
  "\<exists>e r' w'. Record cluster_services (Some (demo_recorder\<lparr>rc_anchored := True, rc_floor := 5\<rparr>)) demo_transition
      (demo_cluster\<lparr>cl_head := Some demo_head\<rparr>) = (Some e, Some r', w') \<and> cl_table w' = []"
proof -
  let ?w = "demo_cluster\<lparr>cl_head := Some demo_head\<rparr>" and ?r = "demo_recorder\<lparr>rc_anchored := True, rc_floor := 5\<rparr>"
  obtain e r' w' where rec: "Record cluster_services (Some ?r) demo_transition ?w = (Some e, Some r', w')"
    "st_recording (Status (Some r'))" using demo_wound_back by blast
  have "Some e \<noteq> None \<and> cl_table w' = cl_table ?w \<and> cl_head_of ''kitchen'' w' = cl_head_of ''kitchen'' ?w"
    by (rule wound_back_head_refused [OF cluster.audit_services_axioms _ _ _ _ rec, of _ demo_head])
      (simp_all add: demo_recorder_def cl_head_of_def demo_head_def anchorFrom_def Let_def demo_read
        demo_sequences)
  with rec(1) show ?thesis by (auto simp: demo_cluster_def)
qed

lemma live_readoption_unrecorded_witness:
  "\<exists>r' w' now rec c. Record cluster_services (Some (demo_recorder\<lparr>rc_anchored := True, rc_floor := 2\<rparr>)) demo_transition
      (demo_cluster\<lparr>cl_table := demo_run\<rparr>) = (None, Some r', w')
    \<and> cl_table w' = demo_run @ [Seal now rec (demo_run ! 1)]
    \<and> cl_head_of ''kitchen'' w' = Some c \<and> an_origin (anchorFrom c) = OriginAdopted"
proof -
  let ?w = "demo_cluster\<lparr>cl_table := demo_run\<rparr>" and ?r = "demo_recorder\<lparr>rc_anchored := True, rc_floor := 2\<rparr>"
  obtain r' w' where rec: "Record cluster_services (Some ?r) demo_transition ?w = (None, Some r', w')"
    "st_recording (Status (Some r'))" using demo_readoption by blast
  have last: "last_record demo_run = demo_run ! 1" by (simp add: last_record_def demo_run_eq)
  have "\<exists>rec now c. transition_record demo_transition = Inr rec
    \<and> cl_table w' = cl_table ?w @ [Seal now rec (last_record (cl_table ?w))]
    \<and> cl_head_of ''kitchen'' w' = Some c \<and> an_origin (anchorFrom c) = OriginAdopted
    \<and> cm_value c headKeyAdoptionRecorded \<noteq> headAdoptionDone
    \<and> cl_table (snd (snd (EnsureAnchor cluster_services (Some r') w'))) = cl_table w'"
    by (rule live_readoption_unrecorded [OF cluster.audit_services_axioms _ _ _ _ _ _ _ rec])
      (simp_all add: demo_recorder_def demo_cluster_def cl_head_of_def demo_run_chain)
  with rec(1) show ?thesis by (auto simp: last)
qed

end
