(* ===== verification/AuditReplicas.thy ===== *)
theory AuditReplicas
  imports AuditAppend
begin

section \<open>Several replicas appending at once (internal/audit/head.go, recorder.go)\<close>

text \<open>
  The API runs in several replicas and each appends through its own recorder; a recorder's mutex
  keeps one replica at one append at a time, and the head object's version is all that keeps
  replicas apart. \<open>step\<close> is one call of one replica: it takes the body of \<open>claim\<close>, \<open>Record\<close> and
  \<open>release\<close> apart at the calls they make, so that any interleaving is a sequence of steps. A
  retry of \<open>claim\<close> after a conflict is the replica reading again. The invariant keeps, as a
  ghost, the stack of claims not given back.
\<close>

datatype phase =
    Idle
  | Reading audit_record config_map
  | Claimed audit_record audit_record
  | Failed audit_record audit_record
  | Returning audit_record audit_record config_map

record system =
  s_head :: config_map
  s_rows :: "audit_record list"
  s_phase :: "nat \<Rightarrow> phase"
  s_floor :: "nat \<Rightarrow> int"

definition go :: "nat \<Rightarrow> phase \<Rightarrow> system \<Rightarrow> system" where
  "go i ph s = s\<lparr>s_phase := (s_phase s)(i := ph)\<rparr>"

text \<open>\<open>Update\<close> that went through: the object written, under a new version.\<close>

definition put :: "config_map \<Rightarrow> system \<Rightarrow> system" where
  "put c s = s\<lparr>s_head := c\<lparr>cm_version := Suc (cm_version (s_head s))\<rparr>\<rparr>"

definition set_floor :: "nat \<Rightarrow> int \<Rightarrow> system \<Rightarrow> system" where
  "set_floor i f s = s\<lparr>s_floor := (s_floor s)(i := f)\<rparr>"

definition fresh_copy :: "config_map \<Rightarrow> system \<Rightarrow> bool" where
  "fresh_copy c s \<longleftrightarrow> cm_version c = cm_version (s_head s)"

text \<open>With \<open>lossy\<close>, an insert may land and still be answered with an error.\<close>

inductive step :: "bool \<Rightarrow> system \<Rightarrow> system \<Rightarrow> bool" for lossy where
  read: "s_phase s i = Idle \<Longrightarrow> step lossy s (go i (Reading rec (s_head s)) s)"
| refuse: "s_phase s i = Reading rec c \<Longrightarrow> ar_sequence (readHeadData c) < s_floor s i
    \<Longrightarrow> step lossy s (go i Idle s)"
| conflict: "s_phase s i = Reading rec c \<Longrightarrow> \<not> ar_sequence (readHeadData c) < s_floor s i
    \<Longrightarrow> \<not> fresh_copy c s \<Longrightarrow> step lossy s (go i Idle s)"
| claim: "s_phase s i = Reading rec c \<Longrightarrow> \<not> ar_sequence (readHeadData c) < s_floor s i
    \<Longrightarrow> fresh_copy c s \<Longrightarrow> sealed = Seal now rec (readHeadData c)
    \<Longrightarrow> step lossy s (go i (Claimed sealed (readHeadData c))
          (set_floor i (ar_sequence sealed) (put (writeHead c sealed) s)))"
| insert: "s_phase s i = Claimed sealed prev
    \<Longrightarrow> step lossy s (go i Idle (s\<lparr>s_rows := s_rows s @ [sealed]\<rparr>))"
| insert_fails: "s_phase s i = Claimed sealed prev \<Longrightarrow> step lossy s (go i (Failed sealed prev) s)"
| insert_lost: "lossy \<Longrightarrow> s_phase s i = Claimed sealed prev
    \<Longrightarrow> step lossy s (go i (Failed sealed prev) (s\<lparr>s_rows := s_rows s @ [sealed]\<rparr>))"
| release_reads: "s_phase s i = Failed sealed prev \<Longrightarrow> same_head (readHeadData (s_head s)) sealed
    \<Longrightarrow> step lossy s (go i (Returning sealed prev (s_head s)) s)"
| release_leaves: "s_phase s i = Failed sealed prev \<Longrightarrow> \<not> same_head (readHeadData (s_head s)) sealed
    \<Longrightarrow> step lossy s (go i Idle s)"
| release: "s_phase s i = Returning sealed prev c \<Longrightarrow> fresh_copy c s
    \<Longrightarrow> step lossy s (go i Idle (set_floor i (ar_sequence prev) (put (writeHead c prev) s)))"
| release_fails: "s_phase s i = Returning sealed prev c \<Longrightarrow> step lossy s (go i Idle s)"

inductive_cases stepE: "step lossy s t"

definition fresh_system :: "string \<Rightarrow> time \<Rightarrow> system" where
  "fresh_system ns t = \<lparr>s_head = writeHead (fresh_head ns t zero_record) zero_record, s_rows = [],
     s_phase = (\<lambda>i. Idle), s_floor = (\<lambda>i. 0)\<rparr>"

inductive reaches :: "bool \<Rightarrow> nat \<Rightarrow> system \<Rightarrow> bool" for lossy where
  start: "reaches lossy 0 (fresh_system ns t)"
| next_step: "reaches lossy n s \<Longrightarrow> step lossy s u \<Longrightarrow> reaches lossy (Suc n) u"

subsection \<open>The stack of claims\<close>

definition below :: "audit_record list \<Rightarrow> nat \<Rightarrow> audit_record" where
  "below st k = (if k = 0 then zero_record else st ! (k - 1))"

definition sealed_on :: "audit_record \<Rightarrow> audit_record \<Rightarrow> bool" where
  "sealed_on p s \<longleftrightarrow> ar_sequence s = ar_sequence p + 1 \<and> ar_prev_hash s = prev_link p \<and> ar_hash s = ChainHash s"

definition stack_ok :: "audit_record list \<Rightarrow> bool" where
  "stack_ok st \<longleftrightarrow> (\<forall>k < length st. sealed_on (below st k) (st ! k))"

definition in_stack :: "audit_record list \<Rightarrow> audit_record \<times> audit_record \<Rightarrow> bool" where
  "in_stack st xp \<longleftrightarrow> (\<exists>k < length st. st ! k = fst xp \<and> same_head (snd xp) (below st k))"

fun owner :: "phase \<Rightarrow> (audit_record \<times> audit_record) option" where
  "owner (Claimed x p) = Some (x, p)"
| "owner (Failed x p) = Some (x, p)"
| "owner (Returning x p c) = Some (x, p)"
| "owner Idle = None"
| "owner (Reading r c) = None"

fun seen :: "phase \<Rightarrow> config_map option" where
  "seen (Reading r c) = Some c"
| "seen (Returning x p c) = Some c"
| "seen _ = None"

definition owners_ok :: "audit_record list \<Rightarrow> audit_record list \<Rightarrow> (nat \<Rightarrow> phase) \<Rightarrow> bool" where
  "owners_ok st table ph \<longleftrightarrow>
     (\<forall>i xp. owner (ph i) = Some xp \<longrightarrow> in_stack st xp \<and> fst xp \<notin> set table)
     \<and> (\<forall>i j xp yq. i \<noteq> j \<longrightarrow> owner (ph i) = Some xp \<longrightarrow> owner (ph j) = Some yq \<longrightarrow> fst xp \<noteq> fst yq)"

definition seen_ok :: "config_map \<Rightarrow> (nat \<Rightarrow> phase) \<Rightarrow> bool" where
  "seen_ok h ph \<longleftrightarrow>
     (\<forall>i c. seen (ph i) = Some c \<longrightarrow> cm_version c \<le> cm_version h \<and> (cm_version c = cm_version h \<longrightarrow> c = h))
     \<and> (\<forall>i x p c. ph i = Returning x p c \<longrightarrow> same_head (readHeadData c) x)"

definition claims :: "audit_record list \<Rightarrow> system \<Rightarrow> bool" where
  "claims st s \<longleftrightarrow> stack_ok st \<and> same_head (readHeadData (s_head s)) (last_record st)
     \<and> set (s_rows s) \<subseteq> set st \<and> distinct (s_rows s)
     \<and> owners_ok st (s_rows s) (s_phase s) \<and> seen_ok (s_head s) (s_phase s)"

lemma stack_sequence: "stack_ok st \<Longrightarrow> k < length st \<Longrightarrow> ar_sequence (st ! k) = 1 + int k"
proof (induction k)
  case (Suc k)
  then show ?case by (auto simp: stack_ok_def sealed_on_def below_def)
qed (auto simp: stack_ok_def sealed_on_def below_def zero_record_def)

lemma stack_distinct: "stack_ok st \<Longrightarrow> distinct (map ar_sequence st)"
  by (auto simp: distinct_conv_nth stack_sequence)

lemma stack_last: "stack_ok st \<Longrightarrow> ar_sequence (last_record st) = int (length st)"
  by (cases "st = []") (auto simp: last_record_def last_conv_nth stack_sequence zero_record_def of_nat_diff Suc_leI)

lemma last_below: "last_record st = below st (length st)"
  by (simp add: last_record_def below_def last_conv_nth)

lemma below_append: "k \<le> length st \<Longrightarrow> below (st @ xs) k = below st k"
  by (auto simp: below_def nth_append)

lemma in_stack_append: "in_stack st xp \<Longrightarrow> in_stack (st @ xs) xp"
  unfolding in_stack_def by (metis below_append length_append nth_append order_less_imp_le trans_less_add1)

lemma stack_push:
  assumes "stack_ok st" "same_head h (last_record st)" "int (length st) + 1 < 2 ^ 63"
  shows "stack_ok (st @ [Seal now rec h])" "Seal now rec h \<notin> set st"
    "in_stack (st @ [Seal now rec h]) (Seal now rec h, h)"
proof -
  let ?s = "Seal now rec (last_record st)"
  have s: "Seal now rec h = ?s" by (rule Seal_same_head [OF assms(2)])
  have seq: "ar_sequence ?s = int (length st) + 1"
    using stack_last [OF assms(1)] assms(3) by (simp add: i64_small)
  have on: "sealed_on (last_record st) ?s" using seq stack_last [OF assms(1)] by (simp add: sealed_on_def)
  show "stack_ok (st @ [Seal now rec h])"
    unfolding s stack_ok_def
  proof (intro allI impI)
    fix k assume "k < length (st @ [?s])"
    then consider "k < length st" | "k = length st" by force
    then show "sealed_on (below (st @ [?s]) k) ((st @ [?s]) ! k)"
      using assms(1) on by cases (simp_all add: stack_ok_def below_append nth_append last_below)
  qed
  show "Seal now rec h \<notin> set st"
  proof
    assume "Seal now rec h \<in> set st"
    then obtain k where "k < length st" "st ! k = ?s" by (auto simp: s in_set_conv_nth)
    with stack_sequence [OF assms(1)] seq show False by force
  qed
  show "in_stack (st @ [Seal now rec h]) (Seal now rec h, h)"
    using assms(2) unfolding in_stack_def
    by (intro exI [of _ "length st"]) (simp add: below_append last_below)
qed

lemma stack_pop:
  assumes "stack_ok st" "in_stack st (x, p)" "same_head x (last_record st)"
  shows "st = butlast st @ [x]" "same_head p (last_record (butlast st))" "stack_ok (butlast st)"
proof -
  obtain k where k: "k < length st" "st ! k = x" "same_head p (below st k)"
    using assms(2) by (auto simp: in_stack_def)
  have "1 + int k = int (length st)"
    using stack_sequence [OF assms(1) k(1)] k(2) assms(3) stack_last [OF assms(1)] by (simp add: same_head_def)
  then have len: "length st = Suc k" by simp
  then have ne: "st \<noteq> []" by auto
  show split: "st = butlast st @ [x]" using k(2) len ne by (metis append_butlast_last_id diff_Suc_1 last_conv_nth)
  have bl: "length (butlast st) = k" using len by simp
  show "same_head p (last_record (butlast st))"
    using k(3) below_append [of k "butlast st" "[x]"] split bl by (simp add: last_below)
  show "stack_ok (butlast st)"
    unfolding stack_ok_def
  proof (intro allI impI)
    fix j assume "j < length (butlast st)"
    with assms(1) split below_append [of j "butlast st" "[x]"] show "sealed_on (below (butlast st) j) (butlast st ! j)"
      by (metis length_append nth_append order_less_imp_le stack_ok_def trans_less_add1)
  qed
qed

lemma in_stack_pop:
  assumes "stack_ok (st @ [x])" "in_stack (st @ [x]) yq" "fst yq \<noteq> x"
  shows "in_stack st yq"
proof -
  obtain k where k: "k < length (st @ [x])" "(st @ [x]) ! k = fst yq" "same_head (snd yq) (below (st @ [x]) k)"
    using assms(2) by (auto simp: in_stack_def)
  then have "k < length st" using assms(3) by (cases "k = length st") auto
  with k show ?thesis unfolding in_stack_def by (auto simp: nth_append below_append)
qed

subsection \<open>Every step keeps the invariant\<close>

lemma go_simps [simp]:
  "s_head (go i ph s) = s_head s" "s_rows (go i ph s) = s_rows s" "s_phase (go i ph s) = (s_phase s)(i := ph)"
  "s_head (put c s) = c\<lparr>cm_version := Suc (cm_version (s_head s))\<rparr>" "s_rows (put c s) = s_rows s"
  "s_phase (put c s) = s_phase s" "s_head (set_floor i f s) = s_head s" "s_rows (set_floor i f s) = s_rows s"
  "s_phase (set_floor i f s) = s_phase s" "s_floor (go i ph s) = s_floor s" "s_floor (put c s) = s_floor s"
  "s_floor (set_floor i f s) = (s_floor s)(i := f)"
  by (simp_all add: go_def put_def set_floor_def)

lemma owners_ok_free: "owners_ok st t ph \<Longrightarrow> owner x = None \<Longrightarrow> owners_ok st t (ph(i := x))"
  by (auto simp: owners_ok_def split: if_splits)

lemma owners_ok_same:
  assumes "owners_ok st t ph" "owner x = owner (ph i)"
  shows "owners_ok st t (ph(i := x))"
proof -
  have "owner ((ph(i := x)) j) = owner (ph j)" for j using assms(2) by simp
  with assms(1) show ?thesis unfolding owners_ok_def by (simp only:)
qed

lemma owner_of: "owners_ok st t ph \<Longrightarrow> owner (ph i) = Some (x, p) \<Longrightarrow> in_stack st (x, p) \<and> x \<notin> set t"
  by (force simp: owners_ok_def)

lemma owners_differ:
  "owners_ok st t ph \<Longrightarrow> i \<noteq> j \<Longrightarrow> owner (ph i) = Some (x, p) \<Longrightarrow> owner (ph j) = Some (y, q) \<Longrightarrow> x \<noteq> y"
  unfolding owners_ok_def by (metis fst_conv)

text \<open>One replica moves, over another stack and table perhaps: the others keep their claims.\<close>

lemma owners_ok_upd:
  assumes "owners_ok st t ph"
    and "\<And>j y q. j \<noteq> i \<Longrightarrow> owner (ph j) = Some (y, q)
      \<Longrightarrow> in_stack st' (y, q) \<and> y \<notin> set t' \<and> (\<forall>x p. owner v = Some (x, p) \<longrightarrow> y \<noteq> x)"
    and "\<And>x p. owner v = Some (x, p) \<Longrightarrow> in_stack st' (x, p) \<and> x \<notin> set t'"
  shows "owners_ok st' t' (ph(i := v))"
  unfolding owners_ok_def
proof (intro conjI allI impI)
  fix j xp assume o: "owner ((ph(i := v)) j) = Some xp"
  obtain x p where xp: "xp = (x, p)" by (cases xp)
  have "in_stack st' (x, p) \<and> x \<notin> set t'"
    using assms(2) [of j x p] assms(3) [of x p] o xp by (cases "j = i") simp_all
  then show "in_stack st' xp" "fst xp \<notin> set t'" by (simp_all add: xp)
next
  fix j k xp yq assume jk: "j \<noteq> k" and o: "owner ((ph(i := v)) j) = Some xp" "owner ((ph(i := v)) k) = Some yq"
  obtain x p y q where xy: "xp = (x, p)" "yq = (y, q)" by (cases xp; cases yq)
  consider "j = i" "k \<noteq> i" | "k = i" "j \<noteq> i" | "j \<noteq> i" "k \<noteq> i" using jk by blast
  then have "x \<noteq> y"
  proof cases
    case 1
    with assms(2) [of k y q] o xy show ?thesis by auto
  next
    case 2
    with assms(2) [of j x p] o xy show ?thesis by auto
  next
    case 3
    with owners_differ [OF assms(1) jk, of x p y q] o xy show ?thesis by simp
  qed
  then show "fst xp \<noteq> fst yq" by (simp add: xy)
qed

lemma seen_ok_free: "seen_ok h ph \<Longrightarrow> seen x = None \<Longrightarrow> seen_ok h (ph(i := x))"
  by (auto simp: seen_ok_def split: if_splits)

lemma seen_ok_newer:
  assumes "seen_ok h ph" "seen x = None" "cm_version h < cm_version h'"
  shows "seen_ok h' (ph(i := x))"
proof -
  have "x \<noteq> Returning y p c" for y p c using assms(2) by auto
  moreover have "cm_version c \<le> cm_version h' \<and> cm_version c \<noteq> cm_version h'" if "seen (ph j) = Some c" for j c
  proof -
    have "cm_version c \<le> cm_version h" using assms(1) that unfolding seen_ok_def by blast
    with assms(3) show ?thesis by simp
  qed
  ultimately show ?thesis using assms(1,2) unfolding seen_ok_def by auto
qed

lemma seen_current: "seen_ok h ph \<Longrightarrow> seen (ph i) = Some c \<Longrightarrow> cm_version c = cm_version h \<Longrightarrow> c = h"
  by (simp add: seen_ok_def)

lemma seen_ok_now:
  "seen_ok h ph \<Longrightarrow> seen x = Some h \<Longrightarrow> (\<And>y p c. x = Returning y p c \<Longrightarrow> same_head (readHeadData c) y)
    \<Longrightarrow> seen_ok h (ph(i := x))"
  unfolding seen_ok_def by (auto split: if_splits)

lemma claims_claim:
  assumes "claims st s" "s_phase s i = Reading rec c" "fresh_copy c s" "int (length st) + 1 < 2 ^ 63"
    and "sealed = Seal now rec (readHeadData c)"
  shows "claims (st @ [sealed]) (go i (Claimed sealed (readHeadData c)) (set_floor i f (put (writeHead c sealed) s)))"
proof -
  have inv: "stack_ok st" "same_head (readHeadData (s_head s)) (last_record st)" "set (s_rows s) \<subseteq> set st"
    "distinct (s_rows s)" "owners_ok st (s_rows s) (s_phase s)" "seen_ok (s_head s) (s_phase s)"
    using assms(1) by (simp_all add: claims_def)
  have "seen (s_phase s i) = Some c" using assms(2) by simp
  then have c: "c = s_head s" using seen_current [OF inv(6)] assms(3) by (simp add: fresh_copy_def)
  note push = stack_push [OF inv(1) inv(2) assms(4), of now rec, folded c assms(5)]
  have other: "in_stack (st @ [sealed]) (x, p) \<and> x \<notin> set (s_rows s) \<and> x \<noteq> sealed"
    if "owner (s_phase s j) = Some (x, p)" for j x p
  proof -
    from owner_of [OF inv(5) that] have mem: "in_stack st (x, p)" "x \<notin> set (s_rows s)" by simp_all
    then have "x \<in> set st" unfolding in_stack_def by (metis fst_conv nth_mem)
    with mem push(2) assms(5) in_stack_append show ?thesis by auto
  qed
  have mine: "sealed \<notin> set (s_rows s)" using inv(3) push(2) assms(5) by auto
  have "owners_ok (st @ [sealed]) (s_rows s) ((s_phase s)(i := Claimed sealed (readHeadData c)))"
    by (rule owners_ok_upd [OF inv(5)]) (use other mine push(3) assms(5) in simp_all)
  moreover have "is_i64 (ar_sequence sealed)" by (simp add: assms(5))
  moreover have "seen_ok (s_head (put (writeHead c sealed) s)) ((s_phase s)(i := Claimed sealed (readHeadData c)))"
    by (rule seen_ok_newer [OF inv(6)]) simp_all
  ultimately show ?thesis
    using inv push(1) [folded assms(5)] by (auto simp: claims_def last_record_def)
qed

lemma claims_release:
  assumes "claims st s" "s_phase s i = Returning x p c" "fresh_copy c s" "int (length st) < 2 ^ 63"
  shows "claims (butlast st) (go i Idle (set_floor i f (put (writeHead c p) s)))"
proof -
  have inv: "stack_ok st" "same_head (readHeadData (s_head s)) (last_record st)" "set (s_rows s) \<subseteq> set st"
    "distinct (s_rows s)" "owners_ok st (s_rows s) (s_phase s)" "seen_ok (s_head s) (s_phase s)"
    using assms(1) by (simp_all add: claims_def)
  have "seen (s_phase s i) = Some c" using assms(2) by simp
  then have c: "c = s_head s" using seen_current [OF inv(6)] assms(3) by (simp add: fresh_copy_def)
  have cx: "same_head (readHeadData c) x" using inv(6) assms(2) by (simp add: seen_ok_def)
  have own: "owner (s_phase s i) = Some (x, p)" using assms(2) by simp
  note mine = owner_of [OF inv(5) own]
  have "same_head x (last_record st)" using c cx inv(2) by (simp add: same_head_def)
  note pop = stack_pop [OF inv(1) conjunct1 [OF mine] this]
  have len: "length (butlast st) \<le> length st" by simp
  have "ar_sequence p = int (length (butlast st))"
    using pop(2) stack_last [OF pop(3)] by (simp add: same_head_def)
  then have "is_i64 (ar_sequence p)" using assms(4) len by (intro is_i64_small) linarith+
  then have head: "same_head (readHeadData (writeHead c p)) (last_record (butlast st))"
    using pop(2) same_head_trans readHeadData_writeHead by blast
  have "set st = insert x (set (butlast st))" by (subst pop(1)) simp
  then have sub: "set (s_rows s) \<subseteq> set (butlast st)" using inv(3) mine by auto
  have other: "in_stack (butlast st) (y, q)" if "owner (s_phase s j) = Some (y, q)" "j \<noteq> i" for j y q
  proof -
    have "in_stack st (y, q)" "y \<noteq> x" using owner_of [OF inv(5) that(1)] owners_differ [OF inv(5) that(2,1) own] by simp_all
    then show ?thesis
      using in_stack_pop [of "butlast st" x "(y, q)", folded pop(1)] inv(1) by simp
  qed
  have "owners_ok (butlast st) (s_rows s) ((s_phase s)(i := Idle))"
    by (rule owners_ok_upd [OF inv(5)]) (use other owner_of [OF inv(5)] in simp_all)
  moreover have "seen_ok (s_head (put (writeHead c p) s)) ((s_phase s)(i := Idle))"
    by (rule seen_ok_newer [OF inv(6)]) simp_all
  ultimately show ?thesis using pop(3) head sub inv(4) by (simp add: claims_def)
qed

lemma claims_insert:
  assumes "claims st s" "s_phase s i = Claimed x p"
  shows "claims st (go i Idle (s\<lparr>s_rows := s_rows s @ [x]\<rparr>))"
proof -
  have inv: "owners_ok st (s_rows s) (s_phase s)" using assms(1) by (simp add: claims_def)
  have own: "owner (s_phase s i) = Some (x, p)" using assms(2) by simp
  have "x \<in> set st" using owner_of [OF inv own] unfolding in_stack_def by (metis fst_conv nth_mem)
  moreover have "in_stack st (y, q) \<and> y \<notin> set (s_rows s @ [x])"
    if "j \<noteq> i" "owner (s_phase s j) = Some (y, q)" for j y q
    using owner_of [OF inv that(2)] owners_differ [OF inv that own] by simp
  then have "owners_ok st (s_rows s @ [x]) ((s_phase s)(i := Idle))"
    by (intro owners_ok_upd [OF inv]) simp_all
  ultimately show ?thesis
    using assms(1) owner_of [OF inv own] by (auto simp: claims_def intro: seen_ok_free)
qed

lemma claims_phase:
  assumes "claims st s"
  shows "owner x = None \<Longrightarrow> seen x = None \<Longrightarrow> claims st (go i x s)"
    and "owner x = owner (s_phase s i) \<Longrightarrow> seen x = None \<Longrightarrow> claims st (go i x s)"
    and "claims st (go i (Reading r (s_head s)) s)"
    and "owner (s_phase s i) = Some (y, p) \<Longrightarrow> same_head (readHeadData (s_head s)) y
      \<Longrightarrow> claims st (go i (Returning y p (s_head s)) s)"
proof -
  have inv: "owners_ok st (s_rows s) (s_phase s)" "seen_ok (s_head s) (s_phase s)"
    and rest: "\<And>ph. owners_ok st (s_rows s) ph \<Longrightarrow> seen_ok (s_head s) ph \<Longrightarrow> claims st (s\<lparr>s_phase := ph\<rparr>)"
    using assms by (simp_all add: claims_def)
  show "owner x = None \<Longrightarrow> seen x = None \<Longrightarrow> claims st (go i x s)"
    unfolding go_def by (intro rest owners_ok_free seen_ok_free inv)
  show "owner x = owner (s_phase s i) \<Longrightarrow> seen x = None \<Longrightarrow> claims st (go i x s)"
    unfolding go_def by (intro rest owners_ok_same seen_ok_free inv)
  show "claims st (go i (Reading r (s_head s)) s)"
    unfolding go_def by (intro rest owners_ok_free seen_ok_now inv) simp_all
  assume "owner (s_phase s i) = Some (y, p)" "same_head (readHeadData (s_head s)) y"
  then show "claims st (go i (Returning y p (s_head s)) s)"
    unfolding go_def by (intro rest owners_ok_same seen_ok_now inv) auto
qed

lemma claims_step:
  assumes "claims st s" "step False s u" "int (length st) + 1 < 2 ^ 63"
  shows "\<exists>st'. claims st' u \<and> length st' \<le> Suc (length st)"
proof -
  note keep = claims_phase [OF assms(1)]
  have stay: "claims st u \<Longrightarrow> ?thesis" by (intro exI [of _ st]) simp
  from assms(2) show ?thesis
  proof cases
    case (claim i rec c sealed now)
    with claims_claim [OF assms(1) claim(2,4) assms(3) claim(5)]
    show ?thesis by (intro exI [of _ "st @ [sealed]"]) simp
  next
    case (release i x p c)
    have "int (length st) < 2 ^ 63" using assms(3) by simp
    from claims_release [OF assms(1) release(2,3) this] release(1)
    show ?thesis by (intro exI [of _ "butlast st"]) simp
  next
    case (insert i x p)
    with claims_insert [OF assms(1) insert(2)] show ?thesis by (intro stay) simp
  next
    case (insert_fails i x p)
    then show ?thesis using keep(2) [of "Failed x p" i] by (intro stay) simp
  next
    case (release_reads i x p)
    then show ?thesis using keep(4) [of i x p] by (intro stay) simp
  qed (use keep(1,3) stay in simp_all)
qed

lemma claims_reaches:
  "reaches False n s \<Longrightarrow> int n + 1 < 2 ^ 63 \<Longrightarrow> \<exists>st. claims st s \<and> length st \<le> n"
proof (induction rule: reaches.induct)
  case (start ns t)
  have "is_i64 (ar_sequence zero_record)" by (simp add: zero_record_def is_i64_def)
  then have "claims [] (fresh_system ns t)"
    by (simp add: claims_def fresh_system_def stack_ok_def last_record_def owners_ok_def seen_ok_def)
  then show ?case by force
next
  case (next_step n s u)
  then obtain st where "claims st s" "length st \<le> n" by auto
  with claims_step [OF this(1) next_step(2)] next_step(4) show ?case by force
qed

text \<open>Runs, step by step.\<close>

lemma read_to:
  "reaches l n s \<Longrightarrow> s_phase s i = Idle \<Longrightarrow> u = go i (Reading rec (s_head s)) s \<Longrightarrow> m = Suc n \<Longrightarrow> reaches l m u"
  by (blast intro: next_step step.read)

lemma claim_to:
  "reaches l n s \<Longrightarrow> s_phase s i = Reading rec c \<Longrightarrow> x = Seal now rec (readHeadData c) \<Longrightarrow> p = readHeadData c
    \<Longrightarrow> \<not> ar_sequence (readHeadData c) < s_floor s i \<Longrightarrow> fresh_copy c s
    \<Longrightarrow> u = go i (Claimed x p) (set_floor i (ar_sequence x) (put (writeHead c x) s)) \<Longrightarrow> m = Suc n \<Longrightarrow> reaches l m u"
  by (blast intro: next_step step.claim)

lemma fails_to:
  "reaches l n s \<Longrightarrow> s_phase s i = Claimed x p \<Longrightarrow> u = go i (Failed x p) s \<Longrightarrow> m = Suc n \<Longrightarrow> reaches l m u"
  by (blast intro: next_step step.insert_fails)

lemma lost_to:
  "reaches True n s \<Longrightarrow> s_phase s i = Claimed x p \<Longrightarrow> u = go i (Failed x p) (s\<lparr>s_rows := s_rows s @ [x]\<rparr>)
    \<Longrightarrow> m = Suc n \<Longrightarrow> reaches True m u"
  by (blast intro: next_step step.insert_lost)

lemma insert_to:
  "reaches l n s \<Longrightarrow> s_phase s i = Claimed x p \<Longrightarrow> u = go i Idle (s\<lparr>s_rows := s_rows s @ [x]\<rparr>) \<Longrightarrow> m = Suc n
    \<Longrightarrow> reaches l m u"
  by (blast intro: next_step step.insert)

lemma reads_to:
  "reaches l n s \<Longrightarrow> s_phase s i = Failed x p \<Longrightarrow> same_head (readHeadData (s_head s)) x
    \<Longrightarrow> u = go i (Returning x p (s_head s)) s \<Longrightarrow> m = Suc n \<Longrightarrow> reaches l m u"
  by (blast intro: next_step step.release_reads)

lemma release_to:
  "reaches l n s \<Longrightarrow> s_phase s i = Returning x p c \<Longrightarrow> fresh_copy c s
    \<Longrightarrow> u = go i Idle (set_floor i (ar_sequence p) (put (writeHead c p) s)) \<Longrightarrow> m = Suc n \<Longrightarrow> reaches l m u"
  by (blast intro: next_step step.release)

subsection \<open>Properties\<close>

lemma stack_sound:
  assumes "stack_ok st" "int (length st) < 2 ^ 63"
  shows "sound_run st zero_record"
  unfolding sound_run_def
proof (intro allI impI)
  fix i assume i: "i < length st"
  then have on: "sealed_on (below st i) (st ! i)" using assms(1) by (simp add: stack_ok_def)
  have "i64 (ar_sequence zero_record + 1 + int i) = 1 + int i"
    using assms(2) i by (simp add: zero_record_def i64_small)
  moreover have "prev_link (below st i) = link_before st zero_record i"
  proof (cases "i = 0")
    case False
    then have "sealed_on (below st (i - 1)) (st ! (i - 1))" using assms(1) i by (simp add: stack_ok_def)
    then have "ar_hash (st ! (i - 1)) \<noteq> []" by (simp add: sealed_on_def)
    with False show ?thesis by (simp add: below_def link_before_def prev_link_def)
  qed (simp add: below_def link_before_def)
  ultimately show "ar_sequence (st ! i) = i64 (ar_sequence zero_record + 1 + int i)
     \<and> equal_fold (ar_prev_hash (st ! i)) (link_before st zero_record i)
     \<and> equal_fold (ChainHash (st ! i)) (ar_hash (st ! i))"
    using on stack_sequence [OF assms(1) i] by (simp add: sealed_on_def)
qed



lemma rollback_read_as_wound_back:
  "\<exists>n s rec. reaches False n s \<and> s_rows s = [] \<and> s_phase s = (\<lambda>_. Idle)(1 := Reading rec (s_head s))
     \<and> ar_sequence (readHeadData (s_head s)) < s_floor s 1"
proof -
  define s0 where "s0 = fresh_system [] 0"
  define p where "p = readHeadData (s_head s0)"
  define x where "x = Seal 0 zero_record p"
  define s1 where "s1 = go 0 (Reading zero_record (s_head s0)) s0"
  define s2 where "s2 = go 0 (Claimed x p) (set_floor 0 (ar_sequence x) (put (writeHead (s_head s1) x) s1))"
  define q where "q = readHeadData (s_head s2)"
  define y where "y = Seal 0 zero_record q"
  define s3 where "s3 = go 1 (Reading zero_record (s_head s2)) s2"
  define s4 where "s4 = go 1 (Claimed y q) (set_floor 1 (ar_sequence y) (put (writeHead (s_head s3) y) s3))"
  define s5 where "s5 = go 1 (Failed y q) s4"
  define s6 where "s6 = go 1 (Returning y q (s_head s5)) s5"
  define s7 where "s7 = go 1 Idle (set_floor 1 (ar_sequence q) (put (writeHead (s_head s6) q) s6))"
  define s8 where "s8 = go 0 (Failed x p) s7"
  define s9 where "s9 = go 0 (Returning x p (s_head s8)) s8"
  define s10 where "s10 = go 0 Idle (set_floor 0 (ar_sequence p) (put (writeHead (s_head s9) p) s9))"
  define s11 where "s11 = go 1 (Reading zero_record (s_head s10)) s10"
  have num: "ar_sequence p = 0" "ar_sequence x = 1" by (simp_all add: p_def x_def s0_def fresh_system_def demo_read)
  have q: "ar_sequence q = 1" "ar_hash q = ar_hash x" by (simp_all add: q_def s2_def num demo_read)
  have y: "ar_sequence y = 2" by (simp add: y_def q i64_def)
  have start: "reaches False 0 s0" "s_rows s0 = []" "\<And>i. s_phase s0 i = Idle" "\<And>i. s_floor s0 i = 0"
    by (simp_all add: s0_def reaches.start) (simp_all add: fresh_system_def)
  have s1: "reaches False 1 s1" by (rule read_to [OF start(1)]) (simp_all add: start s1_def)
  have s2: "reaches False 2 s2"
    by (rule claim_to [OF s1, of 0 zero_record "s_head s1" x 0 p])
      (simp_all add: s1_def s2_def x_def p_def start fresh_copy_def num [unfolded p_def])
  have s3: "reaches False 3 s3"
    by (rule read_to [OF s2, of 1]) (simp_all add: s3_def s2_def s1_def start)
  have s4: "reaches False 4 s4"
    by (rule claim_to [OF s3, of 1 zero_record "s_head s3" y 0 q])
      (simp_all add: s4_def s3_def s2_def s1_def y_def q_def start fresh_copy_def num demo_read)
  have s5: "reaches False 5 s5"
    by (rule fails_to [OF s4, of 1 y q]) (simp_all add: s5_def s4_def)
  have s6: "reaches False 6 s6"
    by (rule reads_to [OF s5, of 1 y q]) (simp_all add: s6_def s5_def s4_def same_head_def demo_read y)
  have s7: "reaches False 7 s7"
    by (rule release_to [OF s6, of 1 y q "s_head s6"]) (simp_all add: s7_def s6_def fresh_copy_def)
  have ph7: "s_phase s7 0 = Claimed x p"
    by (simp add: s7_def s6_def s5_def s4_def s3_def s2_def)
  have s8: "reaches False 8 s8"
    by (rule fails_to [OF s7, of 0 x p]) (simp_all add: s8_def ph7)
  have s9: "reaches False 9 s9"
    by (rule reads_to [OF s8, of 0 x p])
      (simp_all add: s9_def s8_def s7_def same_head_def demo_read q num)
  have s10: "reaches False 10 s10"
    by (rule release_to [OF s9, of 0 x p "s_head s9"]) (simp_all add: s10_def s9_def fresh_copy_def)
  have ph10: "s_phase s10 1 = Idle" by (simp add: s10_def s9_def s8_def s7_def)
  have s11: "reaches False 11 s11"
    by (rule read_to [OF s10, of 1]) (simp_all add: s11_def ph10 [simplified])
  have "s_rows s11 = []"
    by (simp add: s11_def s10_def s9_def s8_def s7_def s6_def s5_def s4_def s3_def s2_def s1_def start)
  moreover have "ar_sequence (readHeadData (s_head s11)) = 0" by (simp add: s11_def s10_def num demo_read)
  moreover have "s_floor s11 1 = 1" by (simp add: s11_def s10_def s9_def s8_def s7_def q)
  moreover have "s_phase s11 i = ((\<lambda>_. Idle)(1 := Reading zero_record (s_head s11))) i" for i
    by (cases "i = 1") (simp_all add: s11_def s10_def s9_def s8_def s7_def s6_def s5_def s4_def s3_def s2_def s1_def start)
  then have "s_phase s11 = (\<lambda>_. Idle)(1 := Reading zero_record (s_head s11))" by (rule ext)
  ultimately show ?thesis using s11 by (intro exI [of _ 11] exI [of _ s11] exI [of _ zero_record]) simp
qed

lemma lost_answer_duplicates_number:
  "\<exists>n s a b. reaches True n s \<and> s_rows s = [a, b] \<and> ar_sequence a = ar_sequence b
     \<and> an_sequence (anchorFrom (s_head s)) = 1"
proof -
  define s0 where "s0 = fresh_system [] 0"
  define p where "p = readHeadData (s_head s0)"
  define x where "x = Seal 0 zero_record p"
  define s1 where "s1 = go 0 (Reading zero_record (s_head s0)) s0"
  define s2 where "s2 = go 0 (Claimed x p) (set_floor 0 (ar_sequence x) (put (writeHead (s_head s1) x) s1))"
  define s3 where "s3 = go 0 (Failed x p) (s2\<lparr>s_rows := s_rows s2 @ [x]\<rparr>)"
  define s4 where "s4 = go 0 (Returning x p (s_head s3)) s3"
  define s5 where "s5 = go 0 Idle (set_floor 0 (ar_sequence p) (put (writeHead (s_head s4) p) s4))"
  define s6 where "s6 = go 0 (Reading zero_record (s_head s5)) s5"
  define q where "q = readHeadData (s_head s6)"
  define y where "y = Seal 0 zero_record q"
  define s7 where "s7 = go 0 (Claimed y q) (set_floor 0 (ar_sequence y) (put (writeHead (s_head s6) y) s6))"
  define s8 where "s8 = go 0 Idle (s7\<lparr>s_rows := s_rows s7 @ [y]\<rparr>)"
  have num: "ar_sequence p = 0" "ar_sequence x = 1" by (simp_all add: p_def x_def s0_def fresh_system_def demo_read)
  have q: "ar_sequence q = 0" by (simp add: q_def s6_def s5_def num demo_read)
  have y: "ar_sequence y = 1" by (simp add: y_def q demo_read)
  have start: "reaches True 0 s0" "s_rows s0 = []" "\<And>i. s_phase s0 i = Idle" "\<And>i. s_floor s0 i = 0"
    by (simp_all add: s0_def reaches.start) (simp_all add: fresh_system_def)
  have s1: "reaches True 1 s1" by (rule read_to [OF start(1)]) (simp_all add: start s1_def)
  have s2: "reaches True 2 s2"
    by (rule claim_to [OF s1, of 0 zero_record "s_head s1" x 0 p])
      (simp_all add: s1_def s2_def x_def p_def start fresh_copy_def num [unfolded p_def])
  have s3: "reaches True 3 s3"
    by (rule lost_to [OF s2, of 0 x p]) (simp_all add: s3_def s2_def)
  have h3: "s_head s3 = (writeHead (s_head s1) x)\<lparr>cm_version := Suc (cm_version (s_head s1))\<rparr>"
    by (simp add: s3_def s2_def)
  have s4: "reaches True 4 s4"
    by (rule reads_to [OF s3, of 0 x p]) (simp_all add: s4_def h3 same_head_def demo_read num, simp add: s3_def)
  have s5: "reaches True 5 s5"
    by (rule release_to [OF s4, of 0 x p "s_head s4"]) (simp_all add: s5_def s4_def fresh_copy_def)
  have s6: "reaches True 6 s6"
    by (rule read_to [OF s5, of 0]) (simp_all add: s6_def s5_def)
  have f: "s_floor s6 0 = 0" by (simp add: s6_def s5_def num)
  have s7: "reaches True 7 s7"
    by (rule claim_to [OF s6, of 0 zero_record "s_head s6" y 0 q])
      (simp_all add: s7_def y_def q_def f fresh_copy_def q [unfolded q_def], simp add: s6_def)
  have s8: "reaches True 8 s8"
    by (rule insert_to [OF s7, of 0 y q]) (simp_all add: s8_def s7_def)
  have "s_rows s8 = [x, y]"
    by (simp add: s8_def s7_def s6_def s5_def s4_def) (simp add: s3_def s2_def s1_def start)
  moreover have "an_sequence (anchorFrom (s_head s8)) = 1"
    by (simp add: anchorFrom_def Let_def s8_def s7_def y demo_read)
  ultimately show ?thesis using s8 num y by (intro exI [of _ 8] exI [of _ s8] exI [of _ x] exI [of _ y]) simp
qed

text \<open>
  What giving a number back leaves behind. Two replicas claim one after the other, both inserts
  fail and both give their number back, the later one first: its floor is then the number the earlier
  one has given back as well, and its next \<open>Record\<close> says the head has gone backwards, although every
  write to the head was the platform's own. And a number is given out twice when an insert lands and
  is answered with an error: it is given back while it is in the table, and the next append takes it
  again. The store's answer decides, and a timeout is one.
\<close>

lemma giving_back_misleads:
  "(\<exists>n s rec. reaches False n s \<and> s_rows s = [] \<and> s_phase s = (\<lambda>_. Idle)(1 := Reading rec (s_head s))
     \<and> ar_sequence (readHeadData (s_head s)) < s_floor s 1)
   \<and> (\<exists>n s a b. reaches True n s \<and> s_rows s = [a, b] \<and> ar_sequence a = ar_sequence b
     \<and> an_sequence (anchorFrom (s_head s)) = 1)"
  using rollback_read_as_wound_back lost_answer_duplicates_number by (rule conjI)

subsection \<open>Witnesses\<close>

definition one_append :: system where
  "one_append =
     (let s0 = fresh_system [] 0; x = Seal 0 zero_record (readHeadData (s_head s0));
          s1 = go 0 (Reading zero_record (s_head s0)) s0;
          s2 = go 0 (Claimed x (readHeadData (s_head s0))) (set_floor 0 (ar_sequence x) (put (writeHead (s_head s1) x) s1))
      in go 0 Idle (s2\<lparr>s_rows := s_rows s2 @ [x]\<rparr>))"

lemma one_append_reached: "reaches False 3 one_append"
proof -
  let ?s0 = "fresh_system [] 0"
  let ?x = "Seal 0 zero_record (readHeadData (s_head ?s0))"
  let ?s1 = "go 0 (Reading zero_record (s_head ?s0)) ?s0"
  let ?s2 = "go 0 (Claimed ?x (readHeadData (s_head ?s0))) (set_floor 0 (ar_sequence ?x) (put (writeHead (s_head ?s1) ?x) ?s1))"
  have f: "s_phase ?s0 0 = Idle" "s_floor ?s0 0 = 0" "ar_sequence (readHeadData (s_head ?s0)) = 0"
    by (simp_all add: fresh_system_def demo_read)
  have "reaches False 1 ?s1" by (rule read_to [OF start]) (simp_all add: f)
  then have "reaches False 2 ?s2"
    by (rule claim_to [where i = 0 and c = "s_head ?s0" and rec = zero_record and now = 0 and x = ?x]) (simp_all add: f fresh_copy_def)
  then show ?thesis
    unfolding one_append_def Let_def
    by (rule insert_to [where i = 0 and x = ?x]) simp_all
qed

lemma one_append_rows:
  "\<exists>x. s_rows one_append = [x] \<and> ar_sequence x = 1 \<and> an_sequence (anchorFrom (s_head one_append)) = 1"
  by (simp add: one_append_def Let_def fresh_system_def anchorFrom_def demo_read)



end
