(* ===== verification/Access.thy ===== *)
theory Access
  imports GoTime Json
begin

section \<open>Who may do what (internal/access, api/v1alpha1/access_types.go)\<close>

text \<open>
  The platform's authorization: the two role ladders, whom an access entry is about, the role a
  caller holds on the platform and on a project, what a personal key leaves of it, and the scopes
  of platform credentials. An absent Kitchen or Project (a nil pointer) is None. Strings are
  compared without case as \<open>strings.EqualFold\<close> does it on ASCII text. The locale \<open>role_ladder\<close>
  is what both ladders promise.
\<close>

subsection \<open>The entries of the access lists\<close>

record access_subject =
  as_subject :: string
  as_email :: string

record access_grant = access_subject +
  ag_role :: string

record platform_credential = access_subject +
  pc_scopes :: "string list"
  pc_expires :: time
  pc_projects :: "string list"

record personal_key = access_subject +
  pk_key :: string
  pk_unrestricted :: bool
  pk_projects :: "string list"
  pk_role :: string
  pk_scopes :: "string list"
  pk_expires :: time

record access_spec =
  sp_operators :: "access_subject list"
  sp_credentials :: "platform_credential list"
  sp_keys :: "personal_key list"

record project =
  pr_name :: string
  pr_access :: "access_grant list"

record caller =
  ca_subject :: string
  ca_email :: string
  ca_verified :: bool
  ca_key :: string

definition AccessRoleAdmin :: string where "AccessRoleAdmin = ''admin''"
definition AccessRoleDeveloper :: string where "AccessRoleDeveloper = ''developer''"
definition AccessRoleViewer :: string where "AccessRoleViewer = ''viewer''"

lemmas role_name_defs = AccessRoleAdmin_def AccessRoleDeveloper_def AccessRoleViewer_def

definition Narrowed :: "personal_key \<Rightarrow> bool" where
  "Narrowed g \<longleftrightarrow> \<not> pk_unrestricted g"

definition Ceiling :: "personal_key \<Rightarrow> string" where
  "Ceiling g = (if pk_role g = [] then AccessRoleViewer else pk_role g)"

definition Reaches :: "personal_key \<Rightarrow> string \<Rightarrow> bool" where
  "Reaches g name \<longleftrightarrow> pk_projects g = [] \<or> name \<in> set (pk_projects g)"

subsection \<open>Roles\<close>

datatype platform_role = PlatformRoleNone | PlatformMember | PlatformOperator

datatype project_role = ProjectRoleNone | ProjectViewer | ProjectDeveloper | ProjectAdmin

primrec platform_rank :: "platform_role \<Rightarrow> nat" where
  "platform_rank PlatformRoleNone = 0"
| "platform_rank PlatformMember = 1"
| "platform_rank PlatformOperator = 2"

primrec project_rank :: "project_role \<Rightarrow> nat" where
  "project_rank ProjectRoleNone = 0"
| "project_rank ProjectViewer = 1"
| "project_rank ProjectDeveloper = 2"
| "project_rank ProjectAdmin = 3"

instantiation platform_role :: linorder
begin

definition less_eq_platform_role :: "platform_role \<Rightarrow> platform_role \<Rightarrow> bool" where
  "less_eq_platform_role a b \<longleftrightarrow> platform_rank a \<le> platform_rank b"

definition less_platform_role :: "platform_role \<Rightarrow> platform_role \<Rightarrow> bool" where
  "less_platform_role a b \<longleftrightarrow> platform_rank a < platform_rank b"

instance
proof
  fix a b :: platform_role
  show "a \<le> b \<Longrightarrow> b \<le> a \<Longrightarrow> a = b" by (cases a; cases b) (simp_all add: less_eq_platform_role_def)
qed (auto simp: less_eq_platform_role_def less_platform_role_def)

end

instantiation project_role :: linorder
begin

definition less_eq_project_role :: "project_role \<Rightarrow> project_role \<Rightarrow> bool" where
  "less_eq_project_role a b \<longleftrightarrow> project_rank a \<le> project_rank b"

definition less_project_role :: "project_role \<Rightarrow> project_role \<Rightarrow> bool" where
  "less_project_role a b \<longleftrightarrow> project_rank a < project_rank b"

instance
proof
  fix a b :: project_role
  show "a \<le> b \<Longrightarrow> b \<le> a \<Longrightarrow> a = b" by (cases a; cases b) (simp_all add: less_eq_project_role_def)
qed (auto simp: less_eq_project_role_def less_project_role_def)

end

lemmas role_order_defs = less_eq_platform_role_def less_platform_role_def less_eq_project_role_def less_project_role_def

definition PlatformAtLeast :: "platform_role \<Rightarrow> platform_role \<Rightarrow> bool" where
  "PlatformAtLeast r other \<longleftrightarrow> r \<noteq> PlatformRoleNone \<and> other \<le> r"

definition PlatformString :: "platform_role \<Rightarrow> string" where
  "PlatformString r = (case r of PlatformMember \<Rightarrow> ''member'' | PlatformOperator \<Rightarrow> ''operator'' | _ \<Rightarrow> [])"

definition ParsePlatformRole :: "string \<Rightarrow> platform_role option" where
  "ParsePlatformRole s =
     (if s = ''member'' then Some PlatformMember else if s = ''operator'' then Some PlatformOperator else None)"

definition ProjectAtLeast :: "project_role \<Rightarrow> project_role \<Rightarrow> bool" where
  "ProjectAtLeast r other \<longleftrightarrow> r \<noteq> ProjectRoleNone \<and> other \<le> r"

definition ProjectString :: "project_role \<Rightarrow> string" where
  "ProjectString r =
     (case r of ProjectViewer \<Rightarrow> AccessRoleViewer | ProjectDeveloper \<Rightarrow> AccessRoleDeveloper
        | ProjectAdmin \<Rightarrow> AccessRoleAdmin | ProjectRoleNone \<Rightarrow> [])"

definition ParseProjectRole :: "string \<Rightarrow> project_role option" where
  "ParseProjectRole s =
     (if s = AccessRoleViewer then Some ProjectViewer
      else if s = AccessRoleDeveloper then Some ProjectDeveloper
      else if s = AccessRoleAdmin then Some ProjectAdmin else None)"

text \<open>What a ladder of roles promises: a bottom that satisfies nothing, an order, and a wire form
  that reads back.\<close>

locale role_ladder =
  fixes bottom :: "'r::linorder" and at_least :: "'r \<Rightarrow> 'r \<Rightarrow> bool"
    and wire :: "'r \<Rightarrow> string" and parse :: "string \<Rightarrow> 'r option"
  assumes bottom_le: "bottom \<le> r"
    and at_least_iff: "at_least r q \<longleftrightarrow> r \<noteq> bottom \<and> q \<le> r"
    and parse_wire: "r \<noteq> bottom \<Longrightarrow> parse (wire r) = Some r"
    and wire_parse: "parse s = Some r \<Longrightarrow> r \<noteq> bottom \<and> wire r = s"
begin

lemma bottom_satisfies_nothing: "\<not> at_least bottom q"
  by (simp add: at_least_iff)

lemma at_least_mono: "at_least r q \<Longrightarrow> r \<le> r' \<Longrightarrow> at_least r' q"
  using bottom_le [of r] by (auto simp: at_least_iff)

lemma at_least_trans: "at_least r q \<Longrightarrow> at_least q p \<Longrightarrow> at_least r p"
  by (auto simp: at_least_iff)

lemma parse_inj: "parse s = Some r \<Longrightarrow> parse t = Some r \<Longrightarrow> s = t"
  using wire_parse by metis

text \<open>The best of the roles a list of grants names, whichever way it is walked.\<close>

definition best :: "'r option list \<Rightarrow> 'r" where
  "best rs = Max (insert bottom (set (List.map_filter id rs)))"

lemma map_filter_id: "set (List.map_filter id rs) = {r. Some r \<in> set rs}"
  by (induction rs) (auto simp: List.map_filter_def)

lemma fold_best:
  "foldl (\<lambda>held ro. case ro of Some r \<Rightarrow> if held < r then r else held | None \<Rightarrow> held) a rs
    = Max (insert a (set (List.map_filter id rs)))"
proof (induction rs arbitrary: a)
  case (Cons x rs)
  show ?case
  proof (cases x)
    case None
    with Cons show ?thesis by (simp add: List.map_filter_def)
  next
    case (Some r)
    have step: "(if a < r then r else a) = max a r" by (auto simp: max_def)
    have "Max (insert (max a r) S) = Max (insert a (insert r S))" if "finite S" for S
      using that by (cases "S = {}") (simp_all add: max.assoc)
    then show ?thesis using Some Cons.IH [of "max a r"] by (simp add: List.map_filter_def step)
  qed
qed (simp add: List.map_filter_def)

lemma best_mono: "set rs \<subseteq> set qs \<Longrightarrow> best rs \<le> best qs"
proof -
  assume "set rs \<subseteq> set qs"
  then have "insert bottom (set (List.map_filter id rs)) \<subseteq> insert bottom (set (List.map_filter id qs))"
    unfolding map_filter_id by blast
  then show ?thesis unfolding best_def by (intro Max_mono) simp_all
qed

end

interpretation platform: role_ladder PlatformRoleNone PlatformAtLeast PlatformString ParsePlatformRole
proof
  show "PlatformRoleNone \<le> r" for r by (simp add: role_order_defs)
  show "PlatformAtLeast r q \<longleftrightarrow> r \<noteq> PlatformRoleNone \<and> q \<le> r" for r q by (simp add: PlatformAtLeast_def)
  show "r \<noteq> PlatformRoleNone \<Longrightarrow> ParsePlatformRole (PlatformString r) = Some r" for r
    by (cases r) (simp_all add: ParsePlatformRole_def PlatformString_def)
  show "ParsePlatformRole s = Some r \<Longrightarrow> r \<noteq> PlatformRoleNone \<and> PlatformString r = s" for s r
    by (auto simp: ParsePlatformRole_def PlatformString_def split: if_splits)
qed

interpretation proj: role_ladder ProjectRoleNone ProjectAtLeast ProjectString ParseProjectRole
proof
  show "ProjectRoleNone \<le> r" for r by (simp add: role_order_defs)
  show "ProjectAtLeast r q \<longleftrightarrow> r \<noteq> ProjectRoleNone \<and> q \<le> r" for r q by (simp add: ProjectAtLeast_def)
  show "r \<noteq> ProjectRoleNone \<Longrightarrow> ParseProjectRole (ProjectString r) = Some r" for r
    by (cases r) (simp_all add: ParseProjectRole_def ProjectString_def role_name_defs)
  show "ParseProjectRole s = Some r \<Longrightarrow> r \<noteq> ProjectRoleNone \<and> ProjectString r = s" for s r
    by (auto simp: ParseProjectRole_def ProjectString_def split: if_splits)
qed

subsection \<open>Whom an entry is about\<close>

definition IsEmailSubject :: "string \<Rightarrow> bool" where
  "IsEmailSubject subject \<longleftrightarrow> CHR ''@'' \<in> set subject"

definition SubjectMatches :: "string \<Rightarrow> caller \<Rightarrow> bool" where
  "SubjectMatches subject c \<longleftrightarrow>
     (if subject = [] then False
      else if IsEmailSubject subject then
        (if \<not> ca_verified c \<or> ca_email c = [] then False else equal_fold subject (ca_email c))
      else ca_subject c \<noteq> [] \<and> subject = ca_subject c)"

text \<open>\<open>strconv.ParseBool\<close>, with the error read as false.\<close>

definition parse_bool :: "string \<Rightarrow> bool" where
  "parse_bool s \<longleftrightarrow> s \<in> {''1'', ''t'', ''T'', ''TRUE'', ''true'', ''True''}"

definition VerifiedClaim :: "string \<Rightarrow> bool" where
  "VerifiedClaim raw =
     (if raw = [] then False
      else (case unmarshal raw of
          Some (JBool b) \<Rightarrow> b
        | Some (JString t) \<Rightarrow> parse_bool t
        | _ \<Rightarrow> False))"

subsection \<open>Personal keys\<close>

definition personalKeyOf :: "caller \<Rightarrow> access_spec option \<Rightarrow> personal_key option" where
  "personalKeyOf c kitchen =
     (case kitchen of
        None \<Rightarrow> None
      | Some spec \<Rightarrow>
          if ca_key c = [] then None
          else find (\<lambda>g. pk_key g = ca_key c \<and> SubjectMatches (as_subject g) c) (sp_keys spec))"

definition HoldsUnknownKey :: "caller \<Rightarrow> access_spec option \<Rightarrow> bool" where
  "HoldsUnknownKey c kitchen \<longleftrightarrow> (if ca_key c = [] then False else personalKeyOf c kitchen = None)"

definition keyCeiling :: "caller \<Rightarrow> access_spec option \<Rightarrow> string \<Rightarrow> project_role" where
  "keyCeiling c kitchen name =
     (if ca_key c = [] then ProjectAdmin
      else
        (case personalKeyOf c kitchen of
           None \<Rightarrow> ProjectRoleNone
         | Some g \<Rightarrow>
             if pk_unrestricted g then ProjectAdmin
             else if name \<noteq> [] \<and> \<not> Reaches g name then ProjectRoleNone
             else (case ParseProjectRole (Ceiling g) of None \<Rightarrow> ProjectRoleNone | Some role \<Rightarrow> role)))"

definition wearsTheHat :: "caller \<Rightarrow> access_spec option \<Rightarrow> bool" where
  "wearsTheHat c kitchen \<longleftrightarrow>
     (if ca_key c = [] then True
      else (case personalKeyOf c kitchen of None \<Rightarrow> False | Some g \<Rightarrow> pk_unrestricted g))"

subsection \<open>Roles held\<close>

definition platformRoleOf :: "caller \<Rightarrow> access_spec option \<Rightarrow> platform_role" where
  "platformRoleOf c kitchen =
     (case kitchen of
        None \<Rightarrow> PlatformMember
      | Some spec \<Rightarrow>
          if list_ex (\<lambda>o'. SubjectMatches (as_subject o') c) (sp_operators spec) then PlatformOperator else PlatformMember)"

definition PlatformRoleFor :: "caller \<Rightarrow> access_spec option \<Rightarrow> platform_role" where
  "PlatformRoleFor c kitchen = (if \<not> wearsTheHat c kitchen then PlatformMember else platformRoleOf c kitchen)"

definition granted :: "caller \<Rightarrow> access_grant list \<Rightarrow> project_role" where
  "granted c grants =
     foldl (\<lambda>held g. if \<not> SubjectMatches (as_subject g) c then held
         else (case ParseProjectRole (ag_role g) of
             Some role \<Rightarrow> if held < role then role else held
           | None \<Rightarrow> held)) ProjectRoleNone grants"

definition ProjectRoleFor :: "caller \<Rightarrow> access_spec option \<Rightarrow> project option \<Rightarrow> project_role" where
  "ProjectRoleFor c kitchen pr =
     (let name = (case pr of None \<Rightarrow> [] | Some p \<Rightarrow> pr_name p);
          ceiling = keyCeiling c kitchen name;
          capped = (\<lambda>held. if ceiling < held then ceiling else held)
      in if ceiling = ProjectRoleNone then ProjectRoleNone
         else if PlatformAtLeast (platformRoleOf c kitchen) PlatformOperator then capped ProjectAdmin
         else (case pr of
             None \<Rightarrow> ProjectRoleNone
           | Some p \<Rightarrow> capped (granted c (pr_access p))))"

definition VisibleProjects :: "caller \<Rightarrow> access_spec option \<Rightarrow> project list \<Rightarrow> project list" where
  "VisibleProjects c kitchen projects =
     filter (\<lambda>p. ProjectAtLeast (ProjectRoleFor c kitchen (Some p)) ProjectViewer) projects"

subsection \<open>Scopes\<close>

definition ScopePlatformRead :: string where "ScopePlatformRead = ''platform.read''"
definition ScopeComplianceRead :: string where "ScopeComplianceRead = ''compliance.read''"
definition ScopeBackupRun :: string where "ScopeBackupRun = ''backup.run''"
definition ScopeNone :: string where "ScopeNone = []"

definition Scopes :: "string list" where
  "Scopes = [ScopePlatformRead, ScopeComplianceRead, ScopeBackupRun]"

definition ParseScope :: "string \<Rightarrow> string option" where
  "ParseScope s = find (\<lambda>scope. trim_space s = scope) Scopes"

text \<open>The two maps of a grant as the lists of their keys; an absent project map is the empty list.\<close>

record scope_grant =
  sg_subject :: string
  sg_email :: string
  sg_scopes :: "string list"
  sg_projects :: "string list"

definition Allows :: "scope_grant \<Rightarrow> string \<Rightarrow> bool" where
  "Allows g scope \<longleftrightarrow> (if scope = ScopeNone then False else scope \<in> set (sg_scopes g))"

definition AllowsProject :: "scope_grant \<Rightarrow> string \<Rightarrow> bool" where
  "AllowsProject g name \<longleftrightarrow>
     (if sg_projects g = [] then True else if name = [] then False else name \<in> set (sg_projects g))"

definition Held :: "scope_grant \<Rightarrow> string list" where
  "Held g = sort (remdups (sg_scopes g))"

definition grant_projects :: "scope_grant \<Rightarrow> string list" where
  "grant_projects g = sort (remdups (sg_projects g))"

definition Empty :: "scope_grant \<Rightarrow> bool" where
  "Empty g \<longleftrightarrow> sg_scopes g = []"

definition Expired :: "platform_credential \<Rightarrow> time \<Rightarrow> bool" where
  "Expired cr now \<longleftrightarrow> (if is_zero (pc_expires cr) then True else \<not> now < pc_expires cr)"

definition parsed_scopes :: "string list \<Rightarrow> string list" where
  "parsed_scopes ss = List.map_filter ParseScope ss"

definition personalKeyScopes :: "caller \<Rightarrow> access_spec option \<Rightarrow> time \<Rightarrow> scope_grant \<Rightarrow> scope_grant" where
  "personalKeyScopes c kitchen now grant =
     (case personalKeyOf c kitchen of
        None \<Rightarrow> grant
      | Some key \<Rightarrow>
          if pk_scopes key = [] then grant
          else if \<not> is_zero (pk_expires key) \<and> \<not> now < pk_expires key then grant
          else if \<not> PlatformAtLeast (platformRoleOf c kitchen) PlatformOperator then grant
          else
            (let g1 = grant\<lparr>sg_scopes := sg_scopes grant @ parsed_scopes (pk_scopes key)\<rparr>
             in if Narrowed key \<and> pk_projects key \<noteq> [] \<and> sg_projects grant = []
                then g1\<lparr>sg_projects := pk_projects key\<rparr> else g1))"

definition ScopesFor :: "caller \<Rightarrow> access_spec option \<Rightarrow> time \<Rightarrow> scope_grant" where
  "ScopesFor c kitchen now =
     (let grant = \<lparr>sg_subject = ca_subject c, sg_email = ca_email c, sg_scopes = [], sg_projects = []\<rparr>
      in case kitchen of
           None \<Rightarrow> grant
         | Some spec \<Rightarrow>
             (let live = filter (\<lambda>cr. \<not> (\<not> SubjectMatches (as_subject cr) c \<or> Expired cr now)) (sp_credentials spec);
                  scopes = concat (map (\<lambda>cr. parsed_scopes (pc_scopes cr)) live);
                  unnarrowed = list_ex (\<lambda>cr. pc_projects cr = []) live;
                  projects = concat (map pc_projects live);
                  g1 = grant\<lparr>sg_scopes := scopes, sg_projects := (if unnarrowed then [] else projects)\<rparr>
              in personalKeyScopes c kitchen now g1))"

subsection \<open>Properties\<close>

text \<open>What the grants of a list give a caller is the best role among the entries about them.\<close>

definition grant_roles :: "caller \<Rightarrow> access_grant list \<Rightarrow> project_role option list" where
  "grant_roles c grants = map (\<lambda>g. if SubjectMatches (as_subject g) c then ParseProjectRole (ag_role g) else None) grants"

lemma granted_best: "granted c grants = proj.best (grant_roles c grants)"
proof -
  have "granted c grants = foldl (\<lambda>held ro. case ro of Some r \<Rightarrow> if held < r then r else held | None \<Rightarrow> held)
      ProjectRoleNone (grant_roles c grants)"
    unfolding granted_def grant_roles_def foldl_map by (rule foldl_cong) (auto split: option.splits)
  then show ?thesis by (simp only: proj.fold_best proj.best_def)
qed

lemma capped_min: "(if c < h then c else h) = min c (h :: project_role)"
  by (auto simp: min_def)

lemma ceiling_person: "ca_key c = [] \<Longrightarrow> keyCeiling c kitchen name = ProjectAdmin"
  by (simp add: keyCeiling_def)

lemma admin_top: "r \<le> ProjectAdmin"
  by (cases r) (simp_all add: role_order_defs)

text \<open>Matching reads the identity and not the credential.\<close>

lemma matches_key [simp]: "SubjectMatches s (c\<lparr>ca_key := k\<rparr>) = SubjectMatches s c"
  by (simp add: SubjectMatches_def)

lemma role_of_key [simp]: "platformRoleOf (c\<lparr>ca_key := k\<rparr>) kitchen = platformRoleOf c kitchen"
  by (simp add: platformRoleOf_def split: option.splits)

lemma granted_key [simp]: "granted (c\<lparr>ca_key := k\<rparr>) grants = granted c grants"
  by (simp add: granted_def)

lemma ProjectRoleFor_key:
  "ProjectRoleFor c kitchen pr =
     min (keyCeiling c kitchen (case pr of None \<Rightarrow> [] | Some p \<Rightarrow> pr_name p)) (ProjectRoleFor (c\<lparr>ca_key := []\<rparr>) kitchen pr)"
proof -
  have "min ProjectRoleNone r = ProjectRoleNone" "min r ProjectRoleNone = ProjectRoleNone" for r
    using proj.bottom_le [of r] by (simp_all add: min_def)
  moreover have "min r ProjectAdmin = r" "min ProjectAdmin r = r" for r
    using admin_top [of r] by (auto simp: min_def)
  ultimately show ?thesis
    by (auto simp: ProjectRoleFor_def Let_def capped_min ceiling_person split: option.splits)
qed

text \<open>
  C21. What a person holds on a project: admin, if the operator list names them; otherwise the
  highest role among the project's entries about them, in whatever order the list has them, and
  none when no entry with a known role is. Adding an entry never lowers it.
\<close>

theorem ProjectRoleFor_person:
  assumes "ca_key c = []"
  shows "ProjectRoleFor c kitchen (Some p) =
      (if platformRoleOf c kitchen = PlatformOperator then ProjectAdmin
       else Max (insert ProjectRoleNone
         {r. \<exists>g \<in> set (pr_access p). SubjectMatches (as_subject g) c \<and> ParseProjectRole (ag_role g) = Some r}))
    \<and> ProjectRoleFor c kitchen (Some p) \<le> ProjectRoleFor c kitchen (Some (p\<lparr>pr_access := pr_access p @ gs\<rparr>))"
proof -
  have cap: "(if ProjectAdmin < h then ProjectAdmin else h) = h" for h using admin_top [of h] by auto
  have op: "PlatformAtLeast (platformRoleOf c kitchen) PlatformOperator \<longleftrightarrow> platformRoleOf c kitchen = PlatformOperator"
    by (cases "platformRoleOf c kitchen") (simp_all add: PlatformAtLeast_def role_order_defs)
  have role: "ProjectRoleFor c kitchen (Some q) =
      (if platformRoleOf c kitchen = PlatformOperator then ProjectAdmin else granted c (pr_access q))" for q
    using assms by (simp add: ProjectRoleFor_def Let_def ceiling_person cap op)
  have roles: "set (List.map_filter id (grant_roles c (pr_access p)))
      = {r. \<exists>g \<in> set (pr_access p). SubjectMatches (as_subject g) c \<and> ParseProjectRole (ag_role g) = Some r}"
    unfolding proj.map_filter_id grant_roles_def by (force split: if_splits)
  have "granted c (pr_access p) \<le> granted c (pr_access p @ gs)"
    unfolding granted_best by (rule proj.best_mono) (auto simp: grant_roles_def)
  then show ?thesis by (simp add: role granted_best proj.best_def roles)
qed

text \<open>
  C22. A personal key is never wider than its owner: whatever its entry says, a caller presenting
  one holds on every project at most what the same caller without it holds, wears at most the
  same platform role, and sees no project the owner does not see.
\<close>

theorem key_never_wider:
  "ProjectRoleFor c kitchen pr \<le> ProjectRoleFor (c\<lparr>ca_key := []\<rparr>) kitchen pr
   \<and> PlatformRoleFor c kitchen \<le> PlatformRoleFor (c\<lparr>ca_key := []\<rparr>) kitchen
   \<and> set (VisibleProjects c kitchen ps) \<subseteq> set (VisibleProjects (c\<lparr>ca_key := []\<rparr>) kitchen ps)"
proof (intro conjI)
  have le: "ProjectRoleFor c kitchen q \<le> ProjectRoleFor (c\<lparr>ca_key := []\<rparr>) kitchen q" for q
    by (subst ProjectRoleFor_key) simp
  show "ProjectRoleFor c kitchen pr \<le> ProjectRoleFor (c\<lparr>ca_key := []\<rparr>) kitchen pr" by (rule le)
  show "set (VisibleProjects c kitchen ps) \<subseteq> set (VisibleProjects (c\<lparr>ca_key := []\<rparr>) kitchen ps)"
    using le proj.at_least_mono by (auto simp: VisibleProjects_def)
  have "PlatformMember \<le> platformRoleOf c kitchen"
    by (simp add: platformRoleOf_def role_order_defs split: option.splits)
  then show "PlatformRoleFor c kitchen \<le> PlatformRoleFor (c\<lparr>ca_key := []\<rparr>) kitchen"
    by (simp add: PlatformRoleFor_def wearsTheHat_def)
qed

text \<open>
  A key the platform does not recognise holds nothing, and a narrowed one wears no hat and
  holds nothing outside the projects it names: deleting a key's entry is a revocation.
\<close>

lemma unknown_or_narrowed_key:
  "(HoldsUnknownKey c kitchen \<longrightarrow> ProjectRoleFor c kitchen pr = ProjectRoleNone
      \<and> PlatformRoleFor c kitchen = PlatformMember \<and> VisibleProjects c kitchen ps = [])
   \<and> (\<forall>g. personalKeyOf c kitchen = Some g \<and> Narrowed g \<longrightarrow>
        PlatformRoleFor c kitchen = PlatformMember
        \<and> (\<forall>p \<in> set (VisibleProjects c kitchen ps). pr_name p = [] \<or> Reaches g (pr_name p)))"
proof (intro conjI allI impI)
  assume unknown: "HoldsUnknownKey c kitchen"
  then have none: "keyCeiling c kitchen name = ProjectRoleNone" for name
    by (auto simp: HoldsUnknownKey_def keyCeiling_def split: if_splits)
  show role: "ProjectRoleFor c kitchen pr = ProjectRoleNone" by (simp add: ProjectRoleFor_def Let_def none)
  show "PlatformRoleFor c kitchen = PlatformMember"
    using unknown by (auto simp: HoldsUnknownKey_def PlatformRoleFor_def wearsTheHat_def split: if_splits)
  have "ProjectRoleFor c kitchen q = ProjectRoleNone" for q by (simp add: ProjectRoleFor_def Let_def none)
  then show "VisibleProjects c kitchen ps = []"
    by (simp add: VisibleProjects_def proj.bottom_satisfies_nothing)
next
  fix g assume g: "personalKeyOf c kitchen = Some g \<and> Narrowed g"
  then have key: "ca_key c \<noteq> []" by (auto simp: personalKeyOf_def split: option.splits if_splits)
  show "PlatformRoleFor c kitchen = PlatformMember"
    using g key by (simp add: PlatformRoleFor_def wearsTheHat_def Narrowed_def)
  show "\<forall>p \<in> set (VisibleProjects c kitchen ps). pr_name p = [] \<or> Reaches g (pr_name p)"
  proof (intro ballI)
    fix p assume "p \<in> set (VisibleProjects c kitchen ps)"
    then have "ProjectRoleFor c kitchen (Some p) \<noteq> ProjectRoleNone"
      using proj.bottom_satisfies_nothing by (auto simp: VisibleProjects_def)
    then have "keyCeiling c kitchen (pr_name p) \<noteq> ProjectRoleNone" by (auto simp: ProjectRoleFor_def Let_def)
    then show "pr_name p = [] \<or> Reaches g (pr_name p)"
      using g key by (auto simp: keyCeiling_def Narrowed_def split: if_splits)
  qed
qed

text \<open>
  What a caller says about themselves changes nothing: while the address of a token is not
  verified, no role and no scope depends on it.
\<close>

lemma unverified_email_irrelevant:
  assumes "\<not> ca_verified c"
  shows "ProjectRoleFor (c\<lparr>ca_email := e\<rparr>) kitchen pr = ProjectRoleFor c kitchen pr
    \<and> PlatformRoleFor (c\<lparr>ca_email := e\<rparr>) kitchen = PlatformRoleFor c kitchen
    \<and> sg_scopes (ScopesFor (c\<lparr>ca_email := e\<rparr>) kitchen now) = sg_scopes (ScopesFor c kitchen now)
    \<and> sg_projects (ScopesFor (c\<lparr>ca_email := e\<rparr>) kitchen now) = sg_projects (ScopesFor c kitchen now)"
proof -
  have match: "SubjectMatches s (c\<lparr>ca_email := e\<rparr>) = SubjectMatches s c" for s
    using assms by (simp add: SubjectMatches_def)
  have key: "personalKeyOf (c\<lparr>ca_email := e\<rparr>) kitchen = personalKeyOf c kitchen"
    by (simp add: personalKeyOf_def match split: option.splits)
  have plat: "platformRoleOf (c\<lparr>ca_email := e\<rparr>) kitchen = platformRoleOf c kitchen"
    by (simp add: platformRoleOf_def match split: option.splits)
  have ceil: "keyCeiling (c\<lparr>ca_email := e\<rparr>) kitchen n = keyCeiling c kitchen n" for n
    by (simp add: keyCeiling_def key)
  have gr: "granted (c\<lparr>ca_email := e\<rparr>) gs = granted c gs" for gs by (simp add: granted_def match)
  have pk: "personalKeyScopes (c\<lparr>ca_email := e\<rparr>) kitchen now (g\<lparr>sg_email := e\<rparr>)
      = (personalKeyScopes c kitchen now g)\<lparr>sg_email := e\<rparr>" for g
    by (cases "personalKeyOf c kitchen") (simp_all add: personalKeyScopes_def key plat Let_def)
  have "ScopesFor (c\<lparr>ca_email := e\<rparr>) kitchen now = (ScopesFor c kitchen now)\<lparr>sg_email := e\<rparr>"
  proof (cases kitchen)
    case (Some spec)
    then show ?thesis by (simp add: ScopesFor_def Let_def match pk [unfolded Some, symmetric])
  qed (simp add: ScopesFor_def)
  moreover have "ProjectRoleFor (c\<lparr>ca_email := e\<rparr>) kitchen pr = ProjectRoleFor c kitchen pr"
    unfolding ProjectRoleFor_def ceil plat gr ..
  moreover have "PlatformRoleFor (c\<lparr>ca_email := e\<rparr>) kitchen = PlatformRoleFor c kitchen"
    by (simp add: PlatformRoleFor_def wearsTheHat_def key plat)
  ultimately show ?thesis by simp
qed

text \<open>
  C25. A scope has somebody behind it: whatever a caller is allowed beyond their role comes from a
  credential entry about them that has an expiry and has not reached it, or from the personal key
  they present, while the account it copies is an operator.
\<close>

theorem scope_has_grantor:
  assumes "Allows (ScopesFor c (Some spec) now) s"
  shows "(\<exists>cr \<in> set (sp_credentials spec). SubjectMatches (as_subject cr) c \<and> \<not> is_zero (pc_expires cr)
        \<and> now < pc_expires cr \<and> s \<in> set (parsed_scopes (pc_scopes cr)))
    \<or> (\<exists>g \<in> set (sp_keys spec). pk_key g = ca_key c \<and> SubjectMatches (as_subject g) c
        \<and> platformRoleOf c (Some spec) = PlatformOperator \<and> s \<in> set (parsed_scopes (pk_scopes g))
        \<and> (is_zero (pk_expires g) \<or> now < pk_expires g))"
proof -
  let ?live = "filter (\<lambda>cr. \<not> (\<not> SubjectMatches (as_subject cr) c \<or> Expired cr now)) (sp_credentials spec)"
  define g1 where "g1 = \<lparr>sg_subject = ca_subject c, sg_email = ca_email c,
    sg_scopes = concat (map (\<lambda>cr. parsed_scopes (pc_scopes cr)) ?live),
    sg_projects = (if list_ex (\<lambda>cr. pc_projects cr = []) ?live then [] else concat (map pc_projects ?live))\<rparr>"
  have "ScopesFor c (Some spec) now = personalKeyScopes c (Some spec) now g1"
    by (simp add: ScopesFor_def Let_def g1_def)
  moreover from assms have "s \<in> set (sg_scopes (ScopesFor c (Some spec) now))" by (simp add: Allows_def split: if_splits)
  ultimately have mem: "s \<in> set (sg_scopes (personalKeyScopes c (Some spec) now g1))" by simp
  show ?thesis
  proof (cases "s \<in> set (sg_scopes g1)")
    case True
    then obtain cr where "cr \<in> set ?live" "s \<in> set (parsed_scopes (pc_scopes cr))" by (auto simp: g1_def)
    then show ?thesis by (intro disjI1 bexI [of _ cr]) (auto simp: Expired_def split: if_splits)
  next
    case False
    with mem obtain g where g: "personalKeyOf c (Some spec) = Some g"
      "PlatformAtLeast (platformRoleOf c (Some spec)) PlatformOperator" "s \<in> set (parsed_scopes (pk_scopes g))"
      "is_zero (pk_expires g) \<or> now < pk_expires g"
      by (auto simp: personalKeyScopes_def Let_def split: option.splits if_splits)
    then have "g \<in> set (sp_keys spec)" "pk_key g = ca_key c" "SubjectMatches (as_subject g) c"
      by (auto simp: personalKeyOf_def split: if_splits dest!: find_Some_mem)
    moreover have "platformRoleOf c (Some spec) = PlatformOperator"
      using g(2) by (cases "platformRoleOf c (Some spec)") (simp_all add: PlatformAtLeast_def role_order_defs)
    ultimately show ?thesis using g(3,4) by blast
  qed
qed

subsection \<open>Witnesses\<close>

definition demo_caller :: caller where
  "demo_caller = \<lparr>ca_subject = ''u1'', ca_email = ''anna@example.com'', ca_verified = False, ca_key = []\<rparr>"

definition demo_spec :: access_spec where
  "demo_spec = \<lparr>sp_operators = [\<lparr>as_subject = ''u1'', as_email = []\<rparr>],
     sp_credentials = [\<lparr>as_subject = ''bot'', as_email = [], pc_scopes = [ScopeBackupRun], pc_expires = 1000,
       pc_projects = []\<rparr>],
     sp_keys = [\<lparr>as_subject = ''u1'', as_email = [], pk_key = ''ci'', pk_unrestricted = False,
       pk_projects = [''shop''], pk_role = ''developer'', pk_scopes = [ScopePlatformRead], pk_expires = zero_time\<rparr>]\<rparr>"

definition demo_project :: project where
  "demo_project = \<lparr>pr_name = ''shop'', pr_access = [\<lparr>as_subject = ''u1'', as_email = [], ag_role = ''viewer''\<rparr>]\<rparr>"

theorem ProjectRoleFor_person_witness:
  "ProjectRoleFor demo_caller (Some demo_spec) (Some demo_project) = ProjectAdmin"
proof -
  have "ca_key demo_caller = []" by (simp add: demo_caller_def)
  from ProjectRoleFor_person [OF this, of "Some demo_spec" demo_project "[]"]
  show ?thesis
    by (simp add: platformRoleOf_def SubjectMatches_def IsEmailSubject_def demo_spec_def demo_caller_def)
qed

lemma unknown_or_narrowed_key_witness:
  "ProjectRoleFor (demo_caller\<lparr>ca_key := ''gone''\<rparr>) (Some demo_spec) (Some demo_project) = ProjectRoleNone
   \<and> PlatformRoleFor (demo_caller\<lparr>ca_key := ''ci''\<rparr>) (Some demo_spec) = PlatformMember"
proof -
  have "HoldsUnknownKey (demo_caller\<lparr>ca_key := ''gone''\<rparr>) (Some demo_spec)"
    "\<exists>g. personalKeyOf (demo_caller\<lparr>ca_key := ''ci''\<rparr>) (Some demo_spec) = Some g \<and> Narrowed g"
    by (simp_all add: HoldsUnknownKey_def personalKeyOf_def demo_spec_def demo_caller_def SubjectMatches_def
        IsEmailSubject_def Narrowed_def)
  then show ?thesis using unknown_or_narrowed_key by blast
qed

lemma unverified_email_irrelevant_witness:
  "ProjectRoleFor (demo_caller\<lparr>ca_email := ''eve@example.com''\<rparr>) None (Some demo_project)
    = ProjectRoleFor demo_caller None (Some demo_project)"
  using unverified_email_irrelevant [of demo_caller "''eve@example.com''" None "Some demo_project"]
  by (simp add: demo_caller_def)

theorem scope_has_grantor_witness:
  "(\<exists>cr \<in> set (sp_credentials demo_spec). SubjectMatches (as_subject cr) (demo_caller\<lparr>ca_subject := ''bot''\<rparr>)
        \<and> \<not> is_zero (pc_expires cr) \<and> 0 < pc_expires cr \<and> ScopeBackupRun \<in> set (parsed_scopes (pc_scopes cr)))
    \<or> (\<exists>g \<in> set (sp_keys demo_spec). pk_key g = ca_key (demo_caller\<lparr>ca_subject := ''bot''\<rparr>)
        \<and> SubjectMatches (as_subject g) (demo_caller\<lparr>ca_subject := ''bot''\<rparr>)
        \<and> platformRoleOf (demo_caller\<lparr>ca_subject := ''bot''\<rparr>) (Some demo_spec) = PlatformOperator
        \<and> ScopeBackupRun \<in> set (parsed_scopes (pk_scopes g)) \<and> (is_zero (pk_expires g) \<or> 0 < pk_expires g))"
proof (rule scope_has_grantor)
  have "ParseScope ScopeBackupRun = Some ScopeBackupRun"
    by (simp add: ParseScope_def Scopes_def ScopePlatformRead_def ScopeComplianceRead_def ScopeBackupRun_def
        trim_space_id white_end_def is_space_def)
  then show "Allows (ScopesFor (demo_caller\<lparr>ca_subject := ''bot''\<rparr>) (Some demo_spec) 0) ScopeBackupRun"
    by (simp add: ScopesFor_def Let_def demo_spec_def demo_caller_def SubjectMatches_def IsEmailSubject_def
        Expired_def is_zero_def zero_time_def parsed_scopes_def List.map_filter_def personalKeyScopes_def
        personalKeyOf_def Allows_def ScopeNone_def ScopeBackupRun_def)
qed

end
