(* ===== verification/Survey.thy ===== *)
theory Survey
  imports Access
begin

section \<open>The access survey (internal/access/identities.go)\<close>

text \<open>
  Who holds what, materialized once: one row for every operator, platform credential, personal key
  and project grant, with whether anybody is still behind it. The activity and the accounts are
  Go maps, as lists of their entries; a duration is an \<open>int64\<close> of nanoseconds, so the window
  wraps and a difference of instants saturates. Rows that agree in grant and subject keep the
  order they were added in, which \<open>sort.Slice\<close> leaves open.
\<close>

definition PlatformGrant :: string where "PlatformGrant = ''platform''"

record identity =
  id_subject :: string
  id_email :: string
  id_grant :: string
  id_role :: string
  id_last_active :: "time option"
  id_inactive :: bool
  id_unknown :: bool
  id_orphaned :: bool

record identity_survey =
  su_at :: time
  su_days :: int
  su_consulted :: bool
  su_identities :: "identity list"
  su_orphans :: nat
  su_message :: string

record survey_input =
  in_kitchen :: "access_spec option"
  in_projects :: "project list"
  in_activity :: "(string \<times> time) list"
  in_accounts :: "string list"
  in_consulted :: bool
  in_days :: int
  in_at :: time
  in_message :: string

definition credentialRole :: "platform_credential \<Rightarrow> time \<Rightarrow> string" where
  "credentialRole cr at =
     (let held = join '' '' (pc_scopes cr);
          held = (if held = [] then ''no scope'' else held)
      in if Expired cr at then held @ '' (expired)'' else held)"

definition personalKeyGrantName :: "personal_key \<Rightarrow> string" where
  "personalKeyGrantName key = ''key '' @ pk_key key"

definition personalKeyRole :: "personal_key \<Rightarrow> time \<Rightarrow> string" where
  "personalKeyRole key at =
     (let held =
        (if Narrowed key then
           Ceiling key
           @ (if pk_projects key \<noteq> [] then '' on '' @ join '', '' (pk_projects key) else '' on every project'')
           @ (if pk_scopes key \<noteq> [] then '', '' @ join '' '' (pk_scopes key) else [])
         else ''everything its owner holds'')
      in if is_zero (pk_expires key) \<or> \<not> at < pk_expires key then held @ '' (expired)'' else held)"

definition lastActive :: "(string \<times> time) list \<Rightarrow> string \<Rightarrow> string \<Rightarrow> time option" where
  "lastActive activity subject email =
     (let candidates = filter (\<lambda>c. c \<noteq> []) [subject, email];
          seen = concat (map (\<lambda>c. map snd (filter (\<lambda>a. equal_fold (fst a) c) activity)) candidates)
      in foldl (\<lambda>found at. if (case found of None \<Rightarrow> zero_time | Some n \<Rightarrow> n) < at then Some at else found) None seen)"

definition knownAccount :: "string list \<Rightarrow> string \<Rightarrow> string \<Rightarrow> bool" where
  "knownAccount accounts subject email =
     list_ex (\<lambda>c. c \<noteq> [] \<and> list_ex (\<lambda>a. equal_fold a c) accounts) [subject, email]"

text \<open>The body of \<open>Survey\<close>'s \<open>add\<close>.\<close>

definition survey_row :: "survey_input \<Rightarrow> string \<Rightarrow> string \<Rightarrow> string \<Rightarrow> string \<Rightarrow> identity" where
  "survey_row inp subject email grant role =
     (let window = i64 (in_days inp * 24 * 3600000000000);
          last = lastActive (in_activity inp) subject email;
          inactive = (case last of
              Some at \<Rightarrow> 0 < window \<and> window < clamp_i64 (in_at inp - at)
            | None \<Rightarrow> True);
          unknown = (in_consulted inp \<and> \<not> knownAccount (in_accounts inp) subject email)
      in \<lparr>id_subject = subject, id_email = email, id_grant = grant, id_role = role,
           id_last_active = last, id_inactive = inactive, id_unknown = unknown,
           id_orphaned = (inactive \<and> unknown)\<rparr>)"

text \<open>The order of the rows: the platform's own grants first.\<close>

definition row_key :: "identity \<Rightarrow> bool \<times> string \<times> string" where
  "row_key r = (id_grant r \<noteq> PlatformGrant, id_grant r, id_subject r)"

definition survey_rows :: "survey_input \<Rightarrow> identity list" where
  "survey_rows inp =
     (case in_kitchen inp of
        None \<Rightarrow> []
      | Some spec \<Rightarrow>
          map (\<lambda>op. survey_row inp (as_subject op) (as_email op) PlatformGrant (PlatformString PlatformOperator)) (sp_operators spec)
          @ map (\<lambda>cr. survey_row inp (as_subject cr) (as_email cr) PlatformGrant (credentialRole cr (in_at inp))) (sp_credentials spec)
          @ map (\<lambda>key. survey_row inp (as_subject key) (as_email key) (personalKeyGrantName key) (personalKeyRole key (in_at inp))) (sp_keys spec))
     @ concat (map (\<lambda>p. map (\<lambda>g. survey_row inp (as_subject g) (as_email g) (pr_name p) (ag_role g)) (pr_access p)) (in_projects inp))"

definition Survey :: "survey_input \<Rightarrow> identity_survey" where
  "Survey inp =
     (let rows = survey_rows inp
      in \<lparr>su_at = in_at inp, su_days = in_days inp, su_consulted = in_consulted inp,
           su_identities = sort_key row_key rows, su_orphans = length (filter id_orphaned rows),
           su_message = in_message inp\<rparr>)"

lemma survey_row_fields [simp]:
  "id_subject (survey_row i s e g r) = s" "id_grant (survey_row i s e g r) = g"
  "id_unknown (survey_row i s e g r) \<longleftrightarrow> in_consulted i \<and> \<not> knownAccount (in_accounts i) s e"
  "id_orphaned (survey_row i s e g r) \<longleftrightarrow> id_inactive (survey_row i s e g r) \<and> id_unknown (survey_row i s e g r)"
  by (simp_all add: survey_row_def Let_def)

lemma survey_rows_from: "r \<in> set (survey_rows i) \<Longrightarrow> \<exists>s e g ro. r = survey_row i s e g ro"
  by (auto simp: survey_rows_def split: option.splits)

subsection \<open>Last activity\<close>

lemma fold_newest:
  "foldl (\<lambda>found at. if (case found of None \<Rightarrow> z | Some n \<Rightarrow> n) < at then Some at else found) (Some a) xs
    = Some (Max (insert a (set xs)))" for a :: int
proof (induction xs arbitrary: a)
  case (Cons x xs)
  have "Max (insert (max a x) S) = Max (insert a (insert x S))" if "finite S" for S
    using that by (cases "S = {}") (simp_all add: max.assoc)
  moreover have "(if a < x then Some x else Some a) = Some (max a x)" by (simp add: max_def)
  ultimately show ?case using Cons.IH [of "max a x"] by simp
qed simp

lemma fold_newest_from:
  "foldl (\<lambda>found at. if (case found of None \<Rightarrow> z | Some n \<Rightarrow> n) < at then Some at else found) None xs
    = (if \<exists>x \<in> set xs. z < x then Some (Max (set xs)) else None)" for z :: int
proof (induction xs)
  case (Cons x xs)
  show ?case
  proof (cases "z < x")
    case True
    then show ?thesis by (simp add: fold_newest)
  next
    case False
    have "Max (insert x (set xs)) = Max (set xs)" if "\<exists>y \<in> set xs. z < y"
    proof -
      from that False obtain y where y: "y \<in> set xs" "x < y" by auto
      then have "y \<le> Max (set xs)" by simp
      with y have "x \<le> Max (set xs)" by linarith
      moreover have "set xs \<noteq> {}" using y by auto
      ultimately show ?thesis by (simp add: max_def)
    qed
    with False Cons show ?thesis by auto
  qed
qed simp

definition recorded_at :: "(string \<times> time) list \<Rightarrow> string \<Rightarrow> string \<Rightarrow> time set" where
  "recorded_at activity subject email =
     {at. \<exists>c actor. c \<in> {subject, email} \<and> c \<noteq> [] \<and> (actor, at) \<in> set activity \<and> equal_fold actor c}"

lemma lastActive_newest:
  "lastActive activity subject email =
     (let seen = recorded_at activity subject email in if \<exists>at \<in> seen. zero_time < at then Some (Max seen) else None)"
proof -
  let ?xs = "concat (map (\<lambda>c. map snd (filter (\<lambda>a. equal_fold (fst a) c) activity)) (filter (\<lambda>c. c \<noteq> []) [subject, email]))"
  have one: "snd ` {a \<in> set activity. equal_fold (fst a) c} = {at. \<exists>actor. (actor, at) \<in> set activity \<and> equal_fold actor c}" for c
    by (force simp: image_def)
  have "set ?xs = recorded_at activity subject email"
    unfolding recorded_at_def set_concat set_map set_filter image_image one by auto
  then show ?thesis unfolding lastActive_def Let_def fold_newest_from by simp
qed

subsection \<open>Properties\<close>


text \<open>
  A personal key without an expiry is reported as expired and honoured all the same: while
  its owner is an operator, its scopes are granted at every instant, although its row in the
  survey says it has lapsed; a platform credential without an expiry is granted nothing.
\<close>

lemma undated_key_still_honoured:
  assumes "personalKeyOf c (Some spec) = Some key" and "is_zero (pk_expires key)"
    and "platformRoleOf c (Some spec) = PlatformOperator" and "s \<in> set (parsed_scopes (pk_scopes key))"
    and "s \<noteq> ScopeNone"
  shows "Allows (ScopesFor c (Some spec) now) s
    \<and> (\<exists>held. personalKeyRole key now = held @ '' (expired)'')
    \<and> (\<forall>cr. is_zero (pc_expires cr) \<longrightarrow> Expired cr now)"
proof (intro conjI)
  have "pk_scopes key \<noteq> []" using assms(4) by (auto simp: parsed_scopes_def List.map_filter_def)
  moreover have "PlatformAtLeast (platformRoleOf c (Some spec)) PlatformOperator"
    using assms(3) by (simp add: PlatformAtLeast_def)
  ultimately have "s \<in> set (sg_scopes (personalKeyScopes c (Some spec) now g))" for g
    using assms by (simp add: personalKeyScopes_def Let_def)
  then have "s \<in> set (sg_scopes (ScopesFor c (Some spec) now))" by (simp add: ScopesFor_def Let_def)
  with assms(5) show "Allows (ScopesFor c (Some spec) now) s" by (simp add: Allows_def)
  show "\<exists>held. personalKeyRole key now = held @ '' (expired)''"
    using assms(2) by (simp add: personalKeyRole_def Let_def)
  show "\<forall>cr. is_zero (pc_expires cr) \<longrightarrow> Expired cr now" by (simp add: Expired_def)
qed

subsection \<open>Witnesses\<close>

definition demo_survey :: survey_input where
  "demo_survey = \<lparr>in_kitchen = Some demo_spec, in_projects = [demo_project], in_activity = [(''u1'', 1000)],
     in_accounts = [''u1''], in_consulted = True, in_days = 90, in_at = 2000, in_message = []\<rparr>"


lemma undated_key_still_honoured_witness:
  "Allows (ScopesFor (demo_caller\<lparr>ca_key := ''ci''\<rparr>) (Some demo_spec) 5000) ScopePlatformRead"
proof -
  have "\<exists>key. personalKeyOf (demo_caller\<lparr>ca_key := ''ci''\<rparr>) (Some demo_spec) = Some key \<and> is_zero (pk_expires key)
      \<and> pk_scopes key = [ScopePlatformRead]"
    by (simp add: personalKeyOf_def demo_spec_def demo_caller_def SubjectMatches_def IsEmailSubject_def is_zero_def)
  then obtain key where key: "personalKeyOf (demo_caller\<lparr>ca_key := ''ci''\<rparr>) (Some demo_spec) = Some key"
    "is_zero (pk_expires key)" "pk_scopes key = [ScopePlatformRead]" by blast
  have "platformRoleOf (demo_caller\<lparr>ca_key := ''ci''\<rparr>) (Some demo_spec) = PlatformOperator"
    by (simp add: platformRoleOf_def demo_spec_def demo_caller_def SubjectMatches_def IsEmailSubject_def)
  moreover have "ParseScope ScopePlatformRead = Some ScopePlatformRead"
    by (simp add: ParseScope_def Scopes_def ScopePlatformRead_def trim_space_id white_end_def is_space_def)
  then have "ScopePlatformRead \<in> set (parsed_scopes (pk_scopes key))"
    by (simp add: key(3) parsed_scopes_def List.map_filter_def)
  moreover have "ScopePlatformRead \<noteq> ScopeNone" by (simp add: ScopePlatformRead_def ScopeNone_def)
  ultimately show ?thesis using undated_key_still_honoured [OF key(1,2)] by blast
qed

end
