(* ===== verification/GoBase64.thy ===== *)
theory GoBase64
  imports Json GoSha256
begin

section \<open>base64.RawURLEncoding and HMAC-SHA-256\<close>

text \<open>
  The URL-safe base64 without padding that the signed values of the platform are written in
  (package encoding/base64), read back by \<open>raw_url_decode\<close>, and the keyed digest of crypto/hmac over
  SHA-256.
\<close>

subsection \<open>Encoding\<close>

definition b64_digit :: "nat \<Rightarrow> char" where
  "b64_digit n = ''ABCDEFGHIJKLMNOPQRSTUVWXYZabcdefghijklmnopqrstuvwxyz0123456789-_'' ! n"

fun raw_url :: "string \<Rightarrow> string" where
  "raw_url [] = []"
| "raw_url [a] = (let n = 16 * byte a in [b64_digit (n div 64), b64_digit (n mod 64)])"
| "raw_url [a, b] =
     (let n = 4 * (256 * byte a + byte b)
      in [b64_digit (n div 4096), b64_digit (n div 64 mod 64), b64_digit (n mod 64)])"
| "raw_url (a # b # c # s) =
     (let n = 256 * (256 * byte a + byte b) + byte c
      in b64_digit (n div 262144) # b64_digit (n div 4096 mod 64) # b64_digit (n div 64 mod 64)
         # b64_digit (n mod 64) # raw_url s)"

subsection \<open>Decoding\<close>

text \<open>
  The decoder skips line ends, refuses any other byte outside the alphabet and a single digit left
  over, and ignores the bits of the last digit that belong to no byte.
\<close>

definition b64_val :: "char \<Rightarrow> nat option" where
  "b64_val c =
     (if in_range 0x41 0x5A c then Some (byte c - 0x41)
      else if in_range 0x61 0x7A c then Some (byte c - 0x61 + 26)
      else if in_range 0x30 0x39 c then Some (byte c - 0x30 + 52)
      else if c = CHR ''-'' then Some 62
      else if c = CHR ''_'' then Some 63
      else None)"

fun b64_groups :: "nat list \<Rightarrow> string option" where
  "b64_groups [] = Some []"
| "b64_groups [a] = None"
| "b64_groups [a, b] = Some [char_of ((64 * a + b) div 16)]"
| "b64_groups [a, b, c] =
     (let n = 64 * (64 * a + b) + c in Some [char_of (n div 1024), char_of (n div 4 mod 256)])"
| "b64_groups (a # b # c # d # ds) =
     (let n = 64 * (64 * (64 * a + b) + c) + d
      in map_option (\<lambda>s. char_of (n div 65536) # char_of (n div 256 mod 256) # char_of (n mod 256) # s)
           (b64_groups ds))"

definition raw_url_decode :: "string \<Rightarrow> string option" where
  "raw_url_decode s =
     (case those (map b64_val (filter (\<lambda>c. c \<noteq> CHR 0x0A \<and> c \<noteq> CHR 0x0D) s)) of
        None \<Rightarrow> None
      | Some ds \<Rightarrow> b64_groups ds)"

subsection \<open>What is written is read back\<close>

lemma b64_val_digit: "n < 64 \<Longrightarrow> b64_val (b64_digit n) = Some n"
proof -
  have "\<forall>n \<in> set [0..<64]. b64_val (b64_digit n) = Some n" by code_simp
  then show "n < 64 \<Longrightarrow> b64_val (b64_digit n) = Some n" by auto
qed

text \<open>The digits of an encoded string, as numbers.\<close>

fun b64_digits :: "string \<Rightarrow> nat list" where
  "b64_digits [] = []"
| "b64_digits [a] = (let n = 16 * byte a in [n div 64, n mod 64])"
| "b64_digits [a, b] = (let n = 4 * (256 * byte a + byte b) in [n div 4096, n div 64 mod 64, n mod 64])"
| "b64_digits (a # b # c # s) =
     (let n = 256 * (256 * byte a + byte b) + byte c
      in n div 262144 # n div 4096 mod 64 # n div 64 mod 64 # n mod 64 # b64_digits s)"

lemma byte_cases:
  obtains x where "(byte c :: nat) = x" "x < 256"
  by simp

lemma b64_digits_bound: "list_all (\<lambda>d. d < 64) (b64_digits s)"
proof (induction s rule: b64_digits.induct)
  case (2 a)
  obtain x where "(byte a :: nat) = x" "x < 256" by (rule byte_cases)
  then show ?case by (auto simp: Let_def)
next
  case (3 a b)
  obtain x y where "(byte a :: nat) = x" "x < 256" "(byte b :: nat) = y" "y < 256" by (metis byte_cases)
  then show ?case by (auto simp: Let_def)
next
  case (4 a b c s)
  obtain x y z where "(byte a :: nat) = x" "x < 256" "(byte b :: nat) = y" "y < 256" "(byte c :: nat) = z" "z < 256"
    by (metis byte_cases)
  with 4 show ?case by (auto simp: Let_def)
qed simp

lemma raw_url_digits: "raw_url s = map b64_digit (b64_digits s)"
  by (induction s rule: raw_url.induct) (simp_all add: Let_def)

lemma digits_joined: "64 * (64 * (64 * (n div 262144) + n div 4096 mod 64) + n div 64 mod 64) + n mod 64 = (n :: nat)"
proof -
  have a: "64 * (n div 262144) + n div 4096 mod 64 = n div 4096"
    using mult_div_mod_eq [of 64 "n div 4096"] div_mult2_eq [of n 4096 64] by simp
  have b: "64 * (n div 4096) + n div 64 mod 64 = n div 64"
    using mult_div_mod_eq [of 64 "n div 64"] div_mult2_eq [of n 64 64] by simp
  show ?thesis unfolding a b by (rule mult_div_mod_eq)
qed

lemma b64_groups_digits: "b64_groups (b64_digits s) = Some s"
proof (induction s rule: b64_digits.induct)
  case (2 a)
  have "64 * (16 * byte a div 64) + 16 * byte a mod 64 = 16 * (byte a :: nat)" by (rule mult_div_mod_eq)
  then show ?case by (simp add: Let_def)
next
  case (3 a b)
  obtain x y where xy: "(byte a :: nat) = x" "x < 256" "(byte b :: nat) = y" "y < 256" by (metis byte_cases)
  define n where "n = 4 * (256 * x + y)"
  have "64 * (n div 4096) + n div 64 mod 64 = n div 64"
    using mult_div_mod_eq [of 64 "n div 64"] div_mult2_eq [of n 64 64] by simp
  then have joined: "64 * (64 * (n div 4096) + n div 64 mod 64) + n mod 64 = n"
    using mult_div_mod_eq [of 64 n] by simp
  have parts: "n div 1024 = x" "n div 4 mod 256 = y" using xy(2,4) by (auto simp: n_def)
  have "b64_groups (b64_digits [a, b]) = Some [char_of (n div 1024), char_of (n div 4 mod 256)]"
    by (simp only: b64_digits.simps Let_def b64_groups.simps xy(1,3) n_def [symmetric] joined)
  then show ?case by (simp only: parts xy(1,3) [symmetric] char_of_char)
next
  case (4 a b c s)
  obtain x y z where xyz: "(byte a :: nat) = x" "x < 256" "(byte b :: nat) = y" "y < 256"
    "(byte c :: nat) = z" "z < 256" by (metis byte_cases)
  define n where "n = 256 * (256 * x + y) + z"
  have parts: "n div 65536 = x" "n div 256 mod 256 = y" "n mod 256 = z"
  proof -
    have "n div 256 = 256 * x + y" using xyz(6) by (simp add: n_def del: distrib_left_numeral)
    moreover have "(256 * x + y) mod 256 = y" using xyz(4) by simp
    ultimately show "n div 256 mod 256 = y" by simp
    show "n div 65536 = x" using xyz(2,4,6) by (auto simp: n_def)
    show "n mod 256 = z" using xyz(6) by (simp add: n_def del: distrib_left_numeral)
  qed
  have "b64_groups (b64_digits (a # b # c # s)) =
      Some (char_of (n div 65536) # char_of (n div 256 mod 256) # char_of (n mod 256) # s)"
    by (simp only: b64_digits.simps Let_def b64_groups.simps xyz(1,3,5) n_def [symmetric] digits_joined 4 option.map)
  then show ?case by (simp only: parts xyz(1,3,5) [symmetric] char_of_char)
qed simp

lemma those_map_Some: "list_all (\<lambda>x. f x = Some (g x)) xs \<Longrightarrow> those (map f xs) = Some (map g xs)"
  by (induction xs) auto

lemma raw_url_decode_raw_url [simp]: "raw_url_decode (raw_url s) = Some s"
proof -
  have "b64_val (CHR 0x0A) = None" "b64_val (CHR 0x0D) = None" by (simp_all add: b64_val_def in_range_def)
  then have "filter (\<lambda>c. c \<noteq> CHR 0x0A \<and> c \<noteq> CHR 0x0D) (raw_url s) = raw_url s"
    using b64_digits_bound [of s] b64_val_digit by (fastforce simp: raw_url_digits filter_id_conv list_all_iff)
  moreover have "those (map b64_val (raw_url s)) = Some (b64_digits s)"
    using those_map_Some [of "b64_val \<circ> b64_digit" "\<lambda>d. d" "b64_digits s"] b64_digits_bound [of s]
    by (simp add: raw_url_digits b64_val_digit list_all_iff)
  ultimately show ?thesis by (simp add: raw_url_decode_def b64_groups_digits)
qed

lemma raw_url_alphabet:
  assumes "c \<in> set (raw_url s)"
  shows "c \<noteq> CHR ''.''"
proof -
  obtain d where "c = b64_digit d" "d < 64"
    using assms b64_digits_bound [of s] by (auto simp: raw_url_digits list_all_iff)
  then have "b64_val c = Some d" by (simp add: b64_val_digit)
  moreover have "b64_val (CHR ''.'') = None" by (simp add: b64_val_def in_range_def)
  ultimately show ?thesis by auto
qed

subsection \<open>HMAC\<close>

definition xor_pad :: "nat \<Rightarrow> string \<Rightarrow> string" where
  "xor_pad v key = map (\<lambda>c. char_of ((byte c :: nat) XOR v)) key"

definition hmac_sha256 :: "string \<Rightarrow> string \<Rightarrow> string" where
  "hmac_sha256 key m =
     (let k = (if 64 < length key then sha256 key else key);
          k = k @ replicate (64 - length k) (CHR 0x00)
      in sha256 (xor_pad 0x5C k @ sha256 (xor_pad 0x36 k @ m)))"

end
