(* ===== verification/GoRegexp.thy ===== *)
theory GoRegexp
  imports Prelude
begin

section \<open>Regular expressions (package regexp)\<close>

text \<open>
  The regular expressions of the source as data, and \<open>MatchString\<close> of an expression anchored at
  both ends, computed by derivatives. \<open>in_lang\<close> is the language an expression stands for, rule by
  rule; \<open>accepts_iff\<close> shows that the computed match decides it. The classes are of ASCII characters
  only, so matching bytes and matching runes is the same.
\<close>

datatype regex =
    Nothing
  | Empty_string
  | Class "(char \<times> char) list"
  | Alt regex regex
  | Cat regex regex
  | Star regex

definition in_class :: "(char \<times> char) list \<Rightarrow> char \<Rightarrow> bool" where
  "in_class rs c \<longleftrightarrow> list_ex (\<lambda>(lo, hi). lo \<le> c \<and> c \<le> hi) rs"

definition Lit :: "char \<Rightarrow> regex" where "Lit c = Class [(c, c)]"
definition Plus :: "regex \<Rightarrow> regex" where "Plus r = Cat r (Star r)"

inductive in_lang :: "regex \<Rightarrow> string \<Rightarrow> bool" where
  empty: "in_lang Empty_string []"
| cls: "in_class rs c \<Longrightarrow> in_lang (Class rs) [c]"
| left: "in_lang r s \<Longrightarrow> in_lang (Alt r q) s"
| right: "in_lang q s \<Longrightarrow> in_lang (Alt r q) s"
| cat: "in_lang r s \<Longrightarrow> in_lang q t \<Longrightarrow> in_lang (Cat r q) (s @ t)"
| star_stop: "in_lang (Star r) []"
| star_step: "in_lang r s \<Longrightarrow> in_lang (Star r) t \<Longrightarrow> in_lang (Star r) (s @ t)"

inductive_simps in_lang_simps:
  "in_lang Nothing s" "in_lang Empty_string s" "in_lang (Class rs) s" "in_lang (Alt r q) s" "in_lang (Cat r q) s"

primrec nullable :: "regex \<Rightarrow> bool" where
  "nullable Nothing = False"
| "nullable Empty_string = True"
| "nullable (Class rs) = False"
| "nullable (Alt r q) = (nullable r \<or> nullable q)"
| "nullable (Cat r q) = (nullable r \<and> nullable q)"
| "nullable (Star r) = True"

text \<open>Alternatives and sequences that drop what matches nothing, which keeps derivatives small.\<close>

definition alt :: "regex \<Rightarrow> regex \<Rightarrow> regex" where
  "alt r q = (case r of Nothing \<Rightarrow> q | _ \<Rightarrow> (case q of Nothing \<Rightarrow> r | _ \<Rightarrow> Alt r q))"

definition cat_re :: "regex \<Rightarrow> regex \<Rightarrow> regex" where
  "cat_re r q = (case r of Nothing \<Rightarrow> Nothing | Empty_string \<Rightarrow> q | _ \<Rightarrow> Cat r q)"

primrec deriv :: "char \<Rightarrow> regex \<Rightarrow> regex" where
  "deriv c Nothing = Nothing"
| "deriv c Empty_string = Nothing"
| "deriv c (Class rs) = (if in_class rs c then Empty_string else Nothing)"
| "deriv c (Alt r q) = alt (deriv c r) (deriv c q)"
| "deriv c (Cat r q) =
     (if nullable r then alt (cat_re (deriv c r) q) (deriv c q) else cat_re (deriv c r) q)"
| "deriv c (Star r) = cat_re (deriv c r) (Star r)"

primrec accepts :: "regex \<Rightarrow> string \<Rightarrow> bool" where
  "accepts r [] = nullable r"
| "accepts r (c # cs) = accepts (deriv c r) cs"

lemma in_lang_alt [simp]: "in_lang (alt r q) s \<longleftrightarrow> in_lang r s \<or> in_lang q s"
  by (auto simp: alt_def in_lang_simps split: regex.split)

lemma in_lang_cat_re [simp]: "in_lang (cat_re r q) s \<longleftrightarrow> in_lang (Cat r q) s"
  by (auto simp: cat_re_def in_lang_simps split: regex.split)

lemma nullable_iff: "nullable r \<longleftrightarrow> in_lang r []"
  by (induction r) (auto simp: in_lang_simps intro: in_lang.star_stop)

lemma star_nonempty:
  "in_lang (Star r) w \<Longrightarrow> w = c # s \<Longrightarrow> \<exists>u v. s = u @ v \<and> in_lang r (c # u) \<and> in_lang (Star r) v"
proof (induction "Star r" w arbitrary: s rule: in_lang.induct)
  case (star_step u t)
  then show ?case by (cases u) auto
qed auto

lemma deriv_iff: "in_lang (deriv c r) s \<longleftrightarrow> in_lang r (c # s)"
proof (induction r arbitrary: s)
  case (Cat r q)
  have cons: "(\<exists>u v. c # s = u @ v \<and> P u v) \<longleftrightarrow> P [] (c # s) \<or> (\<exists>u v. s = u @ v \<and> P (c # u) v)" for P
    by (metis append_Cons append_Nil append_eq_Cons_conv)
  show ?case by (auto simp: in_lang_simps Cat nullable_iff cons)
next
  case (Star r)
  show ?case
    by (auto simp: in_lang_simps Star dest: star_nonempty intro: in_lang.star_step [of r "c # _", simplified])
qed (auto simp: in_lang_simps)

theorem accepts_iff: "accepts r s \<longleftrightarrow> in_lang r s"
  by (induction s arbitrary: r) (simp_all add: nullable_iff deriv_iff)

text \<open>The shapes the expressions of the source are made of.\<close>

primrec Str :: "string \<Rightarrow> regex" where
  "Str [] = Empty_string"
| "Str (c # cs) = Cat (Lit c) (Str cs)"

lemma in_lang_Lit [simp]: "in_lang (Lit c) s \<longleftrightarrow> s = [c]"
  by (auto simp: Lit_def in_lang_simps in_class_def)

lemma in_lang_Str [simp]: "in_lang (Str t) s \<longleftrightarrow> s = t"
  by (induction t arbitrary: s) (auto simp: in_lang_simps)

lemma in_lang_Star_Class [simp]: "in_lang (Star (Class rs)) s \<longleftrightarrow> list_all (in_class rs) s"
proof
  have "in_lang r s \<Longrightarrow> r = Star (Class rs) \<Longrightarrow> list_all (in_class rs) s" for r
    by (induction rule: in_lang.induct) (auto simp: in_lang_simps)
  then show "in_lang (Star (Class rs)) s \<Longrightarrow> list_all (in_class rs) s" by blast
next
  show "list_all (in_class rs) s \<Longrightarrow> in_lang (Star (Class rs)) s"
  proof (induction s)
    case (Cons c s)
    then show ?case
      using in_lang.star_step [of "Class rs" "[c]" s] by (simp add: in_lang.cls)
  qed (simp add: in_lang.star_stop)
qed

lemma in_lang_Plus_Class [simp]:
  "in_lang (Plus (Class rs)) s \<longleftrightarrow> s \<noteq> [] \<and> list_all (in_class rs) s"
proof (cases s)
  case (Cons c t)
  have "in_lang (Class rs) [c] \<and> in_lang (Star (Class rs)) t \<Longrightarrow> in_lang (Plus (Class rs)) ([c] @ t)"
    unfolding Plus_def by (blast intro: in_lang.cat)
  then show ?thesis using Cons by (auto simp: Plus_def in_lang_simps)
qed (auto simp: Plus_def in_lang_simps)

text \<open>A match consists of characters the expression names.\<close>

primrec alphabet :: "regex \<Rightarrow> (char \<times> char) list" where
  "alphabet Nothing = []"
| "alphabet Empty_string = []"
| "alphabet (Class rs) = rs"
| "alphabet (Alt r q) = alphabet r @ alphabet q"
| "alphabet (Cat r q) = alphabet r @ alphabet q"
| "alphabet (Star r) = alphabet r"

lemma in_lang_alphabet: "in_lang r s \<Longrightarrow> c \<in> set s \<Longrightarrow> in_class (alphabet r) c"
  by (induction rule: in_lang.induct) (auto simp: in_class_def)

lemma accepts_alphabet: "accepts r s \<Longrightarrow> c \<in> set s \<Longrightarrow> in_class (alphabet r) c"
  by (simp add: accepts_iff in_lang_alphabet)

end
