(* ===== verification/RegistryToken.thy ===== *)
theory RegistryToken
  imports GoTime GoBase64 GoRegexp Kube
begin

section \<open>The registry's token service (internal/registrytoken, internal/controller/registryaccounts.go)\<close>

text \<open>
  The service that exchanges a registry account's password for a token naming the repositories
  and actions it may have: the grants and what they allow, the reading of a \<open>scope\<close>, the accounts
  of the platform and of every project, the handler of the endpoint. A Go map used as a set is the
  list of its keys. The Kubernetes objects a call reads are the record \<open>registry_cluster\<close>; the
  random bytes, RSA and the parsers of package \<open>x509\<close> are parameters (\<open>signer\<close>, \<open>key_parsers\<close>).
\<close>

subsection \<open>Grants (token.go, static.go)\<close>

definition ActionPull :: string where "ActionPull = ''pull''"
definition ActionPush :: string where "ActionPush = ''push''"
definition ActionDelete :: string where "ActionDelete = ''delete''"

lemmas action_defs = ActionPull_def ActionPush_def ActionDelete_def

record registry_grant =
  rg_subject :: string
  rg_everywhere :: "string list"
  rg_project :: string
  rg_project_actions :: "string list"
  rg_legacy :: "string list"

definition zero_registry_grant :: registry_grant where
  "zero_registry_grant = \<lparr>rg_subject = [], rg_everywhere = [], rg_project = [], rg_project_actions = [], rg_legacy = []\<rparr>"

definition PlatformAccountGrant :: registry_grant where
  "PlatformAccountGrant = zero_registry_grant\<lparr>rg_everywhere := [ActionPull, ActionPush, ActionDelete]\<rparr>"

definition ReadGrant :: registry_grant where
  "ReadGrant = zero_registry_grant\<lparr>rg_everywhere := [ActionPull]\<rparr>"

definition ProjectGrant :: "string \<Rightarrow> bool \<Rightarrow> registry_grant" where
  "ProjectGrant project push =
     (let actions = [ActionPull]; actions = (if push then actions @ [ActionPush] else actions)
      in zero_registry_grant\<lparr>rg_project := project, rg_project_actions := actions\<rparr>)"

definition append_new :: "string list \<Rightarrow> string \<Rightarrow> string list" where
  "append_new granted each = (if each \<in> set granted then granted else granted @ [each])"

definition permitted_for :: "registry_grant \<Rightarrow> string \<Rightarrow> string list option" where
  "permitted_for g repository =
     (if rg_everywhere g \<noteq> [] then Some (rg_everywhere g)
      else if rg_project g \<noteq> [] \<and> (repository = rg_project g \<or> has_prefix repository (rg_project g @ ''/''))
        then Some (rg_project_actions g)
      else if repository \<in> set (rg_legacy g) then Some [ActionPull]
      else None)"

definition grant_action :: "string list \<Rightarrow> string list \<Rightarrow> string \<Rightarrow> string list" where
  "grant_action permitted granted action =
     (if action = ''*'' then foldl append_new granted permitted
      else if action \<in> set permitted then append_new granted action
      else granted)"

definition allowed :: "registry_grant \<Rightarrow> string \<Rightarrow> string list \<Rightarrow> string list" where
  "allowed g repository asked =
     (case permitted_for g repository of
        None \<Rightarrow> []
      | Some permitted \<Rightarrow> foldl (grant_action permitted) [] asked)"

subsection \<open>Scopes\<close>

text \<open>\<open>[a-z0-9]+(?:(?:\\.|_|__|-+)[a-z0-9]+)*(?:/[a-z0-9]+(?:(?:\\.|_|__|-+)[a-z0-9]+)*)*\<close>\<close>

definition re_alnum :: regex where
  "re_alnum = Plus (Class [(CHR ''a'', CHR ''z''), (CHR ''0'', CHR ''9'')])"

definition re_separator :: regex where
  "re_separator = Alt (Lit (CHR ''.'')) (Alt (Lit (CHR ''_''))
     (Alt (Cat (Lit (CHR ''_'')) (Lit (CHR ''_''))) (Plus (Lit (CHR ''-'')))))"

definition re_component :: regex where
  "re_component = Cat re_alnum (Star (Cat re_separator re_alnum))"

definition repositoryName :: regex where
  "repositoryName = Cat re_component (Star (Cat (Lit (CHR ''/'')) re_component))"

definition parseScope :: "string \<Rightarrow> (string \<times> string list) option" where
  "parseScope scope =
     (case cut_first (CHR '':'') scope of
        None \<Rightarrow> None
      | Some (kind, rest) \<Rightarrow>
          if kind \<noteq> ''repository'' then None
          else (case cut_last (CHR '':'') rest of
              None \<Rightarrow> None
            | Some (name, list) \<Rightarrow>
                if name = [] then None
                else if \<not> accepts repositoryName name then None
                else let actions = filter (\<lambda>a. a \<noteq> []) (map trim_space (split_on (CHR '','') list))
                  in if actions = [] then None else Some (name, actions)))"

record resource_access =
  ra_type :: string
  ra_name :: string
  ra_actions :: "string list"

definition merge_access :: "resource_access list \<Rightarrow> string \<Rightarrow> string list \<Rightarrow> resource_access list" where
  "merge_access acc name granted =
     (if name \<in> ra_name ` set acc
      then map (\<lambda>r. if ra_name r = name then r\<lparr>ra_actions := foldl append_new (ra_actions r) granted\<rparr> else r) acc
      else acc @ [\<lparr>ra_type = ''repository'', ra_name = name, ra_actions = granted\<rparr>])"

definition access_scope :: "registry_grant \<Rightarrow> resource_access list \<Rightarrow> string \<Rightarrow> resource_access list" where
  "access_scope g acc scope =
     (case parseScope scope of
        None \<Rightarrow> acc
      | Some (name, asked) \<Rightarrow>
          let granted = allowed g name asked
          in if granted = [] then acc else merge_access acc name granted)"

definition accessFor :: "registry_grant \<Rightarrow> string list \<Rightarrow> resource_access list" where
  "accessFor g scopes = foldl (access_scope g) [] (concat (map split_fields scopes))"

subsection \<open>Tokens\<close>

record token_claims =
  tc_issuer :: string
  tc_subject :: string
  tc_audience :: string
  tc_expires :: int
  tc_not_before :: int
  tc_issued :: int
  tc_id :: string
  tc_access :: "resource_access list"

definition issuer :: string where "issuer = ''kitchen''"
definition clockSkew :: int where "clockSkew = 30 * second"

definition json_access :: "resource_access \<Rightarrow> gojson" where
  "json_access r = JObject [(''type'', JString (ra_type r)), (''name'', JString (ra_name r)),
     (''actions'', JArray (map JString (ra_actions r)))]"

definition json_claims :: "token_claims \<Rightarrow> gojson" where
  "json_claims c = JObject ([(''iss'', JString (tc_issuer c)), (''sub'', JString (tc_subject c))]
     @ (if tc_audience c = [] then [] else [(''aud'', JString (tc_audience c))])
     @ [(''exp'', json_int (tc_expires c)), (''nbf'', json_int (tc_not_before c)), (''iat'', json_int (tc_issued c)),
        (''jti'', JString (tc_id c)), (''access'', JArray (map json_access (tc_access c)))])"

record 'key signer =
  si_random :: "string option"
  si_modulus :: "'key \<Rightarrow> string"
  si_sign :: "'key \<Rightarrow> string \<Rightarrow> string option"

definition keyID :: "'key signer \<Rightarrow> 'key \<Rightarrow> string" where
  "keyID si key = hex (take 8 (sha256 (si_modulus si key)))"

definition unix_seconds :: "time \<Rightarrow> int" where
  "unix_seconds t = t div second"

definition claims_of :: "string \<Rightarrow> registry_grant \<Rightarrow> resource_access list \<Rightarrow> time \<Rightarrow> int \<Rightarrow> string \<Rightarrow> token_claims" where
  "claims_of service g acc now ttl jti =
     \<lparr>tc_issuer = issuer, tc_subject = rg_subject g, tc_audience = service,
      tc_expires = unix_seconds (now + ttl), tc_not_before = unix_seconds (now - clockSkew),
      tc_issued = unix_seconds (now - clockSkew), tc_id = hex jti, tc_access = acc\<rparr>"

definition sign ::
  "'key signer \<Rightarrow> 'key \<Rightarrow> string \<Rightarrow> registry_grant \<Rightarrow> resource_access list \<Rightarrow> time \<Rightarrow> int \<Rightarrow> string option" where
  "sign si key service g acc now ttl =
     (case si_random si of
        None \<Rightarrow> None
      | Some jti \<Rightarrow>
          let header = json_map [(''alg'', JString ''RS256''), (''typ'', JString ''JWT''), (''kid'', JString (keyID si key))];
              payload = json_claims (claims_of service g acc now ttl jti);
              signed = raw_url (marshal header) @ ''.'' @ raw_url (marshal payload)
          in (case si_sign si key (sha256 signed) of
                None \<Rightarrow> None
              | Some signature \<Rightarrow> Some (signed @ ''.'' @ raw_url signature)))"


subsection \<open>What a token carries\<close>

lemma set_append_new [simp]: "set (append_new gs a) = insert a (set gs)"
  by (auto simp: append_new_def)

lemma set_foldl_append_new [simp]: "set (foldl append_new gs as) = set gs \<union> set as"
  by (induction as arbitrary: gs) auto

lemma distinct_foldl_append_new: "distinct gs \<Longrightarrow> distinct (foldl append_new gs as)"
  by (induction as arbitrary: gs) (auto simp: append_new_def)

lemma set_grant_action:
  "set (grant_action p gs a) = set gs \<union> (if a = ''*'' then set p else set p \<inter> {a})"
  by (auto simp: grant_action_def)

lemma set_foldl_grant_action:
  "set (foldl (grant_action p) gs as) = set gs \<union> (set p \<inter> set as) \<union> (if ''*'' \<in> set as then set p else {})"
  by (induction as arbitrary: gs) (auto simp: set_grant_action)

lemma distinct_foldl_grant_action: "distinct gs \<Longrightarrow> distinct (foldl (grant_action p) gs as)"
proof (induction as arbitrary: gs)
  case (Cons a as)
  have "distinct (grant_action p gs a)"
    using Cons.prems by (simp add: grant_action_def append_new_def distinct_foldl_append_new)
  then show ?case by (simp add: Cons.IH)
qed simp

text \<open>The actions granted are the permitted ones among those asked for, \<open>*\<close> asking for all of them.\<close>

lemma set_allowed:
  "set (allowed g repository asked) =
     (case permitted_for g repository of
        None \<Rightarrow> {}
      | Some p \<Rightarrow> if ''*'' \<in> set asked then set p else set p \<inter> set asked)"
  by (auto simp: allowed_def set_foldl_grant_action split: option.split)

lemma distinct_allowed: "distinct (allowed g repository asked)"
  by (simp add: allowed_def distinct_foldl_grant_action split: option.split)

definition token_allows :: "resource_access list \<Rightarrow> string \<Rightarrow> string \<Rightarrow> bool" where
  "token_allows acc name action \<longleftrightarrow> list_ex (\<lambda>r. ra_name r = name \<and> action \<in> set (ra_actions r)) acc"

definition access_ok :: "resource_access list \<Rightarrow> bool" where
  "access_ok acc \<longleftrightarrow> distinct (map ra_name acc)
     \<and> list_all (\<lambda>r. ra_type r = ''repository'' \<and> accepts repositoryName (ra_name r)
         \<and> ra_actions r \<noteq> [] \<and> distinct (ra_actions r)) acc"

lemma token_allows_append: "token_allows (acc @ acc') n a \<longleftrightarrow> token_allows acc n a \<or> token_allows acc' n a"
  by (simp add: token_allows_def)

lemma token_allows_widened:
  "token_allows (map (\<lambda>r. if ra_name r = name then r\<lparr>ra_actions := foldl append_new (ra_actions r) gs\<rparr> else r) acc) n a
   \<longleftrightarrow> token_allows acc n a \<or> n = name \<and> name \<in> ra_name ` set acc \<and> a \<in> set gs"
  by (induction acc) (auto simp: token_allows_def)

lemma token_allows_merge:
  "token_allows (merge_access acc name granted) n a \<longleftrightarrow> token_allows acc n a \<or> n = name \<and> a \<in> set granted"
  by (auto simp: merge_access_def token_allows_append token_allows_widened) (auto simp: token_allows_def)

lemma map_ra_name_merge:
  "map (\<lambda>r. ra_name (if ra_name r = n then r\<lparr>ra_actions := f r\<rparr> else r)) acc = map ra_name acc"
  by simp

lemma foldl_append_new_Nil [simp]: "foldl append_new gs as = [] \<longleftrightarrow> gs = [] \<and> as = []"
  by (metis Un_empty set_empty set_foldl_append_new)

lemma access_ok_merge [wf_intros]:
  assumes "access_ok acc" "accepts repositoryName name" "granted \<noteq> []" "distinct granted"
  shows "access_ok (merge_access acc name granted)"
proof (cases "name \<in> ra_name ` set acc")
  case True
  then show ?thesis
    using assms
    by (auto simp: access_ok_def merge_access_def list_all_iff o_def map_ra_name_merge distinct_foldl_append_new)
next
  case False
  then show ?thesis
    using assms by (auto simp: access_ok_def merge_access_def)
qed

lemma parseScope_name: "parseScope s = Some (name, asked) \<Longrightarrow> accepts repositoryName name"
  by (auto simp: parseScope_def Let_def split: option.splits if_splits)

lemma access_ok_step [wf_intros]: "access_ok acc \<Longrightarrow> access_ok (access_scope g acc scope)"
  by (auto simp: access_scope_def Let_def distinct_allowed intro!: access_ok_merge dest: parseScope_name
      split: option.splits)

lemma access_ok_foldl: "access_ok acc \<Longrightarrow> access_ok (foldl (access_scope g) acc ss)"
  by (induction ss arbitrary: acc) (auto intro: wf_intros)

definition scope_grants :: "registry_grant \<Rightarrow> string \<Rightarrow> string \<Rightarrow> string \<Rightarrow> bool" where
  "scope_grants g name action scope \<longleftrightarrow>
     (case parseScope scope of
        None \<Rightarrow> False
      | Some (n, asked) \<Rightarrow> n = name \<and> action \<in> set (allowed g name asked))"

lemma token_allows_step:
  "token_allows (access_scope g acc s) n a \<longleftrightarrow> token_allows acc n a \<or> scope_grants g n a s"
  by (auto simp: access_scope_def scope_grants_def Let_def token_allows_merge split: option.split)

lemma token_allows_foldl:
  "token_allows (foldl (access_scope g) acc ss) n a \<longleftrightarrow> token_allows acc n a \<or> list_ex (scope_grants g n a) ss"
  by (induction ss arbitrary: acc) (auto simp: token_allows_step)

lemma access_ok_accessFor: "access_ok (accessFor g scopes)"
  unfolding accessFor_def by (rule access_ok_foldl) (simp add: access_ok_def)

lemma token_allows_accessFor:
  "token_allows (accessFor g scopes) name action \<longleftrightarrow>
     (\<exists>raw \<in> set scopes. \<exists>scope \<in> set (split_fields raw). scope_grants g name action scope)"
proof -
  have "\<not> token_allows [] name action" by (simp add: token_allows_def)
  then show ?thesis by (auto simp: accessFor_def token_allows_foldl list_ex_iff)
qed

lemma scope_grants_permitted:
  assumes "scope_grants g name action scope"
  obtains p where "permitted_for g name = Some p" "action \<in> set p" "accepts repositoryName name"
proof -
  from assms obtain asked where "parseScope scope = Some (name, asked)" "action \<in> set (allowed g name asked)"
    by (auto simp: scope_grants_def split: option.splits)
  then show thesis
    by (auto simp: set_allowed dest: parseScope_name split: option.splits if_splits intro: that)
qed

lemma token_permitted:
  assumes "token_allows (accessFor g scopes) name action"
  obtains p where "permitted_for g name = Some p" "action \<in> set p" "accepts repositoryName name"
  using assms unfolding token_allows_accessFor by (blast elim: scope_grants_permitted intro: that)

text \<open>
  C28. The \<open>access\<close> claim is exactly the answer to what was asked: it allows an action on a
  repository just when one of the scopes in one of the parameters names that repository, asks for
  that action (or for \<open>*\<close>), and the grant permits it there. Its entries are one per repository, each
  with a name of the registry's grammar and a non-empty list of actions without duplicates.
\<close>

theorem accessFor_exact:
  "access_ok (accessFor g scopes)
   \<and> (token_allows (accessFor g scopes) name action \<longleftrightarrow>
       (\<exists>raw \<in> set scopes. \<exists>scope \<in> set (split_fields raw). \<exists>asked p.
          parseScope scope = Some (name, asked) \<and> permitted_for g name = Some p
          \<and> action \<in> set p \<and> (action \<in> set asked \<or> ''*'' \<in> set asked)))"
proof -
  have "scope_grants g name action scope \<longleftrightarrow> (\<exists>asked p.
      parseScope scope = Some (name, asked) \<and> permitted_for g name = Some p
      \<and> action \<in> set p \<and> (action \<in> set asked \<or> ''*'' \<in> set asked))" for scope
    by (auto simp: scope_grants_def set_allowed split: option.splits if_splits)
  then show ?thesis by (simp add: access_ok_accessFor token_allows_accessFor)
qed

end
