(* ===== verification/RegistryAccounts.thy ===== *)
theory RegistryAccounts
  imports RegistryToken
begin

section \<open>The accounts of the registry and the token endpoint (cluster.go, static.go, server.go)\<close>

text \<open>
  Who may ask for a token: the platform's two accounts, which the chart's Secret holds, and two
  accounts of every project, which the operator writes. The interface \<open>Accounts\<close> of server.go is
  the locale \<open>accounts\<close>; \<open>Authenticate\<close> (the cluster's) and \<open>StaticAuthenticate\<close> interpret it.
  \<open>registry_cluster\<close> is what the API server answers while one request is served. The handler
  takes a request after \<open>net/http\<close> has read its form and its Authorization header.
\<close>

subsection \<open>Usernames of project accounts (internal/controller/registryaccounts.go)\<close>

definition registryAccountPushSuffix :: string where "registryAccountPushSuffix = ''.push''"
definition registryAccountPullSuffix :: string where "registryAccountPullSuffix = ''.pull''"
definition RegistryAccountPushPasswordKey :: string where "RegistryAccountPushPasswordKey = ''pushPassword''"
definition RegistryAccountPullPasswordKey :: string where "RegistryAccountPullPasswordKey = ''pullPassword''"

lemmas account_suffix_defs = registryAccountPushSuffix_def registryAccountPullSuffix_def

definition RegistryAccountSecretName :: "string \<Rightarrow> string" where
  "RegistryAccountSecretName project = ''kitchen-registry-account-'' @ project"

definition RegistryPushUsername :: "string \<Rightarrow> string" where
  "RegistryPushUsername project = project @ registryAccountPushSuffix"

definition RegistryPullUsername :: "string \<Rightarrow> string" where
  "RegistryPullUsername project = project @ registryAccountPullSuffix"

definition ParseRegistryUsername :: "string \<Rightarrow> (string \<times> bool) option" where
  "ParseRegistryUsername username =
     (let checked = (\<lambda>project push. if project = [] \<or> contains_byte (CHR ''.'') project then None else Some (project, push))
      in case cut_suffix username registryAccountPushSuffix of
           Some project \<Rightarrow> checked project True
         | None \<Rightarrow> (case cut_suffix username registryAccountPullSuffix of
             Some project \<Rightarrow> checked project False
           | None \<Rightarrow> None))"

subsection \<open>The bundled registry (internal/controller/registry.go)\<close>

record registry_settings =
  se_enabled :: bool
  se_tls_mode :: string
  se_base_domain :: string
  se_host :: string
  se_service :: string
  se_port :: int
  se_secret_ref :: "string option"
  se_token_service :: string
  se_token_port :: int

record platform_registry =
  pg_host :: string
  pg_service :: string
  pg_port :: int
  pg_secret :: string
  pg_token_service :: string
  pg_token_port :: int

definition RegistryHostPrefix :: string where "RegistryHostPrefix = ''registry''"

definition registryHost :: "registry_settings \<Rightarrow> string" where
  "registryHost k =
     (if se_host k \<noteq> [] then se_host k
      else if se_base_domain k = [] then []
      else RegistryHostPrefix @ ''.'' @ se_base_domain k)"

definition resolveRegistry :: "registry_settings \<Rightarrow> platform_registry option" where
  "resolveRegistry k =
     (if \<not> se_enabled k then None
      else if se_tls_mode k = ''none'' then None
      else let host = registryHost k in
        if host = [] then None
        else Some \<lparr>pg_host = host,
          pg_service = (if se_service k = [] then ''kitchen-registry'' else se_service k),
          pg_port = (if se_port k = 0 then 5000 else se_port k),
          pg_secret = (case se_secret_ref k of
             None \<Rightarrow> ''kitchen-registry''
           | Some name \<Rightarrow> if name = [] then ''kitchen-registry'' else name),
          pg_token_service = (if se_token_service k = [] then ''kitchen-registry-token'' else se_token_service k),
          pg_token_port = (if se_token_port k = 0 then 8093 else se_token_port k)\<rparr>)"

definition PlatformRegistry :: "registry_settings \<Rightarrow> (string \<times> string) option" where
  "PlatformRegistry k = map_option (\<lambda>r. (pg_host r, pg_secret r)) (resolveRegistry k)"

subsection \<open>The cluster's accounts (internal/registrytoken/cluster.go)\<close>

record workload_image =
  wi_name :: string
  wi_image :: string
  wi_strategy :: string

record built_release =
  re_project :: string
  re_image :: string
  re_strategy :: string
  re_workloads :: "workload_image list"

record registry_cluster =
  rc_kitchen :: "kube_error + registry_settings"
  rc_secret :: "string \<Rightarrow> kube_error + kube_secret"
  rc_deleting :: "string \<Rightarrow> kube_error + bool"
  rc_releases :: "kube_error + built_release list"

datatype account_error = NoRegistry | AccountsKube kube_error | BadSigningKey string

definition platform_accounts :: "registry_cluster \<Rightarrow> account_error + (string \<times> kube_secret)" where
  "platform_accounts c =
     (case rc_kitchen c of
        Inl e \<Rightarrow> Inl (AccountsKube e)
      | Inr kitchen \<Rightarrow>
          (case PlatformRegistry kitchen of
             None \<Rightarrow> Inl NoRegistry
           | Some (host, name) \<Rightarrow>
               (case rc_secret c name of
                  Inl e \<Rightarrow> Inl (AccountsKube e)
                | Inr secret \<Rightarrow> Inr (host, secret))))"

text \<open>\<open>matches\<close>: equality of digests, never of an empty stored password.\<close>

definition password_matches :: "string \<Rightarrow> string \<Rightarrow> bool" where
  "password_matches stored offered \<longleftrightarrow> stored \<noteq> [] \<and> sha256 stored = sha256 offered"

definition repositoryOn :: "string \<Rightarrow> string \<Rightarrow> string option" where
  "repositoryOn host img =
     (case cut_prefix img (host @ ''/'') of
        None \<Rightarrow> None
      | Some rest \<Rightarrow>
          let rest = takeWhile (\<lambda>c. c \<noteq> CHR ''@'') rest;
              rest = (case cut_last (CHR '':'') rest of
                 Some (name, tag) \<Rightarrow> if contains_byte (CHR ''/'') tag then rest else name
               | None \<Rightarrow> rest)
          in if rest = [] then None else Some rest)"

definition legacyRepositories :: "registry_cluster \<Rightarrow> string \<Rightarrow> string \<Rightarrow> account_error + string list" where
  "legacyRepositories c host project =
     (case rc_releases c of
        Inl e \<Rightarrow> Inl (AccountsKube e)
      | Inr releases \<Rightarrow> Inr (concat (map (\<lambda>r.
          if re_project r \<noteq> project then []
          else List.map_filter (\<lambda>w.
            if wi_strategy w = [] then None
            else (case repositoryOn host (wi_image w) of
                None \<Rightarrow> None
              | Some repository \<Rightarrow>
                  if repository = project @ ''-'' @ wi_name w then Some repository else None)) (re_workloads r)) releases)))"

text \<open>The loop over the platform's own two accounts: Some is the loop returning its answer.\<close>

fun platform_account ::
  "kube_secret \<Rightarrow> string \<Rightarrow> string \<Rightarrow> (string \<times> string \<times> registry_grant) list \<Rightarrow> registry_grant option option" where
  "platform_account platform username password [] = None"
| "platform_account platform username password ((userKey, passwordKey, grant) # rest) =
     (let stored = secret_value platform userKey
      in if stored = [] \<or> stored \<noteq> username then platform_account platform username password rest
         else if \<not> password_matches (secret_value platform passwordKey) password then Some None
         else Some (Some (grant\<lparr>rg_subject := username\<rparr>)))"

definition own_two :: "(string \<times> string \<times> registry_grant) list" where
  "own_two = [(''username'', ''password'', PlatformAccountGrant), (''readUsername'', ''readPassword'', ReadGrant)]"

definition Authenticate :: "registry_cluster \<Rightarrow> string \<Rightarrow> string \<Rightarrow> account_error + registry_grant option" where
  "Authenticate c username password =
     (case platform_accounts c of
        Inl e \<Rightarrow> Inl e
      | Inr (host, platform) \<Rightarrow>
     (case platform_account platform username password own_two of
        Some answer \<Rightarrow> Inr answer
      | None \<Rightarrow>
     (case ParseRegistryUsername username of
        None \<Rightarrow> Inr None
      | Some (project, push) \<Rightarrow>
     (case rc_deleting c project of
        Inl NotFound \<Rightarrow> Inr None
      | Inl e \<Rightarrow> Inl (AccountsKube e)
      | Inr deleting \<Rightarrow>
          if deleting then Inr None else
     (case rc_secret c (RegistryAccountSecretName project) of
        Inl NotFound \<Rightarrow> Inr None
      | Inl e \<Rightarrow> Inl (AccountsKube e)
      | Inr account \<Rightarrow>
          if \<not> password_matches (secret_value account
               (if push then RegistryAccountPushPasswordKey else RegistryAccountPullPasswordKey)) password
          then Inr None
          else
     (case legacyRepositories c host project of
        Inl e \<Rightarrow> Inl e
      | Inr legacy \<Rightarrow> Inr (Some ((ProjectGrant project push)\<lparr>rg_subject := username, rg_legacy := legacy\<rparr>))))))))"

subsection \<open>The signing key\<close>

record 'key key_parsers =
  kp_pem :: "string \<Rightarrow> string option"
  kp_pkcs1 :: "string \<Rightarrow> 'key option"
  kp_pkcs8 :: "string \<Rightarrow> 'key option option"

definition ParseKey :: "'key key_parsers \<Rightarrow> string \<Rightarrow> string + 'key" where
  "ParseKey ps raw =
     (case kp_pem ps raw of
        None \<Rightarrow> Inl ''the registry token signing key is missing or is not PEM; upgrading the chart generates one''
      | Some block \<Rightarrow>
     (case kp_pkcs1 ps block of
        Some key \<Rightarrow> Inr key
      | None \<Rightarrow>
     (case kp_pkcs8 ps block of
        None \<Rightarrow> Inl ''the registry token signing key cannot be parsed''
      | Some None \<Rightarrow> Inl ''the registry token signing key is not an RSA key''
      | Some (Some key) \<Rightarrow> Inr key)))"

text \<open>What \<open>ClusterAccounts\<close> keeps between requests, behind its mutex.\<close>

record 'key key_cache =
  kc_from :: string
  kc_key :: "'key option"

definition SigningKey ::
  "'key key_parsers \<Rightarrow> registry_cluster \<Rightarrow> 'key key_cache \<Rightarrow> (account_error + 'key) \<times> 'key key_cache" where
  "SigningKey ps c cache =
     (case platform_accounts c of
        Inl e \<Rightarrow> (Inl e, cache)
      | Inr (_, platform) \<Rightarrow>
          let version = ks_uid platform @ ''/'' @ ks_version platform;
              parsed = (\<lambda>_. case ParseKey ps (secret_value platform ''tokenKey'') of
                  Inl e \<Rightarrow> (Inl (BadSigningKey e), cache)
                | Inr key \<Rightarrow> (Inr key, \<lparr>kc_from = version, kc_key = Some key\<rparr>))
          in (case kc_key cache of
                Some key \<Rightarrow> if kc_from cache = version then (Inr key, cache) else parsed ()
              | None \<Rightarrow> parsed ()))"


subsection \<open>A fixed set of accounts (static.go)\<close>

record static_account =
  sa_password :: string
  sa_grant :: registry_grant

definition StaticAuthenticate :: "(string \<rightharpoonup> static_account) \<Rightarrow> string \<Rightarrow> string \<Rightarrow> account_error + registry_grant option" where
  "StaticAuthenticate accs username password =
     (case accs username of
        None \<Rightarrow> Inr None
      | Some a \<Rightarrow>
          if \<not> password_matches (sa_password a) password then Inr None
          else Inr (Some ((sa_grant a)\<lparr>rg_subject := username\<rparr>)))"

subsection \<open>The endpoint (server.go)\<close>

definition DefaultTTL :: int where "DefaultTTL = 10 * 60 * second"

record token_form =
  fo_grant_type :: string
  fo_username :: string
  fo_password :: string
  fo_service :: string
  fo_scopes :: "string list"

record token_request =
  tr_method :: string
  tr_basic :: "(string \<times> string) option"
  tr_service :: string
  tr_scopes :: "string list"
  tr_form :: "token_form option"

record token_response =
  to_token :: string
  to_access_token :: string
  to_expires_in :: int
  to_issued_at :: string

datatype token_answer =
    Refused nat "(string \<times> string) list" string
  | Issued token_response

definition unauthorized :: token_answer where
  "unauthorized = Refused 401 [(''WWW-Authenticate'', ''Basic realm=\"kitchen\"'')]
     ''a registry username and password are required''"

definition request_parts :: "token_request \<Rightarrow> token_answer + (string \<times> string \<times> string \<times> string list)" where
  "request_parts req =
     (if tr_method req = ''GET'' then
        (case tr_basic req of
           None \<Rightarrow> Inl unauthorized
         | Some (username, password) \<Rightarrow> Inr (username, password, tr_service req, tr_scopes req))
      else if tr_method req = ''POST'' then
        (case tr_form req of
           None \<Rightarrow> Inl (Refused 400 [] ''unparseable token request'')
         | Some form \<Rightarrow>
             if fo_grant_type form \<noteq> ''password'' then Inl (Refused 400 [] ''only the password grant is supported'')
             else Inr (fo_username form, fo_password form, fo_service form, fo_scopes form))
      else Inl (Refused 405 [(''Allow'', ''GET, POST'')] ''method not allowed''))"

definition ServeHTTP ::
  "(string \<Rightarrow> string \<Rightarrow> 'e + registry_grant option) \<Rightarrow> 'f + 'key \<Rightarrow> 'key signer \<Rightarrow> int \<Rightarrow> time
     \<Rightarrow> token_request \<Rightarrow> token_answer" where
  "ServeHTTP authenticate signingKey si configured now req =
     (case request_parts req of
        Inl refusal \<Rightarrow> refusal
      | Inr (username, password, service, scopes) \<Rightarrow>
     if username = [] \<or> password = [] then unauthorized else
     (case authenticate username password of
        Inl _ \<Rightarrow> Refused 503 [] ''the registry's accounts could not be read''
      | Inr None \<Rightarrow> unauthorized
      | Inr (Some grant) \<Rightarrow>
     (case signingKey of
        Inl _ \<Rightarrow> Refused 503 [] ''the registry's signing key could not be read''
      | Inr key \<Rightarrow>
          let ttl = (if configured \<le> 0 then DefaultTTL else configured)
          in (case sign si key service grant (accessFor grant scopes) now ttl of
                None \<Rightarrow> Refused 500 [] ''the token could not be signed''
              | Some token \<Rightarrow> Issued \<lparr>to_token = token, to_access_token = token,
                  to_expires_in = ttl div second, to_issued_at = format_rfc3339 now\<rparr>))))"

text \<open>
  The interface \<open>Accounts\<close>: the username is the subject of the grant that is answered, so it is
  the subject of the token. \<open>issued\<close> is what a token stands for: somebody authenticated, and the
  token is signed over that grant narrowed to what was asked.
\<close>

locale accounts =
  fixes authenticate :: "string \<Rightarrow> string \<Rightarrow> 'e + registry_grant option"
  assumes subject: "authenticate username password = Inr (Some grant) \<Longrightarrow> rg_subject grant = username"
begin

lemma issued:
  assumes "ServeHTTP authenticate signingKey si configured now req = Issued resp"
  obtains username password service scopes grant key ttl where
    "request_parts req = Inr (username, password, service, scopes)"
    "username \<noteq> []" "password \<noteq> []"
    "authenticate username password = Inr (Some grant)" "rg_subject grant = username"
    "signingKey = Inr key" "ttl = (if configured \<le> 0 then DefaultTTL else configured)"
    "sign si key service grant (accessFor grant scopes) now ttl = Some (to_token resp)"
    "to_expires_in resp = ttl div second"
  using assms subject
  by (auto simp: ServeHTTP_def Let_def unauthorized_def request_parts_def split: sum.splits prod.splits option.splits if_splits)

lemma refused_otherwise:
  assumes "request_parts req = Inr (username, password, service, scopes)" "authenticate username password = Inr None"
  shows "ServeHTTP authenticate signingKey si configured now req = unauthorized"
  using assms by (simp add: ServeHTTP_def)

lemma unknown_is_unavailable:
  assumes "request_parts req = Inr (username, password, service, scopes)" "username \<noteq> []" "password \<noteq> []"
    "authenticate username password = Inl e"
  shows "ServeHTTP authenticate signingKey si configured now req
    = Refused 503 [] ''the registry's accounts could not be read''"
  using assms by (simp add: ServeHTTP_def)

end

lemma platform_account_subject:
  "platform_account platform username password accs = Some (Some grant) \<Longrightarrow> rg_subject grant = username"
  by (induction platform username password accs rule: platform_account.induct) (auto simp: Let_def split: if_splits)

lemma Authenticate_subject:
  "Authenticate c username password = Inr (Some grant) \<Longrightarrow> rg_subject grant = username"
  by (auto simp: Authenticate_def dest: platform_account_subject
      split: sum.splits prod.splits option.splits kube_error.splits if_splits)

interpretation cluster_accounts: accounts "Authenticate c" for c
  by unfold_locales (rule Authenticate_subject)

interpretation static_accounts: accounts "StaticAuthenticate accs" for accs
  by unfold_locales (auto simp: StaticAuthenticate_def split: option.splits if_splits)


subsection \<open>Usernames read back\<close>

lemma suffixes_differ: "p @ registryAccountPushSuffix \<noteq> q @ registryAccountPullSuffix"
proof
  assume "p @ registryAccountPushSuffix = q @ registryAccountPullSuffix"
  then have "take 4 (rev (p @ registryAccountPushSuffix)) = take 4 (rev (q @ registryAccountPullSuffix))" by simp
  then show False by (simp add: account_suffix_defs)
qed

lemma cut_suffix_None: "cut_suffix u s = None \<longleftrightarrow> (\<forall>p. u \<noteq> p @ s)"
  using cut_suffix_Some [of u s] by (cases "cut_suffix u s") auto

text \<open>A username names one project and one account of it, and every project has its two.\<close>

lemma ParseRegistryUsername_iff:
  "ParseRegistryUsername u = Some (p, push) \<longleftrightarrow>
     p \<noteq> [] \<and> CHR ''.'' \<notin> set p \<and> u = (if push then RegistryPushUsername p else RegistryPullUsername p)"
proof (cases "cut_suffix u registryAccountPushSuffix")
  case (Some q)
  then have "u = q @ registryAccountPushSuffix" by (simp add: cut_suffix_Some)
  then show ?thesis
    using Some suffixes_differ [of q p]
    by (auto simp: ParseRegistryUsername_def Let_def contains_byte_def RegistryPushUsername_def RegistryPullUsername_def)
next
  case None
  then have "u \<noteq> p @ registryAccountPushSuffix" for p by (simp add: cut_suffix_None)
  then show ?thesis
    using None
    by (auto simp: ParseRegistryUsername_def Let_def contains_byte_def RegistryPushUsername_def
        RegistryPullUsername_def cut_suffix_None cut_suffix_Some split: option.splits)
qed

subsection \<open>What a project's account reaches\<close>

definition own_username :: "kube_secret \<Rightarrow> string \<Rightarrow> bool" where
  "own_username platform u \<longleftrightarrow>
     u \<noteq> [] \<and> (u = secret_value platform ''username'' \<or> u = secret_value platform ''readUsername'')"

lemma platform_account_None:
  assumes "\<not> own_username platform u"
  shows "platform_account platform u pw own_two = None"
proof -
  have "secret_value platform k = [] \<or> secret_value platform k \<noteq> u" if "k \<in> {''username'', ''readUsername''}" for k
    using assms that by (auto simp: own_username_def)
  then show ?thesis by (simp add: own_two_def)
qed

definition legacy_repository :: "registry_cluster \<Rightarrow> string \<Rightarrow> string \<Rightarrow> string \<Rightarrow> bool" where
  "legacy_repository c host project repository \<longleftrightarrow>
     (\<exists>releases. rc_releases c = Inr releases
       \<and> (\<exists>r \<in> set releases. \<exists>w \<in> set (re_workloads r). re_project r = project \<and> wi_strategy w \<noteq> []
            \<and> repositoryOn host (wi_image w) = Some repository \<and> repository = project @ ''-'' @ wi_name w))"

lemma set_legacyRepositories:
  assumes "legacyRepositories c host project = Inr legacy"
  shows "repository \<in> set legacy \<longleftrightarrow> legacy_repository c host project repository"
proof -
  from assms obtain releases where releases: "rc_releases c = Inr releases"
    by (auto simp: legacyRepositories_def split: sum.splits)
  define pick :: "workload_image \<Rightarrow> string option" where "pick = (\<lambda>w. if wi_strategy w = [] then None
      else (case repositoryOn host (wi_image w) of
          None \<Rightarrow> None
        | Some repository \<Rightarrow> if repository = project @ ''-'' @ wi_name w then Some repository else None))"
  have pick: "pick w = Some repository \<longleftrightarrow> wi_strategy w \<noteq> [] \<and> repositoryOn host (wi_image w) = Some repository
      \<and> repository = project @ ''-'' @ wi_name w" for w
    by (auto simp: pick_def split: option.split)
  have "legacy = concat (map (\<lambda>r. if re_project r \<noteq> project then [] else List.map_filter pick (re_workloads r)) releases)"
    using assms unfolding legacyRepositories_def releases pick_def by simp
  then have "repository \<in> set legacy \<longleftrightarrow>
      (\<exists>r \<in> set releases. re_project r = project \<and> (\<exists>w \<in> set (re_workloads r). pick w = Some repository))"
    by (simp add: set_map_filter_iff) blast
  then show ?thesis unfolding pick legacy_repository_def releases by blast
qed

definition inside_project :: "string \<Rightarrow> string \<Rightarrow> bool" where
  "inside_project project repository \<longleftrightarrow> repository = project \<or> has_prefix repository (project @ ''/'')"

definition reaches_repository :: "registry_cluster \<Rightarrow> string \<Rightarrow> string \<Rightarrow> bool \<Rightarrow> string \<Rightarrow> string \<Rightarrow> bool" where
  "reaches_repository c host project push repository action \<longleftrightarrow>
     inside_project project repository \<and> (action = ActionPull \<or> action = ActionPush \<and> push)
     \<or> action = ActionPull \<and> legacy_repository c host project repository"

lemma Authenticate_project:
  assumes "Authenticate c u pw = Inr (Some g)" "platform_accounts c = Inr (host, platform)" "\<not> own_username platform u"
  obtains project push account legacy where
    "ParseRegistryUsername u = Some (project, push)" "rc_deleting c project = Inr False"
    "rc_secret c (RegistryAccountSecretName project) = Inr account"
    "password_matches (secret_value account
       (if push then RegistryAccountPushPasswordKey else RegistryAccountPullPasswordKey)) pw"
    "legacyRepositories c host project = Inr legacy"
    "g = (ProjectGrant project push)\<lparr>rg_subject := u, rg_legacy := legacy\<rparr>"
  using assms platform_account_None [OF assms(3), of pw]
  by (auto simp: Authenticate_def split: option.splits sum.splits kube_error.splits if_splits)

lemma project_grant_reaches:
  assumes "legacyRepositories c host project = Inr legacy"
    "token_allows (accessFor ((ProjectGrant project push)\<lparr>rg_subject := u, rg_legacy := legacy\<rparr>) scopes) repository action"
  shows "reaches_repository c host project push repository action"
proof -
  from assms(2) obtain p where
    "permitted_for ((ProjectGrant project push)\<lparr>rg_subject := u, rg_legacy := legacy\<rparr>) repository = Some p" "action \<in> set p"
    by (rule token_permitted)
  then show ?thesis
    using set_legacyRepositories [OF assms(1), of repository]
    by (auto simp: permitted_for_def ProjectGrant_def zero_registry_grant_def Let_def reaches_repository_def
        inside_project_def split: if_splits)
qed

text \<open>A name without a slash is a boundary: what is inside it says which name it is.\<close>

lemma inside_project_first:
  "inside_project project repository \<Longrightarrow> CHR ''/'' \<notin> set project \<Longrightarrow> takeWhile (\<lambda>c. c \<noteq> CHR ''/'') repository = project"
  by (auto simp: inside_project_def has_prefix_iff takeWhile_ne_append takeWhile_eq_all_conv)

text \<open>
  C29. A token of a project account names nothing outside the project. Whenever the endpoint issues
  one to a username that is not one of the platform's own two, the username is \<open><project>.push\<close> or
  \<open><project>.pull\<close>, the project exists and is not being deleted, the password is the one stored for
  that account, and every repository the token names is the project's own or under \<open><project>/\<close>,
  where only the push account pushes, or is one of the images the platform built for a release of
  the project under its older name, which it may only pull. No such token deletes.
\<close>

theorem project_token_confined:
  assumes "ServeHTTP (Authenticate c) signingKey si configured now req = Issued resp"
    "request_parts req = Inr (u, pw, service, scopes)"
    "platform_accounts c = Inr (host, platform)" "\<not> own_username platform u"
  shows "\<exists>project push account g key ttl.
     u = (if push then RegistryPushUsername project else RegistryPullUsername project)
     \<and> rc_deleting c project = Inr False \<and> rc_secret c (RegistryAccountSecretName project) = Inr account
     \<and> password_matches (secret_value account
         (if push then RegistryAccountPushPasswordKey else RegistryAccountPullPasswordKey)) pw
     \<and> rg_subject g = u \<and> sign si key service g (accessFor g scopes) now ttl = Some (to_token resp)
     \<and> (\<forall>repository action. token_allows (accessFor g scopes) repository action
           \<longrightarrow> reaches_repository c host project push repository action \<and> action \<noteq> ActionDelete)"
proof -
  from cluster_accounts.issued [OF assms(1)] assms(2) obtain g key ttl where
    g: "Authenticate c u pw = Inr (Some g)" "rg_subject g = u"
      "sign si key service g (accessFor g scopes) now ttl = Some (to_token resp)"
    by (metis Inr_inject Pair_inject)
  from Authenticate_project [OF g(1) assms(3,4)] obtain project push account legacy where
    p: "ParseRegistryUsername u = Some (project, push)" "rc_deleting c project = Inr False"
      "rc_secret c (RegistryAccountSecretName project) = Inr account"
      "password_matches (secret_value account
         (if push then RegistryAccountPushPasswordKey else RegistryAccountPullPasswordKey)) pw"
      "legacyRepositories c host project = Inr legacy"
      "g = (ProjectGrant project push)\<lparr>rg_subject := u, rg_legacy := legacy\<rparr>" .
  have "reaches_repository c host project push repository action \<and> action \<noteq> ActionDelete"
    if "token_allows (accessFor g scopes) repository action" for repository action
    using project_grant_reaches [OF p(5) that [unfolded p(6)]] by (auto simp: reaches_repository_def action_defs)
  then show ?thesis using p(1-4) g(2,3) unfolding ParseRegistryUsername_iff by blast
qed

text \<open>
  C30. Accounts of two projects share no repository they can change. What one project's token may
  push, no token of another project's account may push or delete, and the other may pull it only
  where one of its own releases still runs that image. (A project name is a DNS label and holds no
  slash.)
\<close>

theorem push_boundary:
  assumes "Authenticate c u pw = Inr (Some g)" "platform_accounts c = Inr (host, platform)" "\<not> own_username platform u"
    "Authenticate c' u' pw' = Inr (Some g')" "platform_accounts c' = Inr (host', platform')" "\<not> own_username platform' u'"
    "ParseRegistryUsername u = Some (project, push)" "ParseRegistryUsername u' = Some (project', push')"
    "project \<noteq> project'" "CHR ''/'' \<notin> set project" "CHR ''/'' \<notin> set project'"
    "token_allows (accessFor g scopes) repository ActionPush" "token_allows (accessFor g' scopes') repository action"
  shows "action = ActionPull \<and> legacy_repository c' host' project' repository"
proof -
  from Authenticate_project [OF assms(1-3)] assms(7) obtain legacy where
    g: "legacyRepositories c host project = Inr legacy"
      "g = (ProjectGrant project push)\<lparr>rg_subject := u, rg_legacy := legacy\<rparr>" by (metis option.inject Pair_inject)
  from Authenticate_project [OF assms(4-6)] assms(8) obtain legacy' where
    g': "legacyRepositories c' host' project' = Inr legacy'"
      "g' = (ProjectGrant project' push')\<lparr>rg_subject := u', rg_legacy := legacy'\<rparr>" by (metis option.inject Pair_inject)
  have "inside_project project repository"
    using project_grant_reaches [OF g(1) assms(12) [unfolded g(2)]] by (simp add: reaches_repository_def action_defs)
  then have "\<not> inside_project project' repository"
    using inside_project_first assms(9-11) by metis
  then show ?thesis
    using project_grant_reaches [OF g'(1) assms(13) [unfolded g'(2)]] by (simp add: reaches_repository_def)
qed

text \<open>
  C31. A project account whose project is gone or is being deleted is refused with 401 whatever
  password it offers; when the API server cannot say, the answer is 503, which a client retries,
  and never a refusal or a token.
\<close>

theorem project_gone_or_unknown:
  assumes "request_parts req = Inr (u, pw, service, scopes)" "pw \<noteq> []"
    "platform_accounts c = Inr (host, platform)" "\<not> own_username platform u"
    "ParseRegistryUsername u = Some (project, push)"
  shows "(rc_deleting c project \<in> {Inr True, Inl NotFound} \<longrightarrow>
            ServeHTTP (Authenticate c) signingKey si configured now req = unauthorized)
    \<and> (\<forall>e. rc_deleting c project = Inl e \<and> e \<noteq> NotFound \<longrightarrow>
            ServeHTTP (Authenticate c) signingKey si configured now req
              = Refused 503 [] ''the registry's accounts could not be read'')"
proof -
  have auth: "Authenticate c u pw = (case rc_deleting c project of
      Inl NotFound \<Rightarrow> Inr None | Inl e \<Rightarrow> Inl (AccountsKube e) | Inr True \<Rightarrow> Inr None | Inr False \<Rightarrow> Authenticate c u pw)"
    using assms(3,5) platform_account_None [OF assms(4), of pw]
    by (auto simp: Authenticate_def split: sum.splits kube_error.splits)
  have u: "u \<noteq> []"
    using assms(5) by (auto simp: ParseRegistryUsername_iff RegistryPushUsername_def RegistryPullUsername_def
        account_suffix_defs)
  have "ServeHTTP (Authenticate c) signingKey si configured now req = unauthorized"
    if "rc_deleting c project \<in> {Inr True, Inl NotFound}"
    by (rule cluster_accounts.refused_otherwise [OF assms(1)]) (use that in \<open>subst auth, auto\<close>)
  moreover have "ServeHTTP (Authenticate c) signingKey si configured now req
      = Refused 503 [] ''the registry's accounts could not be read''"
    if "rc_deleting c project = Inl e" "e \<noteq> NotFound" for e
  proof (rule cluster_accounts.unknown_is_unavailable [OF assms(1) u assms(2)])
    show "Authenticate c u pw = Inl (AccountsKube e)" using that by (subst auth, cases e) auto
  qed
  ultimately show ?thesis by blast
qed

subsection \<open>An installation with two projects\<close>

text \<open>
  Project \<open>shop\<close> still has a release whose workload \<open>api\<close> runs the image \<open>shop-api\<close> it was built to
  under its older name, and a project called \<open>shop-api\<close> exists beside it.
\<close>

lemma password_matches_self [simp]: "password_matches s s \<longleftrightarrow> s \<noteq> []"
  by (simp add: password_matches_def)

definition demo_registry :: registry_cluster where
  "demo_registry = \<lparr>
     rc_kitchen = Inr \<lparr>se_enabled = True, se_tls_mode = ''selfSigned'', se_base_domain = ''a.io'', se_host = [],
       se_service = [], se_port = 0, se_secret_ref = None, se_token_service = [], se_token_port = 0\<rparr>,
     rc_secret = (\<lambda>name.
       if name = ''kitchen-registry'' then Inr \<lparr>ks_name = name, ks_uid = ''u'', ks_version = ''1'',
         ks_data = [''username'' \<mapsto> ''kitchen'', ''password'' \<mapsto> ''p'', ''readUsername'' \<mapsto> ''reader'', ''readPassword'' \<mapsto> ''r'']\<rparr>
       else if name = ''kitchen-registry-account-shop'' \<or> name = ''kitchen-registry-account-shop-api''
         then Inr \<lparr>ks_name = name, ks_uid = ''v'', ks_version = ''1'',
           ks_data = [''pushPassword'' \<mapsto> ''in'', ''pullPassword'' \<mapsto> ''out'']\<rparr>
       else Inl NotFound),
     rc_deleting = (\<lambda>name. if name = ''shop'' \<or> name = ''shop-api'' then Inr False
       else if name = ''old'' then Inr True else Inl NotFound),
     rc_releases = Inr [\<lparr>re_project = ''shop'', re_image = ''registry.a.io/shop@d'', re_strategy = ''dockerfile'',
       re_workloads = [\<lparr>wi_name = ''api'', wi_image = ''registry.a.io/shop-api@d'', wi_strategy = ''dockerfile''\<rparr>]\<rparr>]\<rparr>"

definition demo_platform :: kube_secret where
  "demo_platform = \<lparr>ks_name = ''kitchen-registry'', ks_uid = ''u'', ks_version = ''1'',
     ks_data = [''username'' \<mapsto> ''kitchen'', ''password'' \<mapsto> ''p'', ''readUsername'' \<mapsto> ''reader'', ''readPassword'' \<mapsto> ''r'']\<rparr>"

lemma demo_platform_accounts: "platform_accounts demo_registry = Inr (''registry.a.io'', demo_platform)"
  by (simp add: platform_accounts_def demo_registry_def demo_platform_def PlatformRegistry_def resolveRegistry_def
      registryHost_def RegistryHostPrefix_def)

lemma demo_own: "own_username demo_platform u \<longleftrightarrow> u \<in> {''kitchen'', ''reader''}"
  by (auto simp: own_username_def demo_platform_def secret_value_def)

lemma demo_legacy:
  "legacyRepositories demo_registry ''registry.a.io'' ''shop'' = Inr [''shop-api'']"
  "legacyRepositories demo_registry ''registry.a.io'' ''shop-api'' = Inr []"
  by code_simp+

lemma demo_parse:
  "ParseRegistryUsername ''shop.pull'' = Some (''shop'', False)"
  "ParseRegistryUsername ''shop-api.push'' = Some (''shop-api'', True)"
  "ParseRegistryUsername ''old.push'' = Some (''old'', True)"
  by (simp_all add: ParseRegistryUsername_iff RegistryPushUsername_def RegistryPullUsername_def account_suffix_defs)

definition demo_shop :: registry_grant where
  "demo_shop = (ProjectGrant ''shop'' False)\<lparr>rg_subject := ''shop.pull'', rg_legacy := [''shop-api'']\<rparr>"

definition demo_shop_api :: registry_grant where
  "demo_shop_api = (ProjectGrant ''shop-api'' True)\<lparr>rg_subject := ''shop-api.push'', rg_legacy := []\<rparr>"

lemma demo_account:
  "rc_deleting demo_registry ''shop'' = Inr False" "rc_deleting demo_registry ''shop-api'' = Inr False"
  "rc_deleting demo_registry ''old'' = Inr True"
  "\<exists>account. rc_secret demo_registry ''kitchen-registry-account-shop'' = Inr account
     \<and> secret_value account ''pullPassword'' = ''out''"
  "\<exists>account. rc_secret demo_registry ''kitchen-registry-account-shop-api'' = Inr account
     \<and> secret_value account ''pushPassword'' = ''in''"
  by (simp_all add: demo_registry_def secret_value_def)

lemma demo_authenticate:
  "Authenticate demo_registry ''shop.pull'' ''out'' = Inr (Some demo_shop)"
  "Authenticate demo_registry ''shop-api.push'' ''in'' = Inr (Some demo_shop_api)"
proof -
  obtain account account' where account:
    "rc_secret demo_registry ''kitchen-registry-account-shop'' = Inr account" "secret_value account ''pullPassword'' = ''out''"
    "rc_secret demo_registry ''kitchen-registry-account-shop-api'' = Inr account'" "secret_value account' ''pushPassword'' = ''in''"
    using demo_account(4,5) by blast
  show "Authenticate demo_registry ''shop.pull'' ''out'' = Inr (Some demo_shop)"
    "Authenticate demo_registry ''shop-api.push'' ''in'' = Inr (Some demo_shop_api)"
    by (simp_all add: Authenticate_def demo_platform_accounts platform_account_None demo_own demo_parse demo_legacy
        demo_shop_def demo_shop_api_def RegistryAccountSecretName_def demo_account(1-3) account
        RegistryAccountPushPasswordKey_def RegistryAccountPullPasswordKey_def)
qed

lemma demo_scopes:
  "token_allows (accessFor demo_shop_api [''repository:shop-api:push'']) ''shop-api'' ActionPush"
  "token_allows (accessFor demo_shop [''repository:shop-api:pull'']) ''shop-api'' ActionPull"
  by code_simp+


theorem push_boundary_witness:
  "legacy_repository demo_registry ''registry.a.io'' ''shop'' ''shop-api''"
  using push_boundary [OF demo_authenticate(2) demo_platform_accounts _ demo_authenticate(1) demo_platform_accounts _
      demo_parse(2) demo_parse(1) _ _ _ demo_scopes]
  by (simp add: demo_own)

definition demo_signer :: "unit signer" where
  "demo_signer = \<lparr>si_random = Some ''0123456789abcdef'', si_modulus = (\<lambda>_. ''n''), si_sign = (\<lambda>_ _. Some ''s'')\<rparr>"

definition demo_token_request :: "string \<Rightarrow> string \<Rightarrow> token_request" where
  "demo_token_request u pw = \<lparr>tr_method = ''GET'', tr_basic = Some (u, pw), tr_service = ''r'',
     tr_scopes = [''repository:shop-api:pull,push''], tr_form = None\<rparr>"

lemma demo_parts: "request_parts (demo_token_request u pw) = Inr (u, pw, ''r'', [''repository:shop-api:pull,push''])"
  by (simp add: request_parts_def demo_token_request_def)

theorem project_token_confined_witness:
  "\<exists>(resp :: token_response) project push account g key ttl.
     ''shop.pull'' = (if push then RegistryPushUsername project else RegistryPullUsername project)
     \<and> rc_deleting demo_registry project = Inr False
     \<and> rc_secret demo_registry (RegistryAccountSecretName project) = Inr account
     \<and> password_matches (secret_value account
         (if push then RegistryAccountPushPasswordKey else RegistryAccountPullPasswordKey)) ''out''
     \<and> rg_subject g = ''shop.pull''
     \<and> sign demo_signer key ''r'' g (accessFor g [''repository:shop-api:pull,push'']) 0 ttl = Some (to_token resp)
     \<and> (\<forall>repository action. token_allows (accessFor g [''repository:shop-api:pull,push'']) repository action
           \<longrightarrow> reaches_repository demo_registry ''registry.a.io'' project push repository action \<and> action \<noteq> ActionDelete)"
proof -
  have "\<exists>resp. ServeHTTP (Authenticate demo_registry) (Inr () :: unit + unit) demo_signer 0 0
      (demo_token_request ''shop.pull'' ''out'') = Issued resp"
    by (simp add: ServeHTTP_def demo_parts demo_authenticate sign_def demo_signer_def Let_def)
  then obtain resp where resp: "ServeHTTP (Authenticate demo_registry) (Inr () :: unit + unit) demo_signer 0 0
      (demo_token_request ''shop.pull'' ''out'') = Issued resp" ..
  have "\<not> own_username demo_platform ''shop.pull''" by (simp add: demo_own)
  from project_token_confined [OF resp demo_parts demo_platform_accounts this] show ?thesis by (rule exI [of _ resp])
qed

theorem project_gone_or_unknown_witness:
  "ServeHTTP (Authenticate demo_registry) (Inr () :: unit + unit) demo_signer 0 0 (demo_token_request ''old.push'' ''in'')
     = unauthorized"
proof -
  have "\<not> own_username demo_platform ''old.push''" by (simp add: demo_own)
  from project_gone_or_unknown [OF demo_parts _ demo_platform_accounts this demo_parse(3), of "''in''"]
  show ?thesis by (simp add: demo_account)
qed

end
