(* ===== verification/GateToken.thy ===== *)
theory GateToken
  imports GoTime GoBase64
begin

section \<open>The preview gate's signed values (internal/previewgate/token.go)\<close>

text \<open>
  The gate keeps no state: a session, a login in flight and the hand-off between them are tokens,
  the claims in JSON with an HMAC over them, handed to the browser and verified on the way back.
  The clock and the key are arguments. Decoding a token's claims is \<open>json.Unmarshal\<close> into a struct,
  \<open>struct_values\<close>: a member is matched by its exact name first, otherwise without case; null is
  skipped; a member of another type refuses the whole.
\<close>

subsection \<open>Decoding into a struct (package encoding/json)\<close>

definition field_of :: "string list \<Rightarrow> string \<Rightarrow> string option" where
  "field_of names k = (if k \<in> set names then Some k else find (\<lambda>n. equal_fold n k) names)"

text \<open>The values a field is assigned, in order, without the nulls.\<close>

definition struct_values :: "string list \<Rightarrow> (string \<times> gojson) list \<Rightarrow> string \<Rightarrow> gojson list" where
  "struct_values names kvs n =
     filter (\<lambda>v. v \<noteq> JNull) (map snd (filter (\<lambda>kv. field_of names (fst kv) = Some n) kvs))"

definition last_of :: "'a \<Rightarrow> 'a list \<Rightarrow> 'a" where
  "last_of zero vs = (if vs = [] then zero else last vs)"

definition as_string :: "gojson \<Rightarrow> string option" where
  "as_string v = (case v of JString s \<Rightarrow> Some s | _ \<Rightarrow> None)"

definition as_bool :: "gojson \<Rightarrow> bool option" where
  "as_bool v = (case v of JBool b \<Rightarrow> Some b | _ \<Rightarrow> None)"

text \<open>A number goes into an int64 when its text is an integer in range.\<close>

definition as_int64 :: "gojson \<Rightarrow> int option" where
  "as_int64 v =
     (case v of
        JNum t \<Rightarrow> (case (case t of c # cs \<Rightarrow> if c = CHR ''-'' then map_option (\<lambda>n. - int n) (dec_val cs)
                       else map_option int (dec_val t) | [] \<Rightarrow> None) of
            Some i \<Rightarrow> if is_i64 i then Some i else None
          | None \<Rightarrow> None)
      | _ \<Rightarrow> None)"

definition struct_field :: "(gojson \<Rightarrow> 'a option) \<Rightarrow> 'a \<Rightarrow> string list \<Rightarrow> (string \<times> gojson) list \<Rightarrow> string \<Rightarrow> 'a option" where
  "struct_field conv zero names kvs n = map_option (last_of zero) (those (map conv (struct_values names kvs n)))"

subsection \<open>Claims\<close>

definition purposeSession :: string where "purposeSession = ''session''"
definition purposeReturn :: string where "purposeReturn = ''return''"
definition purposeFlow :: string where "purposeFlow = ''flow''"
definition purposeHandoff :: string where "purposeHandoff = ''handoff''"

lemmas purpose_defs = purposeSession_def purposeReturn_def purposeFlow_def purposeHandoff_def

record gate_claims =
  gc_purpose :: string
  gc_host :: string
  gc_subject :: string
  gc_email :: string
  gc_verified :: bool
  gc_return :: string
  gc_nonce :: string
  gc_verifier :: string
  gc_expires :: int

definition no_claims :: gate_claims where
  "no_claims = \<lparr>gc_purpose = [], gc_host = [], gc_subject = [], gc_email = [], gc_verified = False, gc_return = [],
     gc_nonce = [], gc_verifier = [], gc_expires = 0\<rparr>"

definition omitempty :: "string \<Rightarrow> string \<Rightarrow> (string \<times> gojson) list" where
  "omitempty k s = (if s = [] then [] else [(k, JString s)])"

definition gate_json :: "gate_claims \<Rightarrow> gojson" where
  "gate_json c = JObject ([(''p'', JString (gc_purpose c))] @ omitempty ''h'' (gc_host c) @ omitempty ''s'' (gc_subject c)
     @ omitempty ''e'' (gc_email c) @ (if gc_verified c then [(''ev'', JBool True)] else [])
     @ omitempty ''r'' (gc_return c) @ omitempty ''n'' (gc_nonce c) @ omitempty ''v'' (gc_verifier c)
     @ [(''x'', json_int (gc_expires c))])"

definition gate_names :: "string list" where
  "gate_names = [''p'', ''h'', ''s'', ''e'', ''ev'', ''r'', ''n'', ''v'', ''x'']"

definition gate_fields :: "(string \<times> gojson) list \<Rightarrow> gate_claims option" where
  "gate_fields kvs =
     (let str = struct_field as_string [] gate_names kvs in
      case (str ''p'', str ''h'', str ''s'', str ''e'', struct_field as_bool False gate_names kvs ''ev'',
            str ''r'', str ''n'', str ''v'', struct_field as_int64 0 gate_names kvs ''x'') of
        (Some p, Some h, Some s, Some e, Some ev, Some r, Some n, Some v, Some x) \<Rightarrow>
          Some \<lparr>gc_purpose = p, gc_host = h, gc_subject = s, gc_email = e, gc_verified = ev, gc_return = r,
                gc_nonce = n, gc_verifier = v, gc_expires = x\<rparr>
      | _ \<Rightarrow> None)"

text \<open>A literal null leaves the struct as it was: without a purpose.\<close>

definition gate_decode :: "string \<Rightarrow> gate_claims option" where
  "gate_decode payload =
     (case unmarshal payload of
        Some (JObject kvs) \<Rightarrow> gate_fields kvs
      | Some JNull \<Rightarrow> Some no_claims
      | _ \<Rightarrow> None)"

subsection \<open>Minting and verifying\<close>

record signing =
  sg_key :: string
  sg_now :: time

definition mac :: "signing \<Rightarrow> string \<Rightarrow> string" where
  "mac s encoded = raw_url (hmac_sha256 (sg_key s) encoded)"

definition mint :: "signing \<Rightarrow> gate_claims \<Rightarrow> int \<Rightarrow> string" where
  "mint s c ttl =
     (let c = c\<lparr>gc_expires := (sg_now s + ttl) div second\<rparr>;
          encoded = raw_url (marshal (gate_json c))
      in encoded @ ''.'' @ mac s encoded)"

definition verify :: "signing \<Rightarrow> string \<Rightarrow> string \<Rightarrow> string \<Rightarrow> gate_claims option" where
  "verify s token want host =
     (case cut_last (CHR ''.'') token of
        None \<Rightarrow> None
      | Some (encoded, signature) \<Rightarrow>
          if signature \<noteq> mac s encoded then None
          else (case raw_url_decode encoded of
              None \<Rightarrow> None
            | Some payload \<Rightarrow>
                (case gate_decode payload of
                   None \<Rightarrow> None
                 | Some c \<Rightarrow>
                     if gc_purpose c \<noteq> want then None
                     else if host \<noteq> [] \<and> gc_host c \<noteq> host then None
                     else if gc_expires c \<le> sg_now s div second then None
                     else Some c)))"

text \<open>\<open>signed\<close> is what only the holder of the key can make.\<close>

definition signed :: "signing \<Rightarrow> string \<Rightarrow> bool" where
  "signed s token \<longleftrightarrow>
     (case cut_last (CHR ''.'') token of None \<Rightarrow> False | Some (encoded, signature) \<Rightarrow> signature = mac s encoded)"

lemma verify_signed: "verify s token want host = Some c \<Longrightarrow> signed s token"
  by (auto simp: verify_def signed_def split: option.splits if_splits)

lemma verify_Some:
  assumes "verify s token want host = Some c"
  shows "gc_purpose c = want" "host \<noteq> [] \<Longrightarrow> gc_host c = host" "sg_now s div second < gc_expires c"
  using assms by (auto simp: verify_def split: option.splits if_splits)

subsection \<open>A token read back\<close>

definition repaired_claims :: "gate_claims \<Rightarrow> gate_claims" where
  "repaired_claims c = \<lparr>gc_purpose = repaired (gc_purpose c), gc_host = repaired (gc_host c),
     gc_subject = repaired (gc_subject c), gc_email = repaired (gc_email c), gc_verified = gc_verified c,
     gc_return = repaired (gc_return c), gc_nonce = repaired (gc_nonce c), gc_verifier = repaired (gc_verifier c),
     gc_expires = gc_expires c\<rparr>"

lemma decoded_members_append: "decoded_members (xs @ ys) = decoded_members xs @ decoded_members ys"
  by (induction xs) auto

lemma num_members_append: "num_members (xs @ ys) \<longleftrightarrow> num_members xs \<and> num_members ys"
  by (induction xs) auto

lemma as_int64_format_int [simp]: "as_int64 (json_int i) = (if is_i64 i then Some i else None)"
proof -
  obtain d ds where d: "dec (nat i) = d # ds" by (cases "dec (nat i)") auto
  then have "d \<noteq> CHR ''-''" using hd_dec [of "nat i"] digit_ne_minus by auto
  then have "0 \<le> i \<Longrightarrow> as_int64 (json_int i) = (if is_i64 i then Some i else None)"
    using dec_val_dec [of "nat i"] by (simp add: as_int64_def json_int_def format_int_def d del: dec_val_dec)
  moreover have "i < 0 \<Longrightarrow> as_int64 (json_int i) = (if is_i64 i then Some i else None)"
    by (simp add: as_int64_def json_int_def format_int_def)
  ultimately show ?thesis by (cases "0 \<le> i") auto
qed

lemma num_json_int [simp]: "num_json (json_int i)"
  by (simp add: json_int_def number_text_format_int)

lemma num_gate_json: "num_json (gate_json c)"
  by (simp add: gate_json_def num_members_append omitempty_def)

lemma decoded_gate_json:
  "decoded (gate_json c) = JObject ([(''p'', JString (repaired (gc_purpose c)))]
     @ (if gc_host c = [] then [] else [(''h'', JString (repaired (gc_host c)))])
     @ (if gc_subject c = [] then [] else [(''s'', JString (repaired (gc_subject c)))])
     @ (if gc_email c = [] then [] else [(''e'', JString (repaired (gc_email c)))])
     @ (if gc_verified c then [(''ev'', JBool True)] else [])
     @ (if gc_return c = [] then [] else [(''r'', JString (repaired (gc_return c)))])
     @ (if gc_nonce c = [] then [] else [(''n'', JString (repaired (gc_nonce c)))])
     @ (if gc_verifier c = [] then [] else [(''v'', JString (repaired (gc_verifier c)))])
     @ [(''x'', json_int (gc_expires c))])"
  by (simp add: gate_json_def decoded_members_append omitempty_def json_int_def)

lemma field_of_gate [simp]:
  "k \<in> {''p'', ''h'', ''s'', ''e'', ''ev'', ''r'', ''n'', ''v'', ''x''} \<Longrightarrow> field_of gate_names k = Some k"
  by (auto simp: field_of_def gate_names_def)

lemma struct_values_append: "struct_values names (xs @ ys) n = struct_values names xs n @ struct_values names ys n"
  by (simp add: struct_values_def)

lemma struct_values_if:
  "struct_values names (if b then [] else xs) n = (if b then [] else struct_values names xs n)"
  "struct_values names (if b then xs else []) n = (if b then struct_values names xs n else [])"
  by (simp_all add: struct_values_def)

lemma struct_values_Cons:
  "field_of names k = Some m
    \<Longrightarrow> struct_values names ((k, v) # xs) n = (if m = n \<and> v \<noteq> JNull then [v] else []) @ struct_values names xs n"
  "struct_values names [] n = []"
  by (simp_all add: struct_values_def)

lemma json_int_not_null [simp]: "json_int i \<noteq> JNull"
  by (simp add: json_int_def)

lemma struct_field_string:
  "struct_values names kvs n = (if s = [] then [] else [JString t]) \<Longrightarrow> (s = [] \<longrightarrow> t = [])
    \<Longrightarrow> struct_field as_string [] names kvs n = Some t"
  by (auto simp: struct_field_def as_string_def last_of_def)

lemma gate_decode_json:
  "gate_decode (marshal (gate_json c)) = (if is_i64 (gc_expires c) then Some (repaired_claims c) else None)"
proof -
  obtain kvs where kvs: "decoded (gate_json c) = JObject kvs" by (simp add: decoded_gate_json)
  have vals: "struct_values gate_names kvs ''p'' = [JString (repaired (gc_purpose c))]"
    "struct_values gate_names kvs ''h'' = (if gc_host c = [] then [] else [JString (repaired (gc_host c))])"
    "struct_values gate_names kvs ''s'' = (if gc_subject c = [] then [] else [JString (repaired (gc_subject c))])"
    "struct_values gate_names kvs ''e'' = (if gc_email c = [] then [] else [JString (repaired (gc_email c))])"
    "struct_values gate_names kvs ''ev'' = (if gc_verified c then [JBool True] else [])"
    "struct_values gate_names kvs ''r'' = (if gc_return c = [] then [] else [JString (repaired (gc_return c))])"
    "struct_values gate_names kvs ''n'' = (if gc_nonce c = [] then [] else [JString (repaired (gc_nonce c))])"
    "struct_values gate_names kvs ''v'' = (if gc_verifier c = [] then [] else [JString (repaired (gc_verifier c))])"
    "struct_values gate_names kvs ''x'' = [json_int (gc_expires c)]"
    using kvs [unfolded decoded_gate_json, symmetric]
    by (simp_all add: struct_values_append struct_values_if struct_values_Cons)
  have p: "struct_field as_string [] gate_names kvs ''p'' = Some (repaired (gc_purpose c))"
    using vals(1) by (simp add: struct_field_def as_string_def last_of_def)
  have ev: "struct_field as_bool False gate_names kvs ''ev'' = Some (gc_verified c)"
    using vals(5) by (simp add: struct_field_def as_bool_def last_of_def)
  have x: "struct_field as_int64 0 gate_names kvs ''x'' = (if is_i64 (gc_expires c) then Some (gc_expires c) else None)"
    using vals(9) by (simp add: struct_field_def last_of_def)
  note strings = struct_field_string [OF vals(2)] struct_field_string [OF vals(3)] struct_field_string [OF vals(4)]
    struct_field_string [OF vals(6)] struct_field_string [OF vals(7)] struct_field_string [OF vals(8)]
  have "gate_fields kvs = (if is_i64 (gc_expires c) then Some (repaired_claims c) else None)"
    by (simp add: gate_fields_def Let_def p ev x strings repaired_claims_def)
  then show ?thesis
    by (simp add: gate_decode_def unmarshal_marshal_decoded num_gate_json kvs)
qed

lemma repaired_plain [simp]: "repaired [] = []"
  by simp

lemma cut_mint:
  "cut_last (CHR ''.'') (e @ ''.'' @ mac s e) = Some (e, mac s e)"
proof -
  have "CHR ''.'' \<notin> set (mac s e)" using raw_url_alphabet unfolding mac_def by blast
  then show ?thesis by (simp add: cut_last_Some)
qed

text \<open>
  What the gate signed it reads back: the claims, with strings that are not UTF-8 repaired, for the
  purpose and the host they name, until they expire. \<open>is_i64\<close> says the expiry fits the clock.
\<close>

lemma verify_mint:
  assumes "sg_key s' = sg_key s"
  shows "verify s' (mint s c ttl) want host =
     (if is_i64 ((sg_now s + ttl) div second) \<and> repaired (gc_purpose c) = want \<and> (host = [] \<or> repaired (gc_host c) = host)
        \<and> sg_now s' div second < (sg_now s + ttl) div second
      then Some ((repaired_claims c)\<lparr>gc_expires := (sg_now s + ttl) div second\<rparr>)
      else None)"
proof -
  let ?c = "c\<lparr>gc_expires := (sg_now s + ttl) div second\<rparr>"
  define encoded where "encoded = raw_url (marshal (gate_json ?c))"
  have token: "mint s c ttl = encoded @ ''.'' @ mac s' encoded"
    using assms by (simp add: mint_def encoded_def Let_def mac_def)
  have decoded: "raw_url_decode encoded = Some (marshal (gate_json ?c))" by (simp add: encoded_def)
  show ?thesis
    unfolding verify_def token cut_mint by (simp add: decoded gate_decode_json repaired_claims_def)
qed

lemma signed_mint: "sg_key s' = sg_key s \<Longrightarrow> signed s' (mint s c ttl)"
  unfolding signed_def mint_def Let_def by (simp add: cut_mint mac_def [of s, symmetric] del: append.simps)
    (simp add: mac_def)

end
