(* ===== verification/GoUrl.thy ===== *)
theory GoUrl
  imports Json
begin

section \<open>Absolute URLs (package net/url)\<close>

text \<open>
  What the gate needs of net/url: an absolute URL written by \<open>URL.String\<close> from its scheme, host, path
  and raw query, and read back by \<open>url.Parse\<close> as its scheme, its host and its \<open>RequestURI\<close>. A host is
  written as it is, so the model is of hosts of the characters a hostname and a port consist of.
  Parsing covers what a string written this way can be; a string without a scheme has no host,
  which is all the callers ask about it.
\<close>

definition upper_hex :: "nat \<Rightarrow> char" where
  "upper_hex n = ''0123456789ABCDEF'' ! n"

definition path_char :: "char \<Rightarrow> bool" where
  "path_char c \<longleftrightarrow> in_range 0x61 0x7A c \<or> in_range 0x41 0x5A c \<or> in_range 0x30 0x39 c \<or> c \<in> set ''-_.~$&+,/:;=@''"

definition escape_byte :: "char \<Rightarrow> string" where
  "escape_byte c =
     (if path_char c then [c] else [CHR ''%'', upper_hex (byte c div 16), upper_hex (byte c mod 16)])"

text \<open>\<open>EscapedPath\<close> of a URL of which only \<open>Path\<close> is set.\<close>

definition escaped_path :: "string \<Rightarrow> string" where
  "escaped_path path = (if path = ''*'' then path else concat (map escape_byte path))"

definition with_query :: "string \<Rightarrow> string \<Rightarrow> string" where
  "with_query path q = (if q = [] then path else path @ ''?'' @ q)"

definition url_string :: "string \<Rightarrow> string \<Rightarrow> string \<Rightarrow> string \<Rightarrow> string" where
  "url_string scheme host path q =
     (let p = escaped_path path;
          p = (if p \<noteq> [] \<and> hd p \<noteq> CHR ''/'' \<and> host \<noteq> [] then CHR ''/'' # p else p)
      in scheme @ ''://'' @ host @ with_query p q)"

record url =
  ul_scheme :: string
  ul_host :: string
  ul_request_uri :: string

definition control_char :: "char \<Rightarrow> bool" where
  "control_char c \<longleftrightarrow> byte c < 0x20 \<or> c = CHR 0x7F"

definition url_parse :: "string \<Rightarrow> url option" where
  "url_parse s =
     (let s = takeWhile (\<lambda>c. c \<noteq> CHR ''#'') s in
      if list_ex control_char s then None
      else (case cut_first (CHR '':'') s of
          None \<Rightarrow> None
        | Some (scheme, rest) \<Rightarrow>
            (case cut_prefix rest ''//'' of
               None \<Rightarrow> None
             | Some rest \<Rightarrow>
                 let before_query = takeWhile (\<lambda>c. c \<noteq> CHR ''?'') rest;
                     q = drop (Suc (length before_query)) rest;
                     authority = takeWhile (\<lambda>c. c \<noteq> CHR ''/'') before_query;
                     path = drop (length authority) before_query;
                     host = (case cut_last (CHR ''@'') authority of Some (_, h) \<Rightarrow> h | None \<Rightarrow> authority)
                 in Some \<lparr>ul_scheme = scheme, ul_host = host,
                      ul_request_uri = with_query (if path = [] then ''/'' else path) q\<rparr>)))"

subsection \<open>A URL read back\<close>

definition host_char :: "char \<Rightarrow> bool" where
  "host_char c \<longleftrightarrow> in_range 0x61 0x7A c \<or> in_range 0x41 0x5A c \<or> in_range 0x30 0x39 c \<or> c \<in> set ''-.:''"

definition query_char :: "char \<Rightarrow> bool" where
  "query_char c \<longleftrightarrow> \<not> control_char c \<and> c \<noteq> CHR ''#''"

lemma upper_hex_chars: "n < 16 \<Longrightarrow> upper_hex n \<in> set ''0123456789ABCDEF''"
  by (simp add: upper_hex_def nth_Cons' del: nth_Cons_numeral)

lemma escaped_chars:
  assumes "c \<in> set (escaped_path path)"
  shows "c \<noteq> CHR ''?'' \<and> c \<noteq> CHR ''#'' \<and> \<not> control_char c"
proof (cases "path = ''*''")
  case True
  with assms show ?thesis by (simp add: escaped_path_def control_char_def)
next
  case False
  have path: "c \<noteq> CHR ''?'' \<and> c \<noteq> CHR ''#'' \<and> \<not> control_char c" if "path_char c" for c
    using that by (auto simp: path_char_def in_range_def control_char_def)
  have hex: "path_char (upper_hex n)" if "n < 16" for n
    using upper_hex_chars [OF that] by (auto simp: path_char_def in_range_def)
  have "(byte b :: nat) div 16 < 16" for b :: char
    using less_mult_imp_div_less [of "byte b" 16 16] by simp
  then have "path_char c \<or> c = CHR ''%''"
    using assms False hex by (auto simp: escaped_path_def escape_byte_def split: if_splits)
  then show ?thesis using path by (auto simp: control_char_def)
qed

lemma takeWhile_stop: "(\<forall>c \<in> set a. P c) \<Longrightarrow> \<not> P x \<Longrightarrow> takeWhile P (a @ x # b) = a"
  by (induction a) auto

lemma url_parse_string:
  assumes "list_all host_char host" "list_all query_char q" "hd path = CHR ''/''" "path \<noteq> []"
    "scheme \<in> {''http'', ''https''}"
  shows "url_parse (url_string scheme host path q) =
     Some \<lparr>ul_scheme = scheme, ul_host = host, ul_request_uri = with_query (escaped_path path) q\<rparr>"
proof -
  obtain ps where path: "path = CHR ''/'' # ps" using assms(3,4) by (cases path) auto
  then obtain p where p: "escaped_path path = CHR ''/'' # p"
    by (simp add: escaped_path_def escape_byte_def path_char_def)
  have pc: "c \<noteq> CHR ''?'' \<and> c \<noteq> CHR ''#'' \<and> \<not> control_char c" if "c \<in> set p" for c
    using escaped_chars [of c path] that by (simp add: p)
  have hc: "c \<noteq> CHR ''?'' \<and> c \<noteq> CHR ''#'' \<and> \<not> control_char c \<and> c \<noteq> CHR ''/'' \<and> c \<noteq> CHR ''@''" if "c \<in> set host" for c
    using assms(1) that by (auto simp: list_all_iff host_char_def in_range_def control_char_def)
  have qc: "c \<noteq> CHR ''#'' \<and> \<not> control_char c" if "c \<in> set q" for c
    using assms(2) that by (auto simp: list_all_iff query_char_def)
  have str: "url_string scheme host path q = scheme @ CHR '':'' # ''//'' @ host @ with_query (CHR ''/'' # p) q"
    by (simp add: url_string_def p)
  have sc: "c \<noteq> CHR ''#'' \<and> \<not> control_char c \<and> c \<noteq> CHR '':''" if "c \<in> set scheme" for c
    using assms(5) that by (auto simp: control_char_def)
  have chars: "c \<noteq> CHR ''#'' \<and> \<not> control_char c" if "c \<in> set (url_string scheme host path q)" for c
    using that sc hc pc qc by (auto simp: str with_query_def control_char_def split: if_splits)
  then have whole: "takeWhile (\<lambda>c. c \<noteq> CHR ''#'') (url_string scheme host path q) = url_string scheme host path q"
    by (simp add: takeWhile_eq_all_conv)
  have cut: "cut_first (CHR '':'') (url_string scheme host path q) = Some (scheme, ''//'' @ host @ with_query (CHR ''/'' # p) q)"
    unfolding str cut_first_Some using sc by auto
  have bq: "takeWhile (\<lambda>c. c \<noteq> CHR ''?'') (host @ with_query (CHR ''/'' # p) q) = host @ CHR ''/'' # p"
    using takeWhile_stop [of "host @ CHR ''/'' # p" "\<lambda>c. c \<noteq> CHR ''?''" "CHR ''?''" q] hc pc
    by (auto simp: with_query_def takeWhile_eq_all_conv)
  have au: "takeWhile (\<lambda>c. c \<noteq> CHR ''/'') (host @ CHR ''/'' # p) = host"
    by (rule takeWhile_stop) (use hc in auto)
  have at: "cut_last (CHR ''@'') host = None" using hc by (auto simp: cut_last_def cut_first_def)
  have "drop (Suc (length (host @ CHR ''/'' # p))) (host @ with_query (CHR ''/'' # p) q) = q"
    by (simp add: with_query_def)
  then show ?thesis
    unfolding url_parse_def whole Let_def cut using chars
    by (simp add: list_ex_iff bq au at cut_prefix_def has_prefix_def p)
qed

end
