(* ===== verification/Environments.thy ===== *)
theory Environments
  imports GoRegexp
begin

section \<open>Names, hostnames and classes of environments (internal/platformhost, internal/controller)\<close>

text \<open>
  Where an environment answers: the labels the platform keeps for itself and the refusal of a
  project name that would claim one (platformhost.go), the hostname each type of environment is
  published at (environment_controller.go), which environment of a project is which
  (projecttarget.go), what an environment serves and the ordering of data classes (api/v1alpha1).
  The wording of a refusal is left out: a refusal is the constructor that says which rule refused.
\<close>

subsection \<open>Labels the platform keeps (internal/platformhost/platformhost.go)\<close>

definition API :: string where "API = ''kitchen''"
definition Auth :: string where "Auth = ''auth''"
definition PreviewGate :: string where "PreviewGate = ''previews''"
definition Registry :: string where "Registry = ''registry''"

definition reservations :: "(string \<times> string) list" where
  "reservations =
     [(API, ''the REST API and the dashboard''),
      (Auth, ''the identity provider every sign-in goes through''),
      (PreviewGate, ''the gate protected previews are signed in at''),
      (Registry, ''the platform's own container registry'')]"

definition Reserved :: "string list" where
  "Reserved = map fst reservations"

lemmas label_defs = API_def Auth_def PreviewGate_def Registry_def

definition lookup_label :: "string \<Rightarrow> (string \<times> string) option" where
  "lookup_label label = (let label = to_lower (trim_space label) in find (\<lambda>r. fst r = label) reservations)"

definition IsReserved :: "string \<Rightarrow> bool" where
  "IsReserved label \<longleftrightarrow> lookup_label label \<noteq> None"

definition Host :: "string \<Rightarrow> string \<Rightarrow> string" where
  "Host label baseDomain = (if baseDomain = [] then [] else label @ ''.'' @ baseDomain)"

definition Hosts :: "string \<Rightarrow> string list" where
  "Hosts baseDomain = (if baseDomain = [] then [] else map (\<lambda>r. Host (fst r) baseDomain) reservations)"

definition IsReservedHost :: "string \<Rightarrow> string \<Rightarrow> bool" where
  "IsReservedHost host baseDomain \<longleftrightarrow>
     baseDomain \<noteq> []
     \<and> (let host = (case cut_first (CHR '':'') host of Some (h, _) \<Rightarrow> h | None \<Rightarrow> host)
        in case cut_suffix (to_lower (trim_space host)) (''.'' @ to_lower baseDomain) of
             None \<Rightarrow> False
           | Some label \<Rightarrow> IsReserved label)"

text \<open>\<open>^.+-pr-[0-9]+$\<close>, where the dot is any character but a newline.\<close>

definition previewShaped :: regex where
  "previewShaped = Cat (Plus (Class [(CHR 0x00, CHR 0x09), (CHR 0x0B, CHR 0xFF)]))
     (Cat (Str ''-pr-'') (Plus (Class [(CHR ''0'', CHR ''9'')])))"

definition IsPreviewShaped :: "string \<Rightarrow> bool" where
  "IsPreviewShaped name \<longleftrightarrow> accepts previewShaped (to_lower (trim_space name))"

definition describe :: "string \<Rightarrow> string \<Rightarrow> string" where
  "describe label baseDomain =
     (let host = Host label baseDomain
      in if host \<noteq> [] then host else label @ ''.<the platform's base domain>'')"

datatype name_refusal = NameReserved string string | NamePreviewShaped string

definition CheckProjectName :: "string \<Rightarrow> string \<Rightarrow> name_refusal option" where
  "CheckProjectName name baseDomain =
     (let trimmed = to_lower (trim_space name)
      in case lookup_label trimmed of
           Some (label, purpose) \<Rightarrow> Some (NameReserved (describe label baseDomain) purpose)
         | None \<Rightarrow>
             if IsPreviewShaped trimmed then Some (NamePreviewShaped (describe trimmed baseDomain)) else None)"

subsection \<open>Environments (api/v1alpha1/environment_types.go)\<close>

datatype environment_type = EnvironmentProduction | EnvironmentStage | EnvironmentPreview

definition EnvironmentTypes :: "environment_type list" where
  "EnvironmentTypes = [EnvironmentProduction, EnvironmentStage, EnvironmentPreview]"

text \<open>An absent \<open>serves\<close> and an absent preview are None.\<close>

record environment =
  en_name :: string
  en_type :: environment_type
  en_preview :: "int option"
  en_serves :: "environment_type list option"
  en_data_class :: string

definition Admits :: "environment option \<Rightarrow> environment_type \<Rightarrow> bool" where
  "Admits e consumer \<longleftrightarrow>
     (case e of None \<Rightarrow> False | Some e \<Rightarrow> (case en_serves e of None \<Rightarrow> False | Some consumers \<Rightarrow> consumer \<in> set consumers))"

definition ServedConsumers :: "environment option \<Rightarrow> environment_type list" where
  "ServedConsumers e =
     (case e of None \<Rightarrow> [] | Some env \<Rightarrow> (case en_serves env of
        None \<Rightarrow> [] | Some _ \<Rightarrow> filter (Admits e) EnvironmentTypes))"

subsection \<open>Which environment is which (internal/controller/projecttarget.go)\<close>

record host_project =
  hp_name :: string
  hp_stages :: "string list"
  hp_data_class :: string

definition ProductionTargetEnvironmentName :: "host_project \<Rightarrow> string" where
  "ProductionTargetEnvironmentName p =
     (if hp_stages p \<noteq> [] then last (hp_stages p) else hp_name p @ ''-production'')"

definition EnvironmentTypeFor :: "host_project \<Rightarrow> string \<Rightarrow> environment_type" where
  "EnvironmentTypeFor p e =
     (if e = ProductionTargetEnvironmentName p then EnvironmentProduction else EnvironmentStage)"

definition PreviewEnvironmentName :: "string \<Rightarrow> int \<Rightarrow> string" where
  "PreviewEnvironmentName project pullRequest = project @ ''-pr-'' @ format_int pullRequest"

subsection \<open>Hostnames (internal/controller/environment_controller.go)\<close>

definition projectHost :: "string \<Rightarrow> string \<Rightarrow> string" where
  "projectHost projectName baseDomain = projectName @ ''.'' @ baseDomain"

definition stageHostLabel :: "string \<Rightarrow> string \<Rightarrow> string" where
  "stageHostLabel projectName envName =
     (if has_prefix envName (projectName @ ''-'') then envName else projectName @ ''-'' @ envName)"

definition EnvironmentHostLabel :: "string \<Rightarrow> string \<Rightarrow> environment_type \<Rightarrow> string" where
  "EnvironmentHostLabel projectName envName envType =
     (if envType = EnvironmentStage then stageHostLabel projectName envName else projectName)"

definition hostname :: "string \<Rightarrow> environment \<Rightarrow> string \<Rightarrow> string" where
  "hostname projectName env baseDomain =
     (case (en_type env, en_preview env) of
        (EnvironmentPreview, Some pullRequest) \<Rightarrow> projectName @ ''-pr-'' @ format_int pullRequest @ ''.'' @ baseDomain
      | (EnvironmentStage, _) \<Rightarrow> stageHostLabel projectName (en_name env) @ ''.'' @ baseDomain
      | _ \<Rightarrow> projectHost projectName baseDomain)"

text \<open>The hostname rules of a declared environment's name (internal/api/environments.go).\<close>

definition environmentNameRefusal :: "host_project \<Rightarrow> string \<Rightarrow> string \<Rightarrow> name_refusal option" where
  "environmentNameRefusal p name baseDomain =
     (let label = EnvironmentHostLabel (hp_name p) name (EnvironmentTypeFor p name)
      in if IsReserved label then Some (NameReserved (describe label baseDomain) [])
         else if IsPreviewShaped label then Some (NamePreviewShaped (describe label baseDomain))
         else None)"

subsection \<open>Data classes (api/v1alpha1/dataclass_types.go, projecttarget.go)\<close>

definition data_classes :: "string list" where
  "data_classes = [''public'', ''internal'', ''confidential'', ''strictlyConfidential'']"

definition Rank :: "string \<Rightarrow> int" where
  "Rank c =
     (if c = ''public'' then 0 else if c = ''internal'' then 1 else if c = ''confidential'' then 2
      else if c = ''strictlyConfidential'' then 3 else - 1)"

definition Classified :: "string \<Rightarrow> bool" where
  "Classified c \<longleftrightarrow> 0 \<le> Rank c"

definition Exceeds :: "string \<Rightarrow> string \<Rightarrow> bool" where
  "Exceeds c other \<longleftrightarrow>
     (if \<not> Classified c then False else if \<not> Classified other then True else Rank other < Rank c)"

definition AtMost :: "string \<Rightarrow> string \<Rightarrow> bool" where
  "AtMost c other \<longleftrightarrow> \<not> Exceeds c other"

datatype class_refusal = ExceedsClass string string | UnratedHolder string

definition dataClassRefusalBetween :: "string \<Rightarrow> string \<Rightarrow> class_refusal option" where
  "dataClassRefusalBetween from_class to_class =
     (if \<not> Exceeds from_class to_class then None
      else if Classified to_class then Some (ExceedsClass from_class to_class)
      else Some (UnratedHolder from_class))"

definition DataClassRefusal :: "host_project option \<Rightarrow> environment \<Rightarrow> class_refusal option" where
  "DataClassRefusal p env =
     (case p of None \<Rightarrow> None | Some p \<Rightarrow> dataClassRefusalBetween (hp_data_class p) (en_data_class env))"


subsection \<open>Names that are labels\<close>

text \<open>The names of Kubernetes objects the platform generates hostnames from: DNS labels.\<close>

definition projectName :: regex where
  "projectName = (let alnum = [(CHR ''a'', CHR ''z''), (CHR ''0'', CHR ''9'')]
     in Cat (Class alnum) (Alt Empty_string (Cat (Star (Class ((CHR ''-'', CHR ''-'') # alnum))) (Class alnum))))"

lemma label_char:
  assumes "accepts projectName p" "c \<in> set p"
  shows "plain_char c" "c \<noteq> CHR ''.''" "c \<noteq> CHR ''/''" "c \<noteq> CHR 0x0A"
proof -
  have "c = CHR ''-'' \<or> CHR ''a'' \<le> c \<and> c \<le> CHR ''z'' \<or> CHR ''0'' \<le> c \<and> c \<le> CHR ''9''"
    using accepts_alphabet [OF assms] by (auto simp: projectName_def Let_def in_class_def)
  then show "plain_char c" "c \<noteq> CHR ''.''" "c \<noteq> CHR ''/''" "c \<noteq> CHR 0x0A"
    by (auto simp: plain_char_def is_space_def lower_char_def less_eq_char_def Let_def)
qed

lemma label_plain: "accepts projectName p \<Longrightarrow> list_all plain_char p"
  by (simp add: list_all_iff label_char)

lemma label_nonempty: "accepts projectName p \<Longrightarrow> p \<noteq> []"
  by (auto simp: projectName_def Let_def)

lemma plain_trim_lower [simp]: "list_all plain_char s \<Longrightarrow> to_lower (trim_space s) = s"
  by (simp add: trim_space_plain to_lower_plain)

lemma lookup_label_plain:
  "list_all plain_char s \<Longrightarrow> lookup_label s = None \<longleftrightarrow> s \<notin> set Reserved"
  by (auto simp: lookup_label_def find_None_iff Reserved_def image_iff)

lemma IsReserved_plain: "list_all plain_char s \<Longrightarrow> IsReserved s \<longleftrightarrow> s \<in> set Reserved"
  by (simp add: IsReserved_def lookup_label_plain)

lemma digits_class: "list_all (in_class [(CHR ''0'', CHR ''9'')]) s \<longleftrightarrow> (\<forall>c \<in> set s. CHR ''0'' \<le> c \<and> c \<le> CHR ''9'')"
  by (auto simp: in_class_def list_all_iff)

lemma accepts_previewShaped:
  "accepts previewShaped s \<longleftrightarrow>
     (\<exists>p n. s = p @ ''-pr-'' @ n \<and> p \<noteq> [] \<and> CHR 0x0A \<notin> set p \<and> n \<noteq> []
        \<and> (\<forall>c \<in> set n. CHR ''0'' \<le> c \<and> c \<le> CHR ''9''))"
proof -
  have any: "in_class [(CHR 0x00, CHR 0x09), (CHR 0x0B, CHR 0xFF)] c \<longleftrightarrow> c \<noteq> CHR 0x0A" for c
  proof -
    have "(of_char c :: nat) = of_char (CHR 0x0A) \<longleftrightarrow> c = CHR 0x0A" by (rule of_char_eq_iff)
    moreover have "(of_char c :: nat) < 256" by simp
    then have "(of_char c :: nat) \<le> 255" by linarith
    ultimately show ?thesis by (auto simp: in_class_def less_eq_char_def)
  qed
  have split: "in_lang (Cat r (Cat (Str t) r')) s \<longleftrightarrow> (\<exists>u v. s = u @ t @ v \<and> in_lang r u \<and> in_lang r' v)" for r t r' s
    by (auto simp: in_lang_simps)
  show ?thesis
    unfolding accepts_iff previewShaped_def split in_lang_Plus_Class digits_class
    by (auto simp: list_all_iff any)
qed


subsection \<open>Generated hostnames do not meet\<close>

lemma set_format_int: "0 \<le> n \<Longrightarrow> format_int n = dec (nat n)"
  by (simp add: format_int_def)

lemma set_dec_digits: "c \<in> set (dec n) \<Longrightarrow> CHR ''0'' \<le> c \<and> c \<le> CHR ''9''"
proof (induction n rule: dec.induct)
  case (1 n)
  have "CHR ''0'' \<le> digit k \<and> digit k \<le> CHR ''9''" if "k < 10" for k
  proof -
    from that have "k \<in> {0, 1, 2, 3, 4, 5, 6, 7, 8, 9}" by auto
    then show ?thesis by (auto simp: digit_def less_eq_char_def)
  qed
  then show ?case using 1 by (auto simp: dec.simps [of n] split: if_splits)
qed

lemma dec_no_dash: "CHR ''-'' \<notin> set (dec n)"
  using set_dec_digits [of "CHR ''-''" n] by (auto simp: less_eq_char_def)

lemma preview_label_shaped:
  "p \<noteq> [] \<Longrightarrow> CHR 0x0A \<notin> set p \<Longrightarrow> accepts previewShaped (p @ ''-pr-'' @ dec n)"
  unfolding accepts_previewShaped by (metis set_dec_digits dec_nonempty)

lemma last_dash_inj:
  assumes "a @ ''-pr-'' @ n = b @ ''-pr-'' @ m" "CHR ''-'' \<notin> set n" "CHR ''-'' \<notin> set m"
  shows "a = b \<and> n = m"
proof -
  have "cut_last (CHR ''-'') (a @ ''-pr-'' @ n) = Some (a @ ''-pr'', n)"
    using assms(2) by (simp add: cut_last_Some)
  moreover have "cut_last (CHR ''-'') (a @ ''-pr-'' @ n) = Some (b @ ''-pr'', m)"
    using assms(1,3) by (simp add: cut_last_Some)
  ultimately show ?thesis by simp
qed

lemma reserved_no_dash: "l \<in> set Reserved \<Longrightarrow> CHR ''-'' \<notin> set l"
  by (auto simp: Reserved_def reservations_def label_defs)

lemma CheckProjectName_ok:
  assumes "accepts projectName p" "CheckProjectName p d = None"
  shows "p \<notin> set Reserved" "\<not> accepts previewShaped p"
  using assms label_plain [OF assms(1)]
  by (auto simp: CheckProjectName_def Let_def lookup_label_plain IsPreviewShaped_def split: option.splits if_splits)

definition production_env :: "environment \<Rightarrow> bool" where
  "production_env e \<longleftrightarrow> en_type e = EnvironmentProduction"

definition preview_env :: "environment \<Rightarrow> int \<Rightarrow> bool" where
  "preview_env e n \<longleftrightarrow> en_type e = EnvironmentPreview \<and> en_preview e = Some n \<and> 1 \<le> n"

lemma hostname_production: "production_env e \<Longrightarrow> hostname p e d = p @ ''.'' @ d"
  by (simp add: production_env_def hostname_def projectHost_def)

lemma hostname_preview: "preview_env e n \<Longrightarrow> hostname p e d = (p @ ''-pr-'' @ dec (nat n)) @ ''.'' @ d"
  by (simp add: preview_env_def hostname_def set_format_int)

text \<open>
  C32. Under one base domain, the hostnames generated for production and for previews never meet
  each other or one of the platform's own, for projects whose name is a DNS label the check of
  \<open>CheckProjectName\<close> lets through: two of production's are of one project, two of previews are of one
  project and one pull request, and a production hostname is never a preview's.
\<close>

theorem generated_hosts_distinct:
  assumes "accepts projectName p" "CheckProjectName p d = None" "accepts projectName q" "CheckProjectName q d = None"
    "d \<noteq> []" "production_env live" "production_env live'" "preview_env prev n" "preview_env prev' m"
  shows "(hostname p live d = hostname q live' d \<longrightarrow> p = q)
    \<and> (hostname p prev d = hostname q prev' d \<longrightarrow> p = q \<and> n = m)
    \<and> hostname p live d \<noteq> hostname q prev' d
    \<and> hostname p live d \<notin> set (Hosts d) \<and> hostname p prev d \<notin> set (Hosts d)"
proof (intro conjI impI)
  note hosts = hostname_production [OF assms(6)] hostname_production [OF assms(7)]
    hostname_preview [OF assms(8)] hostname_preview [OF assms(9)]
  have Hosts: "h @ ''.'' @ d \<in> set (Hosts d) \<longleftrightarrow> h \<in> set Reserved" for h
    using assms(5) by (auto simp: Hosts_def Host_def Reserved_def)
  have q: "q \<noteq> []" "CHR 0x0A \<notin> set q" using assms(3) label_nonempty label_char(4) by blast+
  show "hostname p live d = hostname q live' d \<Longrightarrow> p = q" by (simp add: hosts)
  show "hostname p live d \<noteq> hostname q prev' d"
    using CheckProjectName_ok(2) [OF assms(1,2)] preview_label_shaped [OF q] unfolding hosts by auto
  show "hostname p live d \<notin> set (Hosts d)"
    unfolding hosts Hosts using CheckProjectName_ok(1) [OF assms(1,2)] .
  show "hostname p prev d \<notin> set (Hosts d)"
    unfolding hosts Hosts using reserved_no_dash by fastforce
  assume "hostname p prev d = hostname q prev' d"
  then have "p @ ''-pr-'' @ dec (nat n) = q @ ''-pr-'' @ dec (nat m)" by (simp add: hosts)
  then have "p = q" "dec (nat n) = dec (nat m)" using last_dash_inj dec_no_dash by blast+
  then show "p = q" "n = m" using dec_inj [of "nat n" "nat m"] eq_nat_nat_iff [of n m] assms(8,9) by (simp_all add: preview_env_def)
qed

lemma shop_labels:
  "accepts projectName ''shop''" "accepts projectName ''shop-api''" "accepts projectName ''api''"
  by code_simp+

lemma shop_not_shaped: "\<not> accepts previewShaped ''shop''" "\<not> accepts previewShaped ''shop-api''"
  by code_simp+

lemma shop_unreserved: "lookup_label ''shop'' = None" "lookup_label ''shop-api'' = None"
proof -
  have "''shop'' \<notin> set Reserved" "''shop-api'' \<notin> set Reserved"
    by (simp_all add: Reserved_def reservations_def label_defs)
  then show "lookup_label ''shop'' = None" "lookup_label ''shop-api'' = None"
    using lookup_label_plain shop_labels label_plain by blast+
qed

lemma shop_names_pass: "CheckProjectName ''shop'' d = None" "CheckProjectName ''shop-api'' d = None"
  using shop_unreserved shop_not_shaped
  by (simp_all add: CheckProjectName_def Let_def IsPreviewShaped_def
      plain_trim_lower [OF label_plain [OF shop_labels(1)]] plain_trim_lower [OF label_plain [OF shop_labels(2)]])

text \<open>
  A stage's hostname is not kept apart from other projects' hostnames: the stage \<open>e\<close> of project
  \<open>p\<close> is published at exactly the production hostname of the project called \<open>p-e\<close>, and at the
  hostname of the stage \<open>f\<close> of a project called \<open>p-g\<close> when \<open>e\<close> is \<open>g-f\<close>. No rule on names refuses
  either: the project \<open>shop\<close> with a stage \<open>api\<close>, the stage and the project \<open>shop-api\<close> all pass.
\<close>

lemma stage_host_collides:
  assumes "\<not> has_prefix e (p @ ''-'')" "en_name stage = e" "en_type stage = EnvironmentStage" "production_env live"
  shows "hostname p stage d = hostname (p @ ''-'' @ e) live d
    \<and> (\<forall>g f stage'. e = g @ ''-'' @ f \<and> \<not> has_prefix f (p @ ''-'' @ g @ ''-'') \<and> en_name stage' = f
          \<and> en_type stage' = EnvironmentStage \<longrightarrow> hostname p stage d = hostname (p @ ''-'' @ g) stage' d)
    \<and> CheckProjectName ''shop'' d = None \<and> CheckProjectName ''shop-api'' d = None
    \<and> accepts projectName ''shop'' \<and> accepts projectName ''shop-api'' \<and> accepts projectName ''api''
    \<and> environmentNameRefusal \<lparr>hp_name = ''shop'', hp_stages = [''api'', ''shop-production''], hp_data_class = []\<rparr> ''api'' d = None"
proof (intro conjI)
  show "hostname p stage d = hostname (p @ ''-'' @ e) live d"
    using assms unfolding hostname_production [OF assms(4)] by (simp add: hostname_def stageHostLabel_def)
  show "\<forall>g f stage'. e = g @ ''-'' @ f \<and> \<not> has_prefix f (p @ ''-'' @ g @ ''-'') \<and> en_name stage' = f
      \<and> en_type stage' = EnvironmentStage \<longrightarrow> hostname p stage d = hostname (p @ ''-'' @ g) stage' d"
    using assms(1-3) by (auto simp: hostname_def stageHostLabel_def)
  show "accepts projectName ''shop''" "accepts projectName ''shop-api''" "accepts projectName ''api''"
    by (fact shop_labels)+
  show "CheckProjectName ''shop'' d = None" "CheckProjectName ''shop-api'' d = None" by (fact shop_names_pass)+
  note plain = label_plain [OF shop_labels(2)]
  have "EnvironmentHostLabel ''shop'' ''api'' EnvironmentStage = ''shop-api''"
    by (simp add: EnvironmentHostLabel_def stageHostLabel_def has_prefix_def)
  then show "environmentNameRefusal \<lparr>hp_name = ''shop'', hp_stages = [''api'', ''shop-production''], hp_data_class = []\<rparr> ''api'' d = None"
    using shop_unreserved(2) shop_not_shaped(2)
    by (simp add: environmentNameRefusal_def Let_def EnvironmentTypeFor_def ProductionTargetEnvironmentName_def
        IsReserved_def IsPreviewShaped_def plain_trim_lower [OF plain])
qed


definition demo_env :: "environment_type \<Rightarrow> int option \<Rightarrow> environment" where
  "demo_env t n = \<lparr>en_name = ''api'', en_type = t, en_preview = n, en_serves = None, en_data_class = []\<rparr>"

theorem generated_hosts_distinct_witness:
  "hostname ''shop'' (demo_env EnvironmentPreview (Some 7)) ''a.io'' \<noteq>
     hostname ''shop-api'' (demo_env EnvironmentPreview (Some 7)) ''a.io''"
  using generated_hosts_distinct [OF shop_labels(1) shop_names_pass(1) shop_labels(2) shop_names_pass(2),
      of "''a.io''" "demo_env EnvironmentProduction None" "demo_env EnvironmentProduction None"
        "demo_env EnvironmentPreview (Some 7)" 7 "demo_env EnvironmentPreview (Some 7)" 7]
  by (simp add: production_env_def preview_env_def demo_env_def)

lemma stage_host_collides_witness:
  "hostname ''shop'' (demo_env EnvironmentStage None) ''a.io''
     = hostname ''shop-api'' (demo_env EnvironmentProduction None) ''a.io''"
  using stage_host_collides [of "''api''" "''shop''" "demo_env EnvironmentStage None" "demo_env EnvironmentProduction None"
      "''a.io''"]
  by (simp add: demo_env_def production_env_def has_prefix_def)

end
