(* ===== verification/PreviewGate.thy ===== *)
theory PreviewGate
  imports GateToken GoUrl Environments Access Kube
begin

section \<open>The preview gate (internal/previewgate)\<close>

text \<open>
  The reverse proxy protected previews are served through. A request comes in with what \<open>net/http\<close>
  has read of it (\<open>gate_request\<close>); the answer is a page, a redirect or the request forwarded to the
  application (\<open>gate_answer\<close>), with the cookies it sets. What the gate asks of others while it
  answers is \<open>gate_env\<close>: the clock, random strings, the identity provider's discovery and token
  endpoint, the directory of projects. HTML, log lines and constant headers are left out.
\<close>

subsection \<open>Configuration (config.go)\<close>

definition PathPrefix :: string where "PathPrefix = ''/_kitchen/gate/''"
definition StartPath :: string where "StartPath = PathPrefix @ ''start''"
definition CallbackPath :: string where "CallbackPath = PathPrefix @ ''callback''"
definition SessionPath :: string where "SessionPath = PathPrefix @ ''session''"
definition SignOutPath :: string where "SignOutPath = PathPrefix @ ''signout''"
definition UpstreamHeader :: string where "UpstreamHeader = ''X-Kitchen-Upstream''"
definition ProjectHeader :: string where "ProjectHeader = ''X-Kitchen-Project''"
definition UserHeader :: string where "UserHeader = ''X-Kitchen-User''"
definition EmailHeader :: string where "EmailHeader = ''X-Kitchen-User-Email''"
definition CookieName :: string where "CookieName = ''kitchen_preview_session''"
definition FlowCookieName :: string where "FlowCookieName = ''kitchen_preview_flow''"
definition loginTTL :: int where "loginTTL = 10 * 60 * second"
definition handoffTTL :: int where "handoffTTL = 60 * second"

lemmas gate_path_defs = PathPrefix_def StartPath_def CallbackPath_def SessionPath_def SignOutPath_def

record gate_config =
  cf_issuer :: string
  cf_client_id :: string
  cf_secret :: string
  cf_session_ttl :: int
  cf_scheme :: string
  cf_gate_host :: string

subsection \<open>Requests and answers\<close>

record gate_request =
  gr_method :: string
  gr_host :: string
  gr_path :: string
  gr_raw_query :: string
  gr_query :: "string \<Rightarrow> string"
  gr_cookies :: "(string \<times> string) list"
  gr_headers :: "string \<rightharpoonup> string"
  gr_tls :: bool

definition header_value :: "gate_request \<Rightarrow> string \<Rightarrow> string" where
  "header_value r k = (case gr_headers r k of None \<Rightarrow> [] | Some v \<Rightarrow> v)"

record set_cookie =
  sc_name :: string
  sc_value :: string
  sc_path :: string
  sc_max_age :: int

record forwarded =
  fw_upstream :: string
  fw_host :: string
  fw_headers :: "string \<rightharpoonup> string"
  fw_cookies :: "(string \<times> string) list"

text \<open>A redirect to a URL the gate puts together itself keeps the parts it was made of.\<close>

datatype location = Built string string string "(string \<times> string) list" | Verbatim string

datatype gate_answer =
    Page nat string
  | Redirect location
  | Proxy forwarded

record gate_response =
  rs_answer :: gate_answer
  rs_cookies :: "set_cookie list"

definition answered :: "gate_answer \<Rightarrow> gate_response" where
  "answered a = \<lparr>rs_answer = a, rs_cookies = []\<rparr>"

definition fail :: "nat \<Rightarrow> string \<Rightarrow> gate_response" where
  "fail status title = answered (Page status title)"

definition setCookie :: "string \<Rightarrow> string \<Rightarrow> string \<Rightarrow> int \<Rightarrow> gate_response \<Rightarrow> gate_response" where
  "setCookie name v path maxAge resp =
     resp\<lparr>rs_cookies := rs_cookies resp @ [\<lparr>sc_name = name, sc_value = v, sc_path = path, sc_max_age = maxAge\<rparr>]\<rparr>"

definition clearCookie :: "string \<Rightarrow> string \<Rightarrow> gate_response \<Rightarrow> gate_response" where
  "clearCookie name path resp = setCookie name [] path (- 1) resp"

record gate_identity =
  gi_subject :: string
  gi_email :: string
  gi_verified :: bool

record directory =
  di_kitchen :: "kube_error + (access_spec \<times> string)"
  di_project :: "string \<Rightarrow> kube_error + project"

record gate_env =
  ge_now :: time
  ge_nonce :: "string option"
  ge_code_verifier :: "string option"
  ge_authorize_url :: "string \<Rightarrow> string \<Rightarrow> string option"
  ge_token_endpoint :: "string \<Rightarrow> string \<Rightarrow> (nat \<times> string) option"
  ge_directory :: "directory option"

definition signing_of :: "gate_config \<Rightarrow> gate_env \<Rightarrow> signing" where
  "signing_of cfg env = \<lparr>sg_key = cf_secret cfg, sg_now = ge_now env\<rparr>"

subsection \<open>The identity provider's answer (oidc.go)\<close>

text \<open>
  A \<open>json.RawMessage\<close> holds the text of its member, which reads back as the value itself: here it is
  the value, None when the member is absent.
\<close>

definition raw_member :: "string list \<Rightarrow> (string \<times> gojson) list \<Rightarrow> string \<Rightarrow> gojson option" where
  "raw_member names kvs n =
     (case filter (\<lambda>kv. field_of names (fst kv) = Some n) kvs of [] \<Rightarrow> None | ms \<Rightarrow> Some (snd (last ms)))"

definition audienceContains :: "gojson option \<Rightarrow> string \<Rightarrow> bool" where
  "audienceContains raw want =
     (case raw of
        None \<Rightarrow> False
      | Some (JString s) \<Rightarrow> s = want
      | Some JNull \<Rightarrow> want = []
      | Some (JArray vs) \<Rightarrow>
          list_all (\<lambda>v. v = JNull \<or> as_string v \<noteq> None) vs
          \<and> list_ex (\<lambda>v. (case as_string v of Some s \<Rightarrow> s | None \<Rightarrow> []) = want) vs
      | _ \<Rightarrow> False)"

definition id_token_names :: "string list" where
  "id_token_names = [''iss'', ''sub'', ''email'', ''aud'', ''email_verified'', ''exp'']"

record id_token_claims =
  it_issuer :: string
  it_subject :: string
  it_email :: string
  it_audience :: "gojson option"
  it_verified :: "gojson option"
  it_expires :: int

definition id_token_decode :: "string \<Rightarrow> id_token_claims option" where
  "id_token_decode payload =
     (let fields = (\<lambda>kvs. let str = struct_field as_string [] id_token_names kvs in
          case (str ''iss'', str ''sub'', str ''email'', struct_field as_int64 0 id_token_names kvs ''exp'') of
            (Some iss, Some sub, Some email, Some exp) \<Rightarrow>
              Some \<lparr>it_issuer = iss, it_subject = sub, it_email = email,
                    it_audience = raw_member id_token_names kvs ''aud'',
                    it_verified = raw_member id_token_names kvs ''email_verified'', it_expires = exp\<rparr>
          | _ \<Rightarrow> None)
      in case unmarshal payload of
           Some (JObject kvs) \<Rightarrow> fields kvs
         | Some JNull \<Rightarrow> fields []
         | _ \<Rightarrow> None)"

definition identityFromIDToken :: "gate_config \<Rightarrow> time \<Rightarrow> string \<Rightarrow> gate_identity option" where
  "identityFromIDToken cfg now idToken =
     (case split_on (CHR ''.'') idToken of
        [_, part, _] \<Rightarrow>
          (case raw_url_decode part of
             None \<Rightarrow> None
           | Some payload \<Rightarrow>
          (case id_token_decode payload of
             None \<Rightarrow> None
           | Some c \<Rightarrow>
               if it_issuer c \<noteq> cf_issuer cfg then None
               else if \<not> audienceContains (it_audience c) (cf_client_id cfg) then None
               else if 0 < it_expires c \<and> it_expires c \<le> now div second then None
               else if it_subject c = [] then None
               else Some \<lparr>gi_subject = it_subject c, gi_email = it_email c,
                      gi_verified = (case it_verified c of None \<Rightarrow> False | Some v \<Rightarrow> VerifiedClaim (marshal v))\<rparr>))
      | _ \<Rightarrow> None)"

definition exchange :: "gate_config \<Rightarrow> gate_env \<Rightarrow> string \<Rightarrow> string \<Rightarrow> gate_identity option" where
  "exchange cfg env code verifier =
     (case ge_token_endpoint env code verifier of
        None \<Rightarrow> None
      | Some (status, body) \<Rightarrow>
          (let names = [''id_token'', ''error'', ''error_description''];
               fields = (\<lambda>kvs. case (struct_field as_string [] names kvs ''id_token'',
                   struct_field as_string [] names kvs ''error'', struct_field as_string [] names kvs ''error_description'') of
                 (Some t, Some e, Some _) \<Rightarrow> Some (t, e) | _ \<Rightarrow> None);
               token = (case unmarshal body of
                   Some (JObject kvs) \<Rightarrow> fields kvs | Some JNull \<Rightarrow> fields [] | _ \<Rightarrow> None)
           in case token of
                None \<Rightarrow> None
              | Some (idToken, error) \<Rightarrow>
                  if status \<noteq> 200 \<or> error \<noteq> [] then None
                  else if idToken = [] then None
                  else identityFromIDToken cfg (ge_now env) idToken))"


subsection \<open>The upstream and the route (server.go, admission.go)\<close>

text \<open>\<open>strconv.Atoi\<close>, None for an error.\<close>

definition atoi :: "string \<Rightarrow> int option" where
  "atoi s =
     (case (case s of
          [] \<Rightarrow> None
        | c # cs \<Rightarrow> if c = CHR ''-'' then map_option (\<lambda>n. - int n) (dec_val cs)
            else if c = CHR ''+'' then map_option int (dec_val cs) else map_option int (dec_val s)) of
        Some i \<Rightarrow> if is_i64 i then Some i else None
      | None \<Rightarrow> None)"

text \<open>\<open>^[a-z0-9]([-a-z0-9]*[a-z0-9])?(\\.[a-z0-9]([-a-z0-9]*[a-z0-9])?)+$\<close>; a label is \<open>projectName\<close>.\<close>

definition serviceName :: regex where
  "serviceName = Cat projectName (Plus (Cat (Lit (CHR ''.'')) projectName))"

record upstream =
  up_host :: string
  up_port :: string

definition parseUpstream :: "string \<Rightarrow> upstream option" where
  "parseUpstream v =
     (let v = trim_space v in
      if v = [] then None
      else let (host, port) = (case cut_first (CHR '':'') v of Some (h, p) \<Rightarrow> (h, p) | None \<Rightarrow> (v, ''80'')) in
        if \<not> accepts serviceName host then None
        else let labels = split_on (CHR ''.'') host in
          if length labels < 3 \<or> labels ! 2 \<noteq> ''svc'' then None
          else (case atoi port of
              None \<Rightarrow> None
            | Some number \<Rightarrow>
                if number < 1 \<or> 65535 < number then None else Some \<lparr>up_host = host, up_port = port\<rparr>))"

definition upstreamNamespace :: "upstream \<Rightarrow> string" where
  "upstreamNamespace u = (let labels = split_on (CHR ''.'') (up_host u) in if length labels < 3 then [] else labels ! 1)"

definition isGeneratedHost :: "string \<Rightarrow> string \<Rightarrow> string \<Rightarrow> bool" where
  "isGeneratedHost project host baseDomain =
     (if baseDomain = [] then False
      else let host = (case cut_first (CHR '':'') host of Some (h, _) \<Rightarrow> h | None \<Rightarrow> host) in
        case cut_suffix (to_lower host) (''.'' @ to_lower baseDomain) of
          None \<Rightarrow> False
        | Some slug \<Rightarrow>
            if slug = project then True
            else (case cut_prefix slug (project @ ''-pr-'') of
                None \<Rightarrow> False
              | Some number \<Rightarrow> number \<noteq> [] \<and> list_all is_digit number))"

definition routedFor :: "string \<Rightarrow> upstream \<Rightarrow> string \<Rightarrow> string \<Rightarrow> bool" where
  "routedFor project u host baseDomain \<longleftrightarrow>
     upstreamNamespace u = AppNamespace project \<or> isGeneratedHost project host baseDomain"

datatype gate_refusal = CannotCheck | NotRouted | NotAMember string string

definition refused :: "gate_refusal \<Rightarrow> gate_response" where
  "refused r =
     (case r of
        CannotCheck \<Rightarrow> fail 503 ''Access cannot be checked''
      | NotRouted \<Rightarrow> fail 502 ''Not available''
      | NotAMember _ _ \<Rightarrow> fail 403 ''Not on this project'')"

definition caller_of :: "gate_claims \<Rightarrow> caller" where
  "caller_of c = \<lparr>ca_subject = gc_subject c, ca_email = gc_email c, ca_verified = gc_verified c, ca_key = []\<rparr>"

text \<open>\<open>admit\<close>: None is admitted.\<close>

definition admit :: "gate_env \<Rightarrow> gate_request \<Rightarrow> upstream \<Rightarrow> gate_claims \<Rightarrow> gate_refusal option" where
  "admit env r u visitor =
     (case ge_directory env of
        None \<Rightarrow> Some CannotCheck
      | Some directory \<Rightarrow>
          let name = trim_space (header_value r ProjectHeader) in
          if \<not> accepts projectName name then Some NotRouted
          else (case di_kitchen directory of
              Inl _ \<Rightarrow> Some CannotCheck
            | Inr (kitchen, baseDomain) \<Rightarrow>
          (case di_project directory name of
              Inl NotFound \<Rightarrow> Some NotRouted
            | Inl _ \<Rightarrow> Some CannotCheck
            | Inr project \<Rightarrow>
                if \<not> routedFor name u (gr_host r) baseDomain then Some NotRouted
                else if ProjectAtLeast (ProjectRoleFor (caller_of visitor) (Some kitchen) (Some project)) ProjectViewer
                then None
                else Some (NotAMember name (gc_email visitor)))))"

subsection \<open>The server (server.go)\<close>

definition forwardedProto :: "gate_request \<Rightarrow> string" where
  "forwardedProto r =
     (let fallback = (if gr_tls r then ''https'' else ''http''); proto = header_value r ''X-Forwarded-Proto'' in
      if proto \<noteq> [] then
        (let first = trim_space (case cut_first (CHR '','') proto of Some (f, _) \<Rightarrow> f | None \<Rightarrow> proto)
         in if first = ''http'' \<or> first = ''https'' then first else fallback)
      else fallback)"

definition requestURL :: "gate_request \<Rightarrow> string" where
  "requestURL r = url_string (forwardedProto r) (gr_host r) (gr_path r) (gr_raw_query r)"

definition cookie :: "gate_request \<Rightarrow> string \<Rightarrow> string option" where
  "cookie r name = map_of (gr_cookies r) name"

definition startLogin :: "gate_config \<Rightarrow> gate_env \<Rightarrow> gate_request \<Rightarrow> gate_response" where
  "startLogin cfg env r =
     (if gr_method r \<noteq> ''GET'' \<and> gr_method r \<noteq> ''HEAD'' then fail 401 ''Sign in required''
      else let token = mint (signing_of cfg env)
             (no_claims\<lparr>gc_purpose := purposeReturn, gc_host := gr_host r, gc_return := requestURL r\<rparr>) loginTTL
        in answered (Redirect (Built (cf_scheme cfg) (cf_gate_host cfg) StartPath [(''rd'', token)])))"

definition handleStart :: "gate_config \<Rightarrow> gate_env \<Rightarrow> gate_request \<Rightarrow> gate_response" where
  "handleStart cfg env r =
     (case verify (signing_of cfg env) (gr_query r ''rd'') purposeReturn [] of
        None \<Rightarrow> fail 400 ''Sign in expired''
      | Some returnTo \<Rightarrow>
     (case (ge_nonce env, ge_code_verifier env) of
        (Some nonce, Some verifier) \<Rightarrow>
          (case ge_authorize_url env nonce verifier of
             None \<Rightarrow> fail 502 ''Sign in unavailable''
           | Some authorize \<Rightarrow>
               let flow = mint (signing_of cfg env)
                 (no_claims\<lparr>gc_purpose := purposeFlow, gc_host := cf_gate_host cfg, gc_nonce := nonce,
                    gc_verifier := verifier, gc_return := gc_return returnTo\<rparr>) loginTTL
               in setCookie FlowCookieName flow PathPrefix (loginTTL div second) (answered (Redirect (Verbatim authorize))))
      | _ \<Rightarrow> fail 502 ''Sign in unavailable''))"

text \<open>
  \<open>handleCallback\<close> up to the exchange: the flow whose cookie came with the authorization response
  and whose nonce is its state, or the page that refuses it.
\<close>

definition callback_flow :: "gate_config \<Rightarrow> gate_env \<Rightarrow> gate_request \<Rightarrow> gate_response + gate_claims" where
  "callback_flow cfg env r =
     (if gr_query r ''error'' \<noteq> [] then Inl (clearCookie FlowCookieName PathPrefix (fail 403 ''Sign in failed''))
      else (case cookie r FlowCookieName of
          None \<Rightarrow> Inl (fail 400 ''Sign in expired'')
        | Some token \<Rightarrow>
      (case verify (signing_of cfg env) token purposeFlow (cf_gate_host cfg) of
          None \<Rightarrow> Inl (clearCookie FlowCookieName PathPrefix (fail 400 ''Sign in expired''))
        | Some flow \<Rightarrow>
            if gr_query r ''state'' \<noteq> gc_nonce flow
            then Inl (clearCookie FlowCookieName PathPrefix (fail 400 ''Sign in failed''))
            else Inr flow)))"

definition handleCallback :: "gate_config \<Rightarrow> gate_env \<Rightarrow> gate_request \<Rightarrow> gate_response" where
  "handleCallback cfg env r =
     (case callback_flow cfg env r of
        Inl refusal \<Rightarrow> refusal
      | Inr flow \<Rightarrow>
     (case exchange cfg env (gr_query r ''code'') (gc_verifier flow) of
        None \<Rightarrow> clearCookie FlowCookieName PathPrefix (fail 502 ''Sign in failed'')
      | Some visitor \<Rightarrow>
     (case url_parse (gc_return flow) of
        None \<Rightarrow> clearCookie FlowCookieName PathPrefix (fail 400 ''Sign in failed'')
      | Some returnTo \<Rightarrow>
          if ul_host returnTo = [] then clearCookie FlowCookieName PathPrefix (fail 400 ''Sign in failed'')
          else let handoff = mint (signing_of cfg env)
              (no_claims\<lparr>gc_purpose := purposeHandoff, gc_host := ul_host returnTo, gc_subject := gi_subject visitor,
                 gc_email := gi_email visitor, gc_verified := gi_verified visitor, gc_return := gc_return flow\<rparr>) handoffTTL
            in clearCookie FlowCookieName PathPrefix (answered (Redirect
                 (Built (ul_scheme returnTo) (ul_host returnTo) SessionPath [(''token'', handoff)]))))))"

definition handleSession :: "gate_config \<Rightarrow> gate_env \<Rightarrow> gate_request \<Rightarrow> gate_response" where
  "handleSession cfg env r =
     (case verify (signing_of cfg env) (gr_query r ''token'') purposeHandoff (gr_host r) of
        None \<Rightarrow> fail 400 ''Sign in expired''
      | Some handoff \<Rightarrow>
          let session = mint (signing_of cfg env)
                (no_claims\<lparr>gc_purpose := purposeSession, gc_host := gr_host r, gc_subject := gc_subject handoff,
                   gc_email := gc_email handoff, gc_verified := gc_verified handoff\<rparr>) (cf_session_ttl cfg);
              target = (case url_parse (gc_return handoff) of
                  Some parsed \<Rightarrow> if ul_host parsed = gr_host r then ul_request_uri parsed else ''/''
                | None \<Rightarrow> ''/'')
          in setCookie CookieName session ''/'' (cf_session_ttl cfg div second) (answered (Redirect (Verbatim target))))"

definition handleSignOut :: gate_response where
  "handleSignOut = clearCookie CookieName ''/'' (answered (Page 200 ''Signed out''))"

definition session :: "gate_config \<Rightarrow> gate_env \<Rightarrow> gate_request \<Rightarrow> gate_claims option" where
  "session cfg env r =
     (case cookie r CookieName of
        None \<Rightarrow> None
      | Some token \<Rightarrow> verify (signing_of cfg env) token purposeSession (gr_host r))"

definition rewrite :: "gate_request \<Rightarrow> upstream \<Rightarrow> gate_claims \<Rightarrow> forwarded" where
  "rewrite r u visitor =
     \<lparr>fw_upstream = up_host u @ '':'' @ up_port u, fw_host = gr_host r,
      fw_headers = (gr_headers r)(''X-Forwarded-Proto'' \<mapsto> forwardedProto r, UpstreamHeader := None, ProjectHeader := None,
        UserHeader \<mapsto> gc_subject visitor, EmailHeader \<mapsto> gc_email visitor),
      fw_cookies = filter (\<lambda>c. fst c \<noteq> FlowCookieName) (filter (\<lambda>c. fst c \<noteq> CookieName) (gr_cookies r))\<rparr>"

definition forward :: "gate_env \<Rightarrow> gate_request \<Rightarrow> gate_claims \<Rightarrow> gate_response" where
  "forward env r visitor =
     (case parseUpstream (header_value r UpstreamHeader) of
        None \<Rightarrow> fail 502 ''Not available''
      | Some u \<Rightarrow>
          (case admit env r u visitor of
             Some refusal \<Rightarrow> refused refusal
           | None \<Rightarrow> answered (Proxy (rewrite r u visitor))))"

definition serveGateEndpoint :: "gate_config \<Rightarrow> gate_env \<Rightarrow> gate_request \<Rightarrow> gate_response" where
  "serveGateEndpoint cfg env r =
     (if gr_path r = StartPath \<or> gr_path r = CallbackPath then
        (if gr_host r \<noteq> cf_gate_host cfg then fail 404 ''Nothing here''
         else if gr_path r = StartPath then handleStart cfg env r
         else handleCallback cfg env r)
      else if gr_path r = SessionPath then handleSession cfg env r
      else if gr_path r = SignOutPath then handleSignOut
      else fail 404 ''Nothing here'')"

definition GateServeHTTP :: "gate_config \<Rightarrow> gate_env \<Rightarrow> gate_request \<Rightarrow> gate_response" where
  "GateServeHTTP cfg env r =
     (if has_prefix (gr_path r) PathPrefix then serveGateEndpoint cfg env r
      else if gr_host r = cf_gate_host cfg then fail 404 ''Nothing here''
      else (case session cfg env r of
          None \<Rightarrow> startLogin cfg env r
        | Some visitor \<Rightarrow> forward env r visitor))"

end
