(* ===== verification/GateFlow.thy ===== *)
theory GateFlow
  imports PreviewGate
begin

section \<open>Who gets through the preview gate\<close>

text \<open>
  Every request the gate may ever answer, in any order and from anybody: \<open>gate_reach\<close> is closed under
  answering a request in any environment. A request may carry any token the gate has handed out and
  anything else, except that nobody but the gate makes a token with a valid signature (\<open>unforged\<close>).
  \<open>gs_vouched\<close> collects the identities the identity provider has vouched for in a login that came
  back to the browser it left from.
\<close>

subsection \<open>Runs\<close>

record gate_state =
  gs_tokens :: "string set"
  gs_vouched :: "gate_identity set"

definition tokens_of :: "gate_response \<Rightarrow> string set" where
  "tokens_of resp = sc_value ` set (rs_cookies resp)
     \<union> (case rs_answer resp of Redirect (Built _ _ _ q) \<Rightarrow> snd ` set q | _ \<Rightarrow> {})"

definition presented :: "gate_request \<Rightarrow> string \<Rightarrow> bool" where
  "presented r t \<longleftrightarrow> t \<in> snd ` set (gr_cookies r) \<or> (\<exists>k. gr_query r k = t)"

definition signed_by :: "gate_config \<Rightarrow> string \<Rightarrow> bool" where
  "signed_by cfg t \<longleftrightarrow> signed \<lparr>sg_key = cf_secret cfg, sg_now = 0\<rparr> t"

definition unforged :: "gate_config \<Rightarrow> gate_state \<Rightarrow> gate_request \<Rightarrow> bool" where
  "unforged cfg g r \<longleftrightarrow> (\<forall>t. presented r t \<and> signed_by cfg t \<longrightarrow> t \<in> gs_tokens g)"

definition vouched_by :: "gate_config \<Rightarrow> gate_env \<Rightarrow> gate_request \<Rightarrow> gate_identity set" where
  "vouched_by cfg env r =
     (if gr_path r = CallbackPath \<and> gr_host r = cf_gate_host cfg then
        (case callback_flow cfg env r of
           Inl _ \<Rightarrow> {}
         | Inr flow \<Rightarrow> set_option (exchange cfg env (gr_query r ''code'') (gc_verifier flow)))
      else {})"

definition gate_after :: "gate_config \<Rightarrow> gate_env \<Rightarrow> gate_request \<Rightarrow> gate_state \<Rightarrow> gate_state" where
  "gate_after cfg env r g = \<lparr>gs_tokens = gs_tokens g \<union> tokens_of (GateServeHTTP cfg env r),
     gs_vouched = gs_vouched g \<union> vouched_by cfg env r\<rparr>"

inductive gate_reach :: "gate_config \<Rightarrow> gate_state \<Rightarrow> bool" for cfg :: gate_config where
  start: "gate_reach cfg \<lparr>gs_tokens = {}, gs_vouched = {}\<rparr>"
| answer: "gate_reach cfg g \<Longrightarrow> unforged cfg g r \<Longrightarrow> gate_reach cfg (gate_after cfg env r g)"

subsection \<open>What a signed token is\<close>

definition names_identity :: "gate_claims \<Rightarrow> gate_identity \<Rightarrow> bool" where
  "names_identity c i \<longleftrightarrow> repaired (gc_subject c) = repaired (gi_subject i)
     \<and> repaired (gc_email c) = repaired (gi_email i) \<and> gc_verified c = gi_verified i"

definition token_ok :: "gate_config \<Rightarrow> gate_identity set \<Rightarrow> string \<Rightarrow> bool" where
  "token_ok cfg vouched t \<longleftrightarrow> (signed_by cfg t \<longrightarrow>
     (\<exists>s c ttl. sg_key s = cf_secret cfg \<and> t = mint s c ttl
        \<and> (gc_purpose c \<in> {purposeReturn, purposeFlow} \<or> (\<exists>i \<in> vouched. names_identity c i))))"

lemma signed_key: "sg_key s = sg_key s' \<Longrightarrow> signed s t \<longleftrightarrow> signed s' t"
  by (simp add: signed_def mac_def split: option.split)

lemma signed_by_signing: "signed (signing_of cfg env) t \<longleftrightarrow> signed_by cfg t"
  unfolding signed_by_def by (rule signed_key) (simp add: signing_of_def)

lemma signing_key [simp]: "sg_key (signing_of cfg env) = cf_secret cfg" "sg_now (signing_of cfg env) = ge_now env"
  by (simp_all add: signing_of_def)

lemma not_signed_Nil [simp]: "\<not> signed_by cfg []"
  by (simp add: signed_by_def signed_def cut_last_def cut_first_def)

lemma repaired_purposes [simp]:
  "repaired purposeReturn = purposeReturn" "repaired purposeFlow = purposeFlow"
  "repaired purposeHandoff = purposeHandoff" "repaired purposeSession = purposeSession"
  by (simp_all add: purpose_defs)

lemma token_ok_mono: "token_ok cfg vouched t \<Longrightarrow> vouched \<subseteq> vouched' \<Longrightarrow> token_ok cfg vouched' t"
  unfolding token_ok_def by blast

text \<open>A token accepted for a session or a hand-off names somebody who was vouched for.\<close>

lemma verified_identity:
  assumes "token_ok cfg vouched t" "verify (signing_of cfg env) t want host = Some d"
    "want \<in> {purposeHandoff, purposeSession}"
  shows "\<exists>i \<in> vouched. gc_subject d = repaired (gi_subject i) \<and> gc_email d = repaired (gi_email i)
     \<and> gc_verified d = gi_verified i"
proof -
  have "signed_by cfg t" using verify_signed [OF assms(2)] by (simp add: signed_by_signing)
  with assms(1) obtain s c ttl where c: "sg_key s = cf_secret cfg" "t = mint s c ttl"
    "gc_purpose c \<in> {purposeReturn, purposeFlow} \<or> (\<exists>i \<in> vouched. names_identity c i)"
    unfolding token_ok_def by blast
  have key: "sg_key (signing_of cfg env) = sg_key s" using c(1) by simp
  from assms(2) [unfolded c(2) verify_mint [OF key]]
  have d: "d = (repaired_claims c)\<lparr>gc_expires := (sg_now s + ttl) div second\<rparr>" "repaired (gc_purpose c) = want"
    by (auto split: if_splits)
  have "gc_purpose c \<notin> {purposeReturn, purposeFlow}"
    using d(2) assms(3) by (auto simp: purpose_defs)
  with c(3) obtain i where "i \<in> vouched" "names_identity c i" by blast
  then show ?thesis using d(1) by (auto simp: names_identity_def repaired_claims_def)
qed

lemma cookie_presented: "cookie r n = Some t \<Longrightarrow> presented r t"
  by (auto simp: cookie_def presented_def dest: map_of_SomeD intro: image_eqI [of _ snd "(_, _)"])

lemma token_ok_mint:
  "sg_key s = cf_secret cfg \<Longrightarrow> gc_purpose c \<in> {purposeReturn, purposeFlow} \<or> (\<exists>i \<in> vouched. names_identity c i)
    \<Longrightarrow> token_ok cfg vouched (mint s c ttl)"
  unfolding token_ok_def by blast

lemma tokens_of_simps [simp]:
  "tokens_of (answered (Page n t)) = {}" "tokens_of (fail n t) = {}" "tokens_of (refused x) = {}"
  "tokens_of (answered (Proxy f)) = {}" "tokens_of (answered (Redirect (Verbatim u))) = {}"
  "tokens_of (answered (Redirect (Built a b p q))) = snd ` set q"
  "tokens_of (setCookie k v p m resp) = insert v (tokens_of resp)"
  by (auto simp: tokens_of_def answered_def fail_def refused_def setCookie_def split: gate_refusal.split)

lemma tokens_of_clear [simp]: "tokens_of (clearCookie n p resp) = insert [] (tokens_of resp)"
  by (simp add: clearCookie_def)

lemma token_ok_Nil [simp]: "token_ok cfg vouched []"
  by (simp add: token_ok_def)

lemma callback_flow_tokens: "callback_flow cfg env r = Inl resp \<Longrightarrow> tokens_of resp \<subseteq> {[]}"
  by (auto simp: callback_flow_def split: if_splits option.splits)

text \<open>Whatever the gate answers, the tokens it hands out are of that kind.\<close>

lemma tokens_startLogin: "t \<in> tokens_of (startLogin cfg env r) \<Longrightarrow> token_ok cfg vouched t"
  by (auto simp: startLogin_def Let_def split: if_splits intro!: token_ok_mint)

lemma tokens_handleStart: "t \<in> tokens_of (handleStart cfg env r) \<Longrightarrow> token_ok cfg vouched t"
  by (auto simp: handleStart_def Let_def split: option.splits intro!: token_ok_mint)

lemma tokens_handleCallback:
  assumes "t \<in> tokens_of (handleCallback cfg env r)" "gr_path r = CallbackPath" "gr_host r = cf_gate_host cfg"
    "vouched_by cfg env r \<subseteq> vouched"
  shows "token_ok cfg vouched t"
proof (cases "callback_flow cfg env r")
  case (Inl resp)
  then show ?thesis using assms callback_flow_tokens [OF Inl] by (auto simp: handleCallback_def)
next
  case (Inr flow)
  show ?thesis
  proof (cases "exchange cfg env (gr_query r ''code'') (gc_verifier flow)")
    case None
    then show ?thesis using assms(1) Inr by (simp add: handleCallback_def)
  next
    case (Some visitor)
    then have "visitor \<in> vouched" using Inr assms(2-4) by (simp add: vouched_by_def)
    then have "token_ok cfg vouched (mint (signing_of cfg env)
        (no_claims\<lparr>gc_purpose := p, gc_host := h, gc_subject := gi_subject visitor,
           gc_email := gi_email visitor, gc_verified := gi_verified visitor, gc_return := u\<rparr>) ttl)" for p h u ttl
      by (intro token_ok_mint) (auto simp: names_identity_def)
    then show ?thesis
      using assms(1) Inr Some by (auto simp: handleCallback_def Let_def split: option.splits if_splits)
  qed
qed

lemma tokens_handleSession:
  assumes "t \<in> tokens_of (handleSession cfg env r)" "\<forall>t \<in> gs_tokens g. token_ok cfg vouched t" "unforged cfg g r"
  shows "token_ok cfg vouched t"
proof (cases "verify (signing_of cfg env) (gr_query r ''token'') purposeHandoff (gr_host r)")
  case None
  then show ?thesis using assms(1) by (simp add: handleSession_def)
next
  case (Some d)
  let ?t = "gr_query r ''token''"
  have "signed_by cfg ?t" using verify_signed [OF Some] by (simp add: signed_by_signing)
  then have "token_ok cfg vouched ?t"
    using assms(2,3) unfolding unforged_def presented_def by blast
  from verified_identity [OF this Some] obtain i where "i \<in> vouched"
    "gc_subject d = repaired (gi_subject i)" "gc_email d = repaired (gi_email i)" "gc_verified d = gi_verified i"
    by blast
  then have "token_ok cfg vouched (mint (signing_of cfg env)
      (no_claims\<lparr>gc_purpose := p, gc_host := h, gc_subject := gc_subject d, gc_email := gc_email d,
         gc_verified := gc_verified d\<rparr>) ttl)" for p h ttl
    by (intro token_ok_mint) (auto simp: names_identity_def)
  then show ?thesis using assms(1) Some by (auto simp: handleSession_def Let_def)
qed

lemma tokens_forward: "tokens_of (forward env r visitor) = {}"
  by (simp add: forward_def split: option.split)

lemma answer_tokens_ok:
  assumes "\<forall>t \<in> gs_tokens g. token_ok cfg (gs_vouched g) t" "unforged cfg g r" "t \<in> tokens_of (GateServeHTTP cfg env r)"
  shows "token_ok cfg (gs_vouched (gate_after cfg env r g)) t"
proof -
  let ?v = "gs_vouched (gate_after cfg env r g)"
  have old: "\<forall>t \<in> gs_tokens g. token_ok cfg ?v t"
    using assms(1) by (auto simp: gate_after_def intro: token_ok_mono)
  have new: "vouched_by cfg env r \<subseteq> ?v" by (simp add: gate_after_def)
  consider "t \<in> tokens_of (startLogin cfg env r)" | "t \<in> tokens_of (handleStart cfg env r)"
    | "t \<in> tokens_of (handleCallback cfg env r)" "gr_path r = CallbackPath" "gr_host r = cf_gate_host cfg"
    | "t \<in> tokens_of (handleSession cfg env r)" | "t = []"
  proof -
    have "StartPath \<noteq> CallbackPath" by (simp add: gate_path_defs)
    then show thesis
      using assms(3) that
      unfolding GateServeHTTP_def serveGateEndpoint_def handleSignOut_def
      by (auto simp: tokens_forward split: if_split_asm option.split_asm)
  qed
  then show ?thesis
    by cases (auto intro: tokens_startLogin tokens_handleStart tokens_handleCallback [OF _ _ _ new]
        tokens_handleSession [OF _ old assms(2)])
qed

lemma reach_tokens_ok: "gate_reach cfg g \<Longrightarrow> \<forall>t \<in> gs_tokens g. token_ok cfg (gs_vouched g) t"
proof (induction rule: gate_reach.induct)
  case (answer g r env)
  have old: "token_ok cfg (gs_vouched (gate_after cfg env r g)) t" if "t \<in> gs_tokens g" for t
    using answer(3) that by (auto simp: gate_after_def intro: token_ok_mono)
  show ?case
    using old answer_tokens_ok [OF answer(3,2)] by (auto simp: gate_after_def)
qed simp


subsection \<open>Who reaches an application\<close>

lemma forwarded_parts:
  assumes "rs_answer (GateServeHTTP cfg env r) = Proxy fwd"
  obtains visitor u where "session cfg env r = Some visitor" "parseUpstream (header_value r UpstreamHeader) = Some u"
    "admit env r u visitor = None" "fwd = rewrite r u visitor"
proof -
  have page: "rs_answer (fail n t) \<noteq> Proxy fwd" "rs_answer (refused x) \<noteq> Proxy fwd"
    "rs_answer (setCookie k v p m resp) = rs_answer resp" "rs_answer (clearCookie k p resp) = rs_answer resp"
    "rs_answer (answered a) = a" for n t x k v p m resp a
    by (auto simp: fail_def answered_def refused_def setCookie_def clearCookie_def split: gate_refusal.split)
  have flow: "callback_flow cfg env r = Inl resp \<Longrightarrow> rs_answer resp \<noteq> Proxy fwd" for resp
    by (auto simp: callback_flow_def page split: if_splits option.splits)
  have "rs_answer (startLogin cfg env r) \<noteq> Proxy fwd" by (simp add: startLogin_def Let_def page)
  moreover have "rs_answer (handleStart cfg env r) \<noteq> Proxy fwd"
    by (simp add: handleStart_def Let_def page split: option.split)
  moreover have "rs_answer (handleCallback cfg env r) \<noteq> Proxy fwd"
    using flow by (auto simp: handleCallback_def Let_def page split: option.split sum.split)
  moreover have "rs_answer (handleSession cfg env r) \<noteq> Proxy fwd"
    by (simp add: handleSession_def Let_def page split: option.split)
  moreover have "rs_answer handleSignOut \<noteq> Proxy fwd" by (simp add: handleSignOut_def page)
  ultimately obtain visitor where visitor: "session cfg env r = Some visitor" "rs_answer (forward env r visitor) = Proxy fwd"
    using assms by (auto simp: GateServeHTTP_def serveGateEndpoint_def page split: if_split_asm option.split_asm)
  show thesis
    using visitor(2) by (auto simp: forward_def page split: option.splits intro: that [OF visitor(1)])
qed

lemma admitted_parts:
  assumes "admit env r u visitor = None"
  obtains directory kitchen base name project where
    "ge_directory env = Some directory" "di_kitchen directory = Inr (kitchen, base)"
    "name = trim_space (header_value r ProjectHeader)" "accepts projectName name"
    "di_project directory name = Inr project" "routedFor name u (gr_host r) base"
    "ProjectAtLeast (ProjectRoleFor (caller_of visitor) (Some kitchen) (Some project)) ProjectViewer"
  using assms
  by (auto simp: admit_def Let_def split: option.splits sum.splits kube_error.splits if_splits prod.splits)

definition identity_caller :: "gate_identity \<Rightarrow> caller" where
  "identity_caller i = \<lparr>ca_subject = repaired (gi_subject i), ca_email = repaired (gi_email i),
     ca_verified = gi_verified i, ca_key = []\<rparr>"


subsection \<open>Which ID tokens are believed\<close>

lemma identity_parts:
  assumes "CHR ''.'' \<notin> set h" "CHR ''.'' \<notin> set sg" "id_token_decode payload = Some c"
  shows "identityFromIDToken cfg now (h @ ''.'' @ raw_url payload @ ''.'' @ sg) =
      (if it_issuer c \<noteq> cf_issuer cfg \<or> \<not> audienceContains (it_audience c) (cf_client_id cfg)
          \<or> 0 < it_expires c \<and> it_expires c \<le> now div second \<or> it_subject c = [] then None
       else Some \<lparr>gi_subject = it_subject c, gi_email = it_email c,
              gi_verified = (case it_verified c of None \<Rightarrow> False | Some v \<Rightarrow> VerifiedClaim (marshal v))\<rparr>)"
proof -
  have "CHR ''.'' \<notin> set (raw_url payload)" using raw_url_alphabet by blast
  then have "split_on (CHR ''.'') (h @ ''.'' @ raw_url payload @ ''.'' @ sg) = [h, raw_url payload, sg]"
    using assms(1,2) split_on_append [of "CHR ''.''" h] split_on_append [of "CHR ''.''" "raw_url payload" sg]
    by (simp add: split_on_none)
  then show ?thesis by (simp add: identityFromIDToken_def assms(3))
qed

text \<open>
  An ID token is believed only when it was issued by the configured issuer for this client and
  names a subject, and never after the expiry it carries. But one that carries no expiry, or one
  before 1970, is believed at any time: the check reads such an \<open>exp\<close> as no expiry at all.
\<close>

lemma id_token_believed:
  assumes "CHR ''.'' \<notin> set h" "CHR ''.'' \<notin> set sg" "id_token_decode payload = Some c"
  shows "(identityFromIDToken cfg now (h @ ''.'' @ raw_url payload @ ''.'' @ sg) \<noteq> None \<longleftrightarrow>
       it_issuer c = cf_issuer cfg \<and> audienceContains (it_audience c) (cf_client_id cfg) \<and> it_subject c \<noteq> []
       \<and> (0 < it_expires c \<longrightarrow> now div second < it_expires c))
    \<and> (it_expires c \<le> 0 \<longrightarrow> identityFromIDToken cfg now (h @ ''.'' @ raw_url payload @ ''.'' @ sg)
         = identityFromIDToken cfg later (h @ ''.'' @ raw_url payload @ ''.'' @ sg))"
  unfolding identity_parts [OF assms] by auto

subsection \<open>Where a login ends\<close>

text \<open>A browser that follows the gate's redirects through a login which the identity provider completes.\<close>

definition visit :: "string \<Rightarrow> string \<Rightarrow> (string \<times> string) list \<Rightarrow> (string \<times> string) list \<Rightarrow> gate_request" where
  "visit host path q cookies =
     \<lparr>gr_method = ''GET'', gr_host = host, gr_path = path, gr_raw_query = [],
      gr_query = (\<lambda>k. case map_of q k of None \<Rightarrow> [] | Some v \<Rightarrow> v), gr_cookies = cookies, gr_headers = Map.empty, gr_tls = True\<rparr>"

definition jar :: "gate_response \<Rightarrow> (string \<times> string) list" where
  "jar resp = map (\<lambda>c. (sc_name c, sc_value c)) (rs_cookies resp)"

definition login_run :: "gate_config \<Rightarrow> gate_env \<Rightarrow> string \<Rightarrow> gate_request \<Rightarrow> gate_answer option" where
  "login_run cfg env code r =
     (case rs_answer (GateServeHTTP cfg env r) of
        Redirect (Built _ h1 p1 q1) \<Rightarrow>
          let start = GateServeHTTP cfg env (visit h1 p1 q1 []);
              nonce = (case ge_nonce env of Some n \<Rightarrow> n | None \<Rightarrow> []);
              back = GateServeHTTP cfg env (visit h1 CallbackPath [(''code'', code), (''state'', nonce)] (jar start))
          in (case rs_answer back of
                Redirect (Built _ h2 p2 q2) \<Rightarrow> Some (rs_answer (GateServeHTTP cfg env (visit h2 p2 q2 [])))
              | _ \<Rightarrow> None)
      | _ \<Rightarrow> None)"

lemma rs_simps:
  "rs_answer (answered a) = a" "rs_answer (setCookie k v p m resp) = rs_answer resp"
  "rs_answer (clearCookie k p resp) = rs_answer resp"
  "jar (setCookie k v p m (answered a)) = [(k, v)]"
  by (simp_all add: answered_def setCookie_def clearCookie_def jar_def)

lemma visit_simps [simp]:
  "gr_host (visit h p q cs) = h" "gr_path (visit h p q cs) = p" "gr_query (visit h p q cs) = (\<lambda>k. case map_of q k of None \<Rightarrow> [] | Some v \<Rightarrow> v)"
  "cookie (visit h p q cs) n = map_of cs n"
  by (simp_all add: visit_def cookie_def)

lemma gate_paths:
  "has_prefix StartPath PathPrefix" "has_prefix CallbackPath PathPrefix" "has_prefix SessionPath PathPrefix"
  "CallbackPath \<noteq> StartPath" "SessionPath \<noteq> StartPath" "SessionPath \<noteq> CallbackPath"
  by (simp_all add: gate_path_defs has_prefix_def)

lemma serve_start:
  "GateServeHTTP cfg env (visit (cf_gate_host cfg) StartPath q cs) = handleStart cfg env (visit (cf_gate_host cfg) StartPath q cs)"
  by (simp add: GateServeHTTP_def serveGateEndpoint_def gate_paths)

lemma serve_callback:
  "GateServeHTTP cfg env (visit (cf_gate_host cfg) CallbackPath q cs) = handleCallback cfg env (visit (cf_gate_host cfg) CallbackPath q cs)"
  by (simp add: GateServeHTTP_def serveGateEndpoint_def gate_paths)

lemma serve_session:
  "GateServeHTTP cfg env (visit h SessionPath q cs) = handleSession cfg env (visit h SessionPath q cs)"
  by (simp add: GateServeHTTP_def serveGateEndpoint_def gate_paths)

lemma forwardedProto_scheme: "forwardedProto r \<in> {''http'', ''https''}"
  by (simp add: forwardedProto_def Let_def split: option.split)

text \<open>The four answers such a login consists of.\<close>

lemma login_steps:
  assumes "gr_method r = ''GET''" "cookie r CookieName = None" "\<not> has_prefix (gr_path r) PathPrefix"
    "gr_host r \<noteq> cf_gate_host cfg" "gr_host r \<noteq> []" "list_all host_char (gr_host r)" "valid_utf8 (gr_host r)"
    "gr_path r \<noteq> []" "hd (gr_path r) = CHR ''/''" "list_all query_char (gr_raw_query r)" "valid_utf8 (requestURL r)"
    "ge_nonce env = Some nonce" "ge_code_verifier env = Some verifier" "ge_authorize_url env nonce verifier = Some authorize"
    "valid_utf8 nonce" "valid_utf8 verifier" "valid_utf8 (cf_gate_host cfg)"
    "exchange cfg env code verifier = Some visitor" "is_i64 (ge_now env div second + 600)" "0 \<le> ge_now env"
  shows "\<exists>t1 t2. GateServeHTTP cfg env r = answered (Redirect (Built (cf_scheme cfg) (cf_gate_host cfg) StartPath [(''rd'', t1)]))
    \<and> GateServeHTTP cfg env (visit (cf_gate_host cfg) StartPath [(''rd'', t1)] [])
        = setCookie FlowCookieName t2 PathPrefix (loginTTL div second) (answered (Redirect (Verbatim authorize)))
    \<and> callback_flow cfg env (visit (cf_gate_host cfg) CallbackPath [(''code'', code), (''state'', nonce)] [(FlowCookieName, t2)])
        = Inr (no_claims\<lparr>gc_purpose := purposeFlow, gc_host := cf_gate_host cfg, gc_nonce := nonce,
            gc_verifier := verifier, gc_return := requestURL r, gc_expires := ge_now env div second + 600\<rparr>)
    \<and> GateServeHTTP cfg env (visit (cf_gate_host cfg) CallbackPath [(''code'', code), (''state'', nonce)] [(FlowCookieName, t2)])
        = clearCookie FlowCookieName PathPrefix (answered (Redirect (Built (forwardedProto r) (gr_host r) SessionPath
            [(''token'', mint (signing_of cfg env) (no_claims\<lparr>gc_purpose := purposeHandoff, gc_host := gr_host r,
               gc_subject := gi_subject visitor, gc_email := gi_email visitor, gc_verified := gi_verified visitor,
               gc_return := requestURL r\<rparr>) handoffTTL)])))"
proof -
  let ?s = "signing_of cfg env" and ?gate = "cf_gate_host cfg"
  have now: "(ge_now env + loginTTL) div second = ge_now env div second + 600"
    "(ge_now env + handoffTTL) div second = ge_now env div second + 60"
    by (simp_all add: loginTTL_def handoffTTL_def second_def)
  have i64: "is_i64 (ge_now env div second + 600)" "is_i64 (ge_now env div second + 60)"
    using assms(19,20) by (auto simp: is_i64_def second_def)
  define t1 where "t1 = mint ?s (no_claims\<lparr>gc_purpose := purposeReturn, gc_host := gr_host r, gc_return := requestURL r\<rparr>) loginTTL"
  define t2 where "t2 = mint ?s (no_claims\<lparr>gc_purpose := purposeFlow, gc_host := ?gate, gc_nonce := nonce,
      gc_verifier := verifier, gc_return := requestURL r\<rparr>) loginTTL"
  define t3 where "t3 = mint ?s (no_claims\<lparr>gc_purpose := purposeHandoff, gc_host := gr_host r, gc_subject := gi_subject visitor,
      gc_email := gi_email visitor, gc_verified := gi_verified visitor, gc_return := requestURL r\<rparr>) handoffTTL"
  have "session cfg env r = None" by (simp add: session_def assms(2))
  then have r0: "GateServeHTTP cfg env r = answered (Redirect (Built (cf_scheme cfg) ?gate StartPath [(''rd'', t1)]))"
    by (simp add: GateServeHTTP_def assms(1,3,4) startLogin_def Let_def t1_def)
  have v1: "verify ?s t1 purposeReturn [] = Some (no_claims\<lparr>gc_purpose := purposeReturn, gc_host := gr_host r,
      gc_return := requestURL r, gc_expires := ge_now env div second + 600\<rparr>)"
    unfolding t1_def by (subst verify_mint) (simp_all add: i64 now assms(7,11) repaired_claims_def no_claims_def)
  have r1: "handleStart cfg env (visit ?gate StartPath [(''rd'', t1)] []) =
      setCookie FlowCookieName t2 PathPrefix (loginTTL div second) (answered (Redirect (Verbatim authorize)))"
    by (simp add: handleStart_def v1 assms(12-14) Let_def t2_def)
  have v2: "verify ?s t2 purposeFlow ?gate = Some (no_claims\<lparr>gc_purpose := purposeFlow, gc_host := ?gate,
      gc_nonce := nonce, gc_verifier := verifier, gc_return := requestURL r, gc_expires := ge_now env div second + 600\<rparr>)"
    unfolding t2_def by (subst verify_mint) (simp_all add: i64 now assms(11,15-17) repaired_claims_def no_claims_def)
  have parse: "url_parse (requestURL r) = Some \<lparr>ul_scheme = forwardedProto r, ul_host = gr_host r,
      ul_request_uri = with_query (escaped_path (gr_path r)) (gr_raw_query r)\<rparr>"
    unfolding requestURL_def by (intro url_parse_string forwardedProto_scheme) (use assms(6,8-10) in auto)
  have flow: "callback_flow cfg env (visit ?gate CallbackPath [(''code'', code), (''state'', nonce)] [(FlowCookieName, t2)])
      = Inr (no_claims\<lparr>gc_purpose := purposeFlow, gc_host := ?gate, gc_nonce := nonce,
          gc_verifier := verifier, gc_return := requestURL r, gc_expires := ge_now env div second + 600\<rparr>)"
    by (simp add: callback_flow_def v2)
  have r2: "handleCallback cfg env (visit ?gate CallbackPath [(''code'', code), (''state'', nonce)] [(FlowCookieName, t2)]) =
      clearCookie FlowCookieName PathPrefix (answered (Redirect
        (Built (forwardedProto r) (gr_host r) SessionPath [(''token'', t3)])))"
    by (simp add: handleCallback_def flow assms(18) parse assms(5) Let_def t3_def)
  show ?thesis
    by (rule exI [of _ t1], rule exI [of _ t2]) (simp add: r0 serve_start r1 flow serve_callback r2 t3_def)
qed

text \<open>The hand-off is good on the host it names, for a minute.\<close>

lemma verify_handoff:
  assumes "is_i64 ((ge_now env + handoffTTL) div second)" "valid_utf8 h" "valid_utf8 u" "sg_key s = cf_secret cfg" "sg_now s = ge_now env"
  shows "verify (signing_of cfg env) (mint s (no_claims\<lparr>gc_purpose := purposeHandoff, gc_host := h,
      gc_subject := gi_subject visitor, gc_email := gi_email visitor, gc_verified := gi_verified visitor,
      gc_return := u\<rparr>) handoffTTL) purposeHandoff h =
    Some (no_claims\<lparr>gc_purpose := purposeHandoff, gc_host := h, gc_subject := repaired (gi_subject visitor),
      gc_email := repaired (gi_email visitor), gc_verified := gi_verified visitor, gc_return := u,
      gc_expires := (ge_now env + handoffTTL) div second\<rparr>)"
proof -
  have "ge_now env div second < (ge_now env + handoffTTL) div second"
    by (simp add: handoffTTL_def second_def)
  then show ?thesis
    by (subst verify_mint) (use assms in \<open>simp_all add: repaired_claims_def no_claims_def\<close>)
qed

text \<open>
  A login ends at the request URI it started from, and nothing makes that a path. Take a visitor
  without a session whose request has path \<open>p\<close>, an identity provider that completes the login, and a
  browser that follows the redirects: the last redirect's target is \<open>p\<close> escaped, with its query.
  When \<open>p\<close> starts with two slashes, as for \<open>https://preview//evil.example/\<close>, that target is a
  reference to another host, so the gate sends the visitor off the platform right after signing in.
\<close>

lemma login_returns_to_request_uri:
  assumes "gr_method r = ''GET''" "cookie r CookieName = None" "\<not> has_prefix (gr_path r) PathPrefix"
    "gr_host r \<noteq> cf_gate_host cfg" "gr_host r \<noteq> []" "list_all host_char (gr_host r)" "valid_utf8 (gr_host r)"
    "gr_path r \<noteq> []" "hd (gr_path r) = CHR ''/''" "list_all query_char (gr_raw_query r)" "valid_utf8 (requestURL r)"
    "ge_nonce env = Some nonce" "ge_code_verifier env = Some verifier" "ge_authorize_url env nonce verifier = Some authorize"
    "valid_utf8 nonce" "valid_utf8 verifier" "valid_utf8 (cf_gate_host cfg)"
    "exchange cfg env code verifier = Some visitor" "is_i64 (ge_now env div second + 600)" "0 \<le> ge_now env"
  shows "login_run cfg env code r
    = Some (Redirect (Verbatim (with_query (escaped_path (gr_path r)) (gr_raw_query r))))"
proof -
  from login_steps [OF assms] obtain t1 t2 where steps:
    "GateServeHTTP cfg env r = answered (Redirect (Built (cf_scheme cfg) (cf_gate_host cfg) StartPath [(''rd'', t1)]))"
    "GateServeHTTP cfg env (visit (cf_gate_host cfg) StartPath [(''rd'', t1)] [])
      = setCookie FlowCookieName t2 PathPrefix (loginTTL div second) (answered (Redirect (Verbatim authorize)))"
    "GateServeHTTP cfg env (visit (cf_gate_host cfg) CallbackPath [(''code'', code), (''state'', nonce)] [(FlowCookieName, t2)])
        = clearCookie FlowCookieName PathPrefix (answered (Redirect (Built (forwardedProto r) (gr_host r) SessionPath
            [(''token'', mint (signing_of cfg env) (no_claims\<lparr>gc_purpose := purposeHandoff, gc_host := gr_host r,
               gc_subject := gi_subject visitor, gc_email := gi_email visitor, gc_verified := gi_verified visitor,
               gc_return := requestURL r\<rparr>) handoffTTL)])))"
    by blast
  have i64: "is_i64 ((ge_now env + handoffTTL) div second)"
    using assms(19,20) by (auto simp: is_i64_def second_def handoffTTL_def)
  have parse: "url_parse (requestURL r) = Some \<lparr>ul_scheme = forwardedProto r, ul_host = gr_host r,
      ul_request_uri = with_query (escaped_path (gr_path r)) (gr_raw_query r)\<rparr>"
    unfolding requestURL_def by (intro url_parse_string forwardedProto_scheme) (use assms(6,8-10) in auto)
  note handoff = verify_handoff [OF i64 assms(7,11) signing_key]
  show ?thesis
    by (simp add: login_run_def steps rs_simps assms(12) serve_session handleSession_def handoff parse Let_def)
qed


subsection \<open>A login from start to preview\<close>

text \<open>
  An operator opens a preview of project \<open>shop\<close>: the identity provider answers with an ID token that
  carries no expiry, and the route names the application in the project's namespace.
\<close>

definition demo_id_claims :: gojson where
  "demo_id_claims = JObject [(''iss'', JString ''https://auth.a.io''), (''sub'', JString ''ada''), (''aud'', JString ''gate'')]"

definition demo_id_token :: string where
  "demo_id_token = ''h'' @ ''.'' @ raw_url (marshal demo_id_claims) @ ''.'' @ ''s''"

definition demo_gate :: gate_config where
  "demo_gate = \<lparr>cf_issuer = ''https://auth.a.io'', cf_client_id = ''gate'', cf_secret = ''k'', cf_session_ttl = 100 * second,
     cf_scheme = ''https'', cf_gate_host = ''previews.a.io''\<rparr>"

definition demo_operators :: access_spec where
  "demo_operators = \<lparr>sp_operators = [\<lparr>as_subject = ''ada'', as_email = []\<rparr>], sp_credentials = [], sp_keys = []\<rparr>"

definition demo_gate_env :: gate_env where
  "demo_gate_env = \<lparr>ge_now = 0, ge_nonce = Some ''n'', ge_code_verifier = Some ''v'', ge_authorize_url = (\<lambda>_ _. Some ''https://auth.a.io''),
     ge_token_endpoint = (\<lambda>code _. if code = ''c'' then Some (200, marshal (JObject [(''id_token'', JString demo_id_token)])) else None),
     ge_directory = Some \<lparr>di_kitchen = Inr (demo_operators, ''a.io''),
       di_project = (\<lambda>name. if name = ''shop'' then Inr \<lparr>pr_name = name, pr_access = []\<rparr> else Inl NotFound)\<rparr>\<rparr>"

lemma demo_id_decode: "id_token_decode (marshal demo_id_claims) =
   Some \<lparr>it_issuer = ''https://auth.a.io'', it_subject = ''ada'', it_email = [], it_audience = Some (JString ''gate''),
     it_verified = None, it_expires = 0\<rparr>"
proof -
  have "unmarshal (marshal demo_id_claims) = Some demo_id_claims"
    by (rule unmarshal_marshal) (simp add: demo_id_claims_def)
  then show ?thesis
    by (simp add: id_token_decode_def demo_id_claims_def struct_field_def struct_values_def field_of_def id_token_names_def
        as_string_def last_of_def raw_member_def)
qed

lemma id_token_believed_witness:
  "identityFromIDToken demo_gate (10 ^ 30) demo_id_token \<noteq> None"
  using id_token_believed [OF _ _ demo_id_decode, of "''h''" "''s''" demo_gate "10 ^ 30" "10 ^ 30"]
  by (simp add: demo_id_token_def demo_gate_def audienceContains_def)

definition ada :: gate_identity where
  "ada = \<lparr>gi_subject = ''ada'', gi_email = [], gi_verified = False\<rparr>"

lemma demo_identity: "identityFromIDToken demo_gate now demo_id_token = Some ada"
  using identity_parts [OF _ _ demo_id_decode, of "''h''" "''s''" demo_gate now]
  by (simp add: demo_id_token_def demo_gate_def audienceContains_def ada_def)

lemma ascii_raw_url: "valid_utf8 (raw_url s)"
proof -
  have "byte c < 0x80" if c: "c \<in> set (raw_url s)" for c :: char
  proof -
    obtain d where d: "d \<in> set (b64_digits s)" "c = b64_digit d" using c by (auto simp: raw_url_digits)
    then have "d < 64" using b64_digits_bound [of s] by (simp add: list_all_iff)
    have "\<forall>d \<in> set [0..<64]. byte (b64_digit d) < 0x80" by code_simp
    with d(2) \<open>d < 64\<close> show ?thesis by simp
  qed
  then show ?thesis by (intro valid_utf8_ascii) (simp add: list_all_iff)
qed

lemma demo_exchange: "exchange demo_gate demo_gate_env ''c'' v = Some ada"
proof -
  have "wf_json (JObject [(''id_token'', JString demo_id_token)])"
    using ascii_raw_url valid_utf8_append by (simp add: demo_id_token_def)
  from unmarshal_marshal [OF this]
  have "unmarshal (marshal (JObject [(''id_token'', JString demo_id_token)])) = Some (JObject [(''id_token'', JString demo_id_token)])" .
  moreover have "demo_id_token \<noteq> []" by (simp add: demo_id_token_def)
  ultimately show ?thesis
    by (simp add: exchange_def demo_gate_env_def demo_identity Let_def struct_field_def struct_values_def field_of_def
        as_string_def last_of_def equal_fold_def del: marshal.simps)
qed

definition demo_visit :: gate_request where
  "demo_visit = (visit ''shop-pr-7.a.io'' ''//evil.example/x'' [] [])\<lparr>gr_headers := [UpstreamHeader \<mapsto> ''web.kitchen-shop.svc:8080'',
     ProjectHeader \<mapsto> ''shop'']\<rparr>"

lemma demo_visit_simps:
  "gr_method demo_visit = ''GET''" "gr_host demo_visit = ''shop-pr-7.a.io''" "gr_path demo_visit = ''//evil.example/x''"
  "gr_raw_query demo_visit = []" "cookie demo_visit n = None"
  by (simp_all add: demo_visit_def visit_def cookie_def)

lemma demo_return: "requestURL demo_visit = ''https://shop-pr-7.a.io//evil.example/x''"
proof -
  have "forwardedProto demo_visit = ''https''"
    by (simp add: forwardedProto_def demo_visit_def visit_def header_value_def UpstreamHeader_def ProjectHeader_def)
  moreover have "escaped_path ''//evil.example/x'' = ''//evil.example/x''" by code_simp
  ultimately show ?thesis
    by (simp add: requestURL_def demo_visit_simps url_string_def with_query_def)
qed

lemma demo_login_assms:
  "gr_method demo_visit = ''GET''" "cookie demo_visit CookieName = None" "\<not> has_prefix (gr_path demo_visit) PathPrefix"
  "gr_host demo_visit \<noteq> cf_gate_host demo_gate" "gr_host demo_visit \<noteq> []" "list_all host_char (gr_host demo_visit)"
  "valid_utf8 (gr_host demo_visit)" "gr_path demo_visit \<noteq> []" "hd (gr_path demo_visit) = CHR ''/''"
  "list_all query_char (gr_raw_query demo_visit)" "valid_utf8 (requestURL demo_visit)"
  "ge_nonce demo_gate_env = Some ''n''" "ge_code_verifier demo_gate_env = Some ''v''"
  "ge_authorize_url demo_gate_env ''n'' ''v'' = Some ''https://auth.a.io''"
  "valid_utf8 ''n''" "valid_utf8 ''v''" "valid_utf8 (cf_gate_host demo_gate)"
  "exchange demo_gate demo_gate_env ''c'' ''v'' = Some ada" "is_i64 (ge_now demo_gate_env div second + 600)" "0 \<le> ge_now demo_gate_env"
  by (simp_all add: demo_visit_simps demo_return demo_exchange)
    (simp_all add: demo_gate_def demo_gate_env_def has_prefix_def PathPrefix_def host_char_def in_range_def is_i64_def)

lemma login_returns_to_request_uri_witness:
  "login_run demo_gate demo_gate_env ''c'' demo_visit = Some (Redirect (Verbatim ''//evil.example/x''))"
proof -
  have "escaped_path ''//evil.example/x'' = ''//evil.example/x''" by code_simp
  then show ?thesis
    using login_returns_to_request_uri [OF demo_login_assms] by (simp add: demo_visit_simps with_query_def)
qed


lemma demo_unsigned [simp]: "CHR ''.'' \<notin> set t \<Longrightarrow> \<not> signed_by cfg t"
  by (simp add: signed_by_def signed_def cut_last_def cut_first_def)

lemma unforged_visit:
  assumes "\<And>t. t \<in> snd ` set q \<union> snd ` set cs \<Longrightarrow> signed_by cfg t \<Longrightarrow> t \<in> gs_tokens g"
  shows "unforged cfg g (visit h p q cs)"
proof -
  have "t \<in> gs_tokens g" if "presented (visit h p q cs) t" "signed_by cfg t" for t
  proof -
    from that(1) consider "t \<in> snd ` set cs" | k where "(case map_of q k of None \<Rightarrow> [] | Some v \<Rightarrow> v) = t"
      by (auto simp: presented_def visit_def)
    then show ?thesis
    proof cases
      case 2
      then have "t = [] \<or> t \<in> snd ` set q" by (force split: option.splits dest: map_of_SomeD)
      then show ?thesis using assms that(2) by auto
    qed (use assms that(2) in auto)
  qed
  then show ?thesis by (simp add: unforged_def)
qed

lemma unforged_headers: "unforged cfg g (r\<lparr>gr_headers := hs\<rparr>) \<longleftrightarrow> unforged cfg g r"
  by (simp add: unforged_def presented_def)

lemma unforged_after: "unforged cfg g r \<Longrightarrow> gs_tokens g \<subseteq> gs_tokens g' \<Longrightarrow> unforged cfg g' r"
  by (auto simp: unforged_def)

definition demo_session_visit :: "string \<Rightarrow> gate_request" where
  "demo_session_visit t = demo_visit\<lparr>gr_cookies := [(CookieName, t)]\<rparr>"

lemma demo_upstream: "parseUpstream ''web.kitchen-shop.svc:8080'' = Some \<lparr>up_host = ''web.kitchen-shop.svc'', up_port = ''8080''\<rparr>"
  by code_simp

lemma demo_admitted:
  assumes "gc_subject visitor = ''ada''"
  shows "admit demo_gate_env (demo_session_visit t) \<lparr>up_host = ''web.kitchen-shop.svc'', up_port = ''8080''\<rparr> visitor = None"
proof -
  have name: "trim_space (header_value (demo_session_visit t) ProjectHeader) = ''shop''"
    by (simp add: demo_session_visit_def demo_visit_def visit_def header_value_def ProjectHeader_def UpstreamHeader_def
        trim_space_id white_end_def is_space_def)
  have "ProjectRoleFor (caller_of visitor) (Some demo_operators) (Some \<lparr>pr_name = ''shop'', pr_access = []\<rparr>) = ProjectAdmin"
    by (simp add: ProjectRoleFor_def Let_def caller_of_def keyCeiling_def personalKeyOf_def platformRoleOf_def demo_operators_def
        assms SubjectMatches_def IsEmailSubject_def HoldsUnknownKey_def PlatformAtLeast_def ProjectAtLeast_def
        role_order_defs)
  then have "ProjectAtLeast (ProjectRoleFor (caller_of visitor) (Some demo_operators) (Some \<lparr>pr_name = ''shop'', pr_access = []\<rparr>)) ProjectViewer"
    by (simp add: ProjectAtLeast_def role_order_defs)
  moreover have "upstreamNamespace \<lparr>up_host = ''web.kitchen-shop.svc'', up_port = ''8080''\<rparr> = AppNamespace ''shop''"
    by code_simp
  ultimately show ?thesis
    using shop_labels(1) by (simp add: admit_def demo_gate_env_def name Let_def routedFor_def)
qed


end
