(* ===== verification/Signals.thy ===== *)
theory Signals
  imports GoTime "HOL-Library.AList"
begin

section \<open>The signal catalogue (internal/signals)\<close>

text \<open>
  What the platform calls a condition, for whom it is a row, and how one round of the catalogue is
  evaluated: severities and tiers (finding.go, tier.go), the thresholds an installation may set
  (policy.go), the rules and their registry (signal.go, registry.go) and the designation that
  raises a warning (continuity.go). The rules themselves are values of the catalogue: a rule is a
  function of the snapshot, and what only the rules read of it is its last field.
\<close>

subsection \<open>Severity, tier and audience\<close>

definition SeverityCritical :: string where "SeverityCritical = ''critical''"
definition SeverityWarning :: string where "SeverityWarning = ''warning''"
definition SeverityUnknown :: string where "SeverityUnknown = ''unknown''"
definition SeverityInfo :: string where "SeverityInfo = ''info''"

lemmas severity_defs = SeverityCritical_def SeverityWarning_def SeverityUnknown_def SeverityInfo_def

definition SeverityRank :: "string \<Rightarrow> int" where
  "SeverityRank s =
     (if s = SeverityCritical then 3 else if s = SeverityWarning then 2 else if s = SeverityUnknown then 1 else 0)"

definition AudienceOperator :: string where "AudienceOperator = ''operator''"
definition AudienceDeveloper :: string where "AudienceDeveloper = ''developer''"

lemmas audience_defs = AudienceOperator_def AudienceDeveloper_def

lemma audiences_distinct [simp]: "AudienceOperator \<noteq> AudienceDeveloper" "AudienceDeveloper \<noteq> AudienceOperator"
  by (simp_all add: audience_defs)

definition TierPage :: string where "TierPage = ''page''"
definition TierTicket :: string where "TierTicket = ''ticket''"
definition TierLog :: string where "TierLog = ''log''"

lemmas tier_defs = TierPage_def TierTicket_def TierLog_def

definition TierRank :: "string \<Rightarrow> int" where
  "TierRank t = (if t = TierPage then 2 else if t = TierTicket then 1 else if t = TierLog then 0 else - 1)"

definition TierValid :: "string \<Rightarrow> bool" where
  "TierValid t \<longleftrightarrow> t \<in> {TierPage, TierTicket, TierLog}"

definition TierAtLeast :: "string \<Rightarrow> string \<Rightarrow> string" where
  "TierAtLeast t floor = (if TierRank t < TierRank floor then floor else t)"

definition atMost :: "string \<Rightarrow> string \<Rightarrow> string" where
  "atMost t ceiling = (if TierRank ceiling < TierRank t then ceiling else t)"

definition Notifies :: "string \<Rightarrow> bool" where
  "Notifies t \<longleftrightarrow> TierRank TierTicket \<le> TierRank t"

definition Deliveries :: "string \<Rightarrow> string list" where
  "Deliveries audience =
     (if audience = AudienceDeveloper then [AudienceDeveloper, AudienceOperator] else [AudienceOperator])"

record tiers =
  ti_developer :: string
  ti_operator :: string

text \<open>\<open>For\<close>: the tier of an audience, and whether one is declared.\<close>

definition TiersFor :: "tiers \<Rightarrow> string \<Rightarrow> string \<times> bool" where
  "TiersFor ts audience =
     (if audience = AudienceDeveloper then (ti_developer ts, ti_developer ts \<noteq> [])
      else if audience = AudienceOperator then (ti_operator ts, ti_operator ts \<noteq> [])
      else ([], False))"

text \<open>What a malformed catalogue is refused for.\<close>

datatype catalogue_error =
    NoID
  | NoVersion string
  | NoSummary string
  | NoRule string
  | UnknownAudience string string
  | TierMissing string string
  | TierUnknown string string string
  | TierStray string string
  | SharedID string

definition tier_refusal :: "string \<Rightarrow> tiers \<Rightarrow> string \<Rightarrow> string \<Rightarrow> catalogue_error option" where
  "tier_refusal i ts audience to =
     (let (tier, declared) = TiersFor ts to; delivered = to \<in> set (Deliveries audience)
      in if delivered \<and> \<not> declared then Some (TierMissing i to)
         else if delivered \<and> \<not> TierValid tier then Some (TierUnknown i to tier)
         else if \<not> delivered \<and> declared then Some (TierStray i to)
         else None)"

definition validate_tiers :: "string \<Rightarrow> tiers \<Rightarrow> string \<Rightarrow> catalogue_error option" where
  "validate_tiers i ts audience =
     (case tier_refusal i ts audience AudienceDeveloper of
        Some e \<Rightarrow> Some e
      | None \<Rightarrow> tier_refusal i ts audience AudienceOperator)"

subsection \<open>Policy (policy.go, thresholds.go)\<close>

definition PresetStrict :: string where "PresetStrict = ''strict''"
definition PresetBalanced :: string where "PresetBalanced = ''balanced''"
definition PresetHomelab :: string where "PresetHomelab = ''homelab''"

lemmas preset_defs = PresetStrict_def PresetBalanced_def PresetHomelab_def

definition RecentWindow :: int where "RecentWindow = 15 * minute"
definition EscalationWindow :: int where "EscalationWindow = hour"
definition UntendedMultiple :: int where "UntendedMultiple = 4"
definition MaxSilence :: int where "MaxSilence = 30 * 24 * hour"
definition CorrelatedProjects :: int where "CorrelatedProjects = 3"

record policy =
  po_preset :: string
  po_correlated :: int
  po_correlation_window :: int
  po_escalation_window :: int
  po_untended_multiple :: int
  po_max_silence :: int
  po_paging :: bool

definition presets :: "(string \<times> policy) list" where
  "presets =
     [(PresetStrict, \<lparr>po_preset = PresetStrict, po_correlated = 2, po_correlation_window = 30 * minute,
         po_escalation_window = 30 * minute, po_untended_multiple = 2, po_max_silence = 7 * 24 * hour, po_paging = True\<rparr>),
      (PresetBalanced, \<lparr>po_preset = PresetBalanced, po_correlated = CorrelatedProjects,
         po_correlation_window = RecentWindow, po_escalation_window = EscalationWindow,
         po_untended_multiple = UntendedMultiple, po_max_silence = MaxSilence, po_paging = True\<rparr>),
      (PresetHomelab, \<lparr>po_preset = PresetHomelab, po_correlated = 2, po_correlation_window = hour,
         po_escalation_window = 4 * hour, po_untended_multiple = 6, po_max_silence = 30 * 24 * hour, po_paging = False\<rparr>)]"

definition DefaultPolicy :: policy where
  "DefaultPolicy = the (map_of presets PresetBalanced)"

definition Normalised :: "policy \<Rightarrow> policy" where
  "Normalised p =
     (let base = DefaultPolicy;
          p1 = (if map_of presets (po_preset p) = None then p\<lparr>po_preset := PresetBalanced, po_paging := po_paging base\<rparr> else p);
          p2 = (if po_correlated p1 < 2 then p1\<lparr>po_correlated := po_correlated base\<rparr> else p1);
          p3 = (if po_correlation_window p2 \<le> 0 then p2\<lparr>po_correlation_window := po_correlation_window base\<rparr> else p2);
          p4 = (if po_escalation_window p3 \<le> 0 then p3\<lparr>po_escalation_window := po_escalation_window base\<rparr> else p3);
          p5 = (if po_untended_multiple p4 < 1 then p4\<lparr>po_untended_multiple := po_untended_multiple base\<rparr> else p4)
      in if po_max_silence p5 \<le> 0 then p5\<lparr>po_max_silence := po_max_silence base\<rparr> else p5)"

text \<open>The spec of the singleton: an absent number is None.\<close>

record policy_spec =
  sx_preset :: string
  sx_correlated :: "int option"
  sx_correlation_minutes :: "int option"
  sx_escalation_minutes :: "int option"
  sx_untended_multiple :: "int option"
  sx_max_silence_hours :: "int option"
  sx_paging :: "bool option"

definition override :: "('a \<Rightarrow> policy \<Rightarrow> policy) \<Rightarrow> 'a option \<Rightarrow> policy \<Rightarrow> policy" where
  "override upd v p = (case v of None \<Rightarrow> p | Some x \<Rightarrow> upd x p)"

definition PolicyFromSpec :: "policy_spec \<Rightarrow> policy" where
  "PolicyFromSpec spec =
     (let p0 = (case map_of presets (sx_preset spec) of Some p \<Rightarrow> p | None \<Rightarrow> DefaultPolicy)
      in Normalised
           (override (\<lambda>b p. p\<lparr>po_paging := b\<rparr>) (sx_paging spec)
           (override (\<lambda>h p. p\<lparr>po_max_silence := i64 (h * hour)\<rparr>) (sx_max_silence_hours spec)
           (override (\<lambda>n p. p\<lparr>po_untended_multiple := n\<rparr>) (sx_untended_multiple spec)
           (override (\<lambda>n p. p\<lparr>po_escalation_window := i64 (n * minute)\<rparr>) (sx_escalation_minutes spec)
           (override (\<lambda>n p. p\<lparr>po_correlation_window := i64 (n * minute)\<rparr>) (sx_correlation_minutes spec)
           (override (\<lambda>n p. p\<lparr>po_correlated := n\<rparr>) (sx_correlated spec) p0)))))))"

definition PolicyFrom :: "policy_spec option \<Rightarrow> policy" where
  "PolicyFrom kitchen = (case kitchen of None \<Rightarrow> DefaultPolicy | Some spec \<Rightarrow> PolicyFromSpec spec)"

definition UntendedAfter :: "policy \<Rightarrow> int" where
  "UntendedAfter p = i64 (po_untended_multiple p * po_escalation_window p)"

definition Deliver :: "policy \<Rightarrow> string \<Rightarrow> string" where
  "Deliver p tier = (if tier = TierPage \<and> \<not> po_paging p then TierTicket else tier)"

definition Matches :: "policy \<Rightarrow> string \<Rightarrow> bool" where
  "Matches p name = (case map_of presets name of None \<Rightarrow> False | Some preset \<Rightarrow> preset\<lparr>po_preset := po_preset p\<rparr> = p)"

definition onOff :: "bool \<Rightarrow> string" where
  "onOff on = (if on then ''on'' else ''off'')"

definition Provenance :: "policy \<Rightarrow> string" where
  "Provenance p = join '' ''
     [''preset='' @ po_preset p,
      ''correlatedProjects='' @ format_int (po_correlated p),
      ''correlationWindow='' @ duration_string (po_correlation_window p),
      ''escalationWindow='' @ duration_string (po_escalation_window p),
      ''untendedMultiple='' @ format_int (po_untended_multiple p),
      ''maxSilence='' @ duration_string (po_max_silence p),
      ''paging='' @ onOff (po_paging p)]"

definition policy_fields :: "policy \<Rightarrow> (string \<times> string) list" where
  "policy_fields p =
     [(''preset'', po_preset p), (''correlatedProjects'', format_int (po_correlated p)),
      (''correlationWindow'', duration_string (po_correlation_window p)),
      (''escalationWindow'', duration_string (po_escalation_window p)),
      (''untendedMultiple'', format_int (po_untended_multiple p)),
      (''maxSilence'', duration_string (po_max_silence p)), (''paging'', onOff (po_paging p))]"

definition PolicyDifference :: "policy \<Rightarrow> policy \<Rightarrow> string list" where
  "PolicyDifference was now =
     sort (map (\<lambda>((name, a), (_, b)). name @ '' '' @ a @ [CHR 0xE2, CHR 0x86, CHR 0x92] @ b)
       (filter (\<lambda>((_, a), (_, b)). a \<noteq> b) (zip (policy_fields was) (policy_fields now))))"

subsection \<open>Findings (finding.go, signal.go)\<close>

definition ScopePlatform :: string where "ScopePlatform = ''platform''"
definition ScopeEnvironment :: string where "ScopeEnvironment = ''environment''"

record scope =
  sc_kind :: string
  sc_project :: string
  sc_environment :: string
  sc_namespace :: string
  sc_node :: string
  sc_subject :: string

definition Path :: "scope \<Rightarrow> string" where
  "Path s = join ''/'' (filter (\<lambda>p. p \<noteq> []) [sc_project s, sc_environment s, sc_namespace s, sc_node s, sc_subject s])"

definition unevaluableMarker :: string where "unevaluableMarker = ''#unevaluable''"

definition Fingerprint :: "string \<Rightarrow> scope \<Rightarrow> string" where
  "Fingerprint i s = (let path = Path s in if path \<noteq> [] then i @ ''/'' @ path else i)"

record finding_row =
  fi_signal :: string
  fi_severity :: string
  fi_scope :: scope
  fi_audience :: string
  fi_tier :: string
  fi_fingerprint :: string
  fi_title :: string
  fi_detail :: string
  fi_since :: time
  fi_evidence :: string
  fi_projects :: "string list"
  fi_correlates :: "string list"
  fi_confidence :: string
  fi_policy :: string

definition finding_key :: "finding_row \<Rightarrow> int \<times> string \<times> string" where
  "finding_key f = (- SeverityRank (fi_severity f), fi_signal f, fi_fingerprint f)"

definition SortFindings :: "finding_row list \<Rightarrow> finding_row list" where
  "SortFindings fs = sort_key finding_key fs"

definition ForEnvironment :: "finding_row list \<Rightarrow> string \<Rightarrow> string \<Rightarrow> finding_row list" where
  "ForEnvironment fs project environment =
     filter (\<lambda>f. fi_audience f = AudienceDeveloper \<and> sc_project (fi_scope f) = project
       \<and> (sc_environment (fi_scope f) = [] \<or> sc_environment (fi_scope f) = environment)) fs"

definition Firing :: "finding_row list \<Rightarrow> finding_row list" where
  "Firing fs = filter (\<lambda>f. fi_severity f \<noteq> SeverityUnknown) fs"

definition MaxDetailLength :: nat where "MaxDetailLength = 400"

definition truncate_detail :: "string \<Rightarrow> string" where
  "truncate_detail detail =
     (let d = trim_space detail in if MaxDetailLength < length d then take MaxDetailLength d @ ellipsis else d)"

definition fire :: "string \<Rightarrow> string \<Rightarrow> scope \<Rightarrow> time \<Rightarrow> string \<Rightarrow> string \<Rightarrow> string \<Rightarrow> finding_row" where
  "fire i severity s since title detail evidence =
     \<lparr>fi_signal = i, fi_severity = severity, fi_scope = s, fi_audience = [], fi_tier = [],
      fi_fingerprint = Fingerprint i s, fi_title = title, fi_detail = truncate_detail detail, fi_since = since,
      fi_evidence = evidence, fi_projects = [], fi_correlates = [], fi_confidence = [], fi_policy = []\<rparr>"

definition sentence :: "string list \<Rightarrow> string" where
  "sentence clauses = join ''; '' (filter (\<lambda>c. c \<noteq> []) (map trim_space clauses))"

subsection \<open>Snapshot and rules\<close>

datatype input_state = InputAvailable | InputUnreadable | InputNotApplicable

record continuity =
  co_criticality :: string
  co_inherited :: "string list"
  co_project :: string

definition CriticalityCritical :: string where "CriticalityCritical = ''critical''"

definition inheritedNote :: "continuity \<Rightarrow> string \<Rightarrow> string" where
  "inheritedNote c field =
     (if field \<in> set (co_inherited c) then ''inherited from project '' @ co_project c else ''declared on the environment'')"

record 'e snapshot =
  sn_now :: time
  sn_policy :: policy
  sn_inputs :: "(string \<times> input_state \<times> string) list"
  sn_continuity :: "string \<times> string \<rightharpoonup> continuity"
  sn_round :: "finding_row list"
  sn_estate :: 'e

definition inputState :: "'e snapshot \<Rightarrow> string \<Rightarrow> input_state \<times> string" where
  "inputState sn input = (case map_of (sn_inputs sn) input of None \<Rightarrow> (InputAvailable, []) | Some marked \<Rightarrow> marked)"

definition mark :: "'e snapshot \<Rightarrow> string \<Rightarrow> input_state \<Rightarrow> string \<Rightarrow> 'e snapshot" where
  "mark sn input state reason = sn\<lparr>sn_inputs := AList.update input (state, reason) (sn_inputs sn)\<rparr>"

definition Available :: "'e snapshot \<Rightarrow> string \<Rightarrow> bool" where
  "Available sn input \<longleftrightarrow> fst (inputState sn input) = InputAvailable"

definition Unreadable :: "'e snapshot \<Rightarrow> (string \<times> string) list" where
  "Unreadable sn =
     sort_key fst (map (\<lambda>(input, state, reason). (input, reason))
       (filter (\<lambda>(input, state, reason). state = InputUnreadable) (sn_inputs sn)))"

record 'e signal =
  si_id :: string
  si_version :: int
  si_correlates :: bool
  si_audience :: string
  si_tiers :: tiers
  si_summary :: string
  si_requires :: "string list"
  si_evaluate :: "('e snapshot \<Rightarrow> finding_row list) option"

definition validate_signal :: "'e signal \<Rightarrow> catalogue_error option" where
  "validate_signal s =
     (if si_id s = [] then Some NoID
      else if si_version s < 1 then Some (NoVersion (si_id s))
      else if si_summary s = [] then Some (NoSummary (si_id s))
      else if si_evaluate s = None then Some (NoRule (si_id s))
      else if si_audience s \<noteq> AudienceOperator \<and> si_audience s \<noteq> AudienceDeveloper
        then Some (UnknownAudience (si_id s) (si_audience s))
      else validate_tiers (si_id s) (si_tiers s) (si_audience s))"

subsection \<open>The registry (registry.go)\<close>

fun register :: "'e signal list \<Rightarrow> 'e signal list \<Rightarrow> catalogue_error + 'e signal list" where
  "register [] acc = Inr acc"
| "register (s # ss) acc =
     (case validate_signal s of
        Some e \<Rightarrow> Inl e
      | None \<Rightarrow>
          if si_id s \<in> si_id ` set acc then Inl (SharedID (si_id s)) else register ss (acc @ [s]))"

definition NewRegistry :: "'e signal list \<Rightarrow> catalogue_error + 'e signal list" where
  "NewRegistry signals =
     (case register signals [] of Inl e \<Rightarrow> Inl e | Inr listed \<Rightarrow> Inr (sort_key si_id listed))"

definition Lookup :: "'e signal list \<Rightarrow> string \<Rightarrow> 'e signal option" where
  "Lookup reg i = find (\<lambda>s. si_id s = i) reg"

definition lowered :: "string \<Rightarrow> string \<Rightarrow> string" where
  "lowered declared own = (if TierValid own \<and> TierRank own < TierRank declared then own else declared)"

definition stamp_finding :: "'e signal \<Rightarrow> 'e snapshot \<Rightarrow> finding_row \<Rightarrow> finding_row" where
  "stamp_finding s sn f =
     f\<lparr>fi_since := (if is_zero (fi_since f) then sn_now sn else fi_since f),
       fi_audience := si_audience s,
       fi_tier := lowered (fst (TiersFor (si_tiers s) (si_audience s))) (fi_tier f),
       fi_policy := Provenance (sn_policy sn)\<rparr>"

definition EvidencePlatform :: string where "EvidencePlatform = ''/platform''"

definition unread_finding :: "'e signal \<Rightarrow> 'e snapshot \<Rightarrow> string \<Rightarrow> string \<Rightarrow> finding_row" where
  "unread_finding s sn input reason =
     (fire (si_id s) SeverityUnknown
        \<lparr>sc_kind = ScopePlatform, sc_project = [], sc_environment = [], sc_namespace = [], sc_node = [], sc_subject = []\<rparr>
        (sn_now sn) ''cannot be evaluated''
        (input @ '' could not be read, so this rule reports nothing rather than health: '' @ reason) EvidencePlatform)
     \<lparr>fi_fingerprint := si_id s @ unevaluableMarker,
      fi_audience := si_audience s,
      fi_tier := fst (TiersFor (si_tiers s) (si_audience s)),
      fi_policy := Provenance (sn_policy sn)\<rparr>"

text \<open>\<open>unevaluable\<close>: None when the rule can run, otherwise what it answers with in its place.\<close>

fun unevaluable_from :: "'e signal \<Rightarrow> 'e snapshot \<Rightarrow> string list \<Rightarrow> finding_row list option" where
  "unevaluable_from s sn [] = None"
| "unevaluable_from s sn (input # inputs) =
     (case inputState sn input of
        (InputAvailable, _) \<Rightarrow> unevaluable_from s sn inputs
      | (InputNotApplicable, _) \<Rightarrow> Some []
      | (InputUnreadable, reason) \<Rightarrow> Some [unread_finding s sn input reason])"

definition unevaluable :: "'e signal \<Rightarrow> 'e snapshot \<Rightarrow> finding_row list option" where
  "unevaluable s sn = unevaluable_from s sn (si_requires s)"

text \<open>A rule's answer; a registered rule has a function, see \<open>validate_signal\<close>.\<close>

definition answer :: "'e snapshot \<Rightarrow> 'e signal \<Rightarrow> finding_row list" where
  "answer sn s =
     (case unevaluable s sn of
        Some instead \<Rightarrow> instead
      | None \<Rightarrow> map (stamp_finding s sn) (case si_evaluate s of None \<Rightarrow> [] | Some rule \<Rightarrow> rule sn))"

definition run_pass :: "'e signal list \<Rightarrow> 'e snapshot \<Rightarrow> bool \<Rightarrow> finding_row list" where
  "run_pass reg sn correlating = concat (map (answer sn) (filter (\<lambda>s. si_correlates s = correlating) reg))"

definition escalate :: "(string \<times> string \<rightharpoonup> continuity) \<Rightarrow> finding_row \<Rightarrow> finding_row" where
  "escalate facts f =
     (if fi_severity f \<noteq> SeverityWarning \<or> sc_kind (fi_scope f) \<noteq> ScopeEnvironment then f
      else (case facts (sc_project (fi_scope f), sc_environment (fi_scope f)) of
          None \<Rightarrow> f
        | Some c \<Rightarrow>
            if co_criticality c \<noteq> CriticalityCritical then f
            else f\<lparr>fi_severity := SeverityCritical,
                   fi_detail := sentence [fi_detail f, trim_space
                     (''raised from warning: this environment is designated critical ('' @ inheritedNote c ''criticality'' @ '')'')]\<rparr>))"

definition Evaluate :: "'e signal list \<Rightarrow> 'e snapshot \<Rightarrow> finding_row list" where
  "Evaluate reg sn0 =
     (let sn = sn0\<lparr>sn_policy := Normalised (sn_policy sn0)\<rparr>;
          findings = SortFindings (map (escalate (sn_continuity sn)) (run_pass reg sn False));
          correlated = run_pass reg (sn\<lparr>sn_round := findings\<rparr>) True
      in if correlated = [] then findings else SortFindings (findings @ correlated))"

end
