(* ===== verification/SignalTracker.thy ===== *)
theory SignalTracker
  imports Signals
begin

section \<open>From rounds to a history (internal/signals/transitions.go, internal/clickhouse/transitions.go)\<close>

text \<open>
  The tracker diffs one round of findings against the last and answers with what opened and what
  resolved; the store keeps those rows and says after a restart what is still open. A Go map is
  an association list here: the rows of a round are sorted by their keys, no two of them agree in
  it, so the order in which the code walks its maps is not seen.
\<close>

subsection \<open>Rows and the tracker\<close>

definition StateOpen :: string where "StateOpen = ''open''"
definition StateResolved :: string where "StateResolved = ''resolved''"

lemma states_distinct [simp]: "StateOpen \<noteq> StateResolved" "StateResolved \<noteq> StateOpen"
  by (simp_all add: StateOpen_def StateResolved_def)

type_synonym key = "string \<times> string"

record change =
  tn_at :: time
  tn_state :: string
  tn_signal :: string
  tn_fingerprint :: string
  tn_audience :: string
  tn_tier :: string
  tn_version :: int
  tn_severity :: string
  tn_scope :: scope
  tn_title :: string
  tn_detail :: string
  tn_evidence :: string
  tn_confidence :: string
  tn_projects :: "string list"
  tn_correlates :: "string list"
  tn_policy :: string
  tn_since :: time
  tn_opened :: time

definition Key :: "change \<Rightarrow> key" where
  "Key c = (tn_fingerprint c, tn_audience c)"

definition Finding :: "change \<Rightarrow> finding_row" where
  "Finding c =
     \<lparr>fi_signal = tn_signal c, fi_severity = tn_severity c, fi_scope = tn_scope c, fi_audience = tn_audience c,
      fi_tier = tn_tier c, fi_fingerprint = tn_fingerprint c, fi_title = tn_title c, fi_detail = tn_detail c,
      fi_since = tn_since c, fi_evidence = tn_evidence c, fi_projects = tn_projects c,
      fi_correlates = tn_correlates c, fi_confidence = tn_confidence c, fi_policy = tn_policy c\<rparr>"

record episode =
  ep_finding :: finding_row
  ep_opened :: time
  ep_read :: time

record tracker =
  tk_versions :: "(string \<times> int) list"
  tk_tiers :: "(string \<times> tiers) list"
  tk_open :: "(key \<times> episode) list"

definition NewTracker :: "'e signal list option \<Rightarrow> tracker" where
  "NewTracker catalogue =
     (let signals = (case catalogue of None \<Rightarrow> [] | Some reg \<Rightarrow> reg)
      in \<lparr>tk_versions = foldl (\<lambda>m s. AList.update (si_id s) (si_version s) m) [] signals,
          tk_tiers = foldl (\<lambda>m s. AList.update (si_id s) (si_tiers s) m) [] signals, tk_open = []\<rparr>)"

definition Restore :: "tracker \<Rightarrow> change list \<Rightarrow> tracker" where
  "Restore t rows =
     t\<lparr>tk_open := foldl (\<lambda>m c. AList.update (Key c)
         \<lparr>ep_finding = Finding c, ep_opened = (if is_zero (tn_opened c) then tn_at c else tn_opened c), ep_read = zero_time\<rparr> m)
       [] rows\<rparr>"

definition Open :: "tracker \<Rightarrow> int" where
  "Open t = int (length (tk_open t))"

definition transition_row :: "tracker \<Rightarrow> string \<Rightarrow> key \<Rightarrow> finding_row \<Rightarrow> time \<Rightarrow> time \<Rightarrow> change" where
  "transition_row t state key f now opened =
     (let declared = (case map_of (tk_tiers t) (fi_signal f) of None \<Rightarrow> [] | Some ts \<Rightarrow> fst (TiersFor ts (snd key)))
      in \<lparr>tn_at = now, tn_state = state, tn_signal = fi_signal f, tn_fingerprint = fst key, tn_audience = snd key,
          tn_tier = lowered declared (fi_tier f),
          tn_version = (case map_of (tk_versions t) (fi_signal f) of None \<Rightarrow> 0 | Some v \<Rightarrow> v),
          tn_severity = fi_severity f, tn_scope = fi_scope f, tn_title = fi_title f, tn_detail = fi_detail f,
          tn_evidence = fi_evidence f, tn_confidence = fi_confidence f, tn_projects = fi_projects f,
          tn_correlates = fi_correlates f, tn_policy = fi_policy f, tn_since = fi_since f, tn_opened = opened\<rparr>)"

definition sortTransitions :: "change list \<Rightarrow> change list" where
  "sortTransitions cs = sort_key Key cs"

definition blind :: "finding_row list \<Rightarrow> string \<Rightarrow> bool" where
  "blind round i \<longleftrightarrow> list_ex (\<lambda>f. fi_severity f = SeverityUnknown \<and> fi_signal f = i) round"

definition deliveries_of :: "finding_row \<Rightarrow> (key \<times> finding_row) list" where
  "deliveries_of f =
     (if fi_severity f = SeverityUnknown then []
      else map (\<lambda>audience. ((fi_fingerprint f, audience), f)) (Deliveries (fi_audience f)))"

definition current :: "finding_row list \<Rightarrow> (key \<times> finding_row) list" where
  "current round = foldl (\<lambda>m (k, f). AList.update k f m) [] (concat (map deliveries_of round))"

definition Observe :: "tracker \<Rightarrow> finding_row list \<Rightarrow> time \<Rightarrow> change list \<times> tracker" where
  "Observe t round now =
     (let cur = current round;
          opened = filter (\<lambda>(k, f). map_of (tk_open t) k = None) cur;
          gone = filter (\<lambda>(k, was). map_of cur k = None) (tk_open t);
          kept = filter (\<lambda>(k, was). blind round (fi_signal (ep_finding was))) gone;
          resolved = filter (\<lambda>(k, was). \<not> blind round (fi_signal (ep_finding was))) gone
      in (sortTransitions
            (map (\<lambda>(k, f). transition_row t StateOpen k f now now) opened
             @ map (\<lambda>(k, was). transition_row t StateResolved k (ep_finding was) now (ep_opened was)) resolved),
          t\<lparr>tk_open :=
            map (\<lambda>(k, f). (k, \<lparr>ep_finding = f,
                ep_opened = (case map_of (tk_open t) k of None \<Rightarrow> now | Some was \<Rightarrow> ep_opened was), ep_read = now\<rparr>)) cur
            @ kept\<rparr>))"

fun observe_all :: "tracker \<Rightarrow> (finding_row list \<times> time) list \<Rightarrow> change list \<times> tracker" where
  "observe_all t [] = ([], t)"
| "observe_all t ((round, now) # rounds) =
     (let (rows, t1) = Observe t round now; (more, t2) = observe_all t1 rounds in (rows @ more, t2))"

text \<open>What the readers of a tracker ask it (store.go).\<close>

definition CurrentReadings :: "tracker \<Rightarrow> (key \<times> finding_row \<times> time) list" where
  "CurrentReadings t =
     map (\<lambda>(k, e). (k, ep_finding e, ep_read e)) (filter (\<lambda>(k, e). \<not> is_zero (ep_read e)) (tk_open t))"

definition SignalStarts :: "tracker \<Rightarrow> (string \<times> time) list" where
  "SignalStarts t =
     foldl (\<lambda>m ((fingerprint, _), e).
         if is_zero (ep_opened e) then m
         else (case map_of m fingerprint of
             None \<Rightarrow> AList.update fingerprint (ep_opened e) m
           | Some was \<Rightarrow> if ep_opened e < was then AList.update fingerprint (ep_opened e) m else m))
       [] (tk_open t)"

subsection \<open>The store's rows (adapters.go, internal/clickhouse/transitions.go)\<close>

definition splitList :: "string \<Rightarrow> string list" where
  "splitList joined = (if joined = [] then [] else split_on (CHR '','') joined)"

record signal_transition =
  st_change :: change
  st_projects :: string
  st_correlates :: string

text \<open>A row of the table: the scalar columns are those of the change, the two lists are joined.\<close>

definition TransitionRow :: "change \<Rightarrow> signal_transition" where
  "TransitionRow c = \<lparr>st_change = c\<lparr>tn_projects := [], tn_correlates := []\<rparr>,
     st_projects = join '','' (tn_projects c), st_correlates = join '','' (tn_correlates c)\<rparr>"

definition TransitionFrom :: "signal_transition \<Rightarrow> change" where
  "TransitionFrom r = (st_change r)\<lparr>tn_projects := splitList (st_projects r), tn_correlates := splitList (st_correlates r)\<rparr>"

definition store_row :: "time \<Rightarrow> signal_transition \<Rightarrow> signal_transition" where
  "store_row clock r =
     (let c = st_change r;
          at = (if is_zero (tn_at c) then clock else tn_at c);
          openedAt = (if is_zero (tn_opened c) then at else tn_opened c);
          since = (if is_zero (tn_since c) then openedAt else tn_since c)
      in r\<lparr>st_change := c\<lparr>tn_at := truncate_ms at, tn_opened := truncate_ms openedAt, tn_since := truncate_ms since\<rparr>\<rparr>)"

definition InsertSignalTransitions :: "time \<Rightarrow> signal_transition list \<Rightarrow> signal_transition list \<Rightarrow> signal_transition list" where
  "InsertSignalTransitions clock table rows = table @ map (store_row clock) rows"

text \<open>
  \<open>OpenSignalTransitions\<close>: the rows grouped by project, environment, fingerprint and audience, the
  newest of each group kept when it is an opening (\<open>argMax\<close> over the timestamp; of rows that agree
  in it, the last inserted).
\<close>

definition group_key :: "signal_transition \<Rightarrow> string \<times> string \<times> string \<times> string" where
  "group_key r = (tn_fingerprint (st_change r), tn_audience (st_change r),
     sc_project (tn_scope (st_change r)), sc_environment (tn_scope (st_change r)))"

definition newest :: "signal_transition list \<Rightarrow> signal_transition" where
  "newest rows = last (sort_key (\<lambda>r. tn_at (st_change r)) rows)"

definition OpenSignalTransitions :: "signal_transition list \<Rightarrow> signal_transition list" where
  "OpenSignalTransitions table =
     filter (\<lambda>r. tn_state (st_change r) = StateOpen)
       (map (\<lambda>g. newest (filter (\<lambda>r. group_key r = g) table))
         (sort (remdups (map group_key table))))"

end
