(* ===== verification/SignalHistory.thy ===== *)
theory SignalHistory
  imports SignalTracker
begin

section \<open>What the recorded history says\<close>

text \<open>
  The rows of a tracker against the specification of a history: every row is legal where it
  stands (a condition opens when it is not open and resolves with the instant it opened), and what
  a reader of the rows alone holds open is what the tracker holds open.
\<close>

subsection \<open>Association lists\<close>

lemma map_of_fold_update:
  "map_of (foldl (\<lambda>m (k, v). AList.update k v m) m kvs) = map_of m ++ map_of (rev kvs)"
proof (induction kvs arbitrary: m)
  case (Cons kv kvs)
  then show ?case by (cases kv) (simp add: update_conv' map_add_upd_left fun_upd_def map_add_def fun_eq_iff split: option.split)
qed simp

lemma distinct_fold_update:
  "distinct (map fst m) \<Longrightarrow> distinct (map fst (foldl (\<lambda>m (k, v). AList.update k v m) m kvs))"
  by (induction kvs arbitrary: m) (auto simp: distinct_update)

lemma map_of_map_pair: "map_of (map (\<lambda>(k, v). (k, g k v)) xs) k = map_option (g k) (map_of xs k)"
  by (induction xs) auto

lemma map_of_filter_pair:
  "distinct (map fst xs) \<Longrightarrow> map_of (filter (\<lambda>(k, v). P k v) xs) k
     = (case map_of xs k of None \<Rightarrow> None | Some v \<Rightarrow> if P k v then Some v else None)"
proof (induction xs)
  case (Cons x xs)
  obtain k' v where x: "x = (k', v)" by (cases x)
  have "map_of xs k' = None" using Cons.prems by (simp add: x map_of_eq_None_iff)
  with Cons show ?case by (auto simp: x)
qed simp

lemma distinct_filter_pair: "distinct (map fst xs) \<Longrightarrow> distinct (map fst (filter P xs))"
  by (induction xs) auto

lemma mem_map_of: "distinct (map fst xs) \<Longrightarrow> (k, v) \<in> set xs \<longleftrightarrow> map_of xs k = Some v"
  by simp

lemma mem_image_pairs: "c \<in> (\<lambda>(k, v). F k v) ` {(k, v). P k v} \<longleftrightarrow> (\<exists>k v. P k v \<and> c = F k v)"
  by auto

text \<open>A list sorted by keys that are all different is determined by its elements.\<close>

lemma sorted_keys_unique:
  assumes "sorted (map f xs)" "distinct (map f xs)" "sorted (map f ys)" "distinct (map f ys)" "set xs = set ys"
  shows "xs = ys"
proof (rule map_sorted_distinct_set_unique [OF _ assms])
  show "inj_on f (set xs \<union> set ys)" using assms(2,5) by (simp add: distinct_map)
qed

subsection \<open>One round\<close>

definition reported :: "finding_row list \<Rightarrow> key \<Rightarrow> bool" where
  "reported round k \<longleftrightarrow> map_of (current round) k \<noteq> None"

lemma current_Some:
  assumes "map_of (current round) k = Some f"
  shows "f \<in> set round" "fi_severity f \<noteq> SeverityUnknown" "fst k = fi_fingerprint f"
    "snd k \<in> set (Deliveries (fi_audience f))"
proof -
  have "map_of (rev (concat (map deliveries_of round))) k = Some f"
    using assms by (simp add: current_def map_of_fold_update)
  then have "(k, f) \<in> set (concat (map deliveries_of round))" by (auto dest: map_of_SomeD)
  then show "f \<in> set round" "fi_severity f \<noteq> SeverityUnknown" "fst k = fi_fingerprint f"
    "snd k \<in> set (Deliveries (fi_audience f))"
    by (auto simp: deliveries_of_def split: if_splits)
qed

lemma reported_iff:
  "reported round k \<longleftrightarrow> (\<exists>f \<in> set round. fi_severity f \<noteq> SeverityUnknown \<and> fi_fingerprint f = fst k
     \<and> snd k \<in> set (Deliveries (fi_audience f)))"
proof
  assume "reported round k"
  then show "\<exists>f \<in> set round. fi_severity f \<noteq> SeverityUnknown \<and> fi_fingerprint f = fst k
     \<and> snd k \<in> set (Deliveries (fi_audience f))"
    unfolding reported_def by (metis current_Some not_None_eq)
next
  assume "\<exists>f \<in> set round. fi_severity f \<noteq> SeverityUnknown \<and> fi_fingerprint f = fst k
     \<and> snd k \<in> set (Deliveries (fi_audience f))"
  then obtain f where f: "f \<in> set round" "fi_severity f \<noteq> SeverityUnknown" "fi_fingerprint f = fst k"
    "snd k \<in> set (Deliveries (fi_audience f))" by blast
  then have "(k, f) \<in> set (deliveries_of f)"
    by (simp add: deliveries_of_def image_iff) (metis prod.collapse)
  with f(1) have "k \<in> fst ` set (rev (concat (map deliveries_of round)))" by force
  then show "reported round k" by (simp add: reported_def current_def map_of_fold_update map_of_eq_None_iff)
qed

lemma distinct_current: "distinct (map fst (current round))"
  by (simp add: current_def distinct_fold_update)

definition tracks :: "tracker \<Rightarrow> bool" where
  "tracks t \<longleftrightarrow> distinct (map fst (tk_open t))"

lemma new_open [simp]: "tk_open (NewTracker catalogue) = []"
  by (simp add: NewTracker_def Let_def)

lemma tracks_new [simp]: "tracks (NewTracker catalogue)"
  by (simp add: tracks_def)

lemma fold_update_map:
  "foldl (\<lambda>m c. AList.update (g c) (e c) m) m rows = foldl (\<lambda>m (k, v). AList.update k v m) m (map (\<lambda>c. (g c, e c)) rows)"
  by (induction rows arbitrary: m) auto

lemma distinct_restore [simp]: "tracks (Restore t rows)"
  unfolding tracks_def Restore_def by (simp add: fold_update_map distinct_fold_update)

lemma Observe_open:
  assumes "tracks t"
  shows "map_of (tk_open (snd (Observe t round now))) k =
    (case map_of (current round) k of
       Some f \<Rightarrow> Some \<lparr>ep_finding = f, ep_opened = (case map_of (tk_open t) k of None \<Rightarrow> now | Some was \<Rightarrow> ep_opened was),
                   ep_read = now\<rparr>
     | None \<Rightarrow> (case map_of (tk_open t) k of None \<Rightarrow> None
         | Some was \<Rightarrow> if blind round (fi_signal (ep_finding was)) then Some was else None))"
  using assms unfolding tracks_def Observe_def Let_def
  by (simp add: map_add_def map_of_map_pair map_of_filter_pair distinct_filter_pair
      del: filter_filter split: option.split)

lemma Observe_catalogue [simp]:
  "tk_versions (snd (Observe t round now)) = tk_versions t" "tk_tiers (snd (Observe t round now)) = tk_tiers t"
  by (simp_all add: Observe_def Let_def)

lemma tracks_Observe: "tracks t \<Longrightarrow> tracks (snd (Observe t round now))"
proof -
  assume t: "tracks t"
  have "fst \<circ> (\<lambda>(k, f). (k, g k f)) = fst" for g :: "key \<Rightarrow> finding_row \<Rightarrow> episode"
    by auto
  moreover have "fst ` set (current round) \<inter> fst ` set (filter P (filter (\<lambda>(k, was). map_of (current round) k = None) (tk_open t))) = {}" for P
    by (force simp: map_of_eq_None_iff)
  ultimately show ?thesis
    using t distinct_current by (simp add: tracks_def Observe_def Let_def distinct_filter_pair del: filter_filter)
qed

definition opens :: "tracker \<Rightarrow> finding_row list \<Rightarrow> time \<Rightarrow> key \<Rightarrow> finding_row \<Rightarrow> change \<Rightarrow> bool" where
  "opens t round now k f c \<longleftrightarrow> map_of (current round) k = Some f \<and> map_of (tk_open t) k = None
     \<and> c = transition_row t StateOpen k f now now"

definition resolves :: "tracker \<Rightarrow> finding_row list \<Rightarrow> time \<Rightarrow> key \<Rightarrow> episode \<Rightarrow> change \<Rightarrow> bool" where
  "resolves t round now k was c \<longleftrightarrow> map_of (tk_open t) k = Some was \<and> map_of (current round) k = None
     \<and> \<not> blind round (fi_signal (ep_finding was)) \<and> c = transition_row t StateResolved k (ep_finding was) now (ep_opened was)"

lemma set_rows:
  assumes "tracks t"
  shows "c \<in> set (fst (Observe t round now)) \<longleftrightarrow>
    (\<exists>k f. opens t round now k f c) \<or> (\<exists>k was. resolves t round now k was c)"
proof -
  let ?A = "{(k, f). map_of (current round) k = Some f \<and> map_of (tk_open t) k = None}"
  let ?B = "{(k, was). map_of (tk_open t) k = Some was \<and> map_of (current round) k = None
      \<and> \<not> blind round (fi_signal (ep_finding was))}"
  have A: "set (filter (\<lambda>(k, f). map_of (tk_open t) k = None) (current round)) = ?A"
    using distinct_current [of round] by auto
  have B: "set (filter (\<lambda>(k, was). \<not> blind round (fi_signal (ep_finding was)))
      (filter (\<lambda>(k, was). map_of (current round) k = None) (tk_open t))) = ?B"
    using assms by (auto simp: tracks_def)
  have "set (fst (Observe t round now)) =
      (\<lambda>(k, f). transition_row t StateOpen k f now now) ` ?A
      \<union> (\<lambda>(k, was). transition_row t StateResolved k (ep_finding was) now (ep_opened was)) ` ?B"
    unfolding Observe_def Let_def sortTransitions_def fst_conv set_sort set_append set_map A B by (rule refl)
  then show ?thesis by (simp only: Un_iff mem_image_pairs opens_def resolves_def conj_assoc)
qed

lemma Key_row [simp]: "Key (transition_row t state k f now opened) = k"
  by (simp add: Key_def transition_row_def Let_def)

lemma row_sel [simp]:
  "tn_state (transition_row t state k f now opened) = state" "tn_at (transition_row t state k f now opened) = now"
  "tn_opened (transition_row t state k f now opened) = opened" "tn_signal (transition_row t state k f now opened) = fi_signal f"
  "tn_scope (transition_row t state k f now opened) = fi_scope f"
  "tn_fingerprint (transition_row t state k f now opened) = fst k" "tn_audience (transition_row t state k f now opened) = snd k"
  by (simp_all add: transition_row_def Let_def)

lemma rows_sorted: "sorted (map Key (fst (Observe t round now)))"
  by (simp add: Observe_def Let_def sortTransitions_def)

lemma rows_distinct:
  assumes "tracks t"
  shows "distinct (map Key (fst (Observe t round now)))"
proof -
  let ?cur = "filter (\<lambda>(k, f). map_of (tk_open t) k = None) (current round)"
  let ?gone = "filter (\<lambda>(k, was). \<not> blind round (fi_signal (ep_finding was)))
    (filter (\<lambda>(k, was). map_of (current round) k = None) (tk_open t))"
  have keys: "Key \<circ> (\<lambda>(k, f). transition_row t StateOpen k f now now) = fst"
    "Key \<circ> (\<lambda>(k, was). transition_row t StateResolved k (ep_finding was) now (ep_opened was)) = fst"
    by auto
  have "distinct (map fst ?cur)" "distinct (map fst ?gone)"
    using assms unfolding tracks_def by (intro distinct_filter_pair distinct_current; assumption)+
  moreover have "set (map fst ?cur) \<inter> set (map fst ?gone) = {}"
    by (force simp: map_of_eq_None_iff)
  ultimately have "distinct (map fst ?cur @ map fst ?gone)" by (simp only: distinct_append conj_absorb)
  then have "distinct (map Key (map (\<lambda>(k, f). transition_row t StateOpen k f now now) ?cur
      @ map (\<lambda>(k, was). transition_row t StateResolved k (ep_finding was) now (ep_opened was)) ?gone))"
    by (simp only: map_append map_map keys)
  then show ?thesis
    unfolding Observe_def Let_def sortTransitions_def fst_conv by (simp only: distinct_map set_sort distinct_sort)
qed

subsection \<open>The history as a specification\<close>

text \<open>
  A reader of the rows holds for every key the instant its condition opened. A row is legal where
  it stands, or the history is not one.
\<close>

definition legal :: "(key \<rightharpoonup> time) \<Rightarrow> change \<Rightarrow> bool" where
  "legal m c \<longleftrightarrow>
     tn_state c = StateOpen \<and> m (Key c) = None \<and> tn_opened c = tn_at c
     \<or> tn_state c = StateResolved \<and> m (Key c) = Some (tn_opened c)"

definition applied :: "change \<Rightarrow> time option" where
  "applied c = (if tn_state c = StateOpen then Some (tn_opened c) else None)"

fun replay :: "(key \<rightharpoonup> time) \<Rightarrow> change list \<Rightarrow> (key \<rightharpoonup> time) option" where
  "replay m [] = Some m"
| "replay m (c # cs) = (if legal m c then replay (m(Key c := applied c)) cs else None)"

definition held_open :: "tracker \<Rightarrow> key \<rightharpoonup> time" where
  "held_open t k = map_option ep_opened (map_of (tk_open t) k)"

lemma replay_append: "replay m (cs @ ds) = (case replay m cs of None \<Rightarrow> None | Some m' \<Rightarrow> replay m' ds)"
  by (induction cs arbitrary: m) auto

lemma replay_batch:
  assumes "distinct (map Key cs)" "\<And>c. c \<in> set cs \<Longrightarrow> legal m c"
    "\<And>c. c \<in> set cs \<Longrightarrow> m' (Key c) = applied c" "\<And>k. k \<notin> Key ` set cs \<Longrightarrow> m' k = m k"
  shows "replay m cs = Some m'"
  using assms
proof (induction cs arbitrary: m)
  case Nil
  then show ?case by (simp add: fun_eq_iff)
next
  case (Cons c cs)
  have other: "Key d \<noteq> Key c" if "d \<in> set cs" for d using Cons.prems(1) that by (auto simp: image_iff)
  have "replay (m(Key c := applied c)) cs = Some m'"
  proof (rule Cons.IH)
    show "legal (m(Key c := applied c)) d" if "d \<in> set cs" for d
      using Cons.prems(2) [of d] that other [OF that] by (simp add: legal_def)
    show "m' k = (m(Key c := applied c)) k" if "k \<notin> Key ` set cs" for k
      using Cons.prems(3) [of c] Cons.prems(4) [of k] that by auto
  qed (use Cons.prems in auto)
  with Cons.prems(2) [of c] show ?case by simp
qed

lemma replay_key:
  assumes "tracks t" "c \<in> set (fst (Observe t round now))"
  shows "legal (held_open t) c" "held_open (snd (Observe t round now)) (Key c) = applied c"
proof -
  consider k f where "opens t round now k f c" | k was where "resolves t round now k was c"
    using assms(2) unfolding set_rows [OF assms(1)] by blast
  then have "legal (held_open t) c \<and> held_open (snd (Observe t round now)) (Key c) = applied c"
  proof cases
    case 1
    then show ?thesis
      by (simp add: opens_def legal_def held_open_def Observe_open [OF assms(1)] applied_def)
  next
    case 2
    then show ?thesis
      by (simp add: resolves_def legal_def held_open_def Observe_open [OF assms(1)] applied_def)
  qed
  then show "legal (held_open t) c" "held_open (snd (Observe t round now)) (Key c) = applied c" by blast+
qed

lemma replay_quiet:
  assumes "tracks t" and quiet: "k \<notin> Key ` set (fst (Observe t round now))"
  shows "held_open (snd (Observe t round now)) k = held_open t k"
proof -
  have no_open: False if "map_of (current round) k = Some f" "map_of (tk_open t) k = None" for f
  proof -
    have "opens t round now k f (transition_row t StateOpen k f now now)" using that by (simp add: opens_def)
    then have "transition_row t StateOpen k f now now \<in> set (fst (Observe t round now))"
      unfolding set_rows [OF assms(1)] by blast
    then show False using quiet by (metis Key_row imageI)
  qed
  have no_res: False if "map_of (tk_open t) k = Some was" "map_of (current round) k = None"
    "\<not> blind round (fi_signal (ep_finding was))" for was
  proof -
    let ?c = "transition_row t StateResolved k (ep_finding was) now (ep_opened was)"
    have "resolves t round now k was ?c" using that by (simp add: resolves_def)
    then have "?c \<in> set (fst (Observe t round now))" unfolding set_rows [OF assms(1)] by blast
    then show False using quiet by (metis Key_row imageI)
  qed
  show ?thesis
    using no_open no_res
    by (cases "map_of (current round) k"; cases "map_of (tk_open t) k")
      (auto simp: held_open_def Observe_open [OF assms(1)] simp del: not_None_eq)
qed

lemma replay_Observe:
  assumes "tracks t"
  shows "replay (held_open t) (fst (Observe t round now)) = Some (held_open (snd (Observe t round now)))"
  by (rule replay_batch [OF rows_distinct [OF assms]]) (simp_all add: assms replay_key replay_quiet)

lemma observe_all_Cons:
  "observe_all t (r # rounds) =
     (fst (Observe t (fst r) (snd r)) @ fst (observe_all (snd (Observe t (fst r) (snd r))) rounds),
      snd (observe_all (snd (Observe t (fst r) (snd r))) rounds))"
  by (cases r) (simp add: split_beta Let_def)

declare observe_all.simps(2) [simp del]

lemma observe_all_append:
  "observe_all t (rs @ rs') =
     (fst (observe_all t rs) @ fst (observe_all (snd (observe_all t rs)) rs'), snd (observe_all (snd (observe_all t rs)) rs'))"
  by (induction rs arbitrary: t) (simp_all add: observe_all_Cons)

lemma tracks_observe_all: "tracks t \<Longrightarrow> tracks (snd (observe_all t rounds))"
  by (induction rounds arbitrary: t) (simp_all add: observe_all_Cons tracks_Observe)

lemma replay_observe_all:
  "tracks t \<Longrightarrow> replay (held_open t) (fst (observe_all t rounds)) = Some (held_open (snd (observe_all t rounds)))"
  by (induction rounds arbitrary: t) (simp_all add: observe_all_Cons replay_append replay_Observe tracks_Observe)

end
