(* ===== verification/SignalStore.thy ===== *)
theory SignalStore
  imports SignalHistory
begin

section \<open>Seeding a tracker from the recorded history\<close>

text \<open>
  What the detection loop relies on when it starts (internal/detection/loop.go): the store it
  writes a round's rows to answers, for every key, with the newest of them when it is an opening.
  The interface is the locale \<open>history\<close>, the telemetry store's model its interpretation, and what
  follows in the locale is that a tracker seeded from the store goes on where the one that wrote
  the rows stopped. A fingerprint belongs to one rule, project and environment (\<open>place\<close>), as
  \<open>Scope\<close> says of it, and the store keeps milliseconds.
\<close>

subsection \<open>The interface\<close>

text \<open>An instant a row can keep: the store reads the zero time as an absent one.\<close>

definition real_time :: "time \<Rightarrow> bool" where
  "real_time t \<longleftrightarrow> \<not> is_zero (truncate_ms t)"

lemma real_time_truncate [simp]: "real_time (truncate_ms t) \<longleftrightarrow> real_time t"
  by (simp add: real_time_def)

lemma real_time_nonzero: "real_time t \<Longrightarrow> \<not> is_zero t"
  by (auto simp: real_time_def is_zero_def truncate_ms_def)

definition placed :: "(string \<Rightarrow> string \<times> string \<times> string) \<Rightarrow> change \<Rightarrow> bool" where
  "placed place c \<longleftrightarrow> place (tn_fingerprint c) = (tn_signal c, sc_project (tn_scope c), sc_environment (tn_scope c))"

definition fits :: "(string \<Rightarrow> string \<times> string \<times> string) \<Rightarrow> time \<Rightarrow> change list \<Rightarrow> bool" where
  "fits place now rows \<longleftrightarrow> real_time now \<and> distinct (map Key rows)
     \<and> (\<forall>c \<in> set rows. tn_at c = now \<and> placed place c \<and> real_time (tn_opened c))"

definition by_key :: "change list \<Rightarrow> key \<rightharpoonup> change" where
  "by_key rows = map_of (map (\<lambda>c. (Key c, c)) rows)"

lemma by_key_Some: "distinct (map Key rows) \<Longrightarrow> by_key rows k = Some c \<longleftrightarrow> c \<in> set rows \<and> Key c = k"
  by (auto simp: by_key_def comp_def map_of_eq_Some_iff image_iff)

lemma by_key_None: "by_key rows k = None \<longleftrightarrow> k \<notin> Key ` set rows"
  by (auto simp: by_key_def map_of_eq_None_iff image_iff)

locale history =
  fixes place :: "string \<Rightarrow> string \<times> string \<times> string"
    and fresh :: "'h"
    and insert_rows :: "'h \<Rightarrow> change list \<Rightarrow> 'h"
    and open_rows :: "'h \<Rightarrow> change list"
    and holds :: "'h \<Rightarrow> key \<rightharpoonup> time"
    and newer :: "'h \<Rightarrow> time \<Rightarrow> bool"
    and ok :: "'h \<Rightarrow> bool"
  assumes fresh_ok: "ok fresh" and fresh_holds: "holds fresh = (\<lambda>_. None)" and fresh_newer: "newer fresh now"
    and insert_ok: "ok h \<Longrightarrow> newer h now \<Longrightarrow> fits place now rows \<Longrightarrow> ok (insert_rows h rows)"
    and insert_newer: "newer h now \<Longrightarrow> fits place now rows \<Longrightarrow> truncate_ms now < truncate_ms later
      \<Longrightarrow> newer (insert_rows h rows) later"
    and insert_holds: "ok h \<Longrightarrow> newer h now \<Longrightarrow> fits place now rows \<Longrightarrow> holds (insert_rows h rows) k =
      (case by_key rows k of None \<Rightarrow> holds h k | Some c \<Rightarrow> map_option truncate_ms (applied c))"
    and open_distinct: "ok h \<Longrightarrow> distinct (map Key (open_rows h))"
    and open_holds: "ok h \<Longrightarrow> map_option tn_opened (by_key (open_rows h) k) = holds h k"
    and open_signal: "ok h \<Longrightarrow> c \<in> set (open_rows h) \<Longrightarrow> tn_signal c = fst (place (tn_fingerprint c)) \<and> real_time (tn_opened c)"

text \<open>The loop: every round's rows go to the store before the next round (loop.go).\<close>

fun record_all :: "('h \<Rightarrow> change list \<Rightarrow> 'h) \<Rightarrow> 'h \<Rightarrow> tracker \<Rightarrow> (finding_row list \<times> time) list \<Rightarrow> 'h \<times> tracker" where
  "record_all insert_rows h t [] = (h, t)"
| "record_all insert_rows h t (r # rounds) =
     record_all insert_rows (insert_rows h (fst (Observe t (fst r) (snd r)))) (snd (Observe t (fst r) (snd r))) rounds"

text \<open>Rounds a loop can run: dated in order, every fingerprint of one place.\<close>

definition placed_round :: "(string \<Rightarrow> string \<times> string \<times> string) \<Rightarrow> finding_row list \<Rightarrow> bool" where
  "placed_round place round \<longleftrightarrow> (\<forall>f \<in> set round. fi_severity f \<noteq> SeverityUnknown \<longrightarrow>
     place (fi_fingerprint f) = (fi_signal f, sc_project (fi_scope f), sc_environment (fi_scope f)))"

definition placed_tracker :: "(string \<Rightarrow> string \<times> string \<times> string) \<Rightarrow> tracker \<Rightarrow> bool" where
  "placed_tracker place t \<longleftrightarrow> (\<forall>k e. map_of (tk_open t) k = Some e \<longrightarrow> real_time (ep_opened e)
     \<and> place (fst k) = (fi_signal (ep_finding e), sc_project (fi_scope (ep_finding e)), sc_environment (fi_scope (ep_finding e))))"

fun dated :: "time \<Rightarrow> (finding_row list \<times> time) list \<Rightarrow> bool" where
  "dated start [] = True"
| "dated start (r # rounds) \<longleftrightarrow> truncate_ms start < truncate_ms (snd r) \<and> dated (snd r) rounds"

lemma placed_current:
  assumes "placed_round place round" "map_of (current round) k = Some f"
  shows "place (fst k) = (fi_signal f, sc_project (fi_scope f), sc_environment (fi_scope f))"
  using current_Some [OF assms(2)] assms(1) by (simp add: placed_round_def)

lemma placed_trackerD:
  assumes "placed_tracker place t" "map_of (tk_open t) k = Some e"
  shows "real_time (ep_opened e)"
    "place (fst k) = (fi_signal (ep_finding e), sc_project (fi_scope (ep_finding e)), sc_environment (fi_scope (ep_finding e)))"
  using assms unfolding placed_tracker_def by blast+

lemma placed_Observe:
  assumes "tracks t" "placed_tracker place t" "placed_round place round" "real_time now"
  shows "placed_tracker place (snd (Observe t round now))"
  unfolding placed_tracker_def
proof (intro allI impI)
  fix k e assume e: "map_of (tk_open (snd (Observe t round now))) k = Some e"
  show "real_time (ep_opened e)
     \<and> place (fst k) = (fi_signal (ep_finding e), sc_project (fi_scope (ep_finding e)), sc_environment (fi_scope (ep_finding e)))"
  proof (cases "map_of (current round) k")
    case None
    with e have "map_of (tk_open t) k = Some e" by (simp add: Observe_open [OF assms(1)] split: option.splits if_splits)
    from placed_trackerD [OF assms(2) this] show ?thesis by blast
  next
    case (Some f)
    with e have e: "e = \<lparr>ep_finding = f, ep_opened = (case map_of (tk_open t) k of None \<Rightarrow> now | Some was \<Rightarrow> ep_opened was), ep_read = now\<rparr>"
      by (simp add: Observe_open [OF assms(1)])
    from placed_current [OF assms(3) Some] placed_trackerD(1) [OF assms(2)] assms(4) show ?thesis
      unfolding e by (simp split: option.split)
  qed
qed

lemma fits_Observe:
  assumes "tracks t" "placed_tracker place t" "placed_round place round" "real_time now"
  shows "fits place now (fst (Observe t round now))"
  unfolding fits_def
proof (intro conjI ballI rows_distinct [OF assms(1)] assms(4))
  fix c assume "c \<in> set (fst (Observe t round now))"
  then consider k f where "opens t round now k f c" | k was where "resolves t round now k was c"
    unfolding set_rows [OF assms(1)] by blast
  then have "tn_at c = now \<and> placed place c \<and> real_time (tn_opened c)"
  proof cases
    case 1
    then show ?thesis using placed_current [OF assms(3)] assms(4) by (auto simp: opens_def placed_def)
  next
    case 2
    then have "map_of (tk_open t) k = Some was" by (simp add: resolves_def)
    from placed_trackerD [OF assms(2) this] 2 show ?thesis by (simp add: resolves_def placed_def)
  qed
  then show "tn_at c = now" "placed place c" "real_time (tn_opened c)" by blast+
qed

subsection \<open>Two trackers that agree\<close>

definition agree :: "tracker \<Rightarrow> tracker \<Rightarrow> bool" where
  "agree t u \<longleftrightarrow> tracks t \<and> tracks u \<and> (\<forall>k. rel_option (\<lambda>e e'. fi_signal (ep_finding e) = fi_signal (ep_finding e')
     \<and> truncate_ms (ep_opened e) = truncate_ms (ep_opened e')) (map_of (tk_open t) k) (map_of (tk_open u) k))"

text \<open>What a row says, up to the text of the finding and less than a millisecond of its age.\<close>

definition essence :: "change \<Rightarrow> string \<times> string \<times> key \<times> time \<times> time" where
  "essence c = (tn_state c, tn_signal c, Key c, tn_at c, truncate_ms (tn_opened c))"

lemma agreeD: "agree t u \<Longrightarrow> rel_option (\<lambda>e e'. fi_signal (ep_finding e) = fi_signal (ep_finding e')
     \<and> truncate_ms (ep_opened e) = truncate_ms (ep_opened e')) (map_of (tk_open t) k) (map_of (tk_open u) k)"
  unfolding agree_def by blast

lemma agree_None: "agree t u \<Longrightarrow> map_of (tk_open t) k = None \<longleftrightarrow> map_of (tk_open u) k = None"
  by (drule agreeD [where k = k]) (auto elim: option.rel_cases)

lemma agree_Some:
  assumes "agree t u" "map_of (tk_open t) k = Some e"
  obtains e' where "map_of (tk_open u) k = Some e'" "fi_signal (ep_finding e) = fi_signal (ep_finding e')"
    "truncate_ms (ep_opened e) = truncate_ms (ep_opened e')"
  using agreeD [OF assms(1), of k] unfolding assms(2) by (auto elim: option.rel_cases)

lemma agree_sym: "agree t u \<Longrightarrow> agree u t"
  unfolding agree_def by (simp add: option.rel_sel)

lemma agree_rows:
  assumes "agree t u" "c \<in> set (fst (Observe t round now))"
  shows "essence c \<in> essence ` set (fst (Observe u round now))"
proof -
  have tu: "tracks t" "tracks u" using assms(1) by (simp_all add: agree_def)
  consider k f where "opens t round now k f c" | k was where "resolves t round now k was c"
    using assms(2) unfolding set_rows [OF tu(1)] by blast
  then show ?thesis
  proof cases
    case 1
    then have "opens u round now k f (transition_row u StateOpen k f now now)"
      using agree_None [OF assms(1), of k] by (simp add: opens_def)
    then have "transition_row u StateOpen k f now now \<in> set (fst (Observe u round now))"
      unfolding set_rows [OF tu(2)] by blast
    moreover have "essence c = essence (transition_row u StateOpen k f now now)" using 1 by (simp add: opens_def essence_def)
    ultimately show ?thesis by blast
  next
    case 2
    then have "map_of (tk_open t) k = Some was" by (simp add: resolves_def)
    then obtain e' where e: "map_of (tk_open u) k = Some e'" "fi_signal (ep_finding was) = fi_signal (ep_finding e')"
      "truncate_ms (ep_opened was) = truncate_ms (ep_opened e')"
      by (rule agree_Some [OF assms(1)])
    let ?c = "transition_row u StateResolved k (ep_finding e') now (ep_opened e')"
    have "resolves u round now k e' ?c" using 2 e by (simp add: resolves_def)
    then have "?c \<in> set (fst (Observe u round now))" unfolding set_rows [OF tu(2)] by blast
    moreover have "essence c = essence ?c" using 2 e by (simp add: resolves_def essence_def)
    ultimately show ?thesis by blast
  qed
qed

lemma agree_same_rows:
  assumes "agree t u"
  shows "map essence (fst (Observe t round now)) = map essence (fst (Observe u round now))"
proof (rule sorted_keys_unique [where f = "\<lambda>e. fst (snd (snd e))"])
  have keys: "map (\<lambda>e. fst (snd (snd e))) (map essence cs) = map Key cs" for cs by (simp add: essence_def)
  have tu: "tracks t" "tracks u" using assms by (simp_all add: agree_def)
  show "sorted (map (\<lambda>e. fst (snd (snd e))) (map essence (fst (Observe t round now))))"
    "sorted (map (\<lambda>e. fst (snd (snd e))) (map essence (fst (Observe u round now))))"
    unfolding keys by (rule rows_sorted)+
  show "distinct (map (\<lambda>e. fst (snd (snd e))) (map essence (fst (Observe t round now))))"
    "distinct (map (\<lambda>e. fst (snd (snd e))) (map essence (fst (Observe u round now))))"
    unfolding keys by (rule rows_distinct tu)+
  show "set (map essence (fst (Observe t round now))) = set (map essence (fst (Observe u round now)))"
    using agree_rows [OF assms] agree_rows [OF agree_sym [OF assms]] by auto
qed

lemma agree_Observe:
  assumes "agree t u"
  shows "agree (snd (Observe t round now)) (snd (Observe u round now))"
proof -
  have tu: "tracks t" "tracks u" using assms by (simp_all add: agree_def)
  show ?thesis unfolding agree_def Observe_open [OF tu(1)] Observe_open [OF tu(2)]
  proof (intro conjI tracks_Observe tu allI)
    fix k
    from agreeD [OF assms, of k] show "rel_option (\<lambda>e e'. fi_signal (ep_finding e) = fi_signal (ep_finding e')
       \<and> truncate_ms (ep_opened e) = truncate_ms (ep_opened e'))
      (case map_of (current round) k of
         None \<Rightarrow> (case map_of (tk_open t) k of None \<Rightarrow> None
             | Some was \<Rightarrow> if blind round (fi_signal (ep_finding was)) then Some was else None)
       | Some f \<Rightarrow> Some \<lparr>ep_finding = f, ep_opened = (case map_of (tk_open t) k of None \<Rightarrow> now | Some was \<Rightarrow> ep_opened was), ep_read = now\<rparr>)
      (case map_of (current round) k of
         None \<Rightarrow> (case map_of (tk_open u) k of None \<Rightarrow> None
             | Some was \<Rightarrow> if blind round (fi_signal (ep_finding was)) then Some was else None)
       | Some f \<Rightarrow> Some \<lparr>ep_finding = f, ep_opened = (case map_of (tk_open u) k of None \<Rightarrow> now | Some was \<Rightarrow> ep_opened was), ep_read = now\<rparr>)"
      by (rule option.rel_cases) (simp_all split: option.split)
  qed
qed

lemma agree_observe_all:
  "agree t u \<Longrightarrow> map essence (fst (observe_all t rounds)) = map essence (fst (observe_all u rounds))"
  by (induction rounds arbitrary: t u) (simp_all add: observe_all_Cons agree_same_rows agree_Observe)

subsection \<open>The loop over any store\<close>

lemma agree_refl: "tracks t \<Longrightarrow> agree t t"
  by (simp add: agree_def option.rel_refl)

lemma map_of_rev_distinct:
  assumes "distinct (map fst xs)"
  shows "map_of (rev xs) = map_of xs"
proof
  fix k
  have same: "map_of (rev xs) k = Some v \<longleftrightarrow> map_of xs k = Some v" for v
    using assms by (simp add: map_of_eq_Some_iff rev_map [symmetric])
  show "map_of (rev xs) k = map_of xs k"
  proof (cases "map_of xs k")
    case None
    have "map_of (rev xs) k \<noteq> Some a" for a unfolding same None by simp
    then show ?thesis unfolding None by (cases "map_of (rev xs) k") auto
  next
    case (Some v)
    with same [of v] show ?thesis by simp
  qed
qed

lemma Restore_open:
  assumes "distinct (map Key rows)"
  shows "map_of (tk_open (Restore t rows)) k = map_option (\<lambda>c. \<lparr>ep_finding = Finding c,
      ep_opened = (if is_zero (tn_opened c) then tn_at c else tn_opened c), ep_read = zero_time\<rparr>) (by_key rows k)"
proof -
  have "map_of (rev (map (\<lambda>c. (Key c, e c)) rows)) k = map_option e (by_key rows k)" for e :: "change \<Rightarrow> episode"
  proof -
    have "map_of (rev (map (\<lambda>c. (Key c, e c)) rows)) k = map_of (map (\<lambda>c. (Key c, e c)) rows) k"
      using assms by (subst map_of_rev_distinct) (simp_all add: comp_def)
    also have "\<dots> = map_option e (by_key rows k)"
      unfolding by_key_def by (induction rows) auto
    finally show ?thesis .
  qed
  then show ?thesis by (simp add: Restore_def fold_update_map map_of_fold_update)
qed

context history
begin

lemma inserted:
  assumes "ok h" "newer h now" "tracks t" "placed_tracker place t" "placed_round place round" "real_time now"
    and "holds h = (\<lambda>k. map_option truncate_ms (held_open t k))"
  shows "ok (insert_rows h (fst (Observe t round now)))"
    "truncate_ms now < truncate_ms later \<Longrightarrow> newer (insert_rows h (fst (Observe t round now))) later"
    "holds (insert_rows h (fst (Observe t round now))) = (\<lambda>k. map_option truncate_ms (held_open (snd (Observe t round now)) k))"
proof -
  have fit: "fits place now (fst (Observe t round now))" by (rule fits_Observe [OF assms(3-6)])
  then show "ok (insert_rows h (fst (Observe t round now)))"
    "truncate_ms now < truncate_ms later \<Longrightarrow> newer (insert_rows h (fst (Observe t round now))) later"
    using assms(1,2) insert_ok insert_newer by blast+
  show "holds (insert_rows h (fst (Observe t round now))) = (\<lambda>k. map_option truncate_ms (held_open (snd (Observe t round now)) k))"
  proof
    fix k
    have rows: "by_key (fst (Observe t round now)) k = Some c \<Longrightarrow> held_open (snd (Observe t round now)) k = applied c" for c
      using replay_key [OF assms(3)] by (simp add: by_key_Some [OF rows_distinct [OF assms(3)]]) blast
    have quiet: "by_key (fst (Observe t round now)) k = None \<Longrightarrow> held_open (snd (Observe t round now)) k = held_open t k"
      unfolding by_key_None by (rule replay_quiet [OF assms(3)])
    show "holds (insert_rows h (fst (Observe t round now))) k = map_option truncate_ms (held_open (snd (Observe t round now)) k)"
      using rows quiet by (simp add: insert_holds [OF assms(1,2) fit] assms(7) split: option.split)
  qed
qed

lemma recorded:
  assumes "ok h" "tracks t" "placed_tracker place t" "\<forall>r \<in> set rounds. placed_round place (fst r) \<and> real_time (snd r)"
    and "holds h = (\<lambda>k. map_option truncate_ms (held_open t k))" "\<forall>now. truncate_ms start < truncate_ms now \<longrightarrow> newer h now"
    and "dated start rounds" "record_all insert_rows h t rounds = (h', t')"
  shows "ok h' \<and> tracks t' \<and> placed_tracker place t' \<and> t' = snd (observe_all t rounds)
    \<and> holds h' = (\<lambda>k. map_option truncate_ms (held_open t' k))"
  using assms
proof (induction rounds arbitrary: h t start)
  case (Cons r rounds)
  have now: "newer h (snd r)" using Cons.prems(6,7) by simp
  have r: "placed_round place (fst r)" "real_time (snd r)" using Cons.prems(4) by simp_all
  note step = inserted [OF Cons.prems(1) now Cons.prems(2,3) r Cons.prems(5)]
  have "ok h' \<and> tracks t' \<and> placed_tracker place t' \<and> t' = snd (observe_all (snd (Observe t (fst r) (snd r))) rounds)
    \<and> holds h' = (\<lambda>k. map_option truncate_ms (held_open t' k))"
    using step Cons.prems r
    by (intro Cons.IH [where start = "snd r"] tracks_Observe placed_Observe) simp_all
  then show ?case by (auto simp: observe_all_Cons)
qed simp

lemma seeded_agrees:
  assumes "ok h" "tracks t" "placed_tracker place t" "holds h = (\<lambda>k. map_option truncate_ms (held_open t k))"
  shows "agree t (Restore u (open_rows h))"
  unfolding agree_def
proof (intro conjI assms(2) distinct_restore allI)
  fix k
  have opened: "map_option tn_opened (by_key (open_rows h) k) = map_option truncate_ms (held_open t k)"
    using open_holds [OF assms(1)] assms(4) by simp
  show "rel_option (\<lambda>e e'. fi_signal (ep_finding e) = fi_signal (ep_finding e')
      \<and> truncate_ms (ep_opened e) = truncate_ms (ep_opened e')) (map_of (tk_open t) k) (map_of (tk_open (Restore u (open_rows h))) k)"
  proof (cases "by_key (open_rows h) k")
    case None
    with opened show ?thesis by (simp add: Restore_open [OF open_distinct [OF assms(1)]] held_open_def)
  next
    case (Some c)
    with opened obtain e where e: "map_of (tk_open t) k = Some e" "tn_opened c = truncate_ms (ep_opened e)"
      by (cases "map_of (tk_open t) k") (auto simp: held_open_def)
    have c: "c \<in> set (open_rows h)" "Key c = k" using Some by (simp_all add: by_key_Some [OF open_distinct [OF assms(1)]])
    have "tn_signal c = fi_signal (ep_finding e)" "real_time (tn_opened c)"
      using open_signal [OF assms(1) c(1)] placed_trackerD(2) [OF assms(3) e(1)] c(2) by (auto simp: Key_def)
    with e Some real_time_nonzero show ?thesis by (simp add: Restore_open [OF open_distinct [OF assms(1)]] Finding_def)
  qed
qed

text \<open>A tracker seeded from the store records the rounds that follow as its predecessor would have.\<close>

lemma takeover:
  assumes "\<forall>r \<in> set rounds. placed_round place (fst r) \<and> real_time (snd r)" "dated start rounds"
    and "record_all insert_rows fresh (NewTracker catalogue) rounds = (h, t)"
  shows "map essence (fst (observe_all (Restore u (open_rows h)) later)) = map essence (fst (observe_all t later))"
proof -
  have "ok h \<and> tracks t \<and> placed_tracker place t \<and> t = snd (observe_all (NewTracker catalogue) rounds)
      \<and> holds h = (\<lambda>k. map_option truncate_ms (held_open t k))"
    using assms fresh_ok fresh_holds fresh_newer
    by (intro recorded) (simp_all add: placed_tracker_def held_open_def)
  then show ?thesis using seeded_agrees agree_observe_all by metis
qed

end

subsection \<open>The telemetry store\<close>

definition ch_insert :: "time \<Rightarrow> signal_transition list \<Rightarrow> change list \<Rightarrow> signal_transition list" where
  "ch_insert clock table rows = InsertSignalTransitions clock table (map TransitionRow rows)"

definition ch_open :: "signal_transition list \<Rightarrow> change list" where
  "ch_open table = map TransitionFrom (OpenSignalTransitions table)"

definition stored_key :: "signal_transition \<Rightarrow> key" where
  "stored_key r = Key (st_change r)"

definition ch_holds :: "signal_transition list \<Rightarrow> key \<rightharpoonup> time" where
  "ch_holds table k =
     (let rows = filter (\<lambda>r. stored_key r = k) table in if rows = [] then None else applied (st_change (newest rows)))"

definition ch_newer :: "signal_transition list \<Rightarrow> time \<Rightarrow> bool" where
  "ch_newer table now \<longleftrightarrow> (\<forall>r \<in> set table. tn_at (st_change r) < truncate_ms now)"

definition ch_ok :: "(string \<Rightarrow> string \<times> string \<times> string) \<Rightarrow> signal_transition list \<Rightarrow> bool" where
  "ch_ok place table \<longleftrightarrow> (\<forall>r \<in> set table. placed place (st_change r) \<and> real_time (tn_opened (st_change r)))"

lemma sort_key_snoc:
  assumes "\<forall>y \<in> set xs. f y \<le> f x"
  shows "sort_key f (xs @ [x]) = sort_key f xs @ [x]"
proof -
  have insort: "insort_key f y (zs @ [x]) = insort_key f y zs @ [x]" if "f y \<le> f x" for y zs
    using that by (induction zs) auto
  show ?thesis using assms by (induction xs) (simp_all add: insort)
qed

lemma newest_snoc: "\<forall>y \<in> set rows. tn_at (st_change y) \<le> tn_at (st_change x) \<Longrightarrow> newest (rows @ [x]) = x"
  by (simp add: newest_def sort_key_snoc)

lemma newest_in: "rows \<noteq> [] \<Longrightarrow> newest rows \<in> set rows"
  unfolding newest_def by (metis last_in_set set_sort sort_key_simps(1) set_empty)

lemma stored_sel [simp]:
  "stored_key (store_row clock (TransitionRow c)) = Key c"
  by (simp add: stored_key_def store_row_def TransitionRow_def Key_def Let_def)

lemma stored_placed [simp]: "placed place (st_change (store_row clock (TransitionRow c))) = placed place c"
  by (simp add: placed_def store_row_def TransitionRow_def Let_def)

lemma stored_times:
  assumes "real_time (tn_at c)" "real_time (tn_opened c)"
  shows "tn_at (st_change (store_row clock (TransitionRow c))) = truncate_ms (tn_at c)"
    "tn_opened (st_change (store_row clock (TransitionRow c))) = truncate_ms (tn_opened c)"
    "applied (st_change (store_row clock (TransitionRow c))) = map_option truncate_ms (applied c)"
  using assms [THEN real_time_nonzero] by (simp_all add: store_row_def TransitionRow_def Let_def applied_def)

lemma filter_by_key: "distinct (map Key rows) \<Longrightarrow>
    filter (\<lambda>c. Key c = k) rows = (case by_key rows k of None \<Rightarrow> [] | Some c \<Rightarrow> [c])"
proof (induction rows)
  case (Cons c rows)
  have "by_key (c # rows) k = (if k = Key c then Some c else by_key rows k)" by (simp add: by_key_def)
  moreover have "filter (\<lambda>d. Key d = Key c) rows = []" using Cons.prems by (auto simp: filter_empty_conv image_iff)
  ultimately show ?case using Cons by (cases "k = Key c") auto
qed (simp add: by_key_def)

lemma ch_insert_filter: "filter (\<lambda>r. stored_key r = k) (ch_insert clock table rows)
    = filter (\<lambda>r. stored_key r = k) table @ map (store_row clock \<circ> TransitionRow) (filter (\<lambda>c. Key c = k) rows)"
  by (simp add: ch_insert_def InsertSignalTransitions_def filter_map comp_def)

lemma same_group:
  assumes "ch_ok place table" "r \<in> set table" "r' \<in> set table"
  shows "group_key r = group_key r' \<longleftrightarrow> stored_key r = stored_key r'"
proof -
  have "place (tn_fingerprint (st_change r)) = (tn_signal (st_change r), sc_project (tn_scope (st_change r)), sc_environment (tn_scope (st_change r)))"
    "place (tn_fingerprint (st_change r')) = (tn_signal (st_change r'), sc_project (tn_scope (st_change r')), sc_environment (tn_scope (st_change r')))"
    using assms by (simp_all add: ch_ok_def placed_def)
  then show ?thesis
    by (cases "tn_fingerprint (st_change r) = tn_fingerprint (st_change r')") (auto simp: group_key_def stored_key_def Key_def)
qed

lemma open_row:
  assumes "ch_ok place table"
  shows "c \<in> set (ch_open table) \<and> Key c = k \<longleftrightarrow>
    (let rows = filter (\<lambda>r. stored_key r = k) table
     in rows \<noteq> [] \<and> tn_state (st_change (newest rows)) = StateOpen \<and> c = TransitionFrom (newest rows))"
    (is "?l \<longleftrightarrow> ?r")
proof -
  have key [simp]: "Key (TransitionFrom r) = stored_key r" for r by (simp add: TransitionFrom_def stored_key_def Key_def)
  let ?of = "\<lambda>r. filter (\<lambda>s. stored_key s = stored_key r) table"
  have group: "filter (\<lambda>s. group_key s = group_key r) table = ?of r" if "r \<in> set table" for r
    by (rule filter_cong [OF refl]) (rule same_group [OF assms _ that])
  have newest: "stored_key (newest (?of r)) = stored_key r" if "r \<in> set table" for r
    using newest_in [of "?of r"] that by (auto simp: filter_empty_conv)
  have "set (map (\<lambda>g. newest (filter (\<lambda>s. group_key s = g) table)) (sort (remdups (map group_key table)))) = (\<lambda>r. newest (?of r)) ` set table"
    by (simp add: image_image group cong: image_cong)
  then have rows: "c \<in> set (ch_open table) \<longleftrightarrow>
      (\<exists>r \<in> set table. tn_state (st_change (newest (?of r))) = StateOpen \<and> c = TransitionFrom (newest (?of r)))"
    unfolding ch_open_def OpenSignalTransitions_def by auto
  have "?l \<longleftrightarrow> (\<exists>r \<in> set table. stored_key r = k \<and> tn_state (st_change (newest (?of r))) = StateOpen
      \<and> c = TransitionFrom (newest (?of r)))"
    unfolding rows using newest by auto
  also have "\<dots> \<longleftrightarrow> ?r"
    by (auto simp: Let_def filter_empty_conv)
  finally show ?thesis .
qed

lemma Key_TransitionFrom [simp]: "Key (TransitionFrom r) = stored_key r"
  by (simp add: TransitionFrom_def stored_key_def Key_def)

lemma ch_open_distinct:
  assumes "ch_ok place table"
  shows "distinct (map Key (ch_open table))"
proof -
  let ?N = "\<lambda>g. newest (filter (\<lambda>r. group_key r = g) table)"
  let ?gs = "sort (remdups (map group_key table))"
  have N: "?N g \<in> set table \<and> group_key (?N g) = g" if "g \<in> set ?gs" for g
    using newest_in [of "filter (\<lambda>r. group_key r = g) table"] that by (auto simp: filter_empty_conv)
  have "inj_on (\<lambda>g. stored_key (?N g)) (set ?gs)"
  proof (rule inj_onI)
    fix g g' assume g: "g \<in> set ?gs" "g' \<in> set ?gs" and same: "stored_key (?N g) = stored_key (?N g')"
    have "group_key (?N g) = group_key (?N g')"
      unfolding same_group [OF assms conjunct1 [OF N [OF g(1)]] conjunct1 [OF N [OF g(2)]]] by (rule same)
    then show "g = g'" by (simp only: conjunct2 [OF N [OF g(1)]] conjunct2 [OF N [OF g(2)]])
  qed
  moreover have "distinct ?gs" by simp
  ultimately have "distinct (map (\<lambda>g. stored_key (?N g)) ?gs)" by (simp only: distinct_map simp_thms)
  then have "distinct (map stored_key (map ?N ?gs))" by (simp only: map_map comp_def)
  then have "distinct (map stored_key (filter P (map ?N ?gs)))" for P by (rule distinct_map_filter)
  moreover have "map Key (ch_open table) = map stored_key (filter (\<lambda>r. tn_state (st_change r) = StateOpen) (map ?N ?gs))"
    unfolding ch_open_def OpenSignalTransitions_def map_map by (rule map_cong [OF refl]) simp
  ultimately show ?thesis by simp
qed

lemma ch_open_holds:
  assumes ok: "ch_ok place table"
  shows "map_option tn_opened (by_key (ch_open table) k) = ch_holds table k"
proof (cases "by_key (ch_open table) k")
  case None
  then have "\<not> (c \<in> set (ch_open table) \<and> Key c = k)" for c unfolding by_key_None by blast
  then show ?thesis using None unfolding open_row [OF ok] by (auto simp: ch_holds_def Let_def applied_def)
next
  case (Some c)
  then have "c \<in> set (ch_open table) \<and> Key c = k" by (simp add: by_key_Some ch_open_distinct [OF ok])
  then show ?thesis using Some unfolding open_row [OF ok]
    by (auto simp: ch_holds_def Let_def applied_def TransitionFrom_def)
qed

interpretation store: history place "[]" "ch_insert clock" ch_open ch_holds ch_newer "ch_ok place" for place clock
proof
  show "ch_ok place []" "ch_holds [] = (\<lambda>_. None)" "ch_newer [] now" for now
    by (simp_all add: ch_ok_def ch_holds_def ch_newer_def fun_eq_iff)
next
  fix table now rows assume ok: "ch_ok place table" and new: "ch_newer table now" and fit: "fits place now rows"
  have times: "real_time (tn_at c)" "real_time (tn_opened c)" "placed place c" "tn_at c = now" if "c \<in> set rows" for c
    using fit that by (auto simp: fits_def)
  have rows: "set (ch_insert clock table rows) = set table \<union> (store_row clock \<circ> TransitionRow) ` set rows"
    by (simp add: ch_insert_def InsertSignalTransitions_def image_image)
  show "ch_ok place (ch_insert clock table rows)"
    using ok times stored_times(2) by (auto simp: ch_ok_def rows)
  fix k
  show "ch_holds (ch_insert clock table rows) k =
      (case by_key rows k of None \<Rightarrow> ch_holds table k | Some c \<Rightarrow> map_option truncate_ms (applied c))"
  proof (cases "by_key rows k")
    case None
    then show ?thesis using fit by (simp add: ch_holds_def ch_insert_filter filter_by_key fits_def)
  next
    case (Some c)
    then have c: "c \<in> set rows" using fit by (simp add: by_key_Some fits_def)
    have "newest (filter (\<lambda>r. stored_key r = k) table @ [store_row clock (TransitionRow c)]) = store_row clock (TransitionRow c)"
      using new times(4) [OF c] stored_times(1) [OF times(1,2) [OF c], where clock = clock]
      by (intro newest_snoc) (auto simp: ch_newer_def less_imp_le)
    with Some fit stored_times(3) [OF times(1,2) [OF c]] show ?thesis
      by (simp add: ch_holds_def ch_insert_filter filter_by_key fits_def)
  qed
next
  fix table now rows later
  assume "ch_newer table now" "fits place now rows" "truncate_ms now < truncate_ms later"
  then show "ch_newer (ch_insert clock table rows) later"
    using stored_times(1) [where clock = clock]
    by (fastforce simp: ch_newer_def ch_insert_def InsertSignalTransitions_def fits_def)
next
  fix table assume ok: "ch_ok place table"
  show "distinct (map Key (ch_open table))" by (rule ch_open_distinct [OF ok])
  show "map_option tn_opened (by_key (ch_open table) k) = ch_holds table k" for k by (rule ch_open_holds [OF ok])
  show "tn_signal c = fst (place (tn_fingerprint c)) \<and> real_time (tn_opened c)" if "c \<in> set (ch_open table)" for c
  proof -
    from that have "c \<in> set (ch_open table) \<and> Key c = Key c" by simp
    then have "let rows = filter (\<lambda>r. stored_key r = Key c) table
        in rows \<noteq> [] \<and> tn_state (st_change (newest rows)) = StateOpen \<and> c = TransitionFrom (newest rows)"
      by (simp only: open_row [OF ok])
    then have c: "filter (\<lambda>r. stored_key r = Key c) table \<noteq> []" "c = TransitionFrom (newest (filter (\<lambda>r. stored_key r = Key c) table))"
      unfolding Let_def by blast+
    define r where "r = newest (filter (\<lambda>r. stored_key r = Key c) table)"
    have "r \<in> set table" using newest_in [OF c(1)] by (simp add: r_def)
    moreover have "c = TransitionFrom r" using c(2) by (simp only: r_def)
    ultimately show ?thesis using ok by (auto simp: ch_ok_def placed_def TransitionFrom_def)
  qed
qed

end
