(* ===== verification/SignalRounds.thy ===== *)
theory SignalRounds
  imports SignalStore
begin

section \<open>Rounds of a catalogue, and the history they leave\<close>

text \<open>
  The properties of the path from a rule to a row of the history: what a registered catalogue can
  record, what the rows say, that a condition resolves once its rule sees it gone, and that a
  tracker seeded from the store goes on as the one that wrote it.
\<close>

subsection \<open>Registered catalogues\<close>

lemma register_Inr:
  "register ss acc = Inr listed \<Longrightarrow> listed = acc @ ss \<and> (\<forall>s \<in> set ss. validate_signal s = None)
     \<and> (distinct (map si_id acc) \<longrightarrow> distinct (map si_id listed))"
proof (induction ss arbitrary: acc)
  case (Cons s ss)
  then have s: "validate_signal s = None" "si_id s \<notin> si_id ` set acc" "register ss (acc @ [s]) = Inr listed"
    by (auto split: option.splits if_splits)
  from Cons.IH [OF s(3)] have l: "listed = (acc @ [s]) @ ss" "\<forall>s \<in> set ss. validate_signal s = None"
    "distinct (map si_id (acc @ [s])) \<longrightarrow> distinct (map si_id listed)" by blast+
  have "distinct (map si_id acc) \<longrightarrow> distinct (map si_id (acc @ [s]))" using s(2) by auto
  with l s(1) show ?case by (intro conjI) (simp_all del: map_append distinct_append)
qed simp

lemma NewRegistry_Inr:
  assumes "NewRegistry signals = Inr reg"
  shows "set reg = set signals" "distinct (map si_id reg)" "sorted (map si_id reg)" "\<forall>s \<in> set reg. validate_signal s = None"
proof -
  obtain listed where l: "register signals [] = Inr listed" "reg = sort_key si_id listed"
    using assms by (auto simp: NewRegistry_def split: sum.splits)
  from register_Inr [OF l(1)] show "set reg = set signals" "distinct (map si_id reg)" "\<forall>s \<in> set reg. validate_signal s = None"
    by (auto simp: l(2) distinct_map)
  show "sorted (map si_id reg)" by (simp add: l(2))
qed

lemma tier_refusal_None:
  "tier_refusal i ts audience to = None \<Longrightarrow> to \<in> set (Deliveries audience) \<Longrightarrow> TierValid (fst (TiersFor ts to))"
  by (auto simp: tier_refusal_def Let_def split_beta split: if_splits)

lemma validated:
  assumes "validate_signal s = None"
  shows "1 \<le> si_version s" "si_audience s = AudienceOperator \<or> si_audience s = AudienceDeveloper"
    "to \<in> set (Deliveries (si_audience s)) \<Longrightarrow> TierValid (fst (TiersFor (si_tiers s) to))"
proof -
  show "1 \<le> si_version s" "si_audience s = AudienceOperator \<or> si_audience s = AudienceDeveloper"
    using assms by (auto simp: validate_signal_def split: if_splits)
  have "validate_tiers (si_id s) (si_tiers s) (si_audience s) = None"
    using assms by (auto simp: validate_signal_def split: if_splits)
  then have "tier_refusal (si_id s) (si_tiers s) (si_audience s) AudienceDeveloper = None"
    "tier_refusal (si_id s) (si_tiers s) (si_audience s) AudienceOperator = None"
    by (auto simp: validate_tiers_def split: option.splits)
  moreover assume "to \<in> set (Deliveries (si_audience s))"
  moreover from this have "to = AudienceDeveloper \<or> to = AudienceOperator" by (auto simp: Deliveries_def split: if_splits)
  ultimately show "TierValid (fst (TiersFor (si_tiers s) to))" using tier_refusal_None by blast
qed

lemma own_delivery: "a = AudienceOperator \<or> a = AudienceDeveloper \<Longrightarrow> a \<in> set (Deliveries a)"
  by (auto simp: Deliveries_def)

lemma lowered_valid: "TierValid declared \<Longrightarrow> TierValid (lowered declared own)"
  by (simp add: lowered_def)

lemma lowered_rank: "TierRank (lowered declared own) \<le> TierRank declared"
  "TierValid own \<Longrightarrow> TierRank (lowered declared own) \<le> TierRank own"
  by (auto simp: lowered_def)

text \<open>Rules fire in their own name, as every one that goes through \<open>fire\<close> does.\<close>

definition self_named :: "'e signal list \<Rightarrow> bool" where
  "self_named signals \<longleftrightarrow> (\<forall>s \<in> set signals. \<forall>rule sn. \<forall>f \<in> set (rule sn). si_evaluate s = Some rule \<longrightarrow> fi_signal f = si_id s)"

text \<open>What the registry stamps on a finding.\<close>

definition stamped :: "'e signal list \<Rightarrow> finding_row \<Rightarrow> bool" where
  "stamped reg f \<longleftrightarrow> (\<exists>s \<in> set reg. fi_signal f = si_id s \<and> fi_audience f = si_audience s \<and> TierValid (fi_tier f)
     \<and> TierRank (fi_tier f) \<le> TierRank (fst (TiersFor (si_tiers s) (si_audience s))))"

lemma unevaluable_Some:
  "unevaluable_from s sn inputs = Some fs \<Longrightarrow> f \<in> set fs \<Longrightarrow> \<exists>input reason. f = unread_finding s sn input reason"
  by (induction inputs) (auto split: prod.splits input_state.splits, blast)

lemma stamped_answer:
  assumes "s \<in> set reg" "validate_signal s = None" "self_named reg" "f \<in> set (answer sn s)"
  shows "stamped reg f"
proof -
  have valid: "TierValid (fst (TiersFor (si_tiers s) (si_audience s)))"
    using validated [OF assms(2)] own_delivery by blast
  show ?thesis
  proof (cases "unevaluable s sn")
    case None
    then obtain f' rule where f: "f = stamp_finding s sn f'" "si_evaluate s = Some rule" "f' \<in> set (rule sn)"
      using assms(4) by (cases "si_evaluate s") (auto simp: answer_def)
    then have "fi_signal f' = si_id s" using assms(1,3) unfolding self_named_def by blast
    then show ?thesis
      using assms(1) lowered_valid [OF valid] lowered_rank(1) by (auto simp: f(1) stamped_def stamp_finding_def)
  next
    case (Some fs)
    then have "f \<in> set fs" using assms(4) by (simp add: answer_def)
    with Some obtain input reason where "f = unread_finding s sn input reason"
      unfolding unevaluable_def by (metis unevaluable_Some)
    then show ?thesis using assms(1) valid by (auto simp: stamped_def unread_finding_def fire_def)
  qed
qed

lemma stamped_escalate [simp]: "stamped reg (escalate facts f) = stamped reg f"
  by (auto simp: escalate_def stamped_def split: option.split)

lemma stamped_Evaluate:
  assumes "\<forall>s \<in> set reg. validate_signal s = None" "self_named reg" "f \<in> set (Evaluate reg sn)"
  shows "stamped reg f"
proof -
  have pass: "stamped reg g" if "g \<in> set (run_pass reg sn' c)" for g sn' c
    using that stamped_answer [OF _ _ assms(2)] assms(1) by (auto simp: run_pass_def)
  have "f \<in> escalate (sn_continuity sn) ` set (run_pass reg (sn\<lparr>sn_policy := Normalised (sn_policy sn)\<rparr>) False)
      \<or> (\<exists>sn'. f \<in> set (run_pass reg sn' True))"
    using assms(3) by (auto simp: Evaluate_def Let_def SortFindings_def split: if_splits)
  then show ?thesis using pass by auto
qed

subsection \<open>Trackers over a catalogue\<close>

definition over :: "'e signal list \<Rightarrow> tracker \<Rightarrow> bool" where
  "over reg t \<longleftrightarrow> tracks t
     \<and> (\<forall>s \<in> set reg. map_of (tk_versions t) (si_id s) = Some (si_version s) \<and> map_of (tk_tiers t) (si_id s) = Some (si_tiers s))
     \<and> (\<forall>k e. map_of (tk_open t) k = Some e \<longrightarrow> stamped reg (ep_finding e) \<and> snd k \<in> set (Deliveries (fi_audience (ep_finding e))))"

lemma map_of_registered:
  "distinct (map si_id reg) \<Longrightarrow> s \<in> set reg \<Longrightarrow> map_of (rev (map (\<lambda>s. (si_id s, g s)) reg)) (si_id s) = Some (g s)"
  by (subst map_of_rev_distinct) (auto simp: comp_def map_of_eq_Some_iff)

lemma over_new:
  assumes "distinct (map si_id reg)"
  shows "over reg (NewTracker (Some reg))"
  by (simp add: over_def NewTracker_def Let_def fold_update_map map_of_fold_update tracks_def map_of_registered [OF assms])

lemma over_Observe:
  assumes "over reg t" "\<forall>f \<in> set round. stamped reg f"
  shows "over reg (snd (Observe t round now))"
proof -
  have t: "tracks t" using assms(1) by (simp add: over_def)
  have "stamped reg (ep_finding e) \<and> snd k \<in> set (Deliveries (fi_audience (ep_finding e)))"
    if "map_of (tk_open (snd (Observe t round now))) k = Some e" for k e
  proof (cases "map_of (current round) k")
    case None
    with that have "map_of (tk_open t) k = Some e" by (simp add: Observe_open [OF t] split: option.splits if_splits)
    with assms(1) show ?thesis unfolding over_def by blast
  next
    case (Some f)
    with that have "ep_finding e = f" by (auto simp: Observe_open [OF t])
    with current_Some [OF Some] assms(2) show ?thesis by simp
  qed
  with assms(1) tracks_Observe [OF t] show ?thesis by (simp add: over_def)
qed

definition row_typed :: "'e signal list \<Rightarrow> change \<Rightarrow> bool" where
  "row_typed reg c \<longleftrightarrow> (\<exists>s \<in> set reg. tn_signal c = si_id s \<and> tn_version c = si_version s
     \<and> tn_audience c \<in> set (Deliveries (si_audience s)) \<and> TierValid (tn_tier c)
     \<and> TierRank (tn_tier c) \<le> TierRank (fst (TiersFor (si_tiers s) (tn_audience c)))
     \<and> TierRank (tn_tier c) \<le> TierRank (fst (TiersFor (si_tiers s) (si_audience s))))"

lemma row_typed_row:
  assumes "over reg t" "\<forall>s \<in> set reg. validate_signal s = None" "stamped reg f" "snd k \<in> set (Deliveries (fi_audience f))"
  shows "row_typed reg (transition_row t state k f now opened)"
proof -
  obtain s where s: "s \<in> set reg" "fi_signal f = si_id s" "fi_audience f = si_audience s" "TierValid (fi_tier f)"
    "TierRank (fi_tier f) \<le> TierRank (fst (TiersFor (si_tiers s) (si_audience s)))"
    using assms(3) unfolding stamped_def by blast
  have maps: "map_of (tk_versions t) (si_id s) = Some (si_version s)" "map_of (tk_tiers t) (si_id s) = Some (si_tiers s)"
    using assms(1) s(1) by (simp_all add: over_def)
  have "TierValid (fst (TiersFor (si_tiers s) (snd k)))"
    using validated(3) assms(2,4) s(1,3) by metis
  then show ?thesis
    unfolding row_typed_def using s maps assms(4) lowered_rank(1) [of "fst (TiersFor (si_tiers s) (snd k))" "fi_tier f"]
      lowered_rank(2) [OF s(4), of "fst (TiersFor (si_tiers s) (snd k))"]
    by (intro bexI [OF _ s(1)]) (simp add: transition_row_def Let_def lowered_valid)
qed

lemma typed_Observe:
  assumes "over reg t" "\<forall>s \<in> set reg. validate_signal s = None" "\<forall>f \<in> set round. stamped reg f"
    and "c \<in> set (fst (Observe t round now))"
  shows "row_typed reg c"
proof -
  have t: "tracks t" using assms(1) by (simp add: over_def)
  consider k f where "opens t round now k f c" | k was where "resolves t round now k was c"
    using assms(4) unfolding set_rows [OF t] by blast
  then show ?thesis
  proof cases
    case 1
    then have f: "map_of (current round) k = Some f" "c = transition_row t StateOpen k f now now" by (simp_all add: opens_def)
    from current_Some [OF f(1)] assms(3) show ?thesis unfolding f(2) by (intro row_typed_row [OF assms(1,2)]) simp_all
  next
    case 2
    then have w: "map_of (tk_open t) k = Some was" "c = transition_row t StateResolved k (ep_finding was) now (ep_opened was)"
      by (simp_all add: resolves_def)
    from assms(1) w(1) show ?thesis unfolding w(2) over_def by (intro row_typed_row [OF assms(1,2)]) blast+
  qed
qed

lemma typed_history:
  assumes "\<forall>s \<in> set reg. validate_signal s = None" "\<forall>r \<in> set rounds. \<forall>f \<in> set (fst r). stamped reg f"
    and "over reg t" "c \<in> set (fst (observe_all t rounds))"
  shows "row_typed reg c"
  using assms(2-)
proof (induction rounds arbitrary: t)
  case (Cons r rounds)
  have r: "\<forall>f \<in> set (fst r). stamped reg f" "\<forall>r \<in> set rounds. \<forall>f \<in> set (fst r). stamped reg f"
    using Cons.prems(1) by simp_all
  have "c \<in> set (fst (Observe t (fst r) (snd r))) \<or> c \<in> set (fst (observe_all (snd (Observe t (fst r) (snd r))) rounds))"
    using Cons.prems(3) by (simp add: observe_all_Cons)
  then show ?case
    using typed_Observe [OF Cons.prems(2) assms(1) r(1)] Cons.IH [OF r(2) over_Observe [OF Cons.prems(2) r(1)]] by blast
qed simp

text \<open>The rounds a loop evaluates, one snapshot each.\<close>

definition evaluated :: "'e signal list \<Rightarrow> 'e snapshot list \<Rightarrow> (finding_row list \<times> time) list" where
  "evaluated reg sns = map (\<lambda>sn. (Evaluate reg sn, sn_now sn)) sns"

lemma recorded_typed:
  assumes "NewRegistry signals = Inr reg" "self_named signals"
    and "c \<in> set (fst (observe_all (NewTracker (Some reg)) (evaluated reg sns)))"
  shows "row_typed reg c"
proof -
  note reg = NewRegistry_Inr [OF assms(1)]
  have "self_named reg" using assms(2) by (simp add: self_named_def reg(1))
  then have "\<forall>r \<in> set (evaluated reg sns). \<forall>f \<in> set (fst r). stamped reg f"
    using stamped_Evaluate [OF reg(4)] by (auto simp: evaluated_def)
  from typed_history [OF reg(4) this over_new [OF reg(2)] assms(3)] show ?thesis .
qed

subsection \<open>A catalogue of one rule, for the witnesses\<close>

definition demo_scope :: scope where
  "demo_scope = \<lparr>sc_kind = ScopeEnvironment, sc_project = ''shop'', sc_environment = ''live'', sc_namespace = [],
     sc_node = [], sc_subject = []\<rparr>"

definition demo_rule :: "bool signal" where
  "demo_rule = \<lparr>si_id = ''env.broken'', si_version = 2, si_correlates = False, si_audience = AudienceDeveloper,
     si_tiers = \<lparr>ti_developer = TierTicket, ti_operator = TierLog\<rparr>, si_summary = ''an environment is broken'',
     si_requires = [''environments''],
     si_evaluate = Some (\<lambda>sn. if sn_estate sn
       then [fire ''env.broken'' SeverityWarning demo_scope (sn_now sn) ''broken'' ''it is broken'' ''/projects/shop''] else [])\<rparr>"

definition demo_snapshot :: "time \<Rightarrow> bool \<Rightarrow> bool \<Rightarrow> bool snapshot" where
  "demo_snapshot now readable broken = \<lparr>sn_now = now, sn_policy = DefaultPolicy,
     sn_inputs = (if readable then [] else [(''environments'', InputUnreadable, ''forbidden'')]),
     sn_continuity = (\<lambda>_. None), sn_round = [], sn_estate = broken\<rparr>"

lemma demo_registry: "NewRegistry [demo_rule] = Inr [demo_rule]"
  by (simp add: NewRegistry_def demo_rule_def validate_signal_def validate_tiers_def tier_refusal_def TiersFor_def
      Deliveries_def TierValid_def tier_defs audience_defs)

lemma demo_named: "self_named [demo_rule]"
  by (simp add: self_named_def demo_rule_def fire_def)

definition demo_finding :: "time \<Rightarrow> finding_row" where
  "demo_finding now = (fire ''env.broken'' SeverityWarning demo_scope now ''broken'' ''it is broken'' ''/projects/shop'')
     \<lparr>fi_audience := AudienceDeveloper, fi_tier := TierTicket, fi_policy := Provenance (Normalised DefaultPolicy)\<rparr>"

lemma demo_evaluates:
  "\<not> is_zero now \<Longrightarrow> Evaluate [demo_rule] (demo_snapshot now True True) = [demo_finding now]"
  "Evaluate [demo_rule] (demo_snapshot now True False) = []"
  "Evaluate [demo_rule] (demo_snapshot now False broken)
     = [unread_finding demo_rule (demo_snapshot now False broken\<lparr>sn_policy := Normalised DefaultPolicy\<rparr>) ''environments'' ''forbidden'']"
  by (simp_all add: Evaluate_def Let_def run_pass_def answer_def unevaluable_def demo_rule_def demo_snapshot_def inputState_def
      SortFindings_def escalate_def stamp_finding_def TiersFor_def lowered_def fire_def demo_finding_def unread_finding_def
      TierValid_def tier_defs audience_defs severity_defs)

definition demo_key :: "string \<Rightarrow> key" where
  "demo_key audience = (''env.broken/shop/live'', audience)"

lemma demo_current:
  "current [demo_finding now] = [(demo_key AudienceDeveloper, demo_finding now), (demo_key AudienceOperator, demo_finding now)]"
  "current [] = []"
  "current [unread_finding demo_rule sn input reason] = []"
  by (simp_all add: current_def deliveries_of_def demo_finding_def fire_def Deliveries_def severity_defs audience_defs
     Fingerprint_def Path_def demo_scope_def demo_key_def Let_def unread_finding_def join_def)


lemma demo_sel [simp]: "fi_signal (demo_finding now) = ''env.broken''" "sn_now (demo_snapshot now readable broken) = now"
    "fi_signal (unread_finding demo_rule sn input reason) = ''env.broken''" "si_id demo_rule = ''env.broken''"
    "fi_severity (unread_finding demo_rule sn input reason) = SeverityUnknown"
  by (simp_all add: demo_finding_def demo_snapshot_def unread_finding_def demo_rule_def fire_def)

lemma demo_reported:
  "\<not> reported [] k" "\<not> blind [] i" "reported [demo_finding now] (demo_key AudienceDeveloper)"
  "blind [unread_finding demo_rule sn input reason] ''env.broken''"
  by (simp_all add: reported_def demo_current blind_def)

lemma demo_keys_sorted [simp]: "demo_key AudienceDeveloper \<le> demo_key AudienceOperator" "demo_key AudienceDeveloper \<noteq> demo_key AudienceOperator"
  by (simp_all add: demo_key_def audience_defs)

lemma demo_first_round: "Observe (NewTracker catalogue) [demo_finding now] now =
    (map (\<lambda>a. transition_row (NewTracker catalogue) StateOpen (demo_key a) (demo_finding now) now now) [AudienceDeveloper, AudienceOperator],
     (NewTracker catalogue)\<lparr>tk_open := map (\<lambda>a. (demo_key a, \<lparr>ep_finding = demo_finding now, ep_opened = now, ep_read = now\<rparr>))
        [AudienceDeveloper, AudienceOperator]\<rparr>)"
  by (simp add: Observe_def demo_current Let_def sortTransitions_def)

lemma demo_first_row:
  "\<not> is_zero now \<Longrightarrow> fst (observe_all (NewTracker (Some [demo_rule])) (evaluated [demo_rule] [demo_snapshot now True True]))
     = map (\<lambda>a. transition_row (NewTracker (Some [demo_rule])) StateOpen (demo_key a) (demo_finding now) now now)
         [AudienceDeveloper, AudienceOperator]"
  by (simp add: evaluated_def demo_evaluates observe_all_Cons demo_first_round)

subsection \<open>The rows of a registered catalogue\<close>

lemma Lookup_registered:
  assumes "NewRegistry signals = Inr reg" "s \<in> set reg"
  shows "Lookup reg (si_id s) = Some s"
proof -
  obtain s' where l: "Lookup reg (si_id s) = Some s'"
    using assms(2) by (cases "Lookup reg (si_id s)") (auto simp: Lookup_def find_None_iff)
  then have s': "Lookup reg (si_id s) = Some s'" "si_id s' = si_id s" "s' \<in> set reg"
    by (auto simp: Lookup_def find_Some_iff)
  have "inj_on si_id (set reg)" using NewRegistry_Inr(2) [OF assms(1)] by (simp add: distinct_map)
  then show ?thesis using s' assms(2) by (auto dest: inj_onD)
qed

text \<open>
  C37. Type safety of the history: every row recorded for a registered catalogue is of one of its
  rules, of that rule's version, for an audience the rule delivers to, and carries a valid tier that
  is at most the one the rule declares for that audience.
\<close>

theorem recorded_rows_typed:
  assumes "NewRegistry signals = Inr reg" "self_named signals"
    and "c \<in> set (fst (observe_all (NewTracker (Some reg)) (evaluated reg sns)))"
  shows "\<exists>s \<in> set signals. Lookup reg (tn_signal c) = Some s \<and> tn_version c = si_version s
     \<and> tn_audience c \<in> set (Deliveries (si_audience s)) \<and> TierValid (tn_tier c)
     \<and> TierRank (tn_tier c) \<le> TierRank (fst (TiersFor (si_tiers s) (tn_audience c)))"
proof -
  obtain s where s: "s \<in> set reg" "tn_signal c = si_id s" "tn_version c = si_version s"
    "tn_audience c \<in> set (Deliveries (si_audience s))" "TierValid (tn_tier c)"
    "TierRank (tn_tier c) \<le> TierRank (fst (TiersFor (si_tiers s) (tn_audience c)))"
    using recorded_typed [OF assms] unfolding row_typed_def by blast
  moreover have "s \<in> set signals" using s(1) NewRegistry_Inr(1) [OF assms(1)] by simp
  ultimately show ?thesis using Lookup_registered [OF assms(1) s(1)] by auto
qed

theorem recorded_rows_typed_witness:
  "let c = transition_row (NewTracker (Some [demo_rule])) StateOpen (demo_key AudienceOperator) (demo_finding 5) 5 5
   in tn_tier c = TierLog \<and> tn_version c = 2 \<and> (\<exists>s \<in> set [demo_rule]. Lookup [demo_rule] (tn_signal c) = Some s \<and> tn_version c = si_version s
     \<and> tn_audience c \<in> set (Deliveries (si_audience s)) \<and> TierValid (tn_tier c)
     \<and> TierRank (tn_tier c) \<le> TierRank (fst (TiersFor (si_tiers s) (tn_audience c))))"
proof -
  let ?c = "transition_row (NewTracker (Some [demo_rule])) StateOpen (demo_key AudienceOperator) (demo_finding 5) 5 5"
  have "?c \<in> set (fst (observe_all (NewTracker (Some [demo_rule])) (evaluated [demo_rule] [demo_snapshot 5 True True])))"
    by (subst demo_first_row) (simp_all add: is_zero_def zero_time_def)
  note typed = recorded_rows_typed [OF demo_registry demo_named this]
  moreover have "tn_tier ?c = TierLog \<and> tn_version ?c = 2"
    by (simp add: transition_row_def Let_def NewTracker_def demo_rule_def demo_finding_def fire_def TiersFor_def demo_key_def
       lowered_def TierValid_def TierRank_def tier_defs audience_defs)
  ultimately show ?thesis by (simp only: Let_def simp_thms)
qed

text \<open>
  The operator's row of a developer's condition is never above the developer's: where a rule
  declares more for the operator than for the developer, no row ever carries what it declares.
\<close>

lemma operator_never_above_developer:
  assumes "NewRegistry signals = Inr reg" "self_named signals" "s \<in> set signals"
    and "si_audience s = AudienceDeveloper" "TierRank (ti_developer (si_tiers s)) < TierRank (ti_operator (si_tiers s))"
    and "c \<in> set (fst (observe_all (NewTracker (Some reg)) (evaluated reg sns)))" "tn_signal c = si_id s"
  shows "TierRank (tn_tier c) \<le> TierRank (ti_developer (si_tiers s)) \<and> tn_tier c \<noteq> ti_operator (si_tiers s)"
proof -
  obtain s' where s': "s' \<in> set reg" "tn_signal c = si_id s'"
    "TierRank (tn_tier c) \<le> TierRank (fst (TiersFor (si_tiers s') (si_audience s')))"
    using recorded_typed [OF assms(1,2,6)] unfolding row_typed_def by blast
  have "s \<in> set reg" using assms(3) NewRegistry_Inr(1) [OF assms(1)] by simp
  then have "s' = s" using Lookup_registered [OF assms(1)] s' assms(7) by (metis option.inject)
  with s'(3) have "TierRank (tn_tier c) \<le> TierRank (ti_developer (si_tiers s))"
    by (simp add: TiersFor_def assms(4))
  with assms(5) show ?thesis by auto
qed

subsection \<open>A condition resolves once\<close>

lemma quiet_row:
  assumes "tracks t" "map_of (tk_open t) k = Some e" "blind round (fi_signal (ep_finding e)) \<or> reported round k"
    and "\<forall>f \<in> set round. fi_fingerprint f = fst k \<longrightarrow> fi_signal f = fi_signal (ep_finding e)"
  shows "filter (\<lambda>c. Key c = k) (fst (Observe t round now)) = []"
    "\<exists>e'. map_of (tk_open (snd (Observe t round now))) k = Some e' \<and> ep_opened e' = ep_opened e
       \<and> fi_signal (ep_finding e') = fi_signal (ep_finding e)"
proof -
  have "Key c \<noteq> k" if "c \<in> set (fst (Observe t round now))" for c
    using that assms(2,3) unfolding set_rows [OF assms(1)] by (auto simp: opens_def resolves_def reported_def)
  then show "filter (\<lambda>c. Key c = k) (fst (Observe t round now)) = []" by (auto simp: filter_empty_conv)
  show "\<exists>e'. map_of (tk_open (snd (Observe t round now))) k = Some e' \<and> ep_opened e' = ep_opened e
       \<and> fi_signal (ep_finding e') = fi_signal (ep_finding e)"
  proof (cases "map_of (current round) k")
    case None
    with assms(3) have "blind round (fi_signal (ep_finding e))" by (simp add: reported_def)
    with None show ?thesis by (simp add: Observe_open [OF assms(1)] assms(2))
  next
    case (Some f)
    with assms(4) current_Some [OF Some] show ?thesis by (simp add: Observe_open [OF assms(1)] assms(2))
  qed
qed

lemma quiet_rounds:
  assumes "tracks t" "map_of (tk_open t) k = Some e"
    and "\<forall>r \<in> set rounds. blind (fst r) (fi_signal (ep_finding e)) \<or> reported (fst r) k"
    and "\<forall>r \<in> set rounds. \<forall>f \<in> set (fst r). fi_fingerprint f = fst k \<longrightarrow> fi_signal f = fi_signal (ep_finding e)"
  shows "filter (\<lambda>c. Key c = k) (fst (observe_all t rounds)) = [] \<and>
    (\<exists>e'. map_of (tk_open (snd (observe_all t rounds))) k = Some e' \<and> ep_opened e' = ep_opened e
       \<and> fi_signal (ep_finding e') = fi_signal (ep_finding e))"
  using assms
proof (induction rounds arbitrary: t e)
  case (Cons r rounds)
  have r: "blind (fst r) (fi_signal (ep_finding e)) \<or> reported (fst r) k"
    "\<forall>f \<in> set (fst r). fi_fingerprint f = fst k \<longrightarrow> fi_signal f = fi_signal (ep_finding e)"
    using Cons.prems(3,4) by simp_all
  note step = quiet_row [OF Cons.prems(1,2) r, where now = "snd r"]
  obtain e' where e': "map_of (tk_open (snd (Observe t (fst r) (snd r)))) k = Some e'" "ep_opened e' = ep_opened e"
    "fi_signal (ep_finding e') = fi_signal (ep_finding e)" using step(2) by blast
  have "filter (\<lambda>c. Key c = k) (fst (observe_all (snd (Observe t (fst r) (snd r))) rounds)) = [] \<and>
    (\<exists>e''. map_of (tk_open (snd (observe_all (snd (Observe t (fst r) (snd r))) rounds))) k = Some e'' \<and> ep_opened e'' = ep_opened e'
       \<and> fi_signal (ep_finding e'') = fi_signal (ep_finding e'))"
    using Cons.prems(3,4) by (intro Cons.IH tracks_Observe Cons.prems(1) e'(1)) (simp_all add: e'(3))
  then show ?case using step(1) by (simp add: observe_all_Cons e'(2,3))
qed simp

lemma resolving_row:
  assumes "tracks t" "map_of (tk_open t) k = Some e" "\<not> blind round (fi_signal (ep_finding e))" "\<not> reported round k"
  shows "filter (\<lambda>c. Key c = k) (fst (Observe t round now)) = [transition_row t StateResolved k (ep_finding e) now (ep_opened e)]"
proof -
  let ?c = "transition_row t StateResolved k (ep_finding e) now (ep_opened e)"
  have "resolves t round now k e ?c" using assms(2-) by (simp add: resolves_def reported_def)
  then have "?c \<in> set (fst (Observe t round now))" unfolding set_rows [OF assms(1)] by blast
  then have "by_key (fst (Observe t round now)) k = Some ?c" by (simp add: by_key_Some rows_distinct [OF assms(1)])
  then show ?thesis by (simp add: filter_by_key rows_distinct [OF assms(1)])
qed

text \<open>
  C39. A condition that is open is resolved: however many rounds go by in which it is reported or
  its rule cannot be evaluated, nothing is recorded for it, and the first round that can evaluate the
  rule and does not report it records one row, resolved at that instant with the instant it opened.
\<close>

theorem resolved_once:
  assumes "map_of (tk_open (snd (observe_all (NewTracker catalogue) before))) k = Some e" "i = fi_signal (ep_finding e)"
    and "\<forall>r \<in> set rounds. blind (fst r) i \<or> reported (fst r) k"
    and "\<forall>r \<in> set rounds. \<forall>f \<in> set (fst r). fi_fingerprint f = fst k \<longrightarrow> fi_signal f = i"
    and "\<not> blind round i" "\<not> reported round k"
  shows "\<exists>c. filter (\<lambda>c. Key c = k) (fst (observe_all (snd (observe_all (NewTracker catalogue) before)) (rounds @ [(round, now)]))) = [c]
     \<and> tn_state c = StateResolved \<and> tn_at c = now \<and> tn_opened c = ep_opened e \<and> tn_signal c = i"
proof -
  let ?t = "snd (observe_all (NewTracker catalogue) before)"
  have t: "tracks ?t" by (rule tracks_observe_all) simp
  from quiet_rounds [OF t assms(1)] assms(2-4) obtain e' where e':
    "filter (\<lambda>c. Key c = k) (fst (observe_all ?t rounds)) = []" "map_of (tk_open (snd (observe_all ?t rounds))) k = Some e'"
    "ep_opened e' = ep_opened e" "fi_signal (ep_finding e') = i" by blast
  from resolving_row [OF tracks_observe_all [OF t] e'(2)] assms(5,6) e'(4)
  show ?thesis by (simp add: observe_all_append observe_all_Cons e'(1,3,4))
qed

theorem resolved_once_witness:
  "\<exists>c. filter (\<lambda>c. Key c = demo_key AudienceDeveloper)
       (fst (observe_all (snd (observe_all (NewTracker (Some [demo_rule])) [([demo_finding 5], 5)]))
         ([([unread_finding demo_rule (demo_snapshot 6 False True) ''environments'' ''forbidden''], 6), ([demo_finding 7], 7)] @ [([], 8)]))) = [c]
     \<and> tn_state c = StateResolved \<and> tn_at c = 8 \<and> tn_opened c = 5 \<and> tn_signal c = ''env.broken''"
proof -
  let ?e = "\<lparr>ep_finding = demo_finding 5, ep_opened = 5, ep_read = 5\<rparr>"
  have "map_of (tk_open (snd (observe_all (NewTracker (Some [demo_rule])) [([demo_finding 5], 5)]))) (demo_key AudienceDeveloper) = Some ?e"
    by (simp add: observe_all_Cons Observe_open demo_current)
  from resolved_once [OF this, where i = "''env.broken''"
      and rounds = "[([unread_finding demo_rule (demo_snapshot 6 False True) ''environments'' ''forbidden''], 6), ([demo_finding 7], 7)]"
      and round = "[]" and now = 8]
  show ?thesis by (simp add: demo_reported)
qed

end
