(* ===== verification/SignalLoop.thy ===== *)
theory SignalLoop
  imports SignalRounds
begin

section \<open>The detection loop (internal/detection/loop.go)\<close>

text \<open>
  One round of the loop, with every call it makes an argument: the read of the singleton, the store
  it resolves, what the store answers about open conditions, the gather (a function of the tracker it
  is given) and whether the store took the rows. Rounds, failed rounds and restarts are then the steps
  of a relation over the table and the tracker in memory.
\<close>

subsection \<open>A round\<close>

record signals_spec =
  ss_enabled :: "bool option"
  ss_interval :: int
  ss_policy :: policy_spec

definition DefaultSignalIntervalSeconds :: int where "DefaultSignalIntervalSeconds = 60"

definition SignalsEnabled :: "signals_spec \<Rightarrow> bool" where
  "SignalsEnabled s \<longleftrightarrow> (case ss_enabled s of None \<Rightarrow> True | Some on \<Rightarrow> on)"

definition Interval :: "signals_spec \<Rightarrow> int" where
  "Interval s = (if ss_interval s < 1 then DefaultSignalIntervalSeconds * second else ss_interval s * second)"

definition idleInterval :: int where "idleInterval = 30 * second"

record detection_round =
  ro_evaluated :: bool
  ro_off :: bool
  ro_findings :: int
  ro_open :: int
  ro_recorded :: int
  ro_transitions :: "change list"
  ro_interval :: int
  ro_message :: string

record evaluation_status =
  es_last :: "time option"
  es_open :: int
  es_interval :: int
  es_unreadable :: "(string \<times> string) list"
  es_message :: string

datatype read_error = UnknownTable | ReadFailed string

datatype round_error = KitchenUnread string | SeedUnread string | WriteRefused string

definition loop_wait :: "int \<Rightarrow> detection_round \<Rightarrow> round_error option \<Rightarrow> int" where
  "loop_wait override_interval round err =
     (if err \<noteq> None \<or> \<not> ro_evaluated round then idleInterval
      else if 0 < override_interval then override_interval
      else ro_interval round)"

text \<open>
  The status written; None when the singleton could not be read back (and nothing is written).
  \<open>existing\<close> is the status on the object read, \<open>clock\<close> the loop's own.
\<close>

definition i32 :: "int \<Rightarrow> int" where
  "i32 x = (x + 2 ^ 31) mod 2 ^ 32 - 2 ^ 31"

definition publish :: "evaluation_status option option \<Rightarrow> time \<Rightarrow> detection_round \<Rightarrow> 'e snapshot option \<Rightarrow> evaluation_status option" where
  "publish got clock round snapshot =
     (case got of
        None \<Rightarrow> None
      | Some existing \<Rightarrow>
          Some \<lparr>es_last = (if ro_evaluated round then Some clock
               else (case existing of Some was \<Rightarrow> if ro_off round then None else es_last was | None \<Rightarrow> None)),
             es_open = i32 (ro_open round), es_interval = i32 (ro_interval round div second),
             es_unreadable = (case snapshot of None \<Rightarrow> [] | Some sn \<Rightarrow> Unreadable sn),
             es_message = ro_message round\<rparr>)"

text \<open>The tracker of a round: the one in memory, or one seeded from the store.\<close>

definition round_tracker :: "'e signal list \<Rightarrow> tracker option \<Rightarrow> read_error + signal_transition list \<Rightarrow> string + tracker" where
  "round_tracker reg held opened =
     (case held of
        Some t \<Rightarrow> Inr t
      | None \<Rightarrow>
          (case opened of
             Inl (ReadFailed reason) \<Rightarrow> Inl reason
           | Inl UnknownTable \<Rightarrow> Inr (Restore (NewTracker (Some reg)) [])
           | Inr rows \<Rightarrow> Inr (Restore (NewTracker (Some reg)) (map TransitionFrom rows))))"

definition delivered_rows :: "signal_transition list \<Rightarrow> policy \<Rightarrow> (signal_transition \<times> string) list" where
  "delivered_rows rows p = map (\<lambda>row. (row, Deliver (Normalised p) (tn_tier (st_change row)))) rows"

text \<open>
  What a round leaves: its error, its report, the tracker it holds, the rows it asked the store to
  insert, what it handed to the notifier and the status it published.
\<close>

record outcome =
  oc_error :: "round_error option"
  oc_round :: detection_round
  oc_tracker :: "tracker option"
  oc_written :: "signal_transition list"
  oc_notified :: "(signal_transition \<times> string) list"
  oc_status :: "evaluation_status option"

definition empty_round :: "int \<Rightarrow> detection_round" where
  "empty_round interval = \<lparr>ro_evaluated = False, ro_off = False, ro_findings = 0, ro_open = 0, ro_recorded = 0,
     ro_transitions = [], ro_interval = interval, ro_message = []\<rparr>"

definition unrecorded :: "round_error option \<Rightarrow> detection_round \<Rightarrow> tracker option \<Rightarrow> evaluation_status option \<Rightarrow> outcome" where
  "unrecorded err round held status = \<lparr>oc_error = err, oc_round = round, oc_tracker = held, oc_written = [],
     oc_notified = [], oc_status = status\<rparr>"

record 'e surroundings =
  su_kitchen :: "string + signals_spec"
  su_store :: "string + unit"
  su_opened :: "read_error + signal_transition list"
  su_gather :: "tracker \<Rightarrow> 'e snapshot"
  su_refused :: "string option"
  su_notifier :: bool
  su_status :: "evaluation_status option option"
  su_clock :: time

definition RoundOnce :: "'e signal list \<Rightarrow> int \<Rightarrow> 'e surroundings \<Rightarrow> tracker option \<Rightarrow> outcome" where
  "RoundOnce reg override_interval su held =
     (case su_kitchen su of
        Inl reason \<Rightarrow> unrecorded (Some (KitchenUnread reason)) (empty_round 0) held None
      | Inr spec \<Rightarrow>
          let round = empty_round (if 0 < override_interval then override_interval else Interval spec);
              off = round\<lparr>ro_off := True, ro_message := ''background evaluation is switched off''\<rparr>
          in if \<not> SignalsEnabled spec then
               unrecorded None off held (publish (su_status su) (su_clock su) off (None :: 'e snapshot option))
             else
               (case su_store su of
                  Inl reason \<Rightarrow>
                    let idle = round\<lparr>ro_message := reason\<rparr>
                    in unrecorded None idle held (publish (su_status su) (su_clock su) idle (None :: 'e snapshot option))
                | Inr _ \<Rightarrow>
                    (case round_tracker reg held (su_opened su) of
                       Inl reason \<Rightarrow> unrecorded (Some (SeedUnread reason)) round held None
                     | Inr t \<Rightarrow>
                         let sn = su_gather su t; findings = Evaluate reg sn; (transitions, t') = Observe t findings (sn_now sn);
                             rows = map TransitionRow transitions
                         in (case su_refused su of
                               Some reason \<Rightarrow>
                                 \<lparr>oc_error = Some (WriteRefused reason), oc_round = round, oc_tracker = None, oc_written = rows,
                                  oc_notified = [], oc_status = None\<rparr>
                             | None \<Rightarrow>
                                 let finished = round\<lparr>ro_evaluated := True, ro_findings := int (length (Firing findings)),
                                       ro_open := Open t', ro_recorded := int (length transitions), ro_transitions := transitions\<rparr>
                                 in \<lparr>oc_error = None, oc_round = finished, oc_tracker = Some t', oc_written = rows,
                                     oc_notified = (if su_notifier su then delivered_rows rows (sn_policy sn) else []),
                                     oc_status = publish (su_status su) (su_clock su) finished (Some sn)\<rparr>))))"

subsection \<open>Rounds, failures and restarts\<close>

text \<open>
  The state is the table, the tracker in memory and the instant of the last round. A round may fail
  at any of its calls; an insert that is answered with an error may have landed or not. A table that
  does not exist answers as such and holds nothing.
\<close>

type_synonym loop_state = "signal_transition list \<times> tracker option \<times> time"

definition answers :: "signal_transition list \<Rightarrow> read_error + signal_transition list \<Rightarrow> bool" where
  "answers table opened \<longleftrightarrow>
     (case opened of Inr rows \<Rightarrow> rows = OpenSignalTransitions table | Inl UnknownTable \<Rightarrow> table = [] | Inl (ReadFailed _) \<Rightarrow> True)"

definition landed :: "time \<Rightarrow> string option \<Rightarrow> signal_transition list \<Rightarrow> signal_transition list \<Rightarrow> signal_transition list \<Rightarrow> bool" where
  "landed clock refused table rows table' \<longleftrightarrow>
     table' = InsertSignalTransitions clock table rows \<or> refused \<noteq> None \<and> table' = table"

definition runnable :: "(string \<Rightarrow> string \<times> string \<times> string) \<Rightarrow> 'e signal list \<Rightarrow> 'e surroundings \<Rightarrow> time \<Rightarrow> time \<Rightarrow> bool" where
  "runnable place reg su start now \<longleftrightarrow> real_time now \<and> truncate_ms start < truncate_ms now
     \<and> (\<forall>t. sn_now (su_gather su t) = now \<and> placed_round place (Evaluate reg (su_gather su t)))"

inductive loop_step :: "(string \<Rightarrow> string \<times> string \<times> string) \<Rightarrow> 'e signal list \<Rightarrow> loop_state \<Rightarrow> loop_state \<Rightarrow> bool"
  for place reg where
  round: "answers table (su_opened su) \<Longrightarrow> runnable place reg su start now \<Longrightarrow> out = RoundOnce reg iv su held
    \<Longrightarrow> landed clock (su_refused su) table (oc_written out) table'
    \<Longrightarrow> loop_step place reg (table, held, start) (table', oc_tracker out, now)"
| restart: "loop_step place reg (table, held, start) (table, None, start)"

abbreviation loop_reaches :: "(string \<Rightarrow> string \<times> string \<times> string) \<Rightarrow> 'e signal list \<Rightarrow> loop_state \<Rightarrow> loop_state \<Rightarrow> bool" where
  "loop_reaches place reg \<equiv> (loop_step place reg)\<^sup>*\<^sup>*"

inductive_cases loop_stepE: "loop_step place reg s s'"

subsection \<open>The invariant\<close>

definition history_of :: "signal_transition list \<Rightarrow> (key \<rightharpoonup> time) option" where
  "history_of table = replay Map.empty (map st_change table)"

definition loop_ok :: "(string \<Rightarrow> string \<times> string \<times> string) \<Rightarrow> loop_state \<Rightarrow> bool" where
  "loop_ok place s \<longleftrightarrow> (case s of (table, held, start) \<Rightarrow>
     ch_ok place table \<and> (\<forall>now. truncate_ms start < truncate_ms now \<longrightarrow> ch_newer table now)
     \<and> history_of table = Some (ch_holds table) \<and> (\<forall>r \<in> set table. truncate_ms (tn_opened (st_change r)) = tn_opened (st_change r))
     \<and> (\<forall>t. held = Some t \<longrightarrow> tracks t \<and> placed_tracker place t
          \<and> ch_holds table = (\<lambda>k. map_option truncate_ms (held_open t k))))"

lemma loop_okD:
  assumes "loop_ok place (table, held, start)"
  shows "ch_ok place table" "truncate_ms start < truncate_ms now \<Longrightarrow> ch_newer table now" "history_of table = Some (ch_holds table)"
    "\<forall>r \<in> set table. truncate_ms (tn_opened (st_change r)) = tn_opened (st_change r)"
    "held = Some t \<Longrightarrow> tracks t \<and> placed_tracker place t \<and> ch_holds table = (\<lambda>k. map_option truncate_ms (held_open t k))"
  using assms by (simp_all add: loop_ok_def)

lemma stored_legal:
  assumes "legal (held_open t) c" "real_time (tn_at c)" "real_time (tn_opened c)"
  shows "legal (\<lambda>k. map_option truncate_ms (held_open t k)) (st_change (store_row clock (TransitionRow c)))"
proof -
  have "Key (st_change (store_row clock (TransitionRow c))) = Key c" using stored_sel by (simp add: stored_key_def)
  moreover have "tn_state (st_change (store_row clock (TransitionRow c))) = tn_state c"
    by (simp add: store_row_def TransitionRow_def Let_def)
  ultimately show ?thesis using assms(1) stored_times(1,2) [OF assms(2,3), where clock = clock] by (auto simp: legal_def)
qed

lemma history_insert:
  assumes "tracks t" "placed_tracker place t" "placed_round place round" "real_time now"
    and "history_of table = Some (\<lambda>k. map_option truncate_ms (held_open t k))"
  shows "history_of (ch_insert clock table (fst (Observe t round now)))
    = Some (\<lambda>k. map_option truncate_ms (held_open (snd (Observe t round now)) k))"
proof -
  let ?row = "\<lambda>c. st_change (store_row clock (TransitionRow c))"
  let ?cs = "fst (Observe t round now)"
  have fit: "fits place now ?cs" by (rule fits_Observe [OF assms(1-4)])
  have key: "Key (?row c) = Key c" for c using stored_sel by (simp add: stored_key_def)
  have c: "legal (\<lambda>k. map_option truncate_ms (held_open t k)) (?row c)"
    "map_option truncate_ms (held_open (snd (Observe t round now)) (Key c)) = applied (?row c)" if "c \<in> set ?cs" for c
  proof -
    have times: "real_time (tn_at c)" "real_time (tn_opened c)" using fit that by (auto simp: fits_def)
    show "legal (\<lambda>k. map_option truncate_ms (held_open t k)) (?row c)"
      by (rule stored_legal [OF replay_key(1) [OF assms(1) that] times])
    show "map_option truncate_ms (held_open (snd (Observe t round now)) (Key c)) = applied (?row c)"
      by (simp add: stored_times(3) [OF times] replay_key(2) [OF assms(1) that])
  qed
  have "replay (\<lambda>k. map_option truncate_ms (held_open t k)) (map ?row ?cs)
      = Some (\<lambda>k. map_option truncate_ms (held_open (snd (Observe t round now)) k))"
  proof (rule replay_batch)
    have "map Key (map ?row ?cs) = map Key ?cs" by (simp add: key)
    then show "distinct (map Key (map ?row ?cs))" by (simp only: rows_distinct [OF assms(1)])
  next
    fix k assume "k \<notin> Key ` set (map ?row ?cs)"
    then have "k \<notin> Key ` set ?cs" by (simp add: image_image key)
    then show "map_option truncate_ms (held_open (snd (Observe t round now)) k) = map_option truncate_ms (held_open t k)"
      by (simp add: replay_quiet [OF assms(1)])
  qed (use c key in auto)
  then show ?thesis
    using assms(5) by (simp add: history_of_def ch_insert_def InsertSignalTransitions_def replay_append comp_def)
qed

lemma ch_open_in: "c \<in> set (ch_open table) \<Longrightarrow> \<exists>r \<in> set table. c = TransitionFrom r"
proof -
  assume "c \<in> set (ch_open table)"
  then have "c \<in> TransitionFrom ` (\<lambda>g. newest (filter (\<lambda>r. group_key r = g) table)) ` set (map group_key table)"
    unfolding ch_open_def OpenSignalTransitions_def by auto
  then obtain g where g: "g \<in> set (map group_key table)" "c = TransitionFrom (newest (filter (\<lambda>r. group_key r = g) table))"
    by blast
  have "newest (filter (\<lambda>r. group_key r = g) table) \<in> set (filter (\<lambda>r. group_key r = g) table)"
    using g(1) by (intro newest_in) (auto simp: filter_empty_conv)
  with g(2) show ?thesis by auto
qed

lemma seeded_ok:
  assumes "ch_ok place table" "\<forall>r \<in> set table. truncate_ms (tn_opened (st_change r)) = tn_opened (st_change r)"
  shows "tracks (Restore u (ch_open table))" "placed_tracker place (Restore u (ch_open table))"
    "ch_holds table = (\<lambda>k. map_option truncate_ms (held_open (Restore u (ch_open table)) k))"
proof -
  note opened = Restore_open [OF ch_open_distinct [OF assms(1)]]
  have row: "real_time (tn_opened c) \<and> truncate_ms (tn_opened c) = tn_opened c
      \<and> place (fst (Key c)) = (tn_signal c, sc_project (tn_scope c), sc_environment (tn_scope c))" if "by_key (ch_open table) k = Some c" for k c
  proof -
    have "c \<in> set (ch_open table)" using that by (simp add: by_key_Some [OF ch_open_distinct [OF assms(1)]])
    then obtain r where "r \<in> set table" "c = TransitionFrom r" using ch_open_in by blast
    with assms show ?thesis by (auto simp: ch_ok_def placed_def TransitionFrom_def Key_def)
  qed
  have key: "Key c = k" if "by_key (ch_open table) k = Some c" for k c
    using that by (simp add: by_key_Some [OF ch_open_distinct [OF assms(1)]])
  show "tracks (Restore u (ch_open table))" by simp
  show "placed_tracker place (Restore u (ch_open table))"
    unfolding placed_tracker_def
  proof (intro allI impI)
    fix k e assume "map_of (tk_open (Restore u (ch_open table))) k = Some e"
    then obtain c where c: "by_key (ch_open table) k = Some c"
      "e = \<lparr>ep_finding = Finding c, ep_opened = (if is_zero (tn_opened c) then tn_at c else tn_opened c), ep_read = zero_time\<rparr>"
      by (auto simp: opened)
    then show "real_time (ep_opened e) \<and> place (fst k) = (fi_signal (ep_finding e), sc_project (fi_scope (ep_finding e)), sc_environment (fi_scope (ep_finding e)))"
      using row [OF c(1)] key [OF c(1)] real_time_nonzero by (auto simp: Finding_def)
  qed
  show "ch_holds table = (\<lambda>k. map_option truncate_ms (held_open (Restore u (ch_open table)) k))"
  proof
    fix k
    show "ch_holds table k = map_option truncate_ms (held_open (Restore u (ch_open table)) k)"
    proof (cases "by_key (ch_open table) k")
      case None
      then show ?thesis by (simp add: held_open_def opened ch_open_holds [OF assms(1), symmetric])
    next
      case (Some c)
      with row [OF Some] real_time_nonzero show ?thesis
        by (auto simp: held_open_def opened ch_open_holds [OF assms(1), symmetric])
    qed
  qed
qed

lemma round_tracker_ok:
  assumes "loop_ok place (table, held, start)" "answers table opened" "round_tracker reg held opened = Inr t"
  shows "tracks t" "placed_tracker place t" "ch_holds table = (\<lambda>k. map_option truncate_ms (held_open t k))"
proof -
  have "tracks t \<and> placed_tracker place t \<and> ch_holds table = (\<lambda>k. map_option truncate_ms (held_open t k))"
  proof (cases held)
    case None
    have "t = Restore (NewTracker (Some reg)) (ch_open table)"
      using assms(2,3) None
      by (auto simp: answers_def round_tracker_def ch_open_def OpenSignalTransitions_def split: sum.splits read_error.splits)
    with seeded_ok [OF loop_okD(1,4) [OF assms(1)]] show ?thesis by blast
  next
    case (Some u)
    with assms(3) have "held = Some t" by (simp add: round_tracker_def)
    from loop_okD(5) [OF assms(1) this] show ?thesis .
  qed
  then show "tracks t" "placed_tracker place t" "ch_holds table = (\<lambda>k. map_option truncate_ms (held_open t k))" by blast+
qed

text \<open>A round asks the store for rows only when it has a tracker, and they are those of its observation.\<close>

lemma RoundOnce_cases:
  obtains (idle) "oc_written (RoundOnce reg iv su held) = []" "oc_tracker (RoundOnce reg iv su held) = held"
  | (observed) t where "round_tracker reg held (su_opened su) = Inr t"
    "oc_written (RoundOnce reg iv su held)
       = map TransitionRow (fst (Observe t (Evaluate reg (su_gather su t)) (sn_now (su_gather su t))))"
    "oc_tracker (RoundOnce reg iv su held)
       = (if su_refused su = None then Some (snd (Observe t (Evaluate reg (su_gather su t)) (sn_now (su_gather su t)))) else None)"
proof (cases "\<exists>spec x t. su_kitchen su = Inr spec \<and> SignalsEnabled spec \<and> su_store su = Inr x \<and> round_tracker reg held (su_opened su) = Inr t")
  case True
  then obtain spec x t where runs: "su_kitchen su = Inr spec" "SignalsEnabled spec" "su_store su = Inr x"
    "round_tracker reg held (su_opened su) = Inr t" by blast
  show thesis
    by (rule observed [OF runs(4)]) (simp_all add: RoundOnce_def Let_def split_beta runs split: option.split)
next
  case False
  show thesis
  proof (rule idle)
    show "oc_written (RoundOnce reg iv su held) = []" "oc_tracker (RoundOnce reg iv su held) = held"
      using False by (auto simp: RoundOnce_def unrecorded_def Let_def split: sum.split)
  qed
qed

lemma stored_opened: "real_time (tn_at c) \<Longrightarrow> real_time (tn_opened c)
    \<Longrightarrow> truncate_ms (tn_opened (st_change (store_row clock (TransitionRow c)))) = tn_opened (st_change (store_row clock (TransitionRow c)))"
  by (simp add: stored_times(2))

lemma ch_insert_rows: "InsertSignalTransitions clock table (map TransitionRow cs) = ch_insert clock table cs"
  by (simp add: ch_insert_def)

text \<open>An observation of a tracker that follows the table, once its rows are in.\<close>

lemma observed_ok:
  assumes "loop_ok place (table, held, start)" "tracks t" "placed_tracker place t"
    and "ch_holds table = (\<lambda>k. map_option truncate_ms (held_open t k))"
    and "placed_round place round" "real_time now" "truncate_ms start < truncate_ms now"
    and "held' = None \<or> held' = Some (snd (Observe t round now))"
  shows "loop_ok place (ch_insert clock table (fst (Observe t round now)), held', now)"
proof -
  note step = store.inserted [OF loop_okD(1) [OF assms(1)] loop_okD(2) [OF assms(1,7)] assms(2,3,5,6,4), where clock = clock]
  have "history_of table = Some (\<lambda>k. map_option truncate_ms (held_open t k))"
    using loop_okD(3) [OF assms(1)] assms(4) by simp
  note history = history_insert [OF assms(2,3,5,6) this, where clock = clock]
  have "fits place now (fst (Observe t round now))" by (rule fits_Observe [OF assms(2,3,5,6)])
  then have "\<forall>r \<in> set (ch_insert clock table (fst (Observe t round now))). truncate_ms (tn_opened (st_change r)) = tn_opened (st_change r)"
    using loop_okD(4) [OF assms(1)] stored_opened
    by (auto simp: ch_insert_def InsertSignalTransitions_def fits_def)
  with step history assms(8) tracks_Observe [OF assms(2)] placed_Observe [OF assms(2,3,5,6)]
  show ?thesis unfolding loop_ok_def by auto
qed

lemma later_ok:
  assumes "loop_ok place (table, held, start)" "truncate_ms start < truncate_ms now" "held' = None \<or> held' = held"
  shows "loop_ok place (table, held', now)"
  using assms by (auto simp: loop_ok_def)

lemma loop_ok_round:
  assumes ok: "loop_ok place (table, held, start)" and ans: "answers table (su_opened su)"
    and run: "runnable place reg su start now" and out: "out = RoundOnce reg iv su held"
    and land: "landed clock (su_refused su) table (oc_written out) table'"
  shows "loop_ok place (table', oc_tracker out, now)"
proof -
  have now: "real_time now" "truncate_ms start < truncate_ms now" using run by (simp_all add: runnable_def)
  show ?thesis
  proof (cases reg iv su held rule: RoundOnce_cases)
    case idle
    with land have "table' = table" by (auto simp: landed_def out InsertSignalTransitions_def)
    with later_ok [OF ok now(2)] idle show ?thesis by (simp add: out)
  next
    case (observed t)
    have gather: "sn_now (su_gather su t) = now" "placed_round place (Evaluate reg (su_gather su t))"
      using run by (simp_all add: runnable_def)
    note t = round_tracker_ok [OF ok ans observed(1)]
    show ?thesis
    proof (cases "table' = InsertSignalTransitions clock table (oc_written out)")
      case True
      then have "table' = ch_insert clock table (fst (Observe t (Evaluate reg (su_gather su t)) now))"
        by (simp add: out observed(2) ch_insert_rows gather(1))
      with observed_ok [OF ok t gather(2) now] observed(3) show ?thesis by (simp add: out gather(1))
    next
      case False
      with land have "su_refused su \<noteq> None" "table' = table" by (auto simp: landed_def)
      with later_ok [OF ok now(2)] observed(3) show ?thesis by (simp add: out)
    qed
  qed
qed

lemma loop_ok_step: "loop_step place reg s s' \<Longrightarrow> loop_ok place s \<Longrightarrow> loop_ok place s'"
proof (induction rule: loop_step.induct)
  case (round table su start now out iv held clock table')
  then show ?case by (intro loop_ok_round)
next
  case (restart table held start)
  then show ?case by (auto simp: loop_ok_def)
qed

lemma loop_ok_start: "loop_ok place ([], None, start)"
  by (simp add: loop_ok_def ch_ok_def ch_newer_def history_of_def ch_holds_def fun_eq_iff)

lemma loop_ok_reaches: "loop_reaches place reg s s' \<Longrightarrow> loop_ok place s \<Longrightarrow> loop_ok place s'"
  by (induction rule: rtranclp_induct) (auto intro: loop_ok_step)

subsection \<open>A run with a lost answer, for the witness\<close>

definition demo_round :: "time \<Rightarrow> read_error + signal_transition list \<Rightarrow> string option \<Rightarrow> bool surroundings" where
  "demo_round now opened refused = \<lparr>su_kitchen = Inr \<lparr>ss_enabled = None, ss_interval = 60, ss_policy =
      \<lparr>sx_preset = [], sx_correlated = None, sx_correlation_minutes = None, sx_escalation_minutes = None,
        sx_untended_multiple = None, sx_max_silence_hours = None, sx_paging = None\<rparr>\<rparr>,
     su_store = Inr (), su_opened = opened, su_gather = (\<lambda>_. demo_snapshot now True True), su_refused = refused,
     su_notifier = False, su_status = None, su_clock = now\<rparr>"

definition demo_table :: "signal_transition list" where
  "demo_table = InsertSignalTransitions second [] (map TransitionRow
     (map (\<lambda>a. transition_row (NewTracker (Some [demo_rule])) StateOpen (demo_key a) (demo_finding second) second second)
       [AudienceDeveloper, AudienceOperator]))"

lemma demo_instants: "real_time second" "real_time (2 * second)" "truncate_ms 0 < truncate_ms second"
  "truncate_ms second < truncate_ms (2 * second)" "\<not> is_zero second" "\<not> is_zero (2 * second)" "truncate_ms second = second"
  "truncate_ms 0 < second" "second < truncate_ms (2 * second)"
  by (simp_all add: real_time_def is_zero_def truncate_ms_def zero_time_def duration_units)

lemma demo_restore: "Restore (NewTracker (Some reg)) [] = NewTracker (Some reg)"
  by (simp add: Restore_def NewTracker_def Let_def)

lemma demo_fingerprint: "Fingerprint ''env.broken'' demo_scope = ''env.broken/shop/live''"
  by (simp add: Fingerprint_def Path_def demo_scope_def Let_def join_def)

abbreviation "demo_place \<equiv> (\<lambda>_. (''env.broken'', ''shop'', ''live''))"

lemma demo_runnable:
  assumes "\<not> is_zero now" "real_time now" "truncate_ms start < truncate_ms now"
  shows "runnable demo_place [demo_rule] (demo_round now opened refused) start now"
  using assms by (simp add: runnable_def demo_round_def demo_evaluates placed_round_def)
    (simp add: demo_finding_def fire_def demo_scope_def)

lemma demo_lost: "loop_step demo_place [demo_rule] ([], None, 0) (demo_table, None, second)"
proof -
  let ?su = "demo_round second (Inl UnknownTable) (Some ''timeout'')"
  have out: "oc_written (RoundOnce [demo_rule] 0 ?su None) = map TransitionRow
     (map (\<lambda>a. transition_row (NewTracker (Some [demo_rule])) StateOpen (demo_key a) (demo_finding second) second second)
       [AudienceDeveloper, AudienceOperator])" "oc_tracker (RoundOnce [demo_rule] 0 ?su None) = None"
    by (simp_all add: RoundOnce_def demo_round_def Let_def SignalsEnabled_def round_tracker_def demo_restore
       demo_evaluates demo_first_round demo_instants)
  have "loop_step demo_place [demo_rule] ([], None, 0) (demo_table, oc_tracker (RoundOnce [demo_rule] 0 ?su None), second)"
    by (rule loop_step.round [where clock = second and su = ?su and iv = 0 and held = None, OF _ demo_runnable])
      (simp_all add: demo_instants out landed_def demo_table_def, simp_all add: answers_def demo_round_def)
  then show ?thesis by (simp add: out)
qed

lemma demo_open: "OpenSignalTransitions demo_table = demo_table"
  by (simp add: OpenSignalTransitions_def demo_table_def InsertSignalTransitions_def store_row_def TransitionRow_def transition_row_def
     Let_def group_key_def demo_key_def audience_defs newest_def demo_finding_def fire_def demo_scope_def)


lemma demo_seeded:
  "map TransitionFrom demo_table = map (\<lambda>a. transition_row (NewTracker (Some [demo_rule])) StateOpen (demo_key a) (demo_finding second) second second)
       [AudienceDeveloper, AudienceOperator]"
  by (simp add: demo_table_def InsertSignalTransitions_def store_row_def TransitionRow_def transition_row_def TransitionFrom_def
     Let_def demo_finding_def fire_def splitList_def join_def demo_instants)

lemma demo_retried: "\<exists>t. loop_step demo_place [demo_rule] (demo_table, None, second) (demo_table, Some t, 2 * second)"
proof -
  let ?su = "demo_round (2 * second) (Inr demo_table) None"
  let ?t = "Restore (NewTracker (Some [demo_rule])) (map TransitionFrom demo_table)"
  let ?out = "RoundOnce [demo_rule] 0 ?su None"
  have "fst (Observe ?t [demo_finding (2 * second)] (2 * second)) = []"
    by (simp add: Observe_def demo_current Let_def demo_seeded sortTransitions_def Restore_def)
  then have out: "oc_written ?out = []" "oc_tracker ?out = Some (snd (Observe ?t [demo_finding (2 * second)] (2 * second)))"
    by (simp_all add: RoundOnce_def demo_round_def Let_def SignalsEnabled_def round_tracker_def demo_evaluates demo_instants split_beta)
  have "loop_step demo_place [demo_rule] (demo_table, None, second) (demo_table, oc_tracker ?out, 2 * second)"
    by (rule loop_step.round [where clock = second and su = ?su and iv = 0 and held = None, OF _ demo_runnable])
      (simp_all add: demo_instants out landed_def InsertSignalTransitions_def, simp_all add: answers_def demo_round_def demo_open)
  then show ?thesis unfolding out by (rule exI)
qed

subsection \<open>The history outlives the process\<close>

text \<open>
  C8. However rounds fail and the process restarts, an insert that was answered with an error
  landing or not, the table is a history in which every condition opens before it resolves and is
  resolved with the instant it opened; what the store answers as open is what that history leaves
  open, and so is what a tracker in memory holds, to the millisecond the store keeps.
\<close>

theorem history_survives_restarts:
  assumes "loop_reaches place reg ([], None, start) (table, held, now)"
  shows "\<exists>m. history_of table = Some m
     \<and> (\<forall>k. map_option tn_opened (by_key (map TransitionFrom (OpenSignalTransitions table)) k) = m k)
     \<and> (\<forall>t k. held = Some t \<longrightarrow> m k = map_option truncate_ms (held_open t k))"
proof -
  have ok: "loop_ok place (table, held, now)" by (rule loop_ok_reaches [OF assms loop_ok_start])
  from loop_okD(3,5) [OF ok] store.open_holds [OF loop_okD(1) [OF ok]] show ?thesis
    by (auto simp: ch_open_def)
qed

theorem history_survives_restarts_witness:
  "\<exists>t m. loop_reaches demo_place [demo_rule] ([], None, 0) (demo_table, Some t, 2 * second)
     \<and> history_of demo_table = Some m \<and> m (demo_key AudienceOperator) = Some second
     \<and> map_option truncate_ms (held_open t (demo_key AudienceOperator)) = Some second"
proof -
  obtain t where t: "loop_step demo_place [demo_rule] (demo_table, None, second) (demo_table, Some t, 2 * second)"
    using demo_retried by blast
  have run: "loop_reaches demo_place [demo_rule] ([], None, 0) (demo_table, Some t, 2 * second)"
    by (rule converse_rtranclp_into_rtranclp [OF demo_lost r_into_rtranclp [where r = "loop_step demo_place [demo_rule]", OF t]])
  from history_survives_restarts [OF this] obtain m where m: "history_of demo_table = Some m"
    "\<forall>k. map_option tn_opened (by_key (map TransitionFrom (OpenSignalTransitions demo_table)) k) = m k"
    "\<forall>k. m k = map_option truncate_ms (held_open t k)" by blast
  have "m (demo_key AudienceOperator) = Some second"
    by (simp add: m(2) [rule_format, symmetric] demo_open demo_seeded by_key_def)
  moreover from this have "map_option truncate_ms (held_open t (demo_key AudienceOperator)) = Some second"
    by (simp only: m(3) [rule_format, symmetric])
  ultimately show ?thesis using run m(1) by blast
qed

end
