(* ===== verification/SignalBuilds.thy ===== *)
theory SignalBuilds
  imports Signals GoUrl
begin

section \<open>What the rules read, and the rules about builds (internal/signals)\<close>

text \<open>
  The part of a snapshot the modelled rules read (snapshot.go), how findings word numbers and link
  at their evidence (format.go, evidence.go, objects.go), and the four rules of builds.go. The API
  objects are cut down to the fields the rules read.
\<close>

subsection \<open>The estate\<close>

definition BuildQueued :: string where "BuildQueued = ''Queued''"
definition BuildRunning :: string where "BuildRunning = ''Running''"
definition BuildSucceeded :: string where "BuildSucceeded = ''Succeeded''"
definition BuildFailed :: string where "BuildFailed = ''Failed''"

lemmas build_phases = BuildQueued_def BuildRunning_def BuildSucceeded_def BuildFailed_def

record condition =
  cn_type :: string
  cn_status :: string
  cn_reason :: string
  cn_message :: string
  cn_transition :: time

record build =
  bu_name :: string
  bu_project :: string
  bu_created :: time
  bu_phase :: string
  bu_started :: "time option"
  bu_completed :: "time option"
  bu_conditions :: "condition list"

record pod =
  pd_labels :: "(string \<times> string) list"
  pd_phase :: string
  pd_node :: string
  pd_conditions :: "condition list"

record volume_claim =
  vc_namespace :: string
  vc_class :: "string option"

record route =
  rt_namespace :: string
  rt_parents :: "string list"

record resource_claim =
  rc_project :: string
  rc_type :: string
  rc_connection :: "string option"

record platform_change =
  pc_at :: time
  pc_kind :: string
  pc_summary :: string

record estate =
  en_builds :: "build list"
  en_pods :: "pod list"
  en_nodes :: "string list"
  en_claims :: "volume_claim list"
  en_gateways :: "string list"
  en_routes :: "route list"
  en_resource_claims :: "resource_claim list"
  en_changes :: "platform_change list"
  en_opened :: "(string \<times> time) list"

text \<open>A label read off an object; an absent one reads as the empty string.\<close>

definition label_of :: "pod \<Rightarrow> string \<Rightarrow> string" where
  "label_of p name = (case map_of (pd_labels p) name of None \<Rightarrow> [] | Some v \<Rightarrow> v)"

subsection \<open>Words and links (format.go, evidence.go, objects.go)\<close>

text \<open>
  \<open>%.0f\<close> of the seconds below a minute rounds half to even. The minutes and hours of a span are
  floating point in the code: exact below a thousand hours, beyond that within nanoseconds of a full
  hour the code may say the next one.
\<close>

definition round_half_even :: "int \<Rightarrow> int \<Rightarrow> int" where
  "round_half_even n d =
     (let q = n div d; r = n mod d
      in if 2 * r < d then q else if d < 2 * r then q + 1 else if even q then q else q + 1)"

definition duration :: "int \<Rightarrow> string" where
  "duration span =
     (if span < minute then dec (nat (round_half_even (max span 0) second)) @ ''s''
      else if span < hour then dec (nat (span div minute)) @ ''m''
      else
        (let hours = span div hour; minutes = (span div minute) mod 60
         in if span < 24 * hour then
              (if minutes = 0 then dec (nat hours) @ ''h'' else dec (nat hours) @ ''h'' @ dec (nat minutes) @ ''m'')
            else
              (let days = hours div 24; remainder = hours mod 24
               in if remainder \<noteq> 0 then dec (nat days) @ ''d'' @ dec (nat remainder) @ ''h'' else dec (nat days) @ ''d'')))"

definition plural :: "nat \<Rightarrow> string \<Rightarrow> string \<Rightarrow> string" where
  "plural n singular many = dec n @ '' '' @ (if n = 1 then singular else many)"

definition withReason :: "string \<Rightarrow> string \<Rightarrow> string" where
  "withReason reason message =
     (if reason = [] then trim_space message
      else if trim_space message \<noteq> [] then reason @ '': '' @ trim_space message
      else reason)"

definition EvidenceBuilds :: string where "EvidenceBuilds = ''/builds''"

text \<open>\<open>url.PathEscape\<close>: a segment also escapes the slash, the comma and the semicolon.\<close>

definition path_escape :: "string \<Rightarrow> string" where
  "path_escape s = concat (map (\<lambda>c. if c \<in> set ''/,;'' then [CHR ''%'', upper_hex (byte c div 16), upper_hex (byte c mod 16)]
     else escape_byte c) s)"

definition projectEvidence :: "string \<Rightarrow> string" where
  "projectEvidence project = ''/projects/'' @ path_escape project"

definition buildEvidence :: "string \<Rightarrow> string" where
  "buildEvidence build_name = EvidenceBuilds @ ''/'' @ path_escape build_name"

definition find_condition :: "condition list \<Rightarrow> string \<Rightarrow> condition option" where
  "find_condition cs kind = find (\<lambda>c. cn_type c = kind) cs"

subsection \<open>Thresholds\<close>

definition BuildQueueFactor :: int where "BuildQueueFactor = 3"
definition BuildQueueFloor :: int where "BuildQueueFloor = 5 * minute"
definition BuildFailureStreak :: int where "BuildFailureStreak = 3"
definition BuildLookback :: int where "BuildLookback = 24 * hour"
definition PendingGrace :: int where "PendingGrace = 2 * minute"

subsection \<open>build.queue-backed-up\<close>

definition SignalBuildQueueBackedUp :: string where "SignalBuildQueueBackedUp = ''build.queue-backed-up''"
definition SignalBuildPodPending :: string where "SignalBuildPodPending = ''build.pod-pending''"
definition SignalBuildStalled :: string where "SignalBuildStalled = ''build.stalled''"
definition SignalBuildFailingRepeated :: string where "SignalBuildFailingRepeated = ''build.failing-repeatedly''"

definition ScopeBuild :: string where "ScopeBuild = ''build''"
definition ScopeProject :: string where "ScopeProject = ''project''"

definition no_scope :: scope where
  "no_scope = \<lparr>sc_kind = [], sc_project = [], sc_environment = [], sc_namespace = [], sc_node = [], sc_subject = []\<rparr>"

definition build_span :: "time \<Rightarrow> build \<Rightarrow> int option" where
  "build_span now b =
     (case (bu_started b, bu_completed b) of
        (Some started, Some completed) \<Rightarrow>
          if bu_phase b \<noteq> BuildSucceeded \<or> BuildLookback < time_sub now completed then None
          else if 0 < time_sub completed started then Some (time_sub completed started)
          else None
      | _ \<Rightarrow> None)"

definition medianBuildDuration :: "estate snapshot \<Rightarrow> int" where
  "medianBuildDuration sn =
     (let durations = List.map_filter (build_span (sn_now sn)) (en_builds (sn_estate sn))
      in if durations = [] then 0 else sort durations ! (length durations div 2))"

definition medianClause :: "int \<Rightarrow> int \<Rightarrow> string" where
  "medianClause median threshold =
     (if median \<le> 0 then ''no completed build to compare against, so the floor of '' @ duration threshold @ '' applies''
      else ''a build here normally takes '' @ duration median)"

definition queue_threshold :: "estate snapshot \<Rightarrow> int" where
  "queue_threshold sn = max (medianBuildDuration sn * BuildQueueFactor) BuildQueueFloor"

definition waiting_builds :: "estate snapshot \<Rightarrow> build list" where
  "waiting_builds sn =
     filter (\<lambda>b. bu_phase b = BuildQueued \<and> queue_threshold sn \<le> time_sub (sn_now sn) (bu_created b)) (en_builds (sn_estate sn))"

definition evaluateBuildQueue :: "estate snapshot \<Rightarrow> finding_row list" where
  "evaluateBuildQueue sn =
     (let threshold = queue_threshold sn; waiting = waiting_builds sn;
          oldestWait = foldl max 0 (map (\<lambda>b. time_sub (sn_now sn) (bu_created b)) waiting)
      in if waiting = [] then []
         else [fire SignalBuildQueueBackedUp SeverityWarning (no_scope\<lparr>sc_kind := ScopePlatform, sc_subject := ''builds''\<rparr>)
             (sn_now sn - oldestWait)
             (plural (length waiting) ''build'' ''builds'' @ '' waiting to start'')
             (sentence [''the oldest has waited '' @ duration oldestWait, medianClause (medianBuildDuration sn) threshold,
                ''builds run against a concurrency limit; until one finishes, the queue does not move''])
             EvidenceBuilds])"

subsection \<open>build.pod-pending and build.stalled\<close>

definition labelJobName :: string where "labelJobName = ''job-name''"
definition buildStalledCondition :: string where "buildStalledCondition = ''Stalled''"

definition build_scope :: "build \<Rightarrow> scope" where
  "build_scope b = no_scope\<lparr>sc_kind := ScopeBuild, sc_project := bu_project b, sc_subject := bu_name b\<rparr>"

definition buildPod :: "estate snapshot \<Rightarrow> string \<Rightarrow> pod option" where
  "buildPod sn build_name = find (\<lambda>p. label_of p labelJobName = build_name) (en_pods (sn_estate sn))"

definition pending_condition :: "estate snapshot \<Rightarrow> build \<Rightarrow> condition option" where
  "pending_condition sn b =
     (if bu_phase b \<noteq> BuildRunning then None
      else (case buildPod sn (bu_name b) of
          None \<Rightarrow> None
        | Some p \<Rightarrow>
            if pd_phase p \<noteq> ''Pending'' then None
            else (case find_condition (pd_conditions p) ''PodScheduled'' of
                None \<Rightarrow> None
              | Some c \<Rightarrow>
                  if cn_status c \<noteq> ''False'' \<or> time_sub (sn_now sn) (cn_transition c) < PendingGrace then None else Some c)))"

definition evaluateBuildPodPending :: "estate snapshot \<Rightarrow> finding_row list" where
  "evaluateBuildPodPending sn =
     List.map_filter (\<lambda>b. map_option (\<lambda>c.
         fire SignalBuildPodPending SeverityWarning (build_scope b) (cn_transition c) ''the build cannot be scheduled''
           (sentence [''pending for '' @ duration (time_sub (sn_now sn) (cn_transition c)),
              withReason (cn_reason c) (cn_message c),
              ''the build reports Running because its Job exists; nothing is executing''])
           (buildEvidence (bu_name b))) (pending_condition sn b))
       (en_builds (sn_estate sn))"

definition stalled_condition :: "build \<Rightarrow> condition option" where
  "stalled_condition b =
     (if bu_phase b \<noteq> BuildRunning then None
      else (case find_condition (bu_conditions b) buildStalledCondition of
          None \<Rightarrow> None
        | Some c \<Rightarrow> if cn_status c \<noteq> ''True'' then None else Some c))"

definition evaluateBuildStalled :: "estate snapshot \<Rightarrow> finding_row list" where
  "evaluateBuildStalled sn =
     List.map_filter (\<lambda>b. map_option (\<lambda>c.
         fire SignalBuildStalled SeverityWarning (build_scope b) (cn_transition c) ''the build job has no pod''
           (sentence [''stalled for '' @ duration (time_sub (sn_now sn) (cn_transition c)), cn_message c,
              ''the build reports Running because its Job exists; nothing is executing''])
           (buildEvidence (bu_name b))) (stalled_condition b))
       (en_builds (sn_estate sn))"

subsection \<open>build.failing-repeatedly\<close>

fun streak_from :: "int \<Rightarrow> time \<Rightarrow> build list \<Rightarrow> int \<times> time" where
  "streak_from streak since [] = (streak, since)"
| "streak_from streak since (b # bs) =
     (if bu_phase b = BuildFailed then streak_from (streak + 1) (bu_created b) bs
      else if bu_phase b = BuildSucceeded then (streak, since)
      else streak_from streak since bs)"

definition failureStreak :: "build list \<Rightarrow> int \<times> time" where
  "failureStreak bs = streak_from 0 zero_time bs"

text \<open>
  What the streak is: the failures before the newest success among the builds that ended either way,
  dated from the oldest of them.
\<close>

definition ended :: "build \<Rightarrow> bool" where
  "ended b \<longleftrightarrow> bu_phase b = BuildFailed \<or> bu_phase b = BuildSucceeded"

definition failures :: "build list \<Rightarrow> build list" where
  "failures bs = takeWhile (\<lambda>b. bu_phase b = BuildFailed) (filter ended bs)"

lemma streak_from_failures:
  "streak_from n since bs = (n + int (length (failures bs)), if failures bs = [] then since else bu_created (last (failures bs)))"
  by (induction bs arbitrary: n since) (auto simp: failures_def ended_def build_phases)

lemma failureStreak_spec:
  "failureStreak bs = (int (length (failures bs)), if failures bs = [] then zero_time else bu_created (last (failures bs)))"
  by (simp add: failureStreak_def streak_from_failures)

text \<open>Newest first; builds created in the same second keep their order.\<close>

definition recent_builds :: "estate snapshot \<Rightarrow> string \<Rightarrow> build list" where
  "recent_builds sn project =
     sort_key (\<lambda>b. - bu_created b) (filter (\<lambda>b. time_sub (sn_now sn) (bu_created b) \<le> BuildLookback \<and> bu_project b = project)
       (en_builds (sn_estate sn)))"

definition build_projects :: "estate snapshot \<Rightarrow> string list" where
  "build_projects sn =
     sort (remdups (map bu_project (filter (\<lambda>b. time_sub (sn_now sn) (bu_created b) \<le> BuildLookback) (en_builds (sn_estate sn)))))"

definition evaluateBuildFailing :: "estate snapshot \<Rightarrow> finding_row list" where
  "evaluateBuildFailing sn =
     List.map_filter (\<lambda>project.
         let (streak, since) = failureStreak (recent_builds sn project)
         in if streak < BuildFailureStreak then None
            else Some (fire SignalBuildFailingRepeated SeverityWarning (no_scope\<lparr>sc_kind := ScopeProject, sc_project := project\<rparr>) since
              (plural (nat streak) ''build'' ''builds'' @ '' in a row failed'')
              (sentence [format_int streak @ '' consecutive failures in '' @ duration BuildLookback,
                 ''a run this long is usually the project's configuration rather than its commits '' @ em_dash
                 @ '' a missing secret, a base image that moved, a registry that stopped accepting the credentials''])
              (projectEvidence project)))
       (build_projects sn)"

subsection \<open>The catalogue's entries\<close>

definition InputBuilds :: string where "InputBuilds = ''builds''"
definition InputPods :: string where "InputPods = ''pods''"

definition buildSignals :: "estate signal list" where
  "buildSignals =
     [\<lparr>si_id = SignalBuildQueueBackedUp, si_version = 2, si_correlates = False, si_audience = AudienceDeveloper,
        si_tiers = \<lparr>ti_developer = TierTicket, ti_operator = TierPage\<rparr>,
        si_summary = ''builds are waiting far longer than a build normally takes'',
        si_requires = [InputBuilds], si_evaluate = Some evaluateBuildQueue\<rparr>,
      \<lparr>si_id = SignalBuildPodPending, si_version = 2, si_correlates = False, si_audience = AudienceDeveloper,
        si_tiers = \<lparr>ti_developer = TierTicket, ti_operator = TierTicket\<rparr>,
        si_summary = ''a running build's pod cannot be scheduled'',
        si_requires = [InputBuilds, InputPods], si_evaluate = Some evaluateBuildPodPending\<rparr>,
      \<lparr>si_id = SignalBuildStalled, si_version = 2, si_correlates = False, si_audience = AudienceDeveloper,
        si_tiers = \<lparr>ti_developer = TierTicket, ti_operator = TierTicket\<rparr>,
        si_summary = ''a running build's job has never created a pod'',
        si_requires = [InputBuilds], si_evaluate = Some evaluateBuildStalled\<rparr>,
      \<lparr>si_id = SignalBuildFailingRepeated, si_version = 2, si_correlates = False, si_audience = AudienceDeveloper,
        si_tiers = \<lparr>ti_developer = TierTicket, ti_operator = TierLog\<rparr>,
        si_summary = ''a project's builds have failed several times in a row'',
        si_requires = [InputBuilds], si_evaluate = Some evaluateBuildFailing\<rparr>]"

end
