(* ===== verification/SignalCorrelation.thy ===== *)
theory SignalCorrelation
  imports SignalBuilds Kube
begin

section \<open>The confidence ladder (internal/signals/correlation.go)\<close>

text \<open>
  The rule that reads the round: one condition firing across several projects inside the
  correlation window becomes a finding about the platform, at the highest rung the snapshot
  supports. A Go map of findings by signal is the list of signals and a filter; the sets of what a
  project has in common are lists without order.
\<close>

subsection \<open>Confidence and the group\<close>

definition ConfidenceCoincidence :: string where "ConfidenceCoincidence = ''coincidence''"
definition ConfidenceDependency :: string where "ConfidenceDependency = ''dependency''"
definition ConfidenceChange :: string where "ConfidenceChange = ''change''"

definition ConfidenceRank :: "string \<Rightarrow> int" where
  "ConfidenceRank c =
     (if c = ConfidenceChange then 2 else if c = ConfidenceDependency then 1 else if c = ConfidenceCoincidence then 0 else - 1)"

definition SignalCorrelated :: string where "SignalCorrelated = ''platform.correlated''"

definition correlationExcluded :: "string list" where
  "correlationExcluded =
     [''env.error-rate'', ''env.latency-regressed'', ''platform.latency-correlated'', ''platform.error-correlated'', SignalCorrelated]"

definition correlatable :: "finding_row \<Rightarrow> bool" where
  "correlatable f \<longleftrightarrow> fi_signal f \<notin> set correlationExcluded \<and> fi_severity f \<noteq> SeverityUnknown \<and> fi_severity f \<noteq> SeverityInfo
     \<and> sc_project (fi_scope f) \<noteq> []"

text \<open>When a condition began, when that is known.\<close>

definition beganAt :: "estate snapshot \<Rightarrow> finding_row \<Rightarrow> time option" where
  "beganAt sn f =
     (case map_of (en_opened (sn_estate sn)) (fi_fingerprint f) of
        Some at \<Rightarrow>
          if \<not> is_zero at \<and> at \<le> sn_now sn then Some at
          else if is_zero (fi_since f) \<or> fi_since f = sn_now sn \<or> sn_now sn < fi_since f then None else Some (fi_since f)
      | None \<Rightarrow>
          if is_zero (fi_since f) \<or> fi_since f = sn_now sn \<or> sn_now sn < fi_since f then None else Some (fi_since f))"

definition known_starts :: "estate snapshot \<Rightarrow> finding_row list \<Rightarrow> (finding_row \<times> time) list" where
  "known_starts sn fs = List.map_filter (\<lambda>f. map_option (\<lambda>at. (f, at)) (beganAt sn f)) fs"

record coincidence =
  ci_projects :: "string list"
  ci_since :: time
  ci_title :: string
  ci_severity :: string

definition no_coincidence :: coincidence where
  "no_coincidence = \<lparr>ci_projects = [], ci_since = zero_time, ci_title = [], ci_severity = []\<rparr>"

fun affected :: "time \<Rightarrow> string list \<Rightarrow> coincidence \<Rightarrow> (finding_row \<times> time) list \<Rightarrow> coincidence" where
  "affected floor seen acc [] = acc"
| "affected floor seen acc ((f, at) # known) =
     (if at < floor \<or> sc_project (fi_scope f) \<in> set seen then affected floor seen acc known
      else affected floor (sc_project (fi_scope f) # seen)
        \<lparr>ci_projects = ci_projects acc @ [sc_project (fi_scope f)],
         ci_since = (if is_zero (ci_since acc) \<or> at < ci_since acc then at else ci_since acc),
         ci_title = (if ci_title acc = [] then fi_title f else ci_title acc),
         ci_severity = (if SeverityRank (ci_severity acc) < SeverityRank (fi_severity f) then fi_severity f else ci_severity acc)\<rparr>
        known)"

text \<open>The zero value of a severity ranks below every declared one.\<close>

definition newest_start :: "(finding_row \<times> time) list \<Rightarrow> time" where
  "newest_start known = foldl (\<lambda>newest (f, at). if newest < at then at else newest) zero_time known"

definition coincident :: "estate snapshot \<Rightarrow> finding_row list \<Rightarrow> policy \<Rightarrow> coincidence option" where
  "coincident sn fs p =
     (let known = known_starts sn fs;
          answer = affected (newest_start known - po_correlation_window p) [] no_coincidence known
      in if int (length (ci_projects answer)) < po_correlated p then None
         else Some (answer\<lparr>ci_projects := sort (ci_projects answer)\<rparr>))"

subsection \<open>What the affected projects share\<close>

definition oneCommon :: "string list \<Rightarrow> (string \<Rightarrow> string list) \<Rightarrow> string" where
  "oneCommon projects have_of =
     (if projects = [] \<or> (\<exists>p \<in> set projects. have_of p = []) then []
      else (case remdups (filter (\<lambda>v. \<forall>p \<in> set (tl projects). v \<in> set (have_of p)) (have_of (hd projects))) of
          [v] \<Rightarrow> v
        | _ \<Rightarrow> []))"

definition LabelProject :: string where "LabelProject = ''kitchen.bermos.dev/project''"

definition sharedNode :: "estate snapshot \<Rightarrow> string list \<Rightarrow> string" where
  "sharedNode sn projects =
     (if length (en_nodes (sn_estate sn)) < 2 then []
      else oneCommon projects (\<lambda>project.
        map pd_node (filter (\<lambda>p. label_of p LabelProject = project \<and> pd_node p \<noteq> [] \<and> pd_phase p \<noteq> ''Succeeded'' \<and> pd_phase p \<noteq> ''Failed'')
          (en_pods (sn_estate sn)))))"

definition storageClasses :: "estate snapshot \<Rightarrow> nat" where
  "storageClasses sn =
     length (remdups (filter (\<lambda>c. c \<noteq> []) (List.map_filter vc_class (en_claims (sn_estate sn)))))"

definition sharedStorageClass :: "estate snapshot \<Rightarrow> string list \<Rightarrow> string" where
  "sharedStorageClass sn projects =
     (if storageClasses sn < 2 then []
      else oneCommon projects (\<lambda>project.
        List.map_filter vc_class (filter (\<lambda>c. vc_namespace c = AppNamespace project) (en_claims (sn_estate sn)))))"

definition sharedGateway :: "estate snapshot \<Rightarrow> string list \<Rightarrow> string" where
  "sharedGateway sn projects =
     (if length (en_gateways (sn_estate sn)) < 2 then []
      else oneCommon projects (\<lambda>project.
        concat (map rt_parents (filter (\<lambda>r. rt_namespace r = AppNamespace project) (en_routes (sn_estate sn))))))"

definition sharedClaim :: "estate snapshot \<Rightarrow> string list \<Rightarrow> string" where
  "sharedClaim sn projects =
     oneCommon projects (\<lambda>project.
       List.map_filter (\<lambda>c. if rc_project c \<noteq> project then None
           else map_option (\<lambda>connection. rc_type c @ '' on '' @ connection) (rc_connection c))
         (en_resource_claims (sn_estate sn)))"

definition sharedDependencies :: "estate snapshot \<Rightarrow> string list \<Rightarrow> string list" where
  "sharedDependencies sn projects =
     (let node = sharedNode sn projects; class = sharedStorageClass sn projects;
          gateway = sharedGateway sn projects; attached = sharedClaim sn projects
      in (if node \<noteq> [] then [''node '' @ node] else [])
         @ (if class \<noteq> [] then [''storage class '' @ class] else [])
         @ (if gateway \<noteq> [] then [''the '' @ gateway @ '' gateway''] else [])
         @ (if attached \<noteq> [] then [''the '' @ attached @ '' they all attach''] else []))"

subsection \<open>The ladder\<close>

definition ResourceWindow :: int where "ResourceWindow = hour"
definition ChangeHorizon :: int where "ChangeHorizon = ResourceWindow"

definition searched :: "estate snapshot \<Rightarrow> int" where
  "searched sn =
     (let window = po_correlation_window (sn_policy sn)
      in if 0 < window \<and> window < ChangeHorizon then window else ChangeHorizon)"

definition nearer :: "platform_change option \<Rightarrow> platform_change \<Rightarrow> platform_change option" where
  "nearer nearest c = (case nearest of None \<Rightarrow> Some c | Some n \<Rightarrow> if pc_at n < pc_at c then Some c else Some n)"

definition changeBefore :: "estate snapshot \<Rightarrow> time \<Rightarrow> platform_change option" where
  "changeBefore sn since =
     foldl nearer None (filter (\<lambda>c. since - searched sn \<le> pc_at c \<and> pc_at c \<le> since) (en_changes (sn_estate sn)))"

definition ladderInputs :: "string list" where
  "ladderInputs =
     [''signal_transitions'', ''pods'', ''nodes'', ''persistentvolumeclaims'', ''gateways'', ''httproutes'', ''resourceclaims'',
      ''platform_changes'', ''k8s_events'', ''audit_records'']"

definition uncheckedByTheLadder :: "estate snapshot \<Rightarrow> string list" where
  "uncheckedByTheLadder sn = filter (\<lambda>input. fst (inputState sn input) = InputUnreadable) ladderInputs"

record rung =
  ru_confidence :: string
  ru_projects :: "string list"
  ru_shared :: "string list"
  ru_change :: "platform_change option"
  ru_searched :: int
  ru_unchecked :: "string list"

definition Ladder :: "estate snapshot \<Rightarrow> string list \<Rightarrow> time \<Rightarrow> rung" where
  "Ladder sn projects since =
     (let shared = sharedDependencies sn projects; change = changeBefore sn since
      in \<lparr>ru_confidence = (if change \<noteq> None then ConfidenceChange else if shared \<noteq> [] then ConfidenceDependency else ConfidenceCoincidence),
          ru_projects = projects, ru_shared = shared, ru_change = change, ru_searched = searched sn,
          ru_unchecked = uncheckedByTheLadder sn\<rparr>)"

definition tierForSeverity :: "string \<Rightarrow> string" where
  "tierForSeverity severity = (if severity = SeverityCritical then TierPage else TierTicket)"

definition blindSpot :: "rung \<Rightarrow> string" where
  "blindSpot r = (if ru_unchecked r = [] then [] else ''could not check '' @ join '', '' (ru_unchecked r))"

definition joinShared :: "string list \<Rightarrow> string" where
  "joinShared shared = (if shared = [] then ''nothing this evaluation can see'' else join '' and '' shared)"

definition explanation :: "rung \<Rightarrow> string" where
  "explanation r =
     (if ru_confidence r = ConfidenceChange then
        sentence [''the platform changed just before it: '' @ (case ru_change r of None \<Rightarrow> [] | Some c \<Rightarrow> pc_summary c)
            @ '' '' @ em_dash @ '' and these share '' @ joinShared (ru_shared r), blindSpot r]
      else if ru_confidence r = ConfidenceDependency then
        sentence [''these share '' @ joinShared (ru_shared r) @ '', which is where to look before anyone debugs an application'', blindSpot r]
      else if blindSpot r \<noteq> [] then
        ''nothing here explains it, and this evaluation could not look everywhere: '' @ blindSpot r
      else ''nothing explains it yet: no shared node, no shared dependency, and no change of ours in the '' @ duration (ru_searched r)
        @ '' before it '' @ em_dash @ '' which is worth knowing on its own'')"

definition rung_fire :: "rung \<Rightarrow> string \<Rightarrow> string \<Rightarrow> scope \<Rightarrow> time \<Rightarrow> string list \<Rightarrow> string \<Rightarrow> string \<Rightarrow> finding_row" where
  "rung_fire r i severity s since covers title detail =
     (fire i severity s since title (sentence [detail, explanation r]) EvidencePlatform)
     \<lparr>fi_confidence := ru_confidence r, fi_projects := ru_projects r, fi_correlates := covers, fi_tier := tierForSeverity severity\<rparr>"

definition correlated_ids :: "estate snapshot \<Rightarrow> string list" where
  "correlated_ids sn = sort (remdups (map fi_signal (filter correlatable (sn_round sn))))"

definition correlation_group :: "estate snapshot \<Rightarrow> string \<Rightarrow> finding_row list" where
  "correlation_group sn i = filter (\<lambda>f. correlatable f \<and> fi_signal f = i) (sn_round sn)"

definition evaluateCorrelated :: "estate snapshot \<Rightarrow> finding_row list" where
  "evaluateCorrelated sn =
     List.map_filter (\<lambda>i.
         map_option (\<lambda>co.
             rung_fire (Ladder sn (ci_projects co) (ci_since co)) SignalCorrelated (ci_severity co)
               (no_scope\<lparr>sc_kind := ScopePlatform, sc_subject := i\<rparr>) (ci_since co) [i]
               (ci_title co @ '' is firing in '' @ dec (length (ci_projects co)) @ '' projects at once'')
               (sentence [ci_title co @ '' across '' @ join '', '' (ci_projects co),
                  ''one condition in this many projects at once is usually one cause'']))
           (coincident sn (correlation_group sn i) (sn_policy sn)))
       (correlated_ids sn)"

definition correlationSignals :: "estate signal list" where
  "correlationSignals =
     [\<lparr>si_id = SignalCorrelated, si_version = 1, si_correlates = True, si_audience = AudienceOperator,
        si_tiers = \<lparr>ti_developer = [], ti_operator = TierPage\<rparr>,
        si_summary = ''one condition is firing across several projects at once'', si_requires = [],
        si_evaluate = Some evaluateCorrelated\<rparr>]"

definition change_key :: "platform_change \<Rightarrow> int \<times> string \<times> string" where
  "change_key c = (- pc_at c, pc_kind c, pc_summary c)"

definition SortPlatformChanges :: "platform_change list \<Rightarrow> platform_change list" where
  "SortPlatformChanges cs = sort_key change_key cs"

subsection \<open>What a correlation covers\<close>

text \<open>
  The specification: the projects with a finding of the condition whose start is known and lies
  inside the correlation window, which ends with the newest known start.
\<close>

definition window_start :: "estate snapshot \<Rightarrow> string \<Rightarrow> time" where
  "window_start sn i = newest_start (known_starts sn (correlation_group sn i)) - po_correlation_window (sn_policy sn)"

definition caught_up :: "estate snapshot \<Rightarrow> string \<Rightarrow> string set" where
  "caught_up sn i = {sc_project (fi_scope f) | f at. f \<in> set (sn_round sn) \<and> correlatable f \<and> fi_signal f = i
     \<and> beganAt sn f = Some at \<and> window_start sn i \<le> at}"

lemma known_starts_iff: "(f, at) \<in> set (known_starts sn fs) \<longleftrightarrow> f \<in> set fs \<and> beganAt sn f = Some at"
  by (force simp: known_starts_def List.map_filter_def)

lemma beganAt_real: "beganAt sn f = Some at \<Longrightarrow> \<not> is_zero at \<and> at \<le> sn_now sn"
  by (auto simp: beganAt_def split: option.splits if_splits)

lemma caught_up_known:
  "caught_up sn i = {sc_project (fi_scope f) | f at. (f, at) \<in> set (known_starts sn (correlation_group sn i)) \<and> window_start sn i \<le> at}"
  by (auto simp: caught_up_def known_starts_iff correlation_group_def)

lemma affected_projects:
  assumes "set (ci_projects acc) = set seen" "distinct (ci_projects acc)"
  shows "set (ci_projects (affected floor seen acc known)) = set seen \<union> {sc_project (fi_scope f) | f at. (f, at) \<in> set known \<and> floor \<le> at}
    \<and> distinct (ci_projects (affected floor seen acc known))"
  using assms
proof (induction known arbitrary: seen acc)
  case (Cons k known)
  obtain f at where k: "k = (f, at)" by (cases k)
  show ?case
  proof (cases "at < floor \<or> sc_project (fi_scope f) \<in> set seen")
    case True
    with Cons.IH [OF Cons.prems] show ?thesis by (auto simp: k)
  next
    case False
    let ?acc = "\<lparr>ci_projects = ci_projects acc @ [sc_project (fi_scope f)],
         ci_since = (if is_zero (ci_since acc) \<or> at < ci_since acc then at else ci_since acc),
         ci_title = (if ci_title acc = [] then fi_title f else ci_title acc),
         ci_severity = (if SeverityRank (ci_severity acc) < SeverityRank (fi_severity f) then fi_severity f else ci_severity acc)\<rparr>"
    have "set (ci_projects ?acc) = set (sc_project (fi_scope f) # seen)" "distinct (ci_projects ?acc)"
      using Cons.prems False by auto
    from Cons.IH [OF this] False show ?thesis by (auto simp: k not_less)
  qed
qed simp

text \<open>The instant a correlation began and its severity are those of findings it covers.\<close>

definition from_known :: "time \<Rightarrow> (finding_row \<times> time) list \<Rightarrow> coincidence \<Rightarrow> bool" where
  "from_known floor known co \<longleftrightarrow> (\<exists>f at. (f, at) \<in> set known \<and> floor \<le> at \<and> ci_since co = at)
     \<and> (ci_severity co = [] \<or> (\<exists>f at. (f, at) \<in> set known \<and> floor \<le> at \<and> ci_severity co = fi_severity f))"

lemma affected_from:
  assumes "\<forall>(f, at) \<in> set known. \<not> is_zero at" "set known \<subseteq> set all"
    and "acc = no_coincidence \<or> from_known floor all acc"
  shows "affected floor seen acc known = no_coincidence \<or> from_known floor all (affected floor seen acc known)"
  using assms
proof (induction known arbitrary: seen acc)
  case (Cons k known)
  obtain f at where k: "k = (f, at)" by (cases k)
  have all: "(f, at) \<in> set all" "\<not> is_zero at" using Cons.prems(1,2) by (auto simp: k)
  have rest: "\<forall>(f, at) \<in> set known. \<not> is_zero at" "set known \<subseteq> set all"
    using Cons.prems(1,2) by auto
  show ?case
  proof (cases "at < floor \<or> sc_project (fi_scope f) \<in> set seen")
    case True
    with Cons.IH [OF rest Cons.prems(3)] show ?thesis by (auto simp: k)
  next
    case False
    let ?acc = "\<lparr>ci_projects = ci_projects acc @ [sc_project (fi_scope f)],
         ci_since = (if is_zero (ci_since acc) \<or> at < ci_since acc then at else ci_since acc),
         ci_title = (if ci_title acc = [] then fi_title f else ci_title acc),
         ci_severity = (if SeverityRank (ci_severity acc) < SeverityRank (fi_severity f) then fi_severity f else ci_severity acc)\<rparr>"
    have "from_known floor all ?acc"
      using Cons.prems(3)
    proof
      assume "acc = no_coincidence"
      then have "ci_since ?acc = at" "ci_severity ?acc = fi_severity f \<or> ci_severity ?acc = []"
        by (auto simp: no_coincidence_def is_zero_def)
      then show ?thesis unfolding from_known_def using all(1) False not_less by metis
    next
      assume acc: "from_known floor all acc"
      have "ci_since ?acc = at \<or> ci_since ?acc = ci_since acc" "ci_severity ?acc = fi_severity f \<or> ci_severity ?acc = ci_severity acc"
        by auto
      then show ?thesis using acc all(1) False unfolding from_known_def by (metis not_less)
    qed
    with Cons.IH [OF rest] False show ?thesis by (simp add: k)
  qed
qed simp

lemma coincident_Some:
  assumes "coincident sn (correlation_group sn i) (sn_policy sn) = Some co" "1 \<le> po_correlated (sn_policy sn)"
  shows "ci_projects co = sorted_list_of_set (caught_up sn i)" "po_correlated (sn_policy sn) \<le> int (card (caught_up sn i))"
    "from_known (window_start sn i) (known_starts sn (correlation_group sn i)) co"
proof -
  let ?known = "known_starts sn (correlation_group sn i)"
  let ?co = "affected (window_start sn i) [] no_coincidence ?known"
  have co: "co = ?co\<lparr>ci_projects := sort (ci_projects ?co)\<rparr>" "po_correlated (sn_policy sn) \<le> int (length (ci_projects ?co))"
    using assms(1) by (auto simp: coincident_def Let_def window_start_def split: if_splits)
  have set: "set (ci_projects ?co) = caught_up sn i" "distinct (ci_projects ?co)"
    using affected_projects [of no_coincidence "[]" "window_start sn i" ?known]
    by (simp_all add: no_coincidence_def caught_up_known)
  then show "ci_projects co = sorted_list_of_set (caught_up sn i)"
    by (simp add: co(1) sorted_list_of_set_sort_remdups distinct_remdups_id flip: set(1))
  show "po_correlated (sn_policy sn) \<le> int (card (caught_up sn i))" using co(2) set by (metis distinct_card)
  have "?co \<noteq> no_coincidence" using co(2) assms(2) by (auto simp: no_coincidence_def)
  moreover have "?co = no_coincidence \<or> from_known (window_start sn i) ?known ?co"
    by (rule affected_from) (use beganAt_real in \<open>auto simp: known_starts_iff\<close>)
  ultimately have "from_known (window_start sn i) ?known ?co" by blast
  then show "from_known (window_start sn i) ?known co" by (simp add: co(1) from_known_def)
qed

lemma coincident_None:
  "coincident sn (correlation_group sn i) (sn_policy sn) = None \<longleftrightarrow> int (card (caught_up sn i)) < po_correlated (sn_policy sn)"
proof -
  let ?co = "affected (window_start sn i) [] no_coincidence (known_starts sn (correlation_group sn i))"
  have set: "set (ci_projects ?co) = caught_up sn i" "distinct (ci_projects ?co)"
    using affected_projects [of no_coincidence "[]" "window_start sn i" "known_starts sn (correlation_group sn i)"]
    by (simp_all add: no_coincidence_def caught_up_known)
  then have "length (ci_projects ?co) = card (caught_up sn i)" by (metis distinct_card)
  then show ?thesis by (simp add: coincident_def Let_def window_start_def)
qed

text \<open>What a correlation of one condition says.\<close>

definition covers :: "estate snapshot \<Rightarrow> string \<Rightarrow> finding_row \<Rightarrow> bool" where
  "covers sn i f \<longleftrightarrow> fi_signal f = SignalCorrelated \<and> fi_fingerprint f = SignalCorrelated @ ''/'' @ i
     \<and> fi_correlates f = [i] \<and> fi_projects f = sorted_list_of_set (caught_up sn i)
     \<and> fi_tier f = tierForSeverity (fi_severity f)
     \<and> (fi_severity f = SeverityCritical \<longrightarrow> (\<exists>g \<in> set (sn_round sn). fi_severity g = SeverityCritical \<and> fi_signal g = i))"

lemma list_all2_map_filter:
  assumes "\<And>x. x \<in> set xs \<Longrightarrow> f x = None \<longleftrightarrow> \<not> Q x" "\<And>x y. x \<in> set xs \<Longrightarrow> f x = Some y \<Longrightarrow> P x y"
  shows "list_all2 P (filter Q xs) (List.map_filter f xs)"
  using assms
proof (induction xs)
  case (Cons a xs)
  have "f a = None \<longleftrightarrow> \<not> Q a" "list_all2 P (filter Q xs) (List.map_filter f xs)" using Cons by simp_all
  with Cons.prems(2) [of a] show ?case by (cases "f a") (simp_all add: List.map_filter_simps)
qed (simp add: List.map_filter_simps)


lemma remdups_constant: "remdups (replicate (Suc n) i) = [i]"
proof (induction n)
  case (Suc n)
  have "remdups (replicate (Suc (Suc n)) i) = remdups (replicate (Suc n) i)" by simp
  with Suc.IH show ?case by (simp only:)
qed simp

lemma correlated_one:
  assumes "\<forall>f \<in> set (sn_round sn). correlatable f \<and> fi_signal f = i" "sn_round sn \<noteq> []"
  shows "correlated_ids sn = [i]" "correlation_group sn i = sn_round sn"
proof -
  have all: "filter correlatable (sn_round sn) = sn_round sn" using assms(1) by simp
  have "remdups (map fi_signal (sn_round sn)) = [i]" 
  proof -
    have "map fi_signal (sn_round sn) = replicate (length (sn_round sn)) i"
      using assms(1) by (intro replicate_eqI) auto
    moreover obtain n where "length (sn_round sn) = Suc n" using assms(2) by (cases "sn_round sn") auto
    ultimately show ?thesis using remdups_constant by metis
  qed
  then show "correlated_ids sn = [i]" by (simp add: correlated_ids_def all)
  show "correlation_group sn i = sn_round sn" using assms(1) by (simp add: correlation_group_def)
qed

text \<open>
  A correlation is dated from the first finding of each project, so a second environment of a
  project that failed earlier does not count: a change the platform made after that failure is then
  given as the one just before it.
\<close>

lemma correlation_blames_later_change:
  assumes "sn_round sn = [f1, f2, f3]" "\<forall>f \<in> {f1, f2, f3}. correlatable f \<and> fi_signal f = i"
    and "sc_project (fi_scope f1) \<noteq> sc_project (fi_scope f2)" "sc_project (fi_scope f3) = sc_project (fi_scope f2)"
    and "beganAt sn f1 = Some t1" "beganAt sn f2 = Some t2" "beganAt sn f3 = Some t3"
    and "zero_time < t3" "max t1 t2 - po_correlation_window (sn_policy sn) \<le> t3" "po_correlated (sn_policy sn) = 2"
    and "en_changes (sn_estate sn) = [c]" "t3 < pc_at c" "pc_at c \<le> min t1 t2" "min t1 t2 - searched sn \<le> pc_at c"
  shows "\<exists>f. evaluateCorrelated sn = [f] \<and> fi_since f = min t1 t2 \<and> t3 < fi_since f \<and> fi_confidence f = ConfidenceChange"
proof -
  have round: "\<forall>f \<in> set (sn_round sn). correlatable f \<and> fi_signal f = i" "sn_round sn \<noteq> []"
    unfolding assms(1) using assms(2) by (simp_all only: list.set simp_thms list.distinct)
  have ids: "correlated_ids sn = [i]" "correlation_group sn i = [f1, f2, f3]"
    using correlated_one [OF round] by (simp_all only: assms(1))
  have known: "known_starts sn [f1, f2, f3] = [(f1, t1), (f2, t2), (f3, t3)]"
    by (simp add: known_starts_def List.map_filter_simps assms(5-7))
  have real: "\<not> is_zero t1" "\<not> is_zero t2" using beganAt_real assms(5,6) by blast+
  have t: "t3 < t1" "t3 < t2" using assms(12,13) by linarith+
  have newest: "newest_start [(f1, t1), (f2, t2), (f3, t3)] = max t1 t2"
    using t assms(8) by (auto simp: newest_start_def max_def)
  have floor: "newest_start [(f1, t1), (f2, t2), (f3, t3)] - po_correlation_window (sn_policy sn) \<le> t3"
    using assms(9) by (simp only: newest)
  let ?co = "affected (newest_start [(f1, t1), (f2, t2), (f3, t3)] - po_correlation_window (sn_policy sn)) [] no_coincidence
    [(f1, t1), (f2, t2), (f3, t3)]"
  have in_window: "\<not> t1 < newest_start [(f1, t1), (f2, t2), (f3, t3)] - po_correlation_window (sn_policy sn)"
    "\<not> t2 < newest_start [(f1, t1), (f2, t2), (f3, t3)] - po_correlation_window (sn_policy sn)"
    using floor t by linarith+
  have co: "ci_projects ?co = [sc_project (fi_scope f1), sc_project (fi_scope f2)]" "ci_since ?co = min t1 t2"
    using in_window real assms(3,4) by (simp_all add: no_coincidence_def is_zero_def min_def)
  then have some: "coincident sn [f1, f2, f3] (sn_policy sn) = Some (?co\<lparr>ci_projects := sort (ci_projects ?co)\<rparr>)"
    by (simp only: coincident_def known Let_def assms(10)) simp
  have "changeBefore sn (min t1 t2) = Some c"
    using assms(13,14) by (simp add: changeBefore_def assms(11) nearer_def)
  then have "ru_confidence (Ladder sn projects (min t1 t2)) = ConfidenceChange" for projects
    by (simp add: Ladder_def Let_def)
  then have fired: "fi_since (rung_fire (Ladder sn projects (min t1 t2)) j sev s (min t1 t2) cs title det) = min t1 t2
      \<and> fi_confidence (rung_fire (Ladder sn projects (min t1 t2)) j sev s (min t1 t2) cs title det) = ConfidenceChange"
    for projects j sev s cs title det
    by (simp add: rung_fire_def fire_def)
  have since: "ci_since (?co\<lparr>ci_projects := ps\<rparr>) = min t1 t2" for ps using co(2) by simp
  have "t3 < min t1 t2" using t by simp
  then show ?thesis
    unfolding evaluateCorrelated_def ids List.map_filter_simps some option.map option.case since
    by (intro exI conjI) (rule refl, simp_all only: fired)
qed

text \<open>Two projects whose volumes fill: one of them failed in staging before the release at 10:03.\<close>

definition filling :: "string \<Rightarrow> string \<Rightarrow> time \<Rightarrow> finding_row" where
  "filling project environment since = fire ''volume.filling'' SeverityWarning
     (no_scope\<lparr>sc_kind := ScopeEnvironment, sc_project := project, sc_environment := environment\<rparr>) since ''volume filling'' [] []"

definition filling_snapshot :: "estate snapshot" where
  "filling_snapshot = \<lparr>sn_now = 11 * hour, sn_policy = the (map_of presets PresetHomelab), sn_inputs = [],
     sn_continuity = Map.empty,
     sn_round = [filling ''shop'' ''production'' (10 * hour + 5 * minute), filling ''site'' ''production'' (10 * hour + 6 * minute),
       filling ''site'' ''staging'' (10 * hour)],
     sn_estate = \<lparr>en_builds = [], en_pods = [], en_nodes = [], en_claims = [], en_gateways = [], en_routes = [],
       en_resource_claims = [], en_changes = [\<lparr>pc_at = 10 * hour + 3 * minute, pc_kind = ''release'', pc_summary = ''release 1.8''\<rparr>],
       en_opened = []\<rparr>\<rparr>"

lemma filling_sel [simp]:
  "fi_signal (filling project environment since) = ''volume.filling''" "fi_severity (filling project environment since) = SeverityWarning"
  "sc_project (fi_scope (filling project environment since)) = project" "fi_since (filling project environment since) = since"
  "fi_fingerprint (filling project environment since) = Fingerprint ''volume.filling''
     (no_scope\<lparr>sc_kind := ScopeEnvironment, sc_project := project, sc_environment := environment\<rparr>)"
  by (simp_all add: filling_def fire_def)

lemma filling_correlatable [simp]: "project \<noteq> [] \<Longrightarrow> correlatable (filling project environment since)"
  by (simp add: correlatable_def correlationExcluded_def SignalCorrelated_def severity_defs)

lemma filling_policy:
  "po_correlated (sn_policy filling_snapshot) = 2" "po_correlation_window (sn_policy filling_snapshot) = hour"
  by (simp_all add: filling_snapshot_def presets_def preset_defs)

lemma filling_began:
  "zero_time < since \<Longrightarrow> since < 11 * hour \<Longrightarrow> beganAt filling_snapshot (filling project environment since) = Some since"
  by (simp add: beganAt_def filling_snapshot_def is_zero_def)

lemma correlation_blames_later_change_witness:
  "\<exists>f. evaluateCorrelated filling_snapshot = [f] \<and> fi_since f = 10 * hour + 5 * minute \<and> 10 * hour < fi_since f
     \<and> fi_confidence f = ConfidenceChange"
proof -
  have times: "zero_time < 10 * hour" "10 * hour < 11 * hour" "10 * hour + 5 * minute < 11 * hour" "10 * hour + 6 * minute < 11 * hour"
    "zero_time < 10 * hour + 5 * minute" "zero_time < 10 * hour + 6 * minute"
    by (simp_all add: zero_time_def duration_units)
  have "\<exists>f. evaluateCorrelated filling_snapshot = [f] \<and> fi_since f = min (10 * hour + 5 * minute) (10 * hour + 6 * minute)
      \<and> 10 * hour < fi_since f \<and> fi_confidence f = ConfidenceChange"
  proof (rule correlation_blames_later_change)
    show "sn_round filling_snapshot = [filling ''shop'' ''production'' (10 * hour + 5 * minute),
        filling ''site'' ''production'' (10 * hour + 6 * minute), filling ''site'' ''staging'' (10 * hour)]"
      by (simp add: filling_snapshot_def)
    show "en_changes (sn_estate filling_snapshot) = [\<lparr>pc_at = 10 * hour + 3 * minute, pc_kind = ''release'', pc_summary = ''release 1.8''\<rparr>]"
      by (simp add: filling_snapshot_def)
    show "max (10 * hour + 5 * minute) (10 * hour + 6 * minute) - po_correlation_window (sn_policy filling_snapshot) \<le> 10 * hour"
      by (simp add: filling_policy duration_units)
    show "min (10 * hour + 5 * minute) (10 * hour + 6 * minute) - searched filling_snapshot
        \<le> pc_at \<lparr>pc_at = 10 * hour + 3 * minute, pc_kind = ''release'', pc_summary = ''release 1.8''\<rparr>"
      by (simp add: searched_def Let_def filling_policy ChangeHorizon_def ResourceWindow_def duration_units)
    show "beganAt filling_snapshot (filling ''shop'' ''production'' (10 * hour + 5 * minute)) = Some (10 * hour + 5 * minute)"
      "beganAt filling_snapshot (filling ''site'' ''production'' (10 * hour + 6 * minute)) = Some (10 * hour + 6 * minute)"
      "beganAt filling_snapshot (filling ''site'' ''staging'' (10 * hour)) = Some (10 * hour)" "zero_time < 10 * hour"
      by (rule filling_began times)+
  qed (simp_all add: filling_policy duration_units)
  then show ?thesis by (simp add: duration_units)
qed


end
