(* ===== verification/SignalAlerts.thy ===== *)
theory SignalAlerts
  imports SignalRounds "HOL-Library.Multiset"
begin

section \<open>Mitigation and escalation (internal/signals/mitigation.go, escalation.go)\<close>

text \<open>
  What people have done about a delivery, folded from the records of it, and what every reader of
  the open deliveries sees after that and the clock: the owner's row, the bystander's and the
  symptom a project is shown. The maps keyed by delivery or fingerprint are association lists.
\<close>

subsection \<open>Mitigations\<close>

definition MitigationAck :: string where "MitigationAck = ''ack''"
definition MitigationSilence :: string where "MitigationSilence = ''silence''"
definition MitigationUnsilence :: string where "MitigationUnsilence = ''unsilence''"
definition MitigationClaim :: string where "MitigationClaim = ''claim''"

lemmas mitigation_kinds = MitigationAck_def MitigationSilence_def MitigationUnsilence_def MitigationClaim_def

record mitigation =
  mi_at :: time
  mi_kind :: string
  mi_fingerprint :: string
  mi_audience :: string
  mi_project :: string
  mi_actor :: string
  mi_reason :: string
  mi_until :: time
  mi_source :: string

definition mitigation_key :: "mitigation \<Rightarrow> key" where
  "mitigation_key r = (mi_fingerprint r, mi_audience r)"

record mitigation_state =
  ms_acknowledged :: bool
  ms_acknowledged_by :: string
  ms_acknowledged_at :: time
  ms_acknowledged_source :: string
  ms_silenced_by :: string
  ms_silenced_at :: time
  ms_silence_reason :: string
  ms_silenced_until :: time
  ms_claimed_by :: string
  ms_claimed_at :: time

definition no_mitigation :: mitigation_state where
  "no_mitigation = \<lparr>ms_acknowledged = False, ms_acknowledged_by = [], ms_acknowledged_at = zero_time, ms_acknowledged_source = [],
     ms_silenced_by = [], ms_silenced_at = zero_time, ms_silence_reason = [], ms_silenced_until = zero_time,
     ms_claimed_by = [], ms_claimed_at = zero_time\<rparr>"

definition Silenced :: "mitigation_state \<Rightarrow> time \<Rightarrow> bool" where
  "Silenced s now \<longleftrightarrow> \<not> is_zero (ms_silenced_until s) \<and> now < ms_silenced_until s"

definition Mitigated :: "mitigation_state \<Rightarrow> time \<Rightarrow> bool" where
  "Mitigated s now \<longleftrightarrow> ms_acknowledged s \<or> ms_claimed_by s \<noteq> [] \<or> Silenced s now"

text \<open>The states so far, and when the silence half of each was last written.\<close>

type_synonym mitigations = "(key \<times> mitigation_state) list"

definition state_of :: "mitigations \<Rightarrow> key \<Rightarrow> mitigation_state" where
  "state_of states k = (case map_of states k of None \<Rightarrow> no_mitigation | Some s \<Rightarrow> s)"

definition fold_one :: "mitigations \<times> (key \<times> time) list \<Rightarrow> mitigation \<Rightarrow> mitigations \<times> (key \<times> time) list" where
  "fold_one acc r =
     (let (states, silencedAt) = acc; k = mitigation_key r; s = state_of states k;
          silenced = (case map_of silencedAt k of None \<Rightarrow> zero_time | Some at \<Rightarrow> at);
          newer = silenced < mi_at r
      in if mi_kind r = MitigationAck then
           (AList.update k (if ms_acknowledged_at s < mi_at r
               then s\<lparr>ms_acknowledged := True, ms_acknowledged_by := mi_actor r, ms_acknowledged_at := mi_at r,
                      ms_acknowledged_source := mi_source r\<rparr> else s) states, silencedAt)
         else if mi_kind r = MitigationSilence then
           (AList.update k (if newer
               then s\<lparr>ms_silenced_by := mi_actor r, ms_silenced_at := mi_at r, ms_silence_reason := mi_reason r,
                      ms_silenced_until := mi_until r\<rparr> else s) states,
            if newer then AList.update k (mi_at r) silencedAt else silencedAt)
         else if mi_kind r = MitigationUnsilence then
           (AList.update k (if newer
               then s\<lparr>ms_silenced_by := [], ms_silenced_at := zero_time, ms_silence_reason := [],
                      ms_silenced_until := zero_time\<rparr> else s) states,
            if newer then AList.update k (mi_at r) silencedAt else silencedAt)
         else if mi_kind r = MitigationClaim then
           (AList.update k (if ms_claimed_at s < mi_at r
               then s\<lparr>ms_claimed_by := mi_actor r, ms_claimed_at := mi_at r\<rparr> else s) states, silencedAt)
         else (AList.update k s states, silencedAt))"

definition FoldMitigations :: "mitigation list \<Rightarrow> mitigations" where
  "FoldMitigations records = fst (foldl fold_one ([], []) records)"

datatype silence_refusal = NoReason | NoExpiry | TooLong int

definition ValidateSilence :: "string \<Rightarrow> time \<Rightarrow> policy \<Rightarrow> time \<Rightarrow> silence_refusal option" where
  "ValidateSilence reason until p now =
     (let limit = po_max_silence (Normalised p)
      in if reason = [] then Some NoReason
         else if is_zero until \<or> \<not> now < until then Some NoExpiry
         else if limit < time_sub until now then Some (TooLong limit)
         else None)"

subsection \<open>Alerts\<close>

record alert =
  al_finding :: finding_row
  al_tier :: string
  al_base :: string
  al_mitigation :: mitigation_state
  al_opened :: time
  al_unmitigated :: int
  al_escalated :: bool
  al_untended :: bool
  al_note :: string
  al_owner :: bool
  al_symptom :: bool
  al_actionable :: bool

definition alert_key :: "alert \<Rightarrow> key" where
  "alert_key a = (fi_fingerprint (al_finding a), fi_audience (al_finding a))"

definition ownerTier :: "string \<Rightarrow> bool" where
  "ownerTier tier \<longleftrightarrow> TierRank TierTicket \<le> TierRank tier"

definition unmitigatedFor :: "change \<Rightarrow> time \<Rightarrow> int" where
  "unmitigatedFor c now =
     (let opened = (if is_zero (tn_opened c) then tn_at c else tn_opened c)
      in if now < opened then 0 else time_sub now opened)"

definition elapsed :: "int \<Rightarrow> string" where
  "elapsed d =
     (if d < minute then format_int (d div second) @ ''s''
      else
        (let hours = d div hour; minutes = (d div minute) mod 60
         in if hours = 0 then format_int minutes @ ''m'' else format_int hours @ ''h '' @ format_int minutes @ ''m''))"

definition middle_dot :: string where "middle_dot = [CHR 0xC2, CHR 0xB7]"

definition nonEmpty :: "string list \<Rightarrow> string list" where
  "nonEmpty parts = filter (\<lambda>p. p \<noteq> []) parts"

definition escalationNote :: "scope \<Rightarrow> int \<Rightarrow> string" where
  "escalationNote s unmitigated =
     (let place = join '' / '' (nonEmpty [sc_project s, sc_environment s]);
          place = (if place = [] then sc_kind s else place)
      in place @ '' '' @ middle_dot @ '' unmitigated '' @ elapsed unmitigated @ '' '' @ middle_dot @ '' nobody has acknowledged'')"

definition base_alert :: "change \<Rightarrow> mitigation_state \<Rightarrow> policy \<Rightarrow> bool \<Rightarrow> alert" where
  "base_alert c s p owner =
     \<lparr>al_finding = Finding c, al_tier = Deliver p (tn_tier c), al_base = Deliver p (tn_tier c), al_mitigation = s,
      al_opened = tn_opened c, al_unmitigated = 0, al_escalated = False, al_untended = False, al_note = [],
      al_owner = owner, al_symptom = False, al_actionable = True\<rparr>"

definition assessOwner :: "change \<Rightarrow> mitigation_state \<Rightarrow> policy \<Rightarrow> time \<Rightarrow> alert" where
  "assessOwner c s p now =
     (let a = base_alert c s p True
      in if Silenced s now then a\<lparr>al_tier := TierLog\<rparr>
         else if Mitigated s now then a\<lparr>al_tier := atMost (al_tier a) TierTicket\<rparr>
         else
           (let unmitigated = unmitigatedFor c now; a = a\<lparr>al_unmitigated := unmitigated\<rparr>
            in if ownerTier (al_base a) \<and> po_escalation_window p < unmitigated
               then a\<lparr>al_escalated := True, al_untended := UntendedAfter p < unmitigated,
                      al_note := escalationNote (tn_scope c) unmitigated\<rparr>
               else a))"

definition assessBystander :: "change \<Rightarrow> mitigation_state \<Rightarrow> alert \<Rightarrow> policy \<Rightarrow> time \<Rightarrow> alert" where
  "assessBystander c s owner p now =
     (let a = base_alert c s p False
      in if Silenced s now then a\<lparr>al_tier := TierLog\<rparr>
         else if ms_acknowledged (al_mitigation owner) \<or> ms_claimed_by (al_mitigation owner) \<noteq> [] then a\<lparr>al_tier := TierLog\<rparr>
         else if al_escalated owner then
           a\<lparr>al_tier := TierAtLeast (al_tier a) TierTicket, al_escalated := True, al_untended := al_untended owner,
             al_unmitigated := al_unmitigated owner, al_note := al_note owner\<rparr>
         else a\<lparr>al_unmitigated := unmitigatedFor c now\<rparr>)"

definition ownerAudiences :: "change list \<Rightarrow> (string \<times> string) list" where
  "ownerAudiences opened =
     foldl (\<lambda>owners c.
         if tn_audience c = AudienceDeveloper then AList.update (tn_fingerprint c) AudienceDeveloper owners
         else if map_of owners (tn_fingerprint c) = None then AList.update (tn_fingerprint c) AudienceOperator owners
         else owners)
       [] opened"

definition owns :: "change list \<Rightarrow> change \<Rightarrow> bool" where
  "owns opened c \<longleftrightarrow> map_of (ownerAudiences opened) (tn_fingerprint c) = Some (tn_audience c)"

definition alert_order :: "alert \<Rightarrow> int \<times> int \<times> string \<times> string \<times> string" where
  "alert_order a = (- TierRank (al_tier a), - SeverityRank (fi_severity (al_finding a)), fi_signal (al_finding a),
     fi_fingerprint (al_finding a), fi_audience (al_finding a))"

definition SortAlerts :: "alert list \<Rightarrow> alert list" where
  "SortAlerts as = sort_key alert_order as"

text \<open>The zero alert, which a fingerprint without an owner's row would be compared with.\<close>

definition no_alert :: alert where
  "no_alert =
     \<lparr>al_finding = \<lparr>fi_signal = [], fi_severity = [], fi_scope = \<lparr>sc_kind = [], sc_project = [], sc_environment = [],
          sc_namespace = [], sc_node = [], sc_subject = []\<rparr>, fi_audience = [], fi_tier = [], fi_fingerprint = [],
          fi_title = [], fi_detail = [], fi_since = zero_time, fi_evidence = [], fi_projects = [], fi_correlates = [],
          fi_confidence = [], fi_policy = []\<rparr>,
      al_tier = [], al_base = [], al_mitigation = no_mitigation, al_opened = zero_time, al_unmitigated = 0,
      al_escalated = False, al_untended = False, al_note = [], al_owner = False, al_symptom = False, al_actionable = False\<rparr>"

definition owner_alerts :: "change list \<Rightarrow> mitigations \<Rightarrow> policy \<Rightarrow> time \<Rightarrow> (string \<times> alert) list" where
  "owner_alerts opened states p now =
     map (\<lambda>c. (tn_fingerprint c, assessOwner c (state_of states (Key c)) p now)) (filter (owns opened) opened)"

definition owner_of :: "(string \<times> alert) list \<Rightarrow> string \<Rightarrow> alert" where
  "owner_of owned fingerprint = (case map_of (rev owned) fingerprint of None \<Rightarrow> no_alert | Some a \<Rightarrow> a)"

definition Assess :: "change list \<Rightarrow> mitigations \<Rightarrow> policy \<Rightarrow> time \<Rightarrow> alert list" where
  "Assess opened states p0 now =
     (let p = Normalised p0; owned = owner_alerts opened states p now
      in SortAlerts (map snd owned
           @ map (\<lambda>c. assessBystander c (state_of states (Key c)) (owner_of owned (tn_fingerprint c)) p now)
               (filter (\<lambda>c. \<not> owns opened c) opened)))"

subsection \<open>Symptoms\<close>

definition symptomMarker :: string where "symptomMarker = ''#symptom''"

definition symptomFinding :: "change \<Rightarrow> finding_row" where
  "symptomFinding c =
     (let place = (if sc_environment (tn_scope c) = [] then sc_project (tn_scope c) else sc_environment (tn_scope c))
      in \<lparr>fi_signal = tn_signal c, fi_severity = tn_severity c,
          fi_scope = \<lparr>sc_kind = ScopeEnvironment, sc_project = sc_project (tn_scope c),
             sc_environment = sc_environment (tn_scope c), sc_namespace = [], sc_node = [], sc_subject = []\<rparr>,
          fi_audience = AudienceDeveloper, fi_tier = TierLog, fi_fingerprint = tn_fingerprint c @ symptomMarker,
          fi_title = place @ '' degraded'', fi_detail = ''a platform issue, the operator has been notified'',
          fi_since = tn_since c, fi_evidence = [], fi_projects = [], fi_correlates = [], fi_confidence = [], fi_policy = []\<rparr>)"

definition Symptoms :: "change list \<Rightarrow> string \<Rightarrow> time \<Rightarrow> alert list" where
  "Symptoms opened project now =
     SortAlerts (map (\<lambda>c.
         \<lparr>al_finding = symptomFinding c, al_tier = TierLog, al_base = TierLog, al_mitigation = no_mitigation,
          al_opened = tn_opened c, al_unmitigated = unmitigatedFor c now, al_escalated = False, al_untended = False,
          al_note = [], al_owner = False, al_symptom = True, al_actionable = False\<rparr>)
       (filter (\<lambda>c. tn_audience c = AudienceOperator \<and> sc_project (tn_scope c) \<noteq> []
          \<and> (project = [] \<or> sc_project (tn_scope c) = project)) opened))"

subsection \<open>One alert for every open delivery\<close>

lemma key_base_alert [simp]: "alert_key (base_alert c s p owner) = Key c"
  by (simp add: alert_key_def base_alert_def Finding_def Key_def)

lemma alert_key_update [simp]:
  "alert_key (a\<lparr>al_tier := x1\<rparr>) = alert_key a" "alert_key (a\<lparr>al_unmitigated := x2\<rparr>) = alert_key a"
  "alert_key (a\<lparr>al_escalated := x3\<rparr>) = alert_key a" "alert_key (a\<lparr>al_untended := x4\<rparr>) = alert_key a"
  "alert_key (a\<lparr>al_note := x5\<rparr>) = alert_key a"
  by (simp_all add: alert_key_def)

lemma key_assessed [simp]: "alert_key (assessOwner c s p now) = Key c" "alert_key (assessBystander c s owner p now) = Key c"
  by (simp_all add: assessOwner_def assessBystander_def Let_def)

lemma owner_audience:
  "map_of (ownerAudiences opened) fingerprint =
     (if \<exists>c \<in> set opened. tn_fingerprint c = fingerprint \<and> tn_audience c = AudienceDeveloper then Some AudienceDeveloper
      else if \<exists>c \<in> set opened. tn_fingerprint c = fingerprint then Some AudienceOperator else None)"
  unfolding ownerAudiences_def
proof (induction opened arbitrary: fingerprint rule: rev_induct)
  case (snoc c opened)
  let ?found = "foldl (\<lambda>owners c. if tn_audience c = AudienceDeveloper then AList.update (tn_fingerprint c) AudienceDeveloper owners
      else if map_of owners (tn_fingerprint c) = None then AList.update (tn_fingerprint c) AudienceOperator owners else owners) [] opened"
  have "map_of ?found (tn_fingerprint c) = None \<longleftrightarrow> \<not> (\<exists>c' \<in> set opened. tn_fingerprint c' = tn_fingerprint c)"
    unfolding snoc.IH by auto
  then show ?case using snoc.IH [of fingerprint] by (auto simp: update_conv')
qed simp

text \<open>The one row of a reader: what is assessed of a delivery.\<close>

definition row_of :: "change list \<Rightarrow> mitigations \<Rightarrow> policy \<Rightarrow> time \<Rightarrow> change \<Rightarrow> alert" where
  "row_of opened states p0 now c =
     (let p = Normalised p0
      in if owns opened c then assessOwner c (state_of states (Key c)) p now
         else assessBystander c (state_of states (Key c)) (owner_of (owner_alerts opened states p now) (tn_fingerprint c)) p now)"

lemma set_Assess: "set (Assess opened states p now) = row_of opened states p now ` set opened"
  by (auto simp: Assess_def Let_def SortAlerts_def owner_alerts_def row_of_def image_iff)

lemma key_row_of [simp]: "alert_key (row_of opened states p now c) = Key c"
  by (simp add: row_of_def Let_def)

lemma length_partition: "length (filter P xs) + length (filter (\<lambda>x. \<not> P x) xs) = length xs"
  by (induction xs) auto

lemma distinct_Assess:
  assumes "distinct (map Key opened)"
  shows "distinct (map alert_key (Assess opened states p now))"
proof (rule card_distinct)
  have "set (map alert_key (Assess opened states p now)) = set (map Key opened)"
    by (simp add: set_Assess image_image)
  moreover have "length (map alert_key (Assess opened states p now)) = length (map Key opened)"
    by (simp add: Assess_def Let_def SortAlerts_def owner_alerts_def length_partition)
  ultimately show "card (set (map alert_key (Assess opened states p now))) = length (map alert_key (Assess opened states p now))"
    using distinct_card [OF assms] by simp
qed

lemma filter_unique:
  assumes "distinct (map f xs)" "x \<in> set xs"
  shows "filter (\<lambda>y. f y = f x) xs = [x]"
  using assms
proof (induction xs)
  case (Cons y xs)
  have "filter (\<lambda>z. f z = f y) xs = []" using Cons.prems(1) by (auto simp: filter_empty_conv image_iff)
  with Cons show ?case by (auto simp: image_iff)
qed simp

lemma one_alert:
  assumes "distinct (map Key opened)" "c \<in> set opened"
  shows "filter (\<lambda>a. alert_key a = Key c) (Assess opened states p now) = [row_of opened states p now c]"
proof -
  have "row_of opened states p now c \<in> set (Assess opened states p now)" using assms(2) by (simp add: set_Assess)
  from filter_unique [OF distinct_Assess [OF assms(1)] this] show ?thesis by simp
qed

lemma map_of_rev_unique:
  assumes "(k, v) \<in> set xs" "\<And>w. (k, w) \<in> set xs \<Longrightarrow> w = v"
  shows "map_of (rev xs) k = Some v"
proof (cases "map_of (rev xs) k")
  case None
  then have "k \<notin> fst ` set (rev xs)" unfolding map_of_eq_None_iff .
  then show ?thesis using assms(1) by force
next
  case (Some w)
  then have "(k, w) \<in> set xs" using map_of_SomeD by fastforce
  with Some assms(2) show ?thesis by simp
qed

lemma owner_of_fingerprint:
  assumes "distinct (map Key opened)" "d \<in> set opened" "owns opened d"
  shows "owner_of (owner_alerts opened states p now) (tn_fingerprint d) = assessOwner d (state_of states (Key d)) p now"
proof -
  have inj: "inj_on Key (set opened)" using assms(1) by (simp add: distinct_map)
  have same: "c = d" if "c \<in> set opened" "owns opened c" "tn_fingerprint c = tn_fingerprint d" for c
  proof -
    have "Key c = Key d" using that(2,3) assms(3) by (simp add: owns_def Key_def)
    with inj that(1) assms(2) show ?thesis by (simp only: inj_on_eq_iff)
  qed
  have "map_of (rev (owner_alerts opened states p now)) (tn_fingerprint d) = Some (assessOwner d (state_of states (Key d)) p now)"
  proof (rule map_of_rev_unique)
    show "(tn_fingerprint d, assessOwner d (state_of states (Key d)) p now) \<in> set (owner_alerts opened states p now)"
      using assms(2,3) by (simp add: owner_alerts_def)
    fix w assume "(tn_fingerprint d, w) \<in> set (owner_alerts opened states p now)"
    then obtain c where c: "c \<in> set opened" "owns opened c" "tn_fingerprint c = tn_fingerprint d"
      "w = assessOwner c (state_of states (Key c)) p now" unfolding owner_alerts_def by force
    show "w = assessOwner d (state_of states (Key d)) p now" unfolding c(4) same [OF c(1-3)] by (rule refl)
  qed
  then show ?thesis by (simp add: owner_of_def)
qed

text \<open>A condition with a developer's row belongs to the developer.\<close>

lemma developer_owns: "d \<in> set opened \<Longrightarrow> tn_audience d = AudienceDeveloper \<Longrightarrow> owns opened d"
  by (auto simp: owns_def owner_audience)

lemma copy_not_owner:
  "d \<in> set opened \<Longrightarrow> tn_audience d = AudienceDeveloper \<Longrightarrow> tn_fingerprint c = tn_fingerprint d
     \<Longrightarrow> tn_audience c = AudienceOperator \<Longrightarrow> \<not> owns opened c"
  by (auto simp: owns_def owner_audience)

lemma row_of_owner:
  "owns opened d \<Longrightarrow> row_of opened states p now d = assessOwner d (state_of states (Key d)) (Normalised p) now"
  by (simp add: row_of_def Let_def)

lemma row_of_copy:
  assumes "distinct (map Key opened)" "d \<in> set opened" "tn_audience d = AudienceDeveloper"
    and "tn_fingerprint c = tn_fingerprint d" "tn_audience c = AudienceOperator"
  shows "row_of opened states p now c = assessBystander c (state_of states (Key c)) (row_of opened states p now d) (Normalised p) now"
proof -
  have d: "owns opened d" by (rule developer_owns [OF assms(2,3)])
  have "\<not> owns opened c" by (rule copy_not_owner [OF assms(2-5)])
  then show ?thesis
    using owner_of_fingerprint [OF assms(1,2) d] by (simp add: row_of_def Let_def d assms(4))
qed

subsection \<open>The audience matrix\<close>

lemma TierRank_simps [simp]: "TierRank TierPage = 2" "TierRank TierTicket = 1" "TierRank TierLog = 0"
  by (simp_all add: TierRank_def tier_defs)

lemma rank_atMost: "TierRank (atMost t ceiling) = min (TierRank t) (TierRank ceiling)"
  by (simp add: atMost_def)

lemma rank_AtLeast: "TierRank (TierAtLeast t floor) = max (TierRank t) (TierRank floor)"
  by (simp add: TierAtLeast_def)

definition escalates :: "change \<Rightarrow> mitigation_state \<Rightarrow> policy \<Rightarrow> time \<Rightarrow> bool" where
  "escalates c s p now \<longleftrightarrow> \<not> Mitigated s now \<and> ownerTier (Deliver p (tn_tier c)) \<and> po_escalation_window p < unmitigatedFor c now"

lemma assessOwner_escalated [simp]: "al_escalated (assessOwner c s p now) = escalates c s p now"
  by (auto simp: assessOwner_def Let_def base_alert_def escalates_def Mitigated_def)

lemma assessOwner_mitigation [simp]: "al_mitigation (assessOwner c s p now) = s"
  by (simp add: assessOwner_def Let_def base_alert_def)

lemma assessOwner_tier: "al_tier (assessOwner c s p now) =
    (if Silenced s now then TierLog else if Mitigated s now then atMost (Deliver p (tn_tier c)) TierTicket else Deliver p (tn_tier c))"
  by (simp add: assessOwner_def Let_def base_alert_def)

lemma assessBystander_tier: "al_tier (assessBystander c s owner p now) =
    (if Silenced s now \<or> ms_acknowledged (al_mitigation owner) \<or> ms_claimed_by (al_mitigation owner) \<noteq> [] then TierLog
     else if al_escalated owner then TierAtLeast (Deliver p (tn_tier c)) TierTicket else Deliver p (tn_tier c))"
  by (simp add: assessBystander_def Let_def base_alert_def)

lemma assessBystander_escalated: "al_escalated (assessBystander c s owner p now) \<longleftrightarrow>
    \<not> Silenced s now \<and> \<not> ms_acknowledged (al_mitigation owner) \<and> ms_claimed_by (al_mitigation owner) = [] \<and> al_escalated owner"
  by (auto simp: assessBystander_def Let_def base_alert_def)

text \<open>The two rows of one condition, for the witnesses.\<close>

definition demo_row :: "time \<Rightarrow> string \<Rightarrow> change" where
  "demo_row at audience = transition_row (NewTracker (Some [demo_rule])) StateOpen (demo_key audience) (demo_finding at) at at"

definition demo_opened :: "time \<Rightarrow> change list" where
  "demo_opened at = map (demo_row at) [AudienceDeveloper, AudienceOperator]"

lemma demo_row_sel [simp]: "Key (demo_row at audience) = demo_key audience" "tn_audience (demo_row at audience) = audience"
  "tn_opened (demo_row at audience) = at" "tn_fingerprint (demo_row at audience) = ''env.broken/shop/live''"
  "tn_tier (demo_row at AudienceDeveloper) = TierTicket" "tn_tier (demo_row at AudienceOperator) = TierLog"
  by (simp_all add: demo_row_def demo_key_def Key_def transition_row_def Let_def NewTracker_def demo_rule_def demo_finding_def fire_def
     TiersFor_def lowered_def TierValid_def TierRank_def tier_defs audience_defs)

lemma demo_opened_facts: "distinct (map Key (demo_opened at))" "demo_row at AudienceDeveloper \<in> set (demo_opened at)"
  "demo_row at AudienceOperator \<in> set (demo_opened at)"
  by (simp_all add: demo_opened_def)

lemma demo_policy: "Normalised DefaultPolicy = DefaultPolicy" "po_escalation_window DefaultPolicy = hour" "po_paging DefaultPolicy"
  by (simp_all add: Normalised_def DefaultPolicy_def presets_def preset_defs Let_def CorrelatedProjects_def RecentWindow_def
     EscalationWindow_def UntendedMultiple_def MaxSilence_def duration_units)

lemma demo_escalates:
  "escalates (demo_row second AudienceDeveloper) no_mitigation DefaultPolicy (second + 2 * hour)"
  by (simp add: escalates_def Mitigated_def no_mitigation_def Silenced_def is_zero_def ownerTier_def Deliver_def demo_policy
     unmitigatedFor_def time_sub_def clamp_i64_def duration_units zero_time_def)

text \<open>
  C38. The two rows of a developer's condition. Each open delivery is one alert; a silence of the
  project's row leaves the operator's row at the tier the rule declared, an acknowledgement makes it
  a log, and a condition its owner should act on that nobody has touched for longer than the window
  is marked on the owner's row and raises the operator's to at least a ticket, unless the operators
  have silenced it themselves.
\<close>

theorem alerts_of_condition:
  assumes "distinct (map Key opened)" "d \<in> set opened" "tn_audience d = AudienceDeveloper" "TierValid (tn_tier d)"
    and "c \<in> set opened" "tn_audience c = AudienceOperator" "tn_fingerprint c = tn_fingerprint d"
    and "s = state_of states (Key d)" "u = state_of states (Key c)" "p = Normalised p0"
  shows "\<exists>a b. filter (\<lambda>x. alert_key x = Key d) (Assess opened states p0 now) = [a]
     \<and> filter (\<lambda>x. alert_key x = Key c) (Assess opened states p0 now) = [b]
     \<and> TierRank (al_tier a) \<le> TierRank (Deliver p (tn_tier d))
     \<and> al_escalated a = escalates d s p now
     \<and> al_escalated b = (escalates d s p now \<and> \<not> Silenced u now)
     \<and> (Silenced u now \<longrightarrow> al_tier b = TierLog)
     \<and> (ms_acknowledged s \<longrightarrow> al_tier b = TierLog)
     \<and> (\<not> Silenced u now \<and> escalates d s p now \<longrightarrow> TierRank (al_tier b) = max 1 (TierRank (Deliver p (tn_tier c))))
     \<and> (\<not> Silenced u now \<and> Silenced s now \<and> \<not> ms_acknowledged s \<and> ms_claimed_by s = [] \<longrightarrow> al_tier b = Deliver p (tn_tier c))"
proof -
  let ?a = "assessOwner d s p now" and ?b = "assessBystander c u (assessOwner d s p now) p now"
  have a: "row_of opened states p0 now d = ?a"
    using row_of_owner [OF developer_owns [OF assms(2,3)]] by (simp add: assms(8,10))
  have b: "row_of opened states p0 now c = ?b"
    using row_of_copy [OF assms(1-3,7,6)] a by (simp add: assms(9,10))
  note lists = one_alert [OF assms(1,2), of states p0 now] one_alert [OF assms(1,5), of states p0 now]
  have "0 \<le> TierRank (Deliver p (tn_tier d))" using assms(4) by (auto simp: Deliver_def TierValid_def)
  then show ?thesis
    unfolding lists a b
    by (intro exI [of _ ?a] exI [of _ ?b])
      (auto simp: assessOwner_tier assessBystander_tier assessBystander_escalated rank_atMost rank_AtLeast max_def escalates_def Mitigated_def)
qed

theorem alerts_of_condition_witness:
  "\<exists>a b. filter (\<lambda>x. alert_key x = demo_key AudienceDeveloper) (Assess (demo_opened second) [] DefaultPolicy (second + 2 * hour)) = [a]
     \<and> filter (\<lambda>x. alert_key x = demo_key AudienceOperator) (Assess (demo_opened second) [] DefaultPolicy (second + 2 * hour)) = [b]
     \<and> al_escalated a \<and> al_escalated b \<and> TierRank (al_tier b) = 1"
proof -
  let ?d = "demo_row second AudienceDeveloper" and ?c = "demo_row second AudienceOperator"
  have none: "state_of [] k = no_mitigation" for k by (simp add: state_of_def)
  have quiet: "\<not> Silenced no_mitigation now" for now by (simp add: Silenced_def no_mitigation_def is_zero_def)
  have esc: "escalates ?d (state_of [] (demo_key AudienceDeveloper)) (Normalised DefaultPolicy) (second + 2 * hour)"
    "\<not> Silenced (state_of [] (demo_key AudienceOperator)) (second + 2 * hour)"
    by (simp_all only: none demo_policy demo_escalates quiet not_False_eq_True)
  have log: "max 1 (TierRank (Deliver (Normalised DefaultPolicy) (tn_tier ?c))) = 1"
    by (simp add: Deliver_def demo_policy)
  have tier: "TierValid (tn_tier ?d)" by (simp add: TierValid_def)
  have same: "tn_fingerprint ?c = tn_fingerprint ?d" by simp
  note both = alerts_of_condition [OF demo_opened_facts(1,2) demo_row_sel(2) tier demo_opened_facts(3) demo_row_sel(2) same refl refl refl,
      where states = "[]" and ?p0.0 = DefaultPolicy and now = "second + 2 * hour", unfolded log demo_row_sel(1)]
  show ?thesis
    by (rule exE [OF both], elim exE conjE) (intro exI conjI, assumption+, simp_all only: esc simp_thms)
qed

subsection \<open>Folding the records\<close>

text \<open>What one record does to the state of its delivery and the instant of its silence half.\<close>

definition applied_to :: "mitigation \<Rightarrow> mitigation_state \<times> time \<Rightarrow> mitigation_state \<times> time" where
  "applied_to r st =
     (let (s, at) = st
      in if mi_kind r = MitigationAck then
           (if ms_acknowledged_at s < mi_at r
            then s\<lparr>ms_acknowledged := True, ms_acknowledged_by := mi_actor r, ms_acknowledged_at := mi_at r,
                   ms_acknowledged_source := mi_source r\<rparr> else s, at)
         else if mi_kind r = MitigationSilence then
           (if at < mi_at r then (s\<lparr>ms_silenced_by := mi_actor r, ms_silenced_at := mi_at r, ms_silence_reason := mi_reason r,
                ms_silenced_until := mi_until r\<rparr>, mi_at r) else (s, at))
         else if mi_kind r = MitigationUnsilence then
           (if at < mi_at r then (s\<lparr>ms_silenced_by := [], ms_silenced_at := zero_time, ms_silence_reason := [],
                ms_silenced_until := zero_time\<rparr>, mi_at r) else (s, at))
         else if mi_kind r = MitigationClaim then
           (if ms_claimed_at s < mi_at r then s\<lparr>ms_claimed_by := mi_actor r, ms_claimed_at := mi_at r\<rparr> else s, at)
         else (s, at))"

definition seen_at :: "mitigations \<times> (key \<times> time) list \<Rightarrow> key \<Rightarrow> mitigation_state \<times> time" where
  "seen_at acc k = (state_of (fst acc) k, case map_of (snd acc) k of None \<Rightarrow> zero_time | Some at \<Rightarrow> at)"

definition at_key :: "key \<Rightarrow> mitigation \<Rightarrow> mitigation_state \<times> time \<Rightarrow> mitigation_state \<times> time" where
  "at_key k r st = (if mitigation_key r = k then applied_to r st else st)"

lemma state_of_update: "state_of (AList.update k s states) k' = (if k' = k then s else state_of states k')"
  by (simp add: state_of_def update_conv')

lemma seen_fold_one: "seen_at (fold_one acc r) k = at_key k r (seen_at acc k)"
proof -
  obtain states silencedAt where acc: "acc = (states, silencedAt)" by (cases acc)
  show ?thesis
    by (cases "k = mitigation_key r"; cases "mi_kind r = MitigationAck"; cases "mi_kind r = MitigationSilence";
        cases "mi_kind r = MitigationUnsilence"; cases "mi_kind r = MitigationClaim")
      (simp_all add: acc seen_at_def at_key_def applied_to_def fold_one_def Let_def state_of_update update_conv' mitigation_kinds)
qed

lemma seen_foldl: "seen_at (foldl fold_one acc records) k = fold (at_key k) records (seen_at acc k)"
  by (induction records arbitrary: acc) (simp_all add: seen_fold_one)

lemma state_of_FoldMitigations: "state_of (FoldMitigations records) k = fst (fold (at_key k) records (no_mitigation, zero_time))"
proof -
  have "state_of (FoldMitigations records) k = fst (seen_at (foldl fold_one ([], []) records) k)"
    by (simp add: FoldMitigations_def seen_at_def)
  also have "\<dots> = fst (fold (at_key k) records (no_mitigation, zero_time))"
    unfolding seen_foldl by (simp add: seen_at_def state_of_def)
  finally show ?thesis .
qed

lemma applied_kinds:
  "mi_kind r = MitigationAck \<Longrightarrow> applied_to r (s, at) =
     (if ms_acknowledged_at s < mi_at r
      then s\<lparr>ms_acknowledged := True, ms_acknowledged_by := mi_actor r, ms_acknowledged_at := mi_at r,
             ms_acknowledged_source := mi_source r\<rparr> else s, at)"
  "mi_kind r = MitigationSilence \<Longrightarrow> applied_to r (s, at) =
     (if at < mi_at r then s\<lparr>ms_silenced_by := mi_actor r, ms_silenced_at := mi_at r, ms_silence_reason := mi_reason r,
        ms_silenced_until := mi_until r\<rparr> else s, max at (mi_at r))"
  "mi_kind r = MitigationUnsilence \<Longrightarrow> applied_to r (s, at) =
     (if at < mi_at r then s\<lparr>ms_silenced_by := [], ms_silenced_at := zero_time, ms_silence_reason := [],
        ms_silenced_until := zero_time\<rparr> else s, max at (mi_at r))"
  "mi_kind r = MitigationClaim \<Longrightarrow> applied_to r (s, at) =
     (if ms_claimed_at s < mi_at r then s\<lparr>ms_claimed_by := mi_actor r, ms_claimed_at := mi_at r\<rparr> else s, at)"
  by (simp_all add: applied_to_def mitigation_kinds max_def)

text \<open>Records of different instants may be folded in any order.\<close>

lemma applied_commute:
  assumes "mi_at r \<noteq> mi_at r'"
  shows "applied_to r (applied_to r' st) = applied_to r' (applied_to r st)"
proof -
  obtain s at where st: "st = (s, at)" by (cases st)
  have o: "mi_at r < mi_at r' \<or> mi_at r' < mi_at r" using assms by linarith
  have kinds: "mi_kind x = MitigationAck \<or> mi_kind x = MitigationSilence \<or> mi_kind x = MitigationUnsilence
      \<or> mi_kind x = MitigationClaim \<or> applied_to x = (\<lambda>st. st)" for x
    by (auto simp: applied_to_def fun_eq_iff)
  show ?thesis
    unfolding st using kinds [of r] kinds [of r'] o by (elim disjE) (simp_all add: applied_kinds)
qed

lemma FoldMitigations_any_order:
  assumes "inj_on mi_at (set records)" "mset records' = mset records"
  shows "state_of (FoldMitigations records') k = state_of (FoldMitigations records) k"
proof -
  have "at_key k r \<circ> at_key k r' = at_key k r' \<circ> at_key k r" if "r \<in> set records'" "r' \<in> set records'" for r r'
  proof (cases "r = r'")
    case False
    have "set records' = set records" using assms(2) by (metis set_mset_mset)
    then have "mi_at r \<noteq> mi_at r'" using False that assms(1) by (auto dest: inj_onD)
    then show ?thesis by (auto simp: at_key_def fun_eq_iff applied_commute)
  qed simp
  then have "fold (at_key k) records' = fold (at_key k) records"
    using assms(2) by (intro fold_multiset_equiv) auto
  then show ?thesis by (simp add: state_of_FoldMitigations)
qed

subsection \<open>An acknowledgement and the episodes after it\<close>

lemma acknowledged_stays: "ms_acknowledged (fst st) \<Longrightarrow> ms_acknowledged (fst (fold (at_key k) records st))"
  by (induction records arbitrary: st) (auto simp: at_key_def applied_to_def Let_def split_beta)

lemma unacknowledged_at:
  "(ms_acknowledged (fst st) \<or> ms_acknowledged_at (fst st) = zero_time)
     \<Longrightarrow> ms_acknowledged (fst (at_key k r st)) \<or> ms_acknowledged_at (fst (at_key k r st)) = zero_time"
  by (auto simp: at_key_def applied_to_def Let_def split_beta)

lemma acknowledged_by_record:
  assumes "r \<in> set records" "mi_kind r = MitigationAck" "zero_time < mi_at r"
    and "ms_acknowledged (fst st) \<or> ms_acknowledged_at (fst st) = zero_time"
  shows "ms_acknowledged (fst (fold (at_key (mitigation_key r)) records st))"
  using assms
proof (induction records arbitrary: st)
  case (Cons r' records)
  show ?case
  proof (cases "r' = r")
    case True
    have "ms_acknowledged (fst (at_key (mitigation_key r) r st))"
      using Cons.prems(2-4) by (auto simp: at_key_def applied_to_def Let_def split_beta)
    then show ?thesis by (simp add: True acknowledged_stays)
  next
    case False
    with Cons.prems show ?thesis by (simp add: Cons.IH unacknowledged_at)
  qed
qed simp

lemma FoldMitigations_acknowledged:
  assumes "r \<in> set records" "mi_kind r = MitigationAck" "zero_time < mi_at r"
  shows "ms_acknowledged (state_of (FoldMitigations records) (mitigation_key r))"
  unfolding state_of_FoldMitigations by (rule acknowledged_by_record [OF assms]) (simp add: no_mitigation_def)

text \<open>
  An acknowledgement outlives the episode it was given for: a condition that resolves and opens
  again is still acknowledged by the old record, however long it then stays open; it does not
  escalate and its operator's row is a log.
\<close>

lemma ack_outlives_episode:
  assumes "distinct (map Key opened)" "d \<in> set opened" "tn_audience d = AudienceDeveloper"
    and "c \<in> set opened" "tn_audience c = AudienceOperator" "tn_fingerprint c = tn_fingerprint d"
    and "r \<in> set records" "mi_kind r = MitigationAck" "mitigation_key r = Key d" "zero_time < mi_at r" "mi_at r < tn_opened d"
  shows "\<exists>a b. filter (\<lambda>x. alert_key x = Key d) (Assess opened (FoldMitigations records) p now) = [a]
     \<and> filter (\<lambda>x. alert_key x = Key c) (Assess opened (FoldMitigations records) p now) = [b]
     \<and> \<not> al_escalated a \<and> \<not> al_untended a \<and> TierRank (al_tier a) \<le> 1 \<and> al_tier b = TierLog"
proof -
  let ?s = "state_of (FoldMitigations records) (Key d)"
  have ack: "ms_acknowledged ?s" using FoldMitigations_acknowledged [OF assms(7,8,10)] by (simp only: assms(9))
  then have m: "Mitigated ?s now" by (simp add: Mitigated_def)
  note lists = one_alert [OF assms(1,2), of "FoldMitigations records" p now] one_alert [OF assms(1,4), of "FoldMitigations records" p now]
  have a: "row_of opened (FoldMitigations records) p now d = assessOwner d ?s (Normalised p) now"
    by (rule row_of_owner [OF developer_owns [OF assms(2,3)]])
  have "\<not> al_escalated (assessOwner d ?s (Normalised p) now)" "\<not> al_untended (assessOwner d ?s (Normalised p) now)"
    "TierRank (al_tier (assessOwner d ?s (Normalised p) now)) \<le> 1"
    using m by (simp_all add: escalates_def assessOwner_tier rank_atMost) (simp add: assessOwner_def Let_def base_alert_def)
  moreover have "al_tier (row_of opened (FoldMitigations records) p now c) = TierLog"
    unfolding row_of_copy [OF assms(1-3,6,5)] a by (simp add: assessBystander_tier ack)
  ultimately show ?thesis unfolding lists a by blast
qed

definition demo_ack :: mitigation where
  "demo_ack = \<lparr>mi_at = second, mi_kind = MitigationAck, mi_fingerprint = ''env.broken/shop/live'', mi_audience = AudienceDeveloper,
     mi_project = ''shop'', mi_actor = ''ana'', mi_reason = [], mi_until = zero_time, mi_source = ''explicit''\<rparr>"

lemma ack_outlives_episode_witness:
  "\<exists>a b. filter (\<lambda>x. alert_key x = demo_key AudienceDeveloper)
         (Assess (demo_opened (2 * hour)) (FoldMitigations [demo_ack]) DefaultPolicy (100 * hour)) = [a]
     \<and> filter (\<lambda>x. alert_key x = demo_key AudienceOperator)
         (Assess (demo_opened (2 * hour)) (FoldMitigations [demo_ack]) DefaultPolicy (100 * hour)) = [b]
     \<and> \<not> al_escalated a \<and> \<not> al_untended a \<and> TierRank (al_tier a) \<le> 1 \<and> al_tier b = TierLog"
proof -
  have key: "mitigation_key demo_ack = demo_key AudienceDeveloper"
    by (simp add: mitigation_key_def demo_ack_def demo_key_def)
  show ?thesis
    using ack_outlives_episode [OF demo_opened_facts(1,2) _ demo_opened_facts(3) [of "2 * hour"], where r = demo_ack and records = "[demo_ack]"
      and p = DefaultPolicy and now = "100 * hour"]
    by (simp add: key) (simp add: demo_ack_def zero_time_def duration_units)
qed

text \<open>
  A claim is recorded against the operator's row (see \<open>writeMitigation\<close>), and the assessment of that
  row reads the acknowledgement and the claim of the owner's: what the operators record about the
  copy, a silence apart, changes nothing of what it is assessed as.
\<close>

lemma claim_of_copy_ignored:
  assumes "Silenced u now = Silenced u' now"
  shows "assessBystander c u' owner p now = (assessBystander c u owner p now)\<lparr>al_mitigation := u'\<rparr>"
  using assms by (simp add: assessBystander_def Let_def base_alert_def)

end
