(* ===== verification/ApiGuard.thy ===== *)
theory ApiGuard
  imports Access GateToken Kube
begin

section \<open>The API's enforcement table (internal/api/policy.go)\<close>

text \<open>
  Every route of the API with what it asks of its caller, the resolvers that find the project a
  request is about, and the guard each handler is wrapped in. A request is what the mux and the token
  check leave of it: the caller, the path values and the body. The cluster is a snapshot of what the
  API server answers, so the objects the guard keeps for the handler are not seen here. The sentences
  of the refusals are left out; what they are made from is kept.
\<close>

subsection \<open>Callers (internal/api/auth.go, internal/idp)\<close>

record api_caller =
  cl_subject :: string
  cl_email :: string
  cl_name :: string
  cl_verified :: bool
  cl_client :: string
  cl_key :: string

definition caller_access :: "api_caller \<Rightarrow> caller" where
  "caller_access c = \<lparr>ca_subject = cl_subject c, ca_email = cl_email c, ca_verified = cl_verified c, ca_key = cl_key c\<rparr>"

definition MachineAccountDomain :: string where "MachineAccountDomain = ''machines.kitchen.local''"
definition PlatformAccountDomain :: string where "PlatformAccountDomain = ''platform.kitchen.local''"

definition IsMachineAccount :: "string \<Rightarrow> bool" where
  "IsMachineAccount email \<longleftrightarrow> has_suffix (to_lower (trim_space email)) (''@'' @ MachineAccountDomain)"

definition IsPlatformAccount :: "string \<Rightarrow> bool" where
  "IsPlatformAccount email \<longleftrightarrow> has_suffix (to_lower (trim_space email)) (''@'' @ PlatformAccountDomain)"

definition isMachine :: "api_caller \<Rightarrow> bool" where
  "isMachine c \<longleftrightarrow> IsMachineAccount (cl_email c) \<or> IsPlatformAccount (cl_email c)"

definition isPlatformCredential :: "api_caller \<Rightarrow> bool" where
  "isPlatformCredential c \<longleftrightarrow> IsPlatformAccount (cl_email c)"

definition callerName :: "api_caller \<Rightarrow> string" where
  "callerName c = (if cl_email c \<noteq> [] then cl_email c else if cl_subject c \<noteq> [] then cl_subject c else ''unknown'')"

subsection \<open>Answers\<close>

text \<open>The errors of a read by what \<open>writeError\<close> tells apart; a missing object names its resource.\<close>

datatype api_error =
    Missing string string
  | Exists string
  | Conflicted string
  | Invalid string
  | BadRequest string
  | Denied string
  | Broken string

datatype reply_body =
    ErrorText string
  | NoSuchObject string string
  | NotForCredential string string bool
  | NotForNarrowedKey string string "string list" string
  | NeedsSignIn string
  | NeedsOperator string platform_role
  | NeedsScope string string "string list"
  | NarrowedAway string string "string list"
  | UnrecognisedKey string
  | RoleTooLow project_role string string project_role

record reply =
  rp_status :: nat
  rp_body :: reply_body

primrec writeError :: "api_error \<Rightarrow> reply" where
  "writeError (Missing resource name) = \<lparr>rp_status = 404, rp_body = NoSuchObject resource name\<rparr>"
| "writeError (Exists t) = \<lparr>rp_status = 409, rp_body = ErrorText t\<rparr>"
| "writeError (Conflicted t) = \<lparr>rp_status = 409, rp_body = ErrorText t\<rparr>"
| "writeError (Invalid t) = \<lparr>rp_status = 400, rp_body = ErrorText t\<rparr>"
| "writeError (BadRequest t) = \<lparr>rp_status = 400, rp_body = ErrorText t\<rparr>"
| "writeError (Denied t) = \<lparr>rp_status = 403, rp_body = ErrorText t\<rparr>"
| "writeError (Broken t) = \<lparr>rp_status = 500, rp_body = ErrorText t\<rparr>"

definition forbidden :: "reply_body \<Rightarrow> reply" where
  "forbidden reason = \<lparr>rp_status = 403, rp_body = reason\<rparr>"

subsection \<open>Requirements\<close>

datatype requirement_kind =
    RequireAuthenticated
  | RequirePerson
  | RequireInteractive
  | RequireOperator
  | RequireProjectRole
  | RequireVisibleProjects
  | RequireRoleShapedBody

text \<open>What the API server answers; an object that names its project is the name, a subscription may name none.\<close>

record cluster =
  kl_projects :: "string \<Rightarrow> api_error + project"
  kl_builds :: "string \<Rightarrow> api_error + string"
  kl_releases :: "string \<Rightarrow> api_error + string"
  kl_environments :: "string \<Rightarrow> api_error + string"
  kl_claims :: "string \<Rightarrow> api_error + string"
  kl_promotions :: "string \<Rightarrow> api_error + string"
  kl_exceptions :: "string \<Rightarrow> api_error + string"
  kl_domains :: "string \<Rightarrow> api_error + string"
  kl_subscriptions :: "string \<Rightarrow> api_error + string option"
  kl_deliveries :: "string \<Rightarrow> api_error + string"
  kl_project_list :: "api_error + project list"

text \<open>A request after routing: its path values and what reading its body gives.\<close>

record api_request =
  rq_path :: "string \<Rightarrow> string"
  rq_body :: "string + string"

record project_resolver =
  rv_resource :: string
  rv_resolve :: "cluster \<Rightarrow> api_request \<Rightarrow> api_error + string \<times> string"

record requirement =
  rm_kind :: requirement_kind
  rm_role :: project_role
  rm_project :: "project_resolver option"
  rm_doing :: string
  rm_scope :: string

definition bare_requirement :: "requirement_kind \<Rightarrow> string \<Rightarrow> requirement" where
  "bare_requirement kind doing = \<lparr>rm_kind = kind, rm_role = ProjectRoleNone, rm_project = None, rm_doing = doing, rm_scope = ScopeNone\<rparr>"

definition anyCaller :: requirement where "anyCaller = bare_requirement RequireAuthenticated []"
definition anyPerson :: "string \<Rightarrow> requirement" where "anyPerson doing = bare_requirement RequirePerson doing"
definition interactively :: "string \<Rightarrow> requirement" where "interactively doing = bare_requirement RequireInteractive doing"
definition operatorOnly :: "string \<Rightarrow> requirement" where "operatorOnly doing = bare_requirement RequireOperator doing"

definition operatorOr :: "string \<Rightarrow> string \<Rightarrow> requirement" where
  "operatorOr scope doing = (bare_requirement RequireOperator doing)\<lparr>rm_scope := scope\<rparr>"

definition operatorOrOnProject :: "string \<Rightarrow> project_resolver \<Rightarrow> string \<Rightarrow> requirement" where
  "operatorOrOnProject scope from_project doing =
     (bare_requirement RequireOperator doing)\<lparr>rm_scope := scope, rm_project := Some from_project\<rparr>"

definition onProject :: "project_role \<Rightarrow> project_resolver \<Rightarrow> string \<Rightarrow> requirement" where
  "onProject role from_project doing =
     (bare_requirement RequireProjectRole doing)\<lparr>rm_role := role, rm_project := Some from_project\<rparr>"

definition acrossProjects :: requirement where "acrossProjects = bare_requirement RequireVisibleProjects []"
definition byRole :: "string \<Rightarrow> requirement" where "byRole doing = bare_requirement RequireRoleShapedBody doing"

lemmas requirement_defs = bare_requirement_def anyCaller_def anyPerson_def interactively_def operatorOnly_def operatorOr_def
  operatorOrOnProject_def onProject_def acrossProjects_def byRole_def

subsection \<open>Resolvers\<close>

definition path_name :: "api_request \<Rightarrow> string" where
  "path_name req = rq_path req ''name''"

definition IsNotFound :: "api_error \<Rightarrow> bool" where
  "IsNotFound e \<longleftrightarrow> (case e of Missing _ _ \<Rightarrow> True | _ \<Rightarrow> False)"

definition ofProject :: project_resolver where
  "ofProject = \<lparr>rv_resource = ''projects'', rv_resolve = (\<lambda>_ req. Inr (path_name req, path_name req))\<rparr>"

definition objectResolver :: "string \<Rightarrow> (cluster \<Rightarrow> string \<Rightarrow> api_error + string) \<Rightarrow> project_resolver" where
  "objectResolver resource get = \<lparr>rv_resource = resource, rv_resolve = (\<lambda>kl req.
     (case get kl (path_name req) of Inl e \<Rightarrow> Inl e | Inr project \<Rightarrow> Inr (project, path_name req)))\<rparr>"

definition ofBuild :: project_resolver where "ofBuild = objectResolver ''builds'' kl_builds"
definition ofRelease :: project_resolver where "ofRelease = objectResolver ''releases'' kl_releases"
definition ofEnvironment :: project_resolver where "ofEnvironment = objectResolver ''environments'' kl_environments"
definition ofClaim :: project_resolver where "ofClaim = objectResolver ''resourceclaims'' kl_claims"
definition ofPromotion :: project_resolver where "ofPromotion = objectResolver ''promotions'' kl_promotions"
definition ofException :: project_resolver where "ofException = objectResolver ''exceptions'' kl_exceptions"

text \<open>The project one hop away; an owner that is gone is nobody's.\<close>

definition of_owner :: "(string \<Rightarrow> api_error + string) \<Rightarrow> string \<Rightarrow> string \<Rightarrow> api_error + string \<times> string" where
  "of_owner get owner target =
     (case get owner of
        Inl e \<Rightarrow> if IsNotFound e then Inr ([], target) else Inl e
      | Inr project \<Rightarrow> Inr (project, target))"

definition ofDomain :: project_resolver where
  "ofDomain = \<lparr>rv_resource = ''domains'', rv_resolve = (\<lambda>kl req.
     (case kl_domains kl (path_name req) of Inl e \<Rightarrow> Inl e | Inr env \<Rightarrow> of_owner (kl_environments kl) env (path_name req)))\<rparr>"

definition subscription_project :: "cluster \<Rightarrow> string \<Rightarrow> api_error + string" where
  "subscription_project kl name =
     (case kl_subscriptions kl name of Inl e \<Rightarrow> Inl e | Inr None \<Rightarrow> Inr [] | Inr (Some project) \<Rightarrow> Inr project)"

definition ofSubscription :: project_resolver where
  "ofSubscription = objectResolver ''notificationsubscriptions'' subscription_project"

definition ofDelivery :: project_resolver where
  "ofDelivery = \<lparr>rv_resource = ''notificationdeliveries'', rv_resolve = (\<lambda>kl req.
     (case kl_deliveries kl (path_name req) of
        Inl e \<Rightarrow> Inl e
      | Inr subscription \<Rightarrow> of_owner (subscription_project kl) subscription (path_name req)))\<rparr>"

text \<open>
  A field of a body, the way the handler's own decoding will read it: the first JSON value, into a
  struct of one string (\<open>struct_field\<close>). None is a body the handler refuses as well.
\<close>

definition bodyField :: "string \<Rightarrow> string \<Rightarrow> string option" where
  "bodyField raw field =
     (case parse_value (Suc (length raw)) raw of
        Some (JObject kvs, _) \<Rightarrow> struct_field as_string [] [field] kvs field
      | Some (JNull, _) \<Rightarrow> Some []
      | _ \<Rightarrow> None)"

definition maxRequestBody :: nat where "maxRequestBody = 1048576"

definition fromBody :: "string \<Rightarrow> string \<Rightarrow> (cluster \<Rightarrow> string \<Rightarrow> api_error + string) option \<Rightarrow> project_resolver" where
  "fromBody resource field of_name = \<lparr>rv_resource = resource, rv_resolve = (\<lambda>kl req.
     (case rq_body req of
        Inl reason \<Rightarrow> Inl (Broken reason)
      | Inr raw \<Rightarrow>
          (case bodyField (take maxRequestBody raw) field of
             None \<Rightarrow> Inr ([], [])
           | Some value \<Rightarrow>
               let name = trim_space value
               in if name = [] then Inr ([], [])
                  else (case of_name of
                      None \<Rightarrow> Inr (name, name)
                    | Some project_of \<Rightarrow> (case project_of kl name of Inl e \<Rightarrow> Inl e | Inr project \<Rightarrow> Inr (project, name))))))\<rparr>"

definition ofProjectInBody :: project_resolver where
  "ofProjectInBody = fromBody ''projects'' ''project'' None"

definition environment_project :: "cluster \<Rightarrow> string \<Rightarrow> api_error + string" where
  "environment_project kl name =
     (case kl_environments kl name of Inl e \<Rightarrow> if IsNotFound e then Inr [] else Inl e | Inr project \<Rightarrow> Inr project)"

definition ofEnvironmentInBody :: project_resolver where
  "ofEnvironmentInBody = fromBody ''environments'' ''environment'' (Some environment_project)"

subsection \<open>The table\<close>

definition project_routes :: "(string \<times> requirement) list" where
  "project_routes =
    [(''GET /api/v1/projects'', acrossProjects),
     (''POST /api/v1/projects'', anyPerson ''creating a project''),
     (''GET /api/v1/projects/{name}'', onProject ProjectViewer ofProject ''reading a project''),
     (''PATCH /api/v1/projects/{name}'', onProject ProjectAdmin ofProject ''changing a project's settings''),
     (''PATCH /api/v1/projects/{name}/env'', onProject ProjectDeveloper ofProject ''changing a project's environment variables''),
     (''GET /api/v1/projects/{name}/env'', onProject ProjectDeveloper ofProject ''reading a project's environment variable values''),
     (''GET /api/v1/projects/{name}/secrets'', onProject ProjectViewer ofProject ''reading a project's secrets''),
     (''PUT /api/v1/projects/{name}/secrets/{secret}'', onProject ProjectDeveloper ofProject ''setting a project's secret''),
     (''DELETE /api/v1/projects/{name}/secrets/{secret}'', onProject ProjectDeveloper ofProject ''deleting a project's secret''),
     (''PUT /api/v1/projects/{name}/files/{file}'', onProject ProjectAdmin ofProject ''setting the content of a project's secret file''),
     (''DELETE /api/v1/projects/{name}'', onProject ProjectAdmin ofProject ''deleting a project''),
     (''GET /api/v1/projects/{name}/builds'', onProject ProjectViewer ofProject ''reading a project's builds''),
     (''POST /api/v1/projects/{name}/builds'', onProject ProjectDeveloper ofProject ''starting a build''),
     (''POST /api/v1/projects/{name}/acquisitions'', onProject ProjectAdmin ofProject ''acquiring an image''),
     (''GET /api/v1/projects/{name}/releases'', onProject ProjectViewer ofProject ''reading a project's releases''),
     (''GET /api/v1/projects/{name}/environments'', onProject ProjectViewer ofProject ''reading a project's environments''),
     (''POST /api/v1/projects/{name}/environments'', onProject ProjectDeveloper ofProject ''declaring an environment''),
     (''GET /api/v1/projects/{name}/audit-pack'', operatorOrOnProject ScopeComplianceRead ofProject ''exporting a project's audit pack''),
     (''GET /api/v1/projects/{name}/members'', onProject ProjectViewer ofProject ''reading a project's members''),
     (''POST /api/v1/projects/{name}/members'', onProject ProjectAdmin ofProject ''adding somebody to a project''),
     (''PATCH /api/v1/projects/{name}/members'', onProject ProjectAdmin ofProject ''changing somebody's role on a project''),
     (''DELETE /api/v1/projects/{name}/members'', onProject ProjectAdmin ofProject ''removing somebody from a project''),
     (''GET /api/v1/projects/{name}/requests'', onProject ProjectAdmin ofProject ''reading what other projects have asked to bind''),
     (''PATCH /api/v1/projects/{name}/requests/{claim}'', onProject ProjectAdmin ofProject ''admitting another project to an offering''),
     (''GET /api/v1/projects/{name}/keys'', onProject ProjectViewer ofProject ''reading a project's CI keys''),
     (''POST /api/v1/projects/{name}/keys'', onProject ProjectAdmin ofProject ''issuing a CI key for a project''),
     (''DELETE /api/v1/projects/{name}/keys/{key}'', onProject ProjectAdmin ofProject ''revoking a project's CI key'')]"

definition object_routes :: "(string \<times> requirement) list" where
  "object_routes =
    [(''GET /api/v1/builds'', acrossProjects),
     (''GET /api/v1/builds/{name}'', onProject ProjectViewer ofBuild ''reading a build''),
     (''POST /api/v1/builds/{name}/cancel'', onProject ProjectDeveloper ofBuild ''cancelling a build''),
     (''GET /api/v1/builds/{name}/logs'', onProject ProjectViewer ofBuild ''reading a build's logs''),
     (''GET /api/v1/builds/{name}/attestations'', onProject ProjectViewer ofBuild ''reading a build's attestations''),
     (''POST /api/v1/builds/{name}/gates'', onProject ProjectDeveloper ofBuild ''submitting a quality gate result''),
     (''GET /api/v1/builds/{name}/vex'', onProject ProjectViewer ofBuild ''reading an artifact's VEX statements''),
     (''POST /api/v1/builds/{name}/vex'', onProject ProjectAdmin ofBuild ''submitting a VEX statement about an artifact''),
     (''GET /api/v1/releases'', acrossProjects),
     (''GET /api/v1/releases/{name}'', onProject ProjectViewer ofRelease ''reading a release''),
     (''GET /api/v1/releases/{name}/config-diff'', onProject ProjectViewer ofRelease ''comparing two releases' configuration''),
     (''GET /api/v1/projects/{name}/promotions'', onProject ProjectViewer ofProject ''reading a project's promotions''),
     (''POST /api/v1/projects/{name}/promotions'', onProject ProjectDeveloper ofProject ''promoting a release''),
     (''GET /api/v1/promotions/{name}'', onProject ProjectViewer ofPromotion ''reading a promotion''),
     (''POST /api/v1/projects/{name}/exceptions'', onProject ProjectDeveloper ofProject ''requesting a break-glass exception''),
     (''GET /api/v1/exceptions'', acrossProjects),
     (''GET /api/v1/exceptions/{name}'', onProject ProjectViewer ofException ''reading an exception''),
     (''PATCH /api/v1/exceptions/{name}'', onProject ProjectAdmin ofException ''resolving an exception''),
     (''GET /api/v1/environments'', acrossProjects),
     (''GET /api/v1/environments/{name}'', onProject ProjectViewer ofEnvironment ''reading an environment''),
     (''PATCH /api/v1/environments/{name}'', onProject ProjectDeveloper ofEnvironment ''redeploying''),
     (''DELETE /api/v1/environments/{name}'', onProject ProjectDeveloper ofEnvironment ''deleting an environment''),
     (''POST /api/v1/environments/{name}/redeploy'', onProject ProjectDeveloper ofEnvironment ''redeploying an environment''),
     (''GET /api/v1/environments/{name}/logs'', onProject ProjectViewer ofEnvironment ''reading an environment's logs''),
     (''GET /api/v1/environments/{name}/workload'', onProject ProjectViewer ofEnvironment ''reading an environment's workload''),
     (''GET /api/v1/environments/{name}/processes'', onProject ProjectViewer ofEnvironment ''reading an environment's processes''),
     (''GET /api/v1/environments/{name}/processes/{process}/runs'', onProject ProjectViewer ofEnvironment ''reading a scheduled job's runs''),
     (''POST /api/v1/environments/{name}/processes/{process}/runs'', onProject ProjectDeveloper ofEnvironment ''running a scheduled job''),
     (''GET /api/v1/environments/{name}/metrics'', onProject ProjectViewer ofEnvironment ''reading an environment's metrics''),
     (''GET /api/v1/environments/{name}/objects'', operatorOnly ''reading an environment's Kubernetes objects''),
     (''GET /api/v1/environments/{name}/requests'', onProject ProjectViewer ofEnvironment ''reading an environment's requests''),
     (''GET /api/v1/environments/{name}/requests/summary'', onProject ProjectViewer ofEnvironment ''reading an environment's requests''),
     (''GET /api/v1/environments/{name}/requests/series'', onProject ProjectViewer ofEnvironment ''reading an environment's requests''),
     (''GET /api/v1/environments/{name}/requests/routes'', onProject ProjectViewer ofEnvironment ''reading an environment's requests''),
     (''GET /api/v1/environments/{name}/diagnostics'', onProject ProjectViewer ofEnvironment ''reading an environment's diagnostics''),
     (''GET /api/v1/environments/{name}/signals'', onProject ProjectViewer ofEnvironment ''reading an environment's signals''),
     (''PATCH /api/v1/environments/{name}/requirements'', onProject ProjectViewer ofEnvironment ''changing an environment's requirements''),
     (''GET /api/v1/environments/{name}/eligibility'', onProject ProjectViewer ofEnvironment ''reading a release's eligibility for an environment'')]"

definition record_routes :: "(string \<times> requirement) list" where
  "record_routes =
    [(''GET /api/v1/logs'', acrossProjects),
     (''GET /api/v1/logs/histogram'', acrossProjects),
     (''GET /api/v1/logs/facets'', acrossProjects),
     (''GET /api/v1/logs/patterns'', acrossProjects),
     (''GET /api/v1/logs/saved'', acrossProjects),
     (''POST /api/v1/logs/saved'', acrossProjects),
     (''PATCH /api/v1/logs/saved/{name}'', acrossProjects),
     (''DELETE /api/v1/logs/saved/{name}'', acrossProjects),
     (''GET /api/v1/events'', acrossProjects),
     (''GET /api/v1/notifications/subscriptions'', acrossProjects),
     (''POST /api/v1/notifications/subscriptions'', onProject ProjectAdmin ofProjectInBody ''subscribing to a project's notifications''),
     (''GET /api/v1/notifications/subscriptions/{name}'', onProject ProjectViewer ofSubscription ''reading a notification subscription''),
     (''PATCH /api/v1/notifications/subscriptions/{name}'', onProject ProjectAdmin ofSubscription ''changing a notification subscription''),
     (''DELETE /api/v1/notifications/subscriptions/{name}'', onProject ProjectAdmin ofSubscription ''deleting a notification subscription''),
     (''GET /api/v1/notifications/deliveries'', acrossProjects),
     (''POST /api/v1/notifications/deliveries/{name}/retry'', onProject ProjectAdmin ofDelivery ''retrying a notification delivery''),
     (''GET /api/v1/decisions'', acrossProjects),
     (''GET /api/v1/decisions/{id}'', acrossProjects),
     (''POST /api/v1/decisions/{id}/replay'', acrossProjects),
     (''GET /api/v1/policy/bundles'', operatorOnly ''listing the platform's policy bundles''),
     (''GET /api/v1/compliance'', operatorOr ScopeComplianceRead ''reading the platform's compliance posture''),
     (''GET /api/v1/compliance/inventory'', acrossProjects),
     (''GET /api/v1/compliance/drift'', acrossProjects),
     (''GET /api/v1/compliance/criticality'', acrossProjects),
     (''GET /api/v1/compliance/dependents'', acrossProjects),
     (''GET /api/v1/access/identities'', operatorOr ScopeComplianceRead ''reading who holds what on the platform''),
     (''GET /api/v1/access/reviews'', operatorOr ScopeComplianceRead ''reading the platform's access recertifications''),
     (''POST /api/v1/access/reviews'', operatorOnly ''opening an access recertification''),
     (''GET /api/v1/access/reviews/{name}'', operatorOr ScopeComplianceRead ''reading an access recertification''),
     (''PATCH /api/v1/access/reviews/{name}'', operatorOnly ''deciding an access recertification''),
     (''GET /api/v1/audit'', acrossProjects),
     (''GET /api/v1/audit/verify'', operatorOr ScopeComplianceRead ''verifying the audit log's chain''),
     (''GET /api/v1/metrics/overview'', acrossProjects),
     (''GET /api/v1/traffic'', acrossProjects),
     (''GET /api/v1/topology'', acrossProjects),
     (''GET /api/v1/topology/traffic'', acrossProjects),
     (''GET /api/v1/traces'', acrossProjects),
     (''GET /api/v1/traces/{traceId}'', acrossProjects),
     (''GET /api/v1/status'', byRole ''reading the platform's status''),
     (''GET /api/v1/me'', anyCaller),
     (''GET /api/v1/me/keys'', anyCaller),
     (''POST /api/v1/me/keys'', interactively ''issuing a personal key''),
     (''DELETE /api/v1/me/keys/{key}'', anyCaller),
     (''GET /api/v1/alerts'', acrossProjects),
     (''POST /api/v1/alerts/ack'', acrossProjects),
     (''POST /api/v1/alerts/silence'', acrossProjects),
     (''POST /api/v1/alerts/unsilence'', acrossProjects),
     (''POST /api/v1/alerts/claim'', operatorOnly ''claiming an escalated alert'')]"

definition platform_routes :: "(string \<times> requirement) list" where
  "platform_routes =
    [(''GET /api/v1/platform/signals'', operatorOr ScopePlatformRead ''reading the platform's signals''),
     (''GET /api/v1/platform/nodes'', operatorOr ScopePlatformRead ''reading the platform's nodes''),
     (''GET /api/v1/platform/workloads'', operatorOr ScopePlatformRead ''reading the platform's workloads''),
     (''GET /api/v1/platform/edge'', operatorOr ScopePlatformRead ''reading the platform's edge''),
     (''GET /api/v1/platform/storage'', operatorOr ScopePlatformRead ''reading the platform's storage''),
     (''POST /api/v1/platform/storage/claims/{name}/resize'', operatorOnly ''growing one of the platform's volumes''),
     (''GET /api/v1/platform/events'', operatorOr ScopePlatformRead ''reading the platform's cluster events''),
     (''GET /api/v1/platform/ingest'', operatorOr ScopePlatformRead ''reading the platform's ingest''),
     (''GET /api/v1/platform/retention'', operatorOr ScopePlatformRead ''reading the platform's retention''),
     (''PATCH /api/v1/platform/retention'', operatorOnly ''changing the platform's retention''),
     (''GET /api/v1/platform/policy'', operatorOnly ''reading the platform's signal policy''),
     (''PATCH /api/v1/platform/policy'', operatorOnly ''changing the platform's signal policy''),
     (''GET /api/v1/platform/backup'', operatorOr ScopeBackupRun ''reading what a platform backup would carry''),
     (''POST /api/v1/platform/backup'', operatorOr ScopeBackupRun ''exporting the platform's state''),
     (''PUT /api/v1/platform/backup/destination'', operatorOnly ''setting where the platform's backups are written''),
     (''DELETE /api/v1/platform/backup/destination'', operatorOnly ''removing where the platform's backups are written''),
     (''GET /api/v1/platform/backup/runs'', operatorOr ScopeBackupRun ''reading what the platform's backup destination holds''),
     (''POST /api/v1/platform/backup/runs'', operatorOr ScopeBackupRun ''running the platform's backup now''),
     (''GET /api/v1/settings'', operatorOnly ''reading the platform's settings''),
     (''PATCH /api/v1/settings'', operatorOnly ''changing the platform's settings''),
     (''GET /api/v1/platform/credentials'', operatorOnly ''reading the platform's credentials''),
     (''POST /api/v1/platform/credentials'', operatorOnly ''issuing a platform credential''),
     (''DELETE /api/v1/platform/credentials/{name}'', operatorOnly ''revoking a platform credential''),
     (''GET /api/v1/updates'', operatorOnly ''reading the platform's updates''),
     (''POST /api/v1/updates'', operatorOnly ''upgrading the platform''),
     (''GET /api/v1/updates/{name}'', operatorOnly ''reading a platform update''),
     (''GET /api/v1/updates/{name}/logs'', operatorOnly ''reading a platform update's logs''),
     (''GET /api/v1/addons'', operatorOnly ''reading the platform's addons''),
     (''POST /api/v1/addons'', operatorOnly ''asking the platform for an addon''),
     (''GET /api/v1/addons/{name}'', operatorOnly ''reading an addon''),
     (''GET /api/v1/addons/{name}/upgrades'', operatorOnly ''reading an addon's upgrade history''),
     (''PATCH /api/v1/addons/{name}'', operatorOnly ''changing an addon''),
     (''DELETE /api/v1/addons/{name}'', operatorOnly ''removing an addon''),
     (''GET /api/v1/connections'', byRole ''choosing a connection''),
     (''GET /api/v1/connections/{name}/repositories'', anyPerson ''listing what a connection can see''),
     (''POST /api/v1/connections/{name}/detect'', anyPerson ''reading a repository before a project exists''),
     (''POST /api/v1/connections'', operatorOnly ''adding a connection''),
     (''POST /api/v1/connections/test'', operatorOnly ''testing a connection''),
     (''GET /api/v1/connections/{name}'', operatorOnly ''reading a connection''),
     (''PATCH /api/v1/connections/{name}'', operatorOnly ''changing a connection''),
     (''DELETE /api/v1/connections/{name}'', operatorOnly ''deleting a connection''),
     (''GET /api/v1/persistent-volumes'', operatorOnly ''reading the volumes the platform wrote''),
     (''POST /api/v1/persistent-volumes'', operatorOnly ''writing a volume for storage that already exists''),
     (''DELETE /api/v1/persistent-volumes/{name}'', operatorOnly ''removing a volume the platform wrote'')]"

definition binding_routes :: "(string \<times> requirement) list" where
  "binding_routes =
    [(''GET /api/v1/domains'', acrossProjects),
     (''POST /api/v1/domains'', onProject ProjectDeveloper ofEnvironmentInBody ''attaching a domain''),
     (''GET /api/v1/domains/{name}'', onProject ProjectViewer ofDomain ''reading a domain''),
     (''DELETE /api/v1/domains/{name}'', onProject ProjectDeveloper ofDomain ''removing a domain''),
     (''GET /api/v1/claim-types'', anyCaller),
     (''GET /api/v1/claim-volumes'', acrossProjects),
     (''GET /api/v1/offerings'', acrossProjects),
     (''GET /api/v1/claims'', acrossProjects),
     (''POST /api/v1/claims'', onProject ProjectDeveloper ofProjectInBody ''claiming a resource''),
     (''GET /api/v1/claims/{name}'', onProject ProjectViewer ofClaim ''reading a resource claim''),
     (''DELETE /api/v1/claims/{name}'', onProject ProjectDeveloper ofClaim ''deleting a resource claim''),
     (''POST /api/v1/claims/{name}/request'', onProject ProjectDeveloper ofClaim ''asking again to bind an offering''),
     (''GET /api/v1/claims/{name}/recoveries'', onProject ProjectViewer ofClaim ''reading what a claim can be recovered to''),
     (''POST /api/v1/claims/{name}/recoveries'', onProject ProjectDeveloper ofClaim ''recovering a claim to a point in time''),
     (''POST /api/v1/claims/{name}/recoveries/{recovery}/promote'', onProject ProjectDeveloper ofClaim ''promoting a recovery''),
     (''DELETE /api/v1/claims/{name}/recoveries/{recovery}'', onProject ProjectDeveloper ofClaim ''discarding a recovery''),
     (''/'', anyCaller)]"

definition routes :: "(string \<times> requirement) list" where
  "routes = project_routes @ object_routes @ record_routes @ platform_routes @ binding_routes"

subsection \<open>The scope of a cross-project read\<close>

record project_scope =
  ps_all :: bool
  ps_visible :: "string list"
  ps_hidden :: "string list"

definition no_scope :: project_scope where
  "no_scope = \<lparr>ps_all = False, ps_visible = [], ps_hidden = []\<rparr>"

definition scopeFor :: "api_caller \<Rightarrow> access_spec option \<Rightarrow> platform_role \<Rightarrow> cluster \<Rightarrow> api_error + project_scope" where
  "scopeFor c kitchen platform_role kl =
     (if PlatformAtLeast platform_role PlatformOperator then Inr (no_scope\<lparr>ps_all := True\<rparr>)
      else (case kl_project_list kl of
          Inl e \<Rightarrow> Inl e
        | Inr items \<Rightarrow>
            let visible = map pr_name (VisibleProjects (caller_access c) kitchen items)
            in Inr \<lparr>ps_all = False, ps_visible = visible, ps_hidden = filter (\<lambda>n. n \<notin> set visible) (map pr_name items)\<rparr>))"

definition scope_allows :: "project_scope \<Rightarrow> string \<Rightarrow> bool" where
  "scope_allows p name \<longleftrightarrow> (if ps_all p then True else if name = [] then False else name \<in> set (ps_visible p))"

definition scope_empty :: "project_scope \<Rightarrow> bool" where
  "scope_empty p \<longleftrightarrow> \<not> ps_all p \<and> ps_visible p = []"

definition scope_names :: "project_scope \<Rightarrow> string list" where
  "scope_names p = sort (remdups (ps_visible p))"

text \<open>\<open>visibleProject\<close>: the refusal of a \<open>?project=\<close> the caller may not see.\<close>

definition visibleProject :: "project_scope \<Rightarrow> string \<Rightarrow> reply option" where
  "visibleProject p name = (if name = [] \<or> scope_allows p name then None else Some (writeError (Missing ''projects'' name)))"

subsection \<open>The guard\<close>

text \<open>What the handler finds in the context of a request that was let through.\<close>

record admission =
  ad_role :: platform_role
  ad_scope :: project_scope

text \<open>The two deciders answer with the refusal, or None when the handler may run.\<close>

definition allowedByScope :: "requirement \<Rightarrow> api_caller \<Rightarrow> access_spec option \<Rightarrow> time \<Rightarrow> platform_role \<Rightarrow> cluster \<Rightarrow> api_request \<Rightarrow> reply option" where
  "allowedByScope rm c kitchen now platform_role kl req =
     (let grant = ScopesFor (caller_access c) kitchen now
      in if rm_scope rm = ScopeNone \<or> Empty grant then Some (forbidden (NeedsOperator (rm_doing rm) platform_role))
         else if \<not> Allows grant (rm_scope rm) then Some (forbidden (NeedsScope (rm_doing rm) (rm_scope rm) (Held grant)))
         else (case rm_project rm of
             None \<Rightarrow> None
           | Some rv \<Rightarrow>
               (case rv_resolve rv kl req of
                  Inl e \<Rightarrow> Some (writeError e)
                | Inr (name, _) \<Rightarrow>
                    if \<not> AllowsProject grant name
                    then Some (forbidden (NarrowedAway (rm_doing rm) (rm_scope rm) (grant_projects grant)))
                    else None)))"

text \<open>\<open>found_project\<close>: the project of a name; none when it is empty or missing.\<close>

definition found_project :: "cluster \<Rightarrow> string \<Rightarrow> api_error + project option" where
  "found_project kl name =
     (if name = [] then Inr None
      else (case kl_projects kl name of
          Inr p \<Rightarrow> Inr (Some p)
        | Inl e \<Rightarrow> if IsNotFound e then Inr None else Inl e))"

definition allowedOnProject :: "requirement \<Rightarrow> api_caller \<Rightarrow> access_spec option \<Rightarrow> cluster \<Rightarrow> api_request \<Rightarrow> reply option" where
  "allowedOnProject rm c kitchen kl req =
     (case rm_project rm of
        None \<Rightarrow> None
      | Some rv \<Rightarrow>
          (case rv_resolve rv kl req of
             Inl e \<Rightarrow> Some (writeError e)
           | Inr (name, target) \<Rightarrow>
               (case found_project kl name of
                  Inl e \<Rightarrow> Some (writeError e)
                | Inr pr \<Rightarrow>
                    let role = ProjectRoleFor (caller_access c) kitchen pr
                    in if \<not> ProjectAtLeast role ProjectViewer then
                         (if target = [] then None else Some (writeError (Missing (rv_resource rv) target)))
                       else if \<not> ProjectAtLeast role (rm_role rm) then
                         Some (forbidden (RoleTooLow role name (rm_doing rm) (rm_role rm)))
                       else None)))"

definition refuseUnknownKey :: "api_caller \<Rightarrow> reply" where
  "refuseUnknownKey c = forbidden (UnrecognisedKey (cl_key c))"

definition guard :: "requirement \<Rightarrow> api_caller \<Rightarrow> access_spec option \<Rightarrow> time \<Rightarrow> cluster \<Rightarrow> api_request \<Rightarrow> reply + admission" where
  "guard rm c kitchen now kl req =
     (let role = PlatformRoleFor (caller_access c) kitchen;
          admitted = Inr \<lparr>ad_role = role, ad_scope = no_scope\<rparr>;
          unless = (\<lambda>refusal. case refusal of None \<Rightarrow> admitted | Some r \<Rightarrow> Inl r);
          scoped = (case scopeFor c kitchen role kl of Inl e \<Rightarrow> Inl (writeError e) | Inr p \<Rightarrow> Inr \<lparr>ad_role = role, ad_scope = p\<rparr>)
      in case rm_kind rm of
           RequireAuthenticated \<Rightarrow> admitted
         | RequirePerson \<Rightarrow>
             if isMachine c then Inl (forbidden (NotForCredential (rm_doing rm) (callerName c) (isPlatformCredential c)))
             else (case personalKeyOf (caller_access c) kitchen of
                 Some g \<Rightarrow>
                   if Narrowed g then Inl (forbidden (NotForNarrowedKey (rm_doing rm) (cl_key c) (pk_projects g) (Ceiling g)))
                   else admitted
               | None \<Rightarrow> admitted)
         | RequireInteractive \<Rightarrow> if cl_client c = [] then Inl (forbidden (NeedsSignIn (rm_doing rm))) else admitted
         | RequireOperator \<Rightarrow>
             if \<not> PlatformAtLeast role PlatformOperator then unless (allowedByScope rm c kitchen now role kl req) else admitted
         | RequireProjectRole \<Rightarrow>
             if HoldsUnknownKey (caller_access c) kitchen then Inl (refuseUnknownKey c)
             else unless (allowedOnProject rm c kitchen kl req)
         | RequireVisibleProjects \<Rightarrow> scoped
         | RequireRoleShapedBody \<Rightarrow> scoped)"

end
