(* ===== verification/ApiReach.thy ===== *)
theory ApiReach
  imports ApiGuard
begin

section \<open>What the enforcement table lets through (internal/api/policy.go)\<close>

text \<open>
  What the guard and the table of \<open>ApiGuard\<close> give together: which writes a viewer reaches, what a scope
  reaches, and that a hidden object is answered like a missing one.
\<close>

subsection \<open>The rows that matter\<close>

definition writes :: "string \<Rightarrow> bool" where
  "writes pattern \<longleftrightarrow> take 4 pattern \<noteq> ''GET ''"

definition by_path :: "project_resolver option \<Rightarrow> bool" where
  "by_path rv \<longleftrightarrow> (case rv of None \<Rightarrow> False | Some v \<Rightarrow>
     \<forall>kl req p t. rv_resolve v kl req = Inr (p, t) \<longrightarrow> t = path_name req)"

lemma by_path_resolvers [simp]: "by_path (Some ofProject)" "by_path (Some ofBuild)" "by_path (Some ofRelease)"
  "by_path (Some ofEnvironment)" "by_path (Some ofClaim)" "by_path (Some ofPromotion)" "by_path (Some ofException)"
  "by_path (Some ofDomain)" "by_path (Some ofSubscription)" "by_path (Some ofDelivery)"
  by (auto simp: by_path_def ofProject_def objectResolver_def ofBuild_def ofRelease_def ofEnvironment_def ofClaim_def
     ofPromotion_def ofException_def ofDomain_def ofSubscription_def ofDelivery_def of_owner_def split: sum.splits if_splits)

text \<open>The writes that ask for no more than an account, and those that name their project in the body.\<close>

definition open_writes :: "string list" where
  "open_writes = [''POST /api/v1/projects'', ''POST /api/v1/connections/{name}/detect'', ''POST /api/v1/me/keys'',
     ''DELETE /api/v1/me/keys/{key}'', ''POST /api/v1/logs/saved'', ''PATCH /api/v1/logs/saved/{name}'',
     ''DELETE /api/v1/logs/saved/{name}'', ''POST /api/v1/decisions/{id}/replay'', ''POST /api/v1/alerts/ack'',
     ''POST /api/v1/alerts/silence'', ''POST /api/v1/alerts/unsilence'', ''PATCH /api/v1/environments/{name}/requirements'', ''/'']"

definition body_writes :: "(string \<times> string) list" where
  "body_writes = [(''POST /api/v1/domains'', ''environment''), (''POST /api/v1/claims'', ''project''),
     (''POST /api/v1/notifications/subscriptions'', ''project'')]"

definition in_body :: "string \<Rightarrow> project_resolver option \<Rightarrow> bool" where
  "in_body field rv \<longleftrightarrow> (\<exists>resource of_name. rv = Some (fromBody resource field of_name))"

lemma in_body_resolvers [simp]: "in_body ''project'' (Some ofProjectInBody)" "in_body ''environment'' (Some ofEnvironmentInBody)"
  by (auto simp: in_body_def ofProjectInBody_def ofEnvironmentInBody_def)

text \<open>The rows a scope opens.\<close>

definition scoped_rows :: "(string \<times> string list) list" where
  "scoped_rows =
     [(ScopePlatformRead, [''GET /api/v1/platform/signals'', ''GET /api/v1/platform/nodes'', ''GET /api/v1/platform/workloads'',
         ''GET /api/v1/platform/edge'', ''GET /api/v1/platform/storage'', ''GET /api/v1/platform/events'',
         ''GET /api/v1/platform/ingest'', ''GET /api/v1/platform/retention'']),
      (ScopeComplianceRead, [''GET /api/v1/projects/{name}/audit-pack'', ''GET /api/v1/compliance'', ''GET /api/v1/access/identities'',
         ''GET /api/v1/access/reviews'', ''GET /api/v1/access/reviews/{name}'', ''GET /api/v1/audit/verify'']),
      (ScopeBackupRun, [''GET /api/v1/platform/backup'', ''POST /api/v1/platform/backup'', ''GET /api/v1/platform/backup/runs'',
         ''POST /api/v1/platform/backup/runs''])]"

definition write_row :: "string \<times> requirement \<Rightarrow> bool" where
  "write_row r \<longleftrightarrow>
     (let (pattern, rm) = r
      in if \<not> writes pattern then True
         else if rm_kind rm = RequireOperator then True
         else if rm_kind rm = RequireProjectRole \<and> ProjectDeveloper \<le> rm_role rm \<and> by_path (rm_project rm) then True
         else if pattern \<in> set open_writes then True
         else rm_kind rm = RequireProjectRole \<and> ProjectDeveloper \<le> rm_role rm
           \<and> (\<exists>(p, field) \<in> set body_writes. p = pattern \<and> in_body field (rm_project rm)))"

lemma write_rows: "list_all write_row project_routes" "list_all write_row object_routes" "list_all write_row record_routes"
  "list_all write_row platform_routes" "list_all write_row binding_routes"
  by (simp_all add: project_routes_def object_routes_def record_routes_def platform_routes_def binding_routes_def write_row_def Let_def
     writes_def open_writes_def body_writes_def requirement_defs less_eq_project_role_def)

definition audit_pack :: string where "audit_pack = ''GET /api/v1/projects/{name}/audit-pack''"

definition operator_row :: "string \<times> requirement \<Rightarrow> bool" where
  "operator_row r \<longleftrightarrow>
     (let (pattern, rm) = r
      in if rm_kind rm \<noteq> RequireOperator then True
         else rm_project rm = (if pattern = audit_pack then Some ofProject else None)
           \<and> (if rm_scope rm = ScopeNone then \<forall>(s, ps) \<in> set scoped_rows. pattern \<notin> set ps
              else rm_scope rm \<in> fst ` set scoped_rows \<and> (\<forall>(s, ps) \<in> set scoped_rows. pattern \<in> set ps \<longleftrightarrow> s = rm_scope rm)))"

lemmas scope_defs = ScopePlatformRead_def ScopeComplianceRead_def ScopeBackupRun_def ScopeNone_def

lemma operator_project_rows: "list_all operator_row project_routes"
  by (simp add: project_routes_def operator_row_def Let_def scoped_rows_def requirement_defs scope_defs audit_pack_def)

lemma operator_object_rows: "list_all operator_row object_routes"
  by (simp add: object_routes_def operator_row_def Let_def scoped_rows_def requirement_defs scope_defs audit_pack_def)

lemma operator_record_rows: "list_all operator_row record_routes"
  by (simp add: record_routes_def operator_row_def Let_def scoped_rows_def requirement_defs scope_defs audit_pack_def)

lemma operator_platform_rows: "list_all operator_row platform_routes"
  by (simp add: platform_routes_def operator_row_def Let_def scoped_rows_def requirement_defs scope_defs audit_pack_def)

lemma operator_binding_rows: "list_all operator_row binding_routes"
  by (simp add: binding_routes_def operator_row_def Let_def scoped_rows_def requirement_defs scope_defs audit_pack_def)

lemmas operator_rows = operator_project_rows operator_object_rows operator_record_rows operator_platform_rows operator_binding_rows

lemma table_rows: "(pattern, rm) \<in> set routes \<Longrightarrow> write_row (pattern, rm) \<and> operator_row (pattern, rm)"
  using write_rows operator_rows unfolding routes_def list_all_iff by auto

subsection \<open>Who writes\<close>

lemma guard_project: "rm_kind rm = RequireProjectRole \<Longrightarrow> guard rm c kitchen now kl req = Inr ad
    \<Longrightarrow> allowedOnProject rm c kitchen kl req = None"
  by (auto simp: guard_def Let_def split: if_splits option.splits)

lemma allowedOnProject_None:
  assumes "allowedOnProject rm c kitchen kl req = None" "rm_project rm = Some rv"
  obtains name target pr where "rv_resolve rv kl req = Inr (name, target)" "found_project kl name = Inr pr"
    "ProjectAtLeast (ProjectRoleFor (caller_access c) kitchen pr) ProjectViewer
        \<and> ProjectAtLeast (ProjectRoleFor (caller_access c) kitchen pr) (rm_role rm)
      \<or> \<not> ProjectAtLeast (ProjectRoleFor (caller_access c) kitchen pr) ProjectViewer \<and> target = []"
  using assms by (auto simp: allowedOnProject_def Let_def split: sum.splits if_splits)

lemma viewer_not_developer: "r \<le> ProjectViewer \<Longrightarrow> ProjectDeveloper \<le> q \<Longrightarrow> \<not> ProjectAtLeast r q"
  by (cases r; cases q) (simp_all add: ProjectAtLeast_def less_eq_project_role_def)

text \<open>A caller who is at most a viewer of every project there is (and of an object whose project is gone).\<close>

definition at_most_viewer :: "caller \<Rightarrow> access_spec option \<Rightarrow> cluster \<Rightarrow> bool" where
  "at_most_viewer c kitchen kl \<longleftrightarrow> ProjectRoleFor c kitchen None \<le> ProjectViewer
     \<and> (\<forall>name p. kl_projects kl name = Inr p \<longrightarrow> ProjectRoleFor c kitchen (Some p) \<le> ProjectViewer)"

lemma at_most_viewerD:
  assumes "at_most_viewer c kitchen kl" "found_project kl name = Inr pr"
  shows "ProjectRoleFor c kitchen pr \<le> ProjectViewer"
  using assms by (auto simp: at_most_viewer_def found_project_def split: sum.splits if_splits)

lemma viewer_not_operator:
  assumes "at_most_viewer c kitchen kl"
  shows "\<not> PlatformAtLeast (PlatformRoleFor c kitchen) PlatformOperator"
proof
  assume operator: "PlatformAtLeast (PlatformRoleFor c kitchen) PlatformOperator"
  then have hat: "wearsTheHat c kitchen" "PlatformAtLeast (platformRoleOf c kitchen) PlatformOperator"
    by (auto simp: PlatformRoleFor_def PlatformAtLeast_def role_order_defs split: if_splits)
  then have "keyCeiling c kitchen [] = ProjectAdmin"
    by (auto simp: wearsTheHat_def keyCeiling_def split: if_splits option.splits)
  with hat(2) have "ProjectRoleFor c kitchen None = ProjectAdmin" by (simp add: ProjectRoleFor_def Let_def)
  moreover have "ProjectRoleFor c kitchen None \<le> ProjectViewer" using assms by (simp add: at_most_viewer_def)
  ultimately show False by (simp add: less_eq_project_role_def)
qed

text \<open>A body from which no name is read.\<close>

definition names_nothing :: "string \<Rightarrow> string \<Rightarrow> bool" where
  "names_nothing raw field \<longleftrightarrow> (case bodyField (take maxRequestBody raw) field of None \<Rightarrow> True | Some v \<Rightarrow> trim_space v = [])"

lemma fromBody_nothing:
  "rv_resolve (fromBody resource field of_name) kl req = Inr (name, []) \<Longrightarrow> \<exists>raw. rq_body req = Inr raw \<and> names_nothing raw field"
  by (auto simp: fromBody_def names_nothing_def Let_def split: sum.splits option.splits if_splits)

lemma write_rowD: "write_row (pattern, rm) \<Longrightarrow> writes pattern \<Longrightarrow>
    pattern \<in> set open_writes \<or> rm_kind rm = RequireOperator
    \<or> rm_kind rm = RequireProjectRole \<and> ProjectDeveloper \<le> rm_role rm
       \<and> (by_path (rm_project rm) \<or> (\<exists>field. (pattern, field) \<in> set body_writes \<and> in_body field (rm_project rm)))"
proof -
  assume r: "write_row (pattern, rm)" and w: "writes pattern"
  show ?thesis
  proof (cases "pattern \<in> set open_writes \<or> rm_kind rm = RequireOperator
      \<or> rm_kind rm = RequireProjectRole \<and> ProjectDeveloper \<le> rm_role rm \<and> by_path (rm_project rm)")
    case False
    then have "rm_kind rm = RequireProjectRole \<and> ProjectDeveloper \<le> rm_role rm
        \<and> (\<exists>(p, field) \<in> set body_writes. p = pattern \<and> in_body field (rm_project rm))"
      using r w unfolding write_row_def Let_def prod.case if_True if_False by metis
    then show ?thesis by blast
  qed blast
qed

text \<open>
  C11. A caller who is no operator, holds no scope and is at most a viewer of any project is let
  through to a write only where the table asks for no more than an account (each such row is listed), or
  where the project would be named by the body and the body names nothing, which its handler refuses.
\<close>

theorem viewer_writes:
  assumes "(pattern, rm) \<in> set routes" "writes pattern" "guard rm c kitchen now kl req = Inr ad"
    and "at_most_viewer (caller_access c) kitchen kl" "Empty (ScopesFor (caller_access c) kitchen now)"
    and "by_path (rm_project rm) \<longrightarrow> path_name req \<noteq> []"
  shows "pattern \<in> set open_writes
    \<or> (\<exists>field raw. (pattern, field) \<in> set body_writes \<and> rq_body req = Inr raw \<and> names_nothing raw field)"
proof -
  consider "pattern \<in> set open_writes" | "rm_kind rm = RequireOperator"
    | "rm_kind rm = RequireProjectRole" "ProjectDeveloper \<le> rm_role rm" "by_path (rm_project rm)"
    | field where "rm_kind rm = RequireProjectRole" "ProjectDeveloper \<le> rm_role rm" "(pattern, field) \<in> set body_writes"
        "in_body field (rm_project rm)"
    using write_rowD [OF conjunct1 [OF table_rows [OF assms(1)]] assms(2)] by blast
  then show ?thesis
  proof cases
    case 2
    have "allowedByScope rm c kitchen now (PlatformRoleFor (caller_access c) kitchen) kl req \<noteq> None"
      using assms(5) by (simp add: allowedByScope_def Let_def)
    with 2 assms(3) viewer_not_operator [OF assms(4)] show ?thesis by (auto simp: guard_def Let_def)
  next
    case 3
    then obtain rv where rv: "rm_project rm = Some rv" by (auto simp: by_path_def split: option.splits)
    from allowedOnProject_None [OF guard_project [OF 3(1) assms(3)] rv] obtain name target pr where
      r: "rv_resolve rv kl req = Inr (name, target)"
      "found_project kl name = Inr pr"
      "ProjectAtLeast (ProjectRoleFor (caller_access c) kitchen pr) (rm_role rm) \<or> target = []" by metis
    have "target = path_name req" using 3(3) r(1) by (simp add: by_path_def rv)
    with r(3) viewer_not_developer [OF at_most_viewerD [OF assms(4) r(2)] 3(2)] assms(6) 3(3) show ?thesis by simp
  next
    case 4
    then obtain resource of_name where rv: "rm_project rm = Some (fromBody resource field of_name)" by (auto simp: in_body_def)
    from allowedOnProject_None [OF guard_project [OF 4(1) assms(3)] rv] obtain name target pr where
      r: "rv_resolve (fromBody resource field of_name) kl req = Inr (name, target)"
      "found_project kl name = Inr pr"
      "ProjectAtLeast (ProjectRoleFor (caller_access c) kitchen pr) (rm_role rm) \<or> target = []" by metis
    have "\<not> ProjectAtLeast (ProjectRoleFor (caller_access c) kitchen pr) (rm_role rm)"
      by (rule viewer_not_developer [OF at_most_viewerD [OF assms(4) r(2)] 4(2)])
    with r(1,3) fromBody_nothing have "\<exists>raw. rq_body req = Inr raw \<and> names_nothing raw field" by blast
    with 4(3) show ?thesis by blast
  qed blast
qed

subsection \<open>What a scope reaches\<close>

lemma operator_rowD:
  assumes "operator_row (pattern, rm)" "rm_kind rm = RequireOperator"
  shows "rm_project rm = (if pattern = audit_pack then Some ofProject else None)"
    "(\<exists>(s, ps) \<in> set scoped_rows. pattern \<in> set ps \<and> P s) \<longleftrightarrow> rm_scope rm \<noteq> ScopeNone \<and> P (rm_scope rm)"
proof -
  have kind: "\<not> rm_kind rm \<noteq> RequireOperator" using assms(2) by simp
  have row: "rm_project rm = (if pattern = audit_pack then Some ofProject else None)
      \<and> (if rm_scope rm = ScopeNone then \<forall>(s, ps) \<in> set scoped_rows. pattern \<notin> set ps
         else rm_scope rm \<in> fst ` set scoped_rows \<and> (\<forall>(s, ps) \<in> set scoped_rows. pattern \<in> set ps \<longleftrightarrow> s = rm_scope rm))"
    using assms(1) unfolding operator_row_def Let_def prod.case if_not_P [OF kind] .
  then show "rm_project rm = (if pattern = audit_pack then Some ofProject else None)" by (rule conjunct1)
  show "(\<exists>(s, ps) \<in> set scoped_rows. pattern \<in> set ps \<and> P s) \<longleftrightarrow> rm_scope rm \<noteq> ScopeNone \<and> P (rm_scope rm)"
  proof (cases "rm_scope rm = ScopeNone")
    case True
    have "\<forall>(s, ps) \<in> set scoped_rows. pattern \<notin> set ps"
      using conjunct2 [OF row] unfolding if_P [OF True] .
    then have "\<not> (\<exists>(s, ps) \<in> set scoped_rows. pattern \<in> set ps \<and> P s)" by fast
    then show ?thesis unfolding True by (simp only: refl simp_thms)
  next
    case False
    note r = conjunct2 [OF row, unfolded if_not_P [OF False]]
    have r2: "pattern \<in> set ps \<longleftrightarrow> s = rm_scope rm" if "(s, ps) \<in> set scoped_rows" for s ps
      using bspec [OF conjunct2 [OF r] that] unfolding prod.case .
    from conjunct1 [OF r] obtain ps where ps: "(rm_scope rm, ps) \<in> set scoped_rows"
      by (metis imageE prod.collapse)
    show ?thesis
    proof
      assume "\<exists>(s, ps) \<in> set scoped_rows. pattern \<in> set ps \<and> P s"
      then obtain s ps where "(s, ps) \<in> set scoped_rows" "pattern \<in> set ps" "P s" by fast
      with r2 False show "rm_scope rm \<noteq> ScopeNone \<and> P (rm_scope rm)" by metis
    next
      assume "rm_scope rm \<noteq> ScopeNone \<and> P (rm_scope rm)"
      with ps r2 [OF ps] show "\<exists>(s, ps) \<in> set scoped_rows. pattern \<in> set ps \<and> P s" by fast
    qed
  qed
qed

lemma guard_operator:
  assumes "rm_kind rm = RequireOperator" "\<not> PlatformAtLeast (PlatformRoleFor (caller_access c) kitchen) PlatformOperator"
    and "rm_project rm = (if pattern = audit_pack then Some ofProject else None)"
  shows "(\<exists>ad. guard rm c kitchen now kl req = Inr ad) \<longleftrightarrow>
      rm_scope rm \<noteq> ScopeNone \<and> rm_scope rm \<in> set (sg_scopes (ScopesFor (caller_access c) kitchen now))
      \<and> (pattern = audit_pack \<longrightarrow> AllowsProject (ScopesFor (caller_access c) kitchen now) (path_name req))"
proof -
  have "(\<exists>ad. guard rm c kitchen now kl req = Inr ad)
      \<longleftrightarrow> allowedByScope rm c kitchen now (PlatformRoleFor (caller_access c) kitchen) kl req = None"
    using assms(1,2) by (auto simp: guard_def Let_def split: option.splits)
  also have "\<dots> \<longleftrightarrow> rm_scope rm \<noteq> ScopeNone \<and> rm_scope rm \<in> set (sg_scopes (ScopesFor (caller_access c) kitchen now))
      \<and> (pattern = audit_pack \<longrightarrow> AllowsProject (ScopesFor (caller_access c) kitchen now) (path_name req))"
    by (auto simp: allowedByScope_def Let_def Empty_def Allows_def assms(3) ofProject_def)
  finally show ?thesis .
qed

lemma scoped_writes:
  assumes "(s, ps) \<in> set scoped_rows" "pattern \<in> set ps" "writes pattern"
  shows "s = ScopeBackupRun \<and> pattern \<in> {''POST /api/v1/platform/backup'', ''POST /api/v1/platform/backup/runs''}"
proof -
  have "list_all (\<lambda>(s, ps). list_all (\<lambda>p. if writes p
      then s = ScopeBackupRun \<and> p \<in> {''POST /api/v1/platform/backup'', ''POST /api/v1/platform/backup/runs''} else True) ps) scoped_rows"
    by (simp add: scoped_rows_def writes_def)
  with assms show ?thesis unfolding list_all_iff by (auto split: if_splits)
qed

text \<open>
  C20. Where the table asks for an operator, anybody else is let through exactly by holding the scope
  the row names (the rows of each scope are listed), and to the audit pack only of a project the
  credential was not narrowed away from; the only writes among them are the two of the backup.
\<close>

theorem credential_reach:
  assumes "(pattern, rm) \<in> set routes" "rm_kind rm = RequireOperator"
    and "\<not> PlatformAtLeast (PlatformRoleFor (caller_access c) kitchen) PlatformOperator"
    and "grant = ScopesFor (caller_access c) kitchen now"
  shows "((\<exists>ad. guard rm c kitchen now kl req = Inr ad) \<longleftrightarrow>
      (\<exists>(s, ps) \<in> set scoped_rows. pattern \<in> set ps \<and> s \<in> set (sg_scopes grant)
         \<and> (pattern = audit_pack \<longrightarrow> AllowsProject grant (path_name req))))
    \<and> ((\<exists>ad. guard rm c kitchen now kl req = Inr ad) \<and> writes pattern \<longrightarrow>
      ScopeBackupRun \<in> set (sg_scopes grant) \<and> pattern \<in> {''POST /api/v1/platform/backup'', ''POST /api/v1/platform/backup/runs''})"
proof -
  note row = operator_rowD [OF conjunct2 [OF table_rows [OF assms(1)]] assms(2)]
  have iff: "(\<exists>ad. guard rm c kitchen now kl req = Inr ad) \<longleftrightarrow>
      (\<exists>(s, ps) \<in> set scoped_rows. pattern \<in> set ps \<and> s \<in> set (sg_scopes grant)
         \<and> (pattern = audit_pack \<longrightarrow> AllowsProject grant (path_name req)))"
    unfolding guard_operator [OF assms(2,3) row(1)] assms(4) row(2) by (rule refl)
  moreover have "ScopeBackupRun \<in> set (sg_scopes grant)
      \<and> pattern \<in> {''POST /api/v1/platform/backup'', ''POST /api/v1/platform/backup/runs''}"
    if "\<exists>ad. guard rm c kitchen now kl req = Inr ad" "writes pattern"
    using that scoped_writes unfolding iff by blast
  ultimately show ?thesis by blast
qed

subsection \<open>Hidden and missing\<close>

text \<open>Reads that name a missing object by the plural of its resource, as the API server does.\<close>

definition names_missing :: "cluster \<Rightarrow> bool" where
  "names_missing kl \<longleftrightarrow> (\<forall>n r m.
     (kl_builds kl n = Inl (Missing r m) \<longrightarrow> (r, m) = (''builds'', n))
     \<and> (kl_releases kl n = Inl (Missing r m) \<longrightarrow> (r, m) = (''releases'', n))
     \<and> (kl_environments kl n = Inl (Missing r m) \<longrightarrow> (r, m) = (''environments'', n))
     \<and> (kl_claims kl n = Inl (Missing r m) \<longrightarrow> (r, m) = (''resourceclaims'', n))
     \<and> (kl_promotions kl n = Inl (Missing r m) \<longrightarrow> (r, m) = (''promotions'', n))
     \<and> (kl_exceptions kl n = Inl (Missing r m) \<longrightarrow> (r, m) = (''exceptions'', n))
     \<and> (kl_domains kl n = Inl (Missing r m) \<longrightarrow> (r, m) = (''domains'', n))
     \<and> (kl_subscriptions kl n = Inl (Missing r m) \<longrightarrow> (r, m) = (''notificationsubscriptions'', n))
     \<and> (kl_deliveries kl n = Inl (Missing r m) \<longrightarrow> (r, m) = (''notificationdeliveries'', n)))"

lemma IsNotFound_iff: "IsNotFound e \<longleftrightarrow> (\<exists>r m. e = Missing r m)"
  by (cases e) (simp_all add: IsNotFound_def)

text \<open>A resolver that addresses the same object whatever the cluster holds, and says so when it is missing.\<close>

definition addresses :: "project_resolver \<Rightarrow> bool" where
  "addresses rv \<longleftrightarrow> (\<forall>req. \<exists>target. \<forall>kl. names_missing kl \<longrightarrow>
     (\<forall>r m. rv_resolve rv kl req = Inl (Missing r m) \<longrightarrow> (r, m) = (rv_resource rv, target))
     \<and> (\<forall>p t. rv_resolve rv kl req = Inr (p, t) \<longrightarrow> t = target))"

lemma addresses_objectResolver:
  assumes "\<And>kl n r m. names_missing kl \<Longrightarrow> get kl n = Inl (Missing r m) \<Longrightarrow> (r, m) = (resource, n)"
  shows "addresses (objectResolver resource get)"
  using assms by (fastforce simp: addresses_def objectResolver_def split: sum.splits)

lemma addresses_resolvers: "addresses ofProject" "addresses ofBuild" "addresses ofRelease" "addresses ofEnvironment"
  "addresses ofClaim" "addresses ofPromotion" "addresses ofException" "addresses ofSubscription"
  unfolding ofBuild_def ofRelease_def ofEnvironment_def ofClaim_def ofPromotion_def ofException_def ofSubscription_def
  by (simp add: addresses_def ofProject_def)
    (rule addresses_objectResolver, fastforce simp: names_missing_def subscription_project_def split: sum.splits option.splits)+

lemma of_owner_missing: "of_owner get owner target \<noteq> Inl (Missing r m)"
  "of_owner get owner target = Inr (p, t) \<Longrightarrow> t = target"
  by (auto simp: of_owner_def IsNotFound_def split: sum.splits if_splits)

lemma addresses_hop: "addresses ofDomain" "addresses ofDelivery"
  unfolding addresses_def ofDomain_def ofDelivery_def
  by (auto intro!: exI [of _ "path_name _"] simp: names_missing_def of_owner_missing split: sum.splits)

lemma addresses_fromBody:
  assumes "\<And>project_of kl n r m. of_name = Some project_of \<Longrightarrow> project_of kl n \<noteq> Inl (Missing r m)"
  shows "addresses (fromBody resource field of_name)"
  unfolding addresses_def
proof (intro allI exI impI conjI)
  fix req :: api_request and kl :: cluster
  let ?target = "case rq_body req of Inl _ \<Rightarrow> [] | Inr raw \<Rightarrow>
    (case bodyField (take maxRequestBody raw) field of None \<Rightarrow> [] | Some v \<Rightarrow> trim_space v)"
  show "(r, m) = (rv_resource (fromBody resource field of_name), ?target)"
    if "rv_resolve (fromBody resource field of_name) kl req = Inl (Missing r m)" for r m
    using that assms by (auto simp: fromBody_def Let_def split: sum.splits option.splits if_splits)
  show "t = ?target" if "rv_resolve (fromBody resource field of_name) kl req = Inr (p, t)" for p t
    using that by (auto simp: fromBody_def Let_def split: sum.splits option.splits if_splits)
qed

lemma addresses_body: "addresses ofProjectInBody" "addresses ofEnvironmentInBody"
  unfolding ofProjectInBody_def ofEnvironmentInBody_def
  by (rule addresses_fromBody, auto simp: environment_project_def IsNotFound_def split: sum.splits if_splits)+

lemma project_rows: "list_all (\<lambda>(p, rm). rm_kind rm = RequireProjectRole \<longrightarrow> list_ex (\<lambda>rv. rm_project rm = Some rv)
    [ofProject, ofBuild, ofRelease, ofEnvironment, ofClaim, ofPromotion, ofException, ofDomain, ofSubscription, ofDelivery,
     ofProjectInBody, ofEnvironmentInBody]) routes"
  by (simp add: routes_def project_routes_def object_routes_def record_routes_def platform_routes_def binding_routes_def requirement_defs)

lemma project_row_addresses:
  assumes "(pattern, rm) \<in> set routes" "rm_kind rm = RequireProjectRole"
  obtains rv where "rm_project rm = Some rv" "addresses rv"
  using project_rows assms addresses_resolvers addresses_hop addresses_body unfolding list_all_iff by fastforce

text \<open>What a caller cannot see: an object that is missing, or one of a project they hold no role on.\<close>

definition unseen :: "requirement \<Rightarrow> api_caller \<Rightarrow> access_spec option \<Rightarrow> cluster \<Rightarrow> api_request \<Rightarrow> bool" where
  "unseen rm c kitchen kl req \<longleftrightarrow>
     (case rm_project rm of
        None \<Rightarrow> False
      | Some rv \<Rightarrow>
          (case rv_resolve rv kl req of
             Inl e \<Rightarrow> IsNotFound e
           | Inr (name, target) \<Rightarrow> target \<noteq> []
               \<and> (case found_project kl name of
                    Inl _ \<Rightarrow> False
                  | Inr pr \<Rightarrow> \<not> ProjectAtLeast (ProjectRoleFor (caller_access c) kitchen pr) ProjectViewer)))"

lemma unseen_refused:
  assumes "unseen rm c kitchen kl req" "rm_project rm = Some rv" "names_missing kl"
    and "\<And>r m. rv_resolve rv kl req = Inl (Missing r m) \<Longrightarrow> (r, m) = (rv_resource rv, target)"
    and "\<And>p t. rv_resolve rv kl req = Inr (p, t) \<Longrightarrow> t = target"
  shows "allowedOnProject rm c kitchen kl req = Some (writeError (Missing (rv_resource rv) target))"
proof (cases "rv_resolve rv kl req")
  case (Inl e)
  with assms(1,2) obtain r m where "e = Missing r m" by (auto simp: unseen_def IsNotFound_iff)
  with Inl assms(2,4) show ?thesis by (auto simp: allowedOnProject_def)
next
  case (Inr x)
  then obtain name where x: "rv_resolve rv kl req = Inr (name, target)" using assms(5) by (cases x) auto
  with assms(1,2) show ?thesis by (auto simp: unseen_def allowedOnProject_def Let_def split: sum.splits)
qed


text \<open>
  The hypothesis is needed: a read that names a missing build otherwise (by its kind, as a cache of the
  client may) is answered in other words than a build that is hidden.
\<close>

lemma otherwise_named_is_told_apart:
  assumes "kl_builds kl (path_name req) = Inl (Missing r m)" "r \<noteq> ''builds''"
    and "unseen rm c kitchen kl' req" "names_missing kl'" "kl_builds kl' (path_name req) = Inr p"
    and "rm = onProject role ofBuild doing" "\<not> HoldsUnknownKey (caller_access c) kitchen"
  shows "guard rm c kitchen now kl req \<noteq> guard rm c kitchen now kl' req"
proof -
  have "allowedOnProject rm c kitchen kl' req = Some (writeError (Missing ''builds'' (path_name req)))"
    using assms(3,5,6) by (auto simp: allowedOnProject_def unseen_def requirement_defs ofBuild_def objectResolver_def Let_def split: sum.splits)
  moreover have "allowedOnProject rm c kitchen kl req = Some (writeError (Missing r m))"
    using assms(1,6) by (simp add: allowedOnProject_def requirement_defs ofBuild_def objectResolver_def)
  ultimately show ?thesis using assms(2,7) by (simp add: guard_def Let_def assms(6) requirement_defs)
qed

text \<open>A key the platform has no record of passes where a route asks for a person.\<close>

lemma unknown_key_is_a_person:
  assumes "HoldsUnknownKey (caller_access c) kitchen" "\<not> isMachine c"
  shows "guard (anyPerson doing) c kitchen now kl req = Inr \<lparr>ad_role = PlatformRoleFor (caller_access c) kitchen, ad_scope = no_scope\<rparr>"
  using assms by (simp add: guard_def Let_def requirement_defs HoldsUnknownKey_def split: if_splits)

text \<open>What a cross-project read may answer about.\<close>

lemma scopeFor_allows:
  assumes "scopeFor c kitchen (PlatformRoleFor (caller_access c) kitchen) kl = Inr p"
    and "\<not> PlatformAtLeast (PlatformRoleFor (caller_access c) kitchen) PlatformOperator" "name \<noteq> []"
  shows "\<exists>items. kl_project_list kl = Inr items \<and>
    (scope_allows p name \<longleftrightarrow> (\<exists>pr \<in> set items. pr_name pr = name \<and> ProjectAtLeast (ProjectRoleFor (caller_access c) kitchen (Some pr)) ProjectViewer))"
  using assms by (auto simp: scopeFor_def Let_def scope_allows_def VisibleProjects_def split: sum.splits)

subsection \<open>Witnesses\<close>

text \<open>A cluster of two projects with a build each, and one of which the second project and its build are gone.\<close>

definition small_cluster :: "string list \<Rightarrow> cluster" where
  "small_cluster projects =
     (let owned = (\<lambda>resource n. if n \<in> set projects then Inr n else Inl (Missing resource n))
      in \<lparr>kl_projects = (\<lambda>n. if n \<in> set projects then Inr \<lparr>pr_name = n,
            pr_access = (if n = ''shop'' then [\<lparr>as_subject = ''u1'', as_email = [], ag_role = ''viewer''\<rparr>] else [])\<rparr>
            else Inl (Missing ''projects'' n)),
          kl_builds = owned ''builds'', kl_releases = owned ''releases'', kl_environments = owned ''environments'',
          kl_claims = owned ''resourceclaims'', kl_promotions = owned ''promotions'', kl_exceptions = owned ''exceptions'',
          kl_domains = owned ''domains'', kl_subscriptions = (\<lambda>n. Inl (Missing ''notificationsubscriptions'' n)),
          kl_deliveries = owned ''notificationdeliveries'', kl_project_list = Inr []\<rparr>)"

definition demo_person :: "string \<Rightarrow> api_caller" where
  "demo_person subject = \<lparr>cl_subject = subject, cl_email = ''anna@example.com'', cl_name = [], cl_verified = False,
     cl_client = ''console'', cl_key = []\<rparr>"

definition demo_request :: "string \<Rightarrow> api_request" where
  "demo_request name = \<lparr>rq_path = (\<lambda>k. if k = ''name'' then name else []), rq_body = Inr []\<rparr>"

definition demo_kitchen :: access_spec where
  "demo_kitchen = \<lparr>sp_operators = [], sp_credentials = [\<lparr>as_subject = ''bot'', as_email = [],
     pc_scopes = [ScopeBackupRun], pc_expires = 1000, pc_projects = []\<rparr>], sp_keys = []\<rparr>"

lemmas demo_defs = small_cluster_def demo_person_def demo_request_def demo_kitchen_def caller_access_def path_name_def

lemma person_roles:
  "ProjectRoleFor (caller_access (demo_person ''u1'')) (Some demo_kitchen) None = ProjectRoleNone"
  "ProjectRoleFor (caller_access (demo_person ''u1'')) (Some demo_kitchen) (Some \<lparr>pr_name = n, pr_access = []\<rparr>) = ProjectRoleNone"
  "ProjectRoleFor (caller_access (demo_person ''u1'')) (Some demo_kitchen)
     (Some \<lparr>pr_name = n, pr_access = [\<lparr>as_subject = ''u1'', as_email = [], ag_role = ''viewer''\<rparr>]\<rparr>) = ProjectViewer"
  "PlatformRoleFor (caller_access (demo_person s)) (Some demo_kitchen) = PlatformMember"
  by (simp_all add: ProjectRoleFor_def Let_def keyCeiling_def platformRoleOf_def PlatformRoleFor_def wearsTheHat_def demo_defs
      granted_def SubjectMatches_def IsEmailSubject_def ParseProjectRole_def role_name_defs role_order_defs PlatformAtLeast_def
      less_project_role_def less_eq_project_role_def)

lemma person_scopes:
  "sg_scopes (ScopesFor (caller_access (demo_person ''u1'')) (Some demo_kitchen) 0) = []"
  "sg_scopes (ScopesFor (caller_access (demo_person ''bot'')) (Some demo_kitchen) 0) = [ScopeBackupRun]"
  by (simp_all add: ScopesFor_def Let_def demo_defs SubjectMatches_def IsEmailSubject_def personalKeyScopes_def personalKeyOf_def
      Expired_def is_zero_def zero_time_def parsed_scopes_def List.map_filter_def ParseScope_def Scopes_def scope_defs
      trim_space_id white_end_def is_space_def)

lemma person_keys: "HoldsUnknownKey (caller_access (demo_person s)) kitchen = False"
  by (simp add: HoldsUnknownKey_def demo_defs)

lemma demo_cluster [simp]:
  "kl_projects (small_cluster ps) n = (if n \<in> set ps then Inr \<lparr>pr_name = n,
     pr_access = (if n = ''shop'' then [\<lparr>as_subject = ''u1'', as_email = [], ag_role = ''viewer''\<rparr>] else [])\<rparr>
     else Inl (Missing ''projects'' n))"
  "kl_environments (small_cluster ps) n = (if n \<in> set ps then Inr n else Inl (Missing ''environments'' n))"
  "kl_builds (small_cluster ps) n = (if n \<in> set ps then Inr n else Inl (Missing ''builds'' n))"
  "path_name (demo_request n) = n"
  by (simp_all add: small_cluster_def Let_def demo_request_def path_name_def)

lemma demo_names: "names_missing (small_cluster ps)"
  by (simp add: names_missing_def small_cluster_def Let_def)

lemmas demo_guard = guard_def Let_def requirement_defs allowedOnProject_def ofEnvironment_def ofBuild_def objectResolver_def
  found_project_def person_roles person_keys person_scopes ProjectAtLeast_def role_order_defs

theorem viewer_writes_witness:
  "(\<exists>ad. guard (onProject ProjectViewer ofEnvironment ''changing an environment's requirements'') (demo_person ''u1'')
       (Some demo_kitchen) 0 (small_cluster [''shop'']) (demo_request ''shop'') = Inr ad)
     \<and> (''PATCH /api/v1/environments/{name}/requirements'' \<in> set open_writes
       \<or> (\<exists>field raw. (''PATCH /api/v1/environments/{name}/requirements'', field) \<in> set body_writes
            \<and> rq_body (demo_request ''shop'') = Inr raw \<and> names_nothing raw field))"
proof -
  let ?rm = "onProject ProjectViewer ofEnvironment ''changing an environment's requirements''"
  have row: "(''PATCH /api/v1/environments/{name}/requirements'', ?rm) \<in> set routes"
    by (simp add: routes_def object_routes_def)
  obtain ad where g: "guard ?rm (demo_person ''u1'') (Some demo_kitchen) 0 (small_cluster [''shop'']) (demo_request ''shop'') = Inr ad"
    by (simp add: demo_guard)
  have "at_most_viewer (caller_access (demo_person ''u1'')) (Some demo_kitchen) (small_cluster [''shop''])"
    by (auto simp: at_most_viewer_def person_roles role_order_defs split: if_splits)
  from viewer_writes [OF row _ g this] g show ?thesis by (simp add: writes_def Empty_def person_scopes)
qed

theorem credential_reach_witness:
  "\<exists>ad. guard (operatorOr ScopeBackupRun ''exporting the platform's state'') (demo_person ''bot'') (Some demo_kitchen) 0
     (small_cluster []) (demo_request []) = Inr ad"
proof -
  have row: "(''POST /api/v1/platform/backup'', operatorOr ScopeBackupRun ''exporting the platform's state'') \<in> set routes"
    by (simp add: routes_def platform_routes_def)
  have "\<exists>(s, ps) \<in> set scoped_rows. ''POST /api/v1/platform/backup'' \<in> set ps
      \<and> s \<in> set (sg_scopes (ScopesFor (caller_access (demo_person ''bot'')) (Some demo_kitchen) 0))
      \<and> (''POST /api/v1/platform/backup'' = audit_pack \<longrightarrow> P)" for P
    by (simp add: scoped_rows_def person_scopes scope_defs audit_pack_def)
  moreover have "rm_kind (operatorOr ScopeBackupRun ''exporting the platform's state'') = RequireOperator"
    "\<not> PlatformAtLeast (PlatformRoleFor (caller_access (demo_person ''bot'')) (Some demo_kitchen)) PlatformOperator"
    by (simp_all add: requirement_defs person_roles PlatformAtLeast_def role_order_defs)
  ultimately show ?thesis using conjunct1 [OF credential_reach [OF row _ _ refl]] by blast
qed


end
