(* ===== verification/RouteTemplates.thy ===== *)
theory RouteTemplates
  imports GoRegexp Json
begin

section \<open>Route templates (internal/flows/paths.go)\<close>

text \<open>
  How a request path becomes the route its row is recorded under. Paths are bytes: where the code
  walks runes, \<open>runes\<close> takes a string apart into them, a byte that is not UTF-8 being the rune
  U+FFFD. The expressions are matched by \<open>accepts\<close>, being anchored at both ends. \<open>splitURL\<close>
  rests on \<open>net/url\<close> and is left out.
\<close>

subsection \<open>Runes\<close>

fun runes :: "string \<Rightarrow> string list" where
  "runes [] = []"
| "runes (c # cs) =
     (case rune_size (c # cs) of
        0 \<Rightarrow> replacement # runes cs
      | Suc n \<Rightarrow> (c # take n cs) # runes (drop n cs))"

definition rune_in :: "char \<Rightarrow> char \<Rightarrow> string \<Rightarrow> bool" where
  "rune_in lo hi r \<longleftrightarrow> (case r of [c] \<Rightarrow> lo \<le> c \<and> c \<le> hi | _ \<Rightarrow> False)"

definition isDigit :: "string \<Rightarrow> bool" where
  "isDigit r \<longleftrightarrow> rune_in (CHR ''0'') (CHR ''9'') r"

definition isLetter :: "string \<Rightarrow> bool" where
  "isLetter r \<longleftrightarrow> rune_in (CHR ''a'') (CHR ''z'') r \<or> rune_in (CHR ''A'') (CHR ''Z'') r"

definition digits_of :: "string \<Rightarrow> nat" where
  "digits_of s = length (filter isDigit (runes s))"

definition letters_of :: "string \<Rightarrow> nat" where
  "letters_of s = length (filter (\<lambda>r. \<not> isDigit r \<and> isLetter r) (runes s))"

subsection \<open>The rules of one segment\<close>

definition segmentID :: string where "segmentID = '':id''"
definition segmentUUID :: string where "segmentUUID = '':uuid''"
definition segmentHash :: string where "segmentHash = '':hash''"
definition overflowSegment :: string where "overflowSegment = ellipsis"
definition overflowRoute :: string where "overflowRoute = ''/'' @ overflowSegment"
definition maxRouteDepth :: nat where "maxRouteDepth = 12"
definition maxSegmentLength :: nat where "maxSegmentLength = 64"
definition maxRawPathBytes :: nat where "maxRawPathBytes = 512"
definition minTokenLength :: nat where "minTokenLength = 16"
definition minTokenDistinct :: nat where "minTokenDistinct = 12"

lemmas segment_defs = segmentID_def segmentUUID_def segmentHash_def

text \<open>\<open>r{n}\<close>, \<open>r{n,}\<close> and \<open>r{0,n}\<close>.\<close>

primrec Times :: "nat \<Rightarrow> regex \<Rightarrow> regex" where
  "Times 0 r = Empty_string"
| "Times (Suc n) r = Cat r (Times n r)"

definition At_least :: "nat \<Rightarrow> regex \<Rightarrow> regex" where
  "At_least n r = Cat (Times n r) (Star r)"

primrec At_most :: "nat \<Rightarrow> regex \<Rightarrow> regex" where
  "At_most 0 r = Empty_string"
| "At_most (Suc n) r = Alt Empty_string (Cat r (At_most n r))"

definition hex_class :: regex where
  "hex_class = Class [(CHR ''0'', CHR ''9''), (CHR ''a'', CHR ''f''), (CHR ''A'', CHR ''F'')]"

definition segmentRules :: "(regex \<times> string) list" where
  "segmentRules =
     [(Cat (Times 8 hex_class) (Cat (Lit (CHR ''-'')) (Cat (Times 4 hex_class) (Cat (Lit (CHR ''-''))
        (Cat (Times 4 hex_class) (Cat (Lit (CHR ''-'')) (Cat (Times 4 hex_class) (Cat (Lit (CHR ''-''))
        (Times 12 hex_class)))))))), segmentUUID),
      (Plus (Class [(CHR ''0'', CHR ''9'')]), segmentID),
      (Cat (Alt Empty_string (Str ''0x'')) (At_least 8 hex_class), segmentHash),
      (Times 26 (Class [(CHR ''0'', CHR ''9''), (CHR ''A'', CHR ''H''), (CHR ''J'', CHR ''K''), (CHR ''M'', CHR ''N''),
        (CHR ''P'', CHR ''T''), (CHR ''V'', CHR ''Z'')]), segmentHash),
      (Times 27 (Class [(CHR ''0'', CHR ''9''), (CHR ''A'', CHR ''Z''), (CHR ''a'', CHR ''z'')]), segmentHash)]"

definition assetExtension :: regex where
  "assetExtension = Cat (Class [(CHR ''A'', CHR ''Z''), (CHR ''a'', CHR ''z'')])
     (At_most 4 (Class [(CHR ''A'', CHR ''Z''), (CHR ''a'', CHR ''z''), (CHR ''0'', CHR ''9'')]))"

definition hexToken :: regex where "hexToken = At_least 6 hex_class"

definition contentHash :: "string \<Rightarrow> bool" where
  "contentHash part \<longleftrightarrow>
     (if accepts hexToken part then True
      else if length part < 8 then False
      else if \<not> list_all (\<lambda>r. isDigit r \<or> isLetter r) (runes part) then False
      else 0 < digits_of part \<and> 0 < letters_of part)"

definition hashedAsset :: "string \<Rightarrow> string option" where
  "hashedAsset segment =
     (let parts = split_on CHR ''.'' segment
      in if length parts < 2 then None
         else let extension = last parts
              in if \<not> accepts assetExtension extension then None
                 else if list_ex contentHash (butlast parts) then Some (''*.'' @ extension)
                 else None)"

definition uniform :: "string \<Rightarrow> bool" where
  "uniform part \<longleftrightarrow>
     (if \<not> list_all (\<lambda>r. isDigit r \<or> isLetter r) (runes part) then False
      else (digits_of part = 0) \<noteq> (letters_of part = 0))"

text \<open>\<open>strings.FieldsFunc\<close> on \<open>-\<close> and \<open>_\<close>: the parts between them that are not empty.\<close>

definition slug_parts :: "string \<Rightarrow> string list" where
  "slug_parts segment =
     filter (\<lambda>p. p \<noteq> []) (split_on CHR ''-'' (map (\<lambda>c. if c = CHR ''_'' then CHR ''-'' else c) segment))"

definition wordy :: "string \<Rightarrow> bool" where
  "wordy segment \<longleftrightarrow> (let parts = slug_parts segment in if length parts < 2 then False else list_all uniform parts)"

definition opaque :: "string \<Rightarrow> bool" where
  "opaque segment \<longleftrightarrow>
     (if length segment < minTokenLength \<or> wordy segment then False
      else 0 < digits_of segment \<and> 0 < letters_of segment \<and> minTokenDistinct \<le> length (remdups (runes segment)))"

definition capSegment :: "string \<Rightarrow> string" where
  "capSegment segment =
     (if length (runes segment) \<le> maxSegmentLength then segment
      else concat (take maxSegmentLength (runes segment)) @ overflowSegment)"

definition templateSegment :: "string \<Rightarrow> string" where
  "templateSegment segment =
     (case find (\<lambda>(pattern, _). accepts pattern segment) segmentRules of
        Some (_, replaced) \<Rightarrow> replaced
      | None \<Rightarrow>
          (case hashedAsset segment of
             Some asset \<Rightarrow> asset
           | None \<Rightarrow> if opaque segment then segmentHash else capSegment segment))"

subsection \<open>The template of a path\<close>

definition trim_slashes :: "string \<Rightarrow> string" where
  "trim_slashes path = rev (dropWhile (\<lambda>c. c = CHR ''/'') (rev (dropWhile (\<lambda>c. c = CHR ''/'') path)))"

fun template_parts :: "string list \<Rightarrow> string list \<Rightarrow> string" where
  "template_parts segments [] = (if segments = [] then ''/'' else ''/'' @ join ''/'' segments)"
| "template_parts segments (part # parts) =
     (if part = [] then template_parts segments parts
      else if length segments = maxRouteDepth then ''/'' @ join ''/'' segments @ overflowRoute
      else template_parts (segments @ [templateSegment part]) parts)"

definition templatePath :: "string \<Rightarrow> string" where
  "templatePath path =
     (let trimmed = trim_slashes path
      in if trimmed = [] then ''/'' else template_parts [] (split_on CHR ''/'' trimmed))"

definition orRoot :: "string \<Rightarrow> string" where
  "orRoot path = (if path = [] then ''/'' else path)"

definition RouteTemplate :: "string \<Rightarrow> string" where
  "RouteTemplate path = templatePath (orRoot (trim_space path))"

text \<open>The raw path of a row: cut at a byte that starts a rune (\<open>utf8.RuneStart\<close>).\<close>

fun rune_cut :: "string \<Rightarrow> nat \<Rightarrow> nat" where
  "rune_cut path 0 = 0"
| "rune_cut path (Suc n) = (if cont (path ! Suc n) then rune_cut path n else Suc n)"

definition truncatePath :: "string \<Rightarrow> string" where
  "truncatePath path = (if length path \<le> maxRawPathBytes then path else take (rune_cut path maxRawPathBytes) path)"

subsection \<open>How long a template is\<close>

lemma rune_size_le4: "rune_size s \<le> 4"
  by (cases s) (auto simp: rune_size.simps split: list.splits)

lemma rune_length: "r \<in> set (runes s) \<Longrightarrow> length r \<le> 4"
proof (induction s rule: runes.induct)
  case (2 c cs)
  show ?case
    using 2 rune_size_le4 [of "c # cs"] by (auto simp: replacement_def split: nat.splits)
qed simp

lemma concat_length: "(\<And>r. r \<in> set rs \<Longrightarrow> length r \<le> k) \<Longrightarrow> length (concat rs) \<le> k * length rs"
  by (induction rs) (auto, fastforce)

lemma length_runes: "length s \<le> 4 * length (runes s)"
proof (induction s rule: runes.induct)
  case (2 c cs)
  show ?case
  proof (cases "rune_size (c # cs)")
    case 0
    then show ?thesis using 2 by simp
  next
    case (Suc n)
    then have "n \<le> 3" using rune_size_le4 [of "c # cs"] by simp
    moreover have "length cs - n \<le> 4 * length (runes (drop n cs))" using 2(2) Suc by simp
    ultimately show ?thesis using Suc by simp
  qed
qed simp

lemma in_lang_At_most: "in_lang (At_most n (Class rs)) s \<Longrightarrow> length s \<le> n"
proof (induction n arbitrary: s)
  case (Suc n)
  then show ?case by (fastforce simp: in_lang_simps)
qed (simp add: in_lang_simps)

lemma asset_extension_length: "accepts assetExtension e \<Longrightarrow> length e \<le> 5"
  by (auto simp: accepts_iff assetExtension_def in_lang_simps dest!: in_lang_At_most)

lemma capSegment_length: "length (capSegment s) \<le> 259"
proof -
  have "length (concat (take maxSegmentLength (runes s))) \<le> 4 * length (take maxSegmentLength (runes s))"
    by (rule concat_length) (meson in_set_takeD rune_length)
  then show ?thesis
    using length_runes [of s]
    by (auto simp: capSegment_def maxSegmentLength_def overflowSegment_def ellipsis_def)
qed

lemma templateSegment_length: "length (templateSegment s) \<le> 259"
proof -
  have "length w \<le> 259" if "(p, w) \<in> set segmentRules" for p w
    using that by (auto simp: segmentRules_def segment_defs)
  moreover have "length a \<le> 259" if "hashedAsset s = Some a" for a
    using that by (auto simp: hashedAsset_def Let_def split: if_splits dest: asset_extension_length)
  ultimately show ?thesis
    using capSegment_length [of s]
    by (auto simp: templateSegment_def segment_defs split: option.splits dest!: find_Some_mem)
qed

lemma join_length: "(\<And>w. w \<in> set vs \<Longrightarrow> length w \<le> k) \<Longrightarrow> length (''/'' @ join ''/'' vs) \<le> (k + 1) * length vs + 1"
proof (cases vs)
  case (Cons w r)
  assume le: "\<And>w. w \<in> set vs \<Longrightarrow> length w \<le> k"
  have "length (concat (map ((@) ''/'') r)) \<le> (k + 1) * length (map ((@) ''/'') r)"
    by (rule concat_length) (use le Cons in auto)
  then show ?thesis using le [of w] Cons by (simp add: join_def algebra_simps)
qed (simp add: join_def)

lemma template_parts_length:
  assumes "list_all (\<lambda>w. length w \<le> 259) segments" "length segments \<le> maxRouteDepth"
  shows "length (template_parts segments parts) \<le> 3125"
  using assms
proof (induction segments parts rule: template_parts.induct)
  case (1 segments)
  then show ?case using join_length [of segments 259] by (auto simp: maxRouteDepth_def list_all_iff)
next
  case (2 segments part parts)
  then show ?case
    using join_length [of segments 259] templateSegment_length [of part]
    by (auto simp: maxRouteDepth_def list_all_iff overflowRoute_def overflowSegment_def ellipsis_def)
qed

lemma templatePath_length: "length (templatePath path) \<le> 3125"
  using template_parts_length [of "[]"] by (simp add: templatePath_def Let_def)

end
