(* ===== verification/RouteBudget.thy ===== *)
theory RouteBudget
  imports RouteTemplates
begin

section \<open>The budget of routes (internal/flows/budget.go)\<close>

text \<open>
  The bounded most-recently-used map and the two layers of it that bound how many route templates an
  environment is recorded under. An element of the list is known by its key and the map holds its
  value; a route set is a pointer in the code, so what is put into it is written back to the
  environment's entry here. The locale \<open>recency_cache\<close> is what both layers promise of the keys they
  hold, and is interpreted on the map.
\<close>

subsection \<open>The map\<close>

record 'v lru =
  lr_capacity :: nat
  lr_order :: "string list"
  lr_entries :: "string \<rightharpoonup> 'v"

definition newLRU :: "nat \<Rightarrow> 'v lru" where
  "newLRU capacity = \<lparr>lr_capacity = capacity, lr_order = [], lr_entries = (\<lambda>_. None)\<rparr>"

definition move_to_front :: "string \<Rightarrow> string list \<Rightarrow> string list" where
  "move_to_front key order = key # remove1 key order"

definition lru_get :: "'v lru \<Rightarrow> string \<Rightarrow> 'v option \<times> 'v lru" where
  "lru_get l key =
     (case lr_entries l key of
        None \<Rightarrow> (None, l)
      | Some v \<Rightarrow> (Some v, l\<lparr>lr_order := move_to_front key (lr_order l)\<rparr>))"

definition drop_oldest :: "'v lru \<Rightarrow> 'v lru" where
  "drop_oldest l = l\<lparr>lr_order := butlast (lr_order l), lr_entries := (lr_entries l)(last (lr_order l) := None)\<rparr>"

function evict :: "'v lru \<Rightarrow> 'v lru" where
  "evict l = (if lr_capacity l < length (lr_order l) then evict (drop_oldest l) else l)"
  by pat_completeness auto

termination evict
  by (relation "measure (\<lambda>l. length (lr_order l))") (auto simp: drop_oldest_def)

declare evict.simps [simp del]

definition lru_put :: "'v lru \<Rightarrow> string \<Rightarrow> 'v \<Rightarrow> 'v lru" where
  "lru_put l key v =
     (case lr_entries l key of
        Some _ \<Rightarrow> l\<lparr>lr_order := move_to_front key (lr_order l), lr_entries := (lr_entries l)(key \<mapsto> v)\<rparr>
      | None \<Rightarrow> evict (l\<lparr>lr_order := key # lr_order l, lr_entries := (lr_entries l)(key \<mapsto> v)\<rparr>))"

definition lru_len :: "'v lru \<Rightarrow> nat" where
  "lru_len l = length (lr_order l)"

subsection \<open>The budgets\<close>

definition routeBudget :: nat where "routeBudget = 300"
definition budgetedEnvironments :: nat where "budgetedEnvironments = 500"

type_synonym route_set = "unit lru"
type_synonym route_budgets = "route_set lru"

definition newRouteBudgets :: route_budgets where
  "newRouteBudgets = newLRU budgetedEnvironments"

definition budget_key :: "string \<Rightarrow> string \<Rightarrow> string" where
  "budget_key project environment = project @ [CHR 0x00] @ environment"

definition routesFor :: "route_budgets \<Rightarrow> string \<Rightarrow> string \<Rightarrow> route_set \<times> route_budgets" where
  "routesFor b project environment =
     (case lru_get b (budget_key project environment) of
        (Some routes, b') \<Rightarrow> (routes, b')
      | (None, b') \<Rightarrow>
          let routes = newLRU routeBudget in (routes, lru_put b' (budget_key project environment) routes))"

text \<open>A change of the set a held entry points to.\<close>

definition write_through :: "route_budgets \<Rightarrow> string \<Rightarrow> route_set \<Rightarrow> route_budgets" where
  "write_through b key routes =
     (case lr_entries b key of None \<Rightarrow> b | Some _ \<Rightarrow> b\<lparr>lr_entries := (lr_entries b)(key \<mapsto> routes)\<rparr>)"

definition charge :: "route_set \<Rightarrow> string \<Rightarrow> string \<times> route_set" where
  "charge routes template =
     (case lru_get routes template of
        (Some _, r) \<Rightarrow> (template, r)
      | (None, r) \<Rightarrow>
          let overflowed = routeBudget \<le> lru_len r
          in (if overflowed then overflowRoute else template, lru_put r template ()))"

definition routeBudgets_route :: "route_budgets \<Rightarrow> string \<Rightarrow> string \<Rightarrow> string \<Rightarrow> string \<times> route_budgets" where
  "routeBudgets_route b project environment path =
     (let (routes, b') = routesFor b project environment;
          (answer, routes') = charge routes (templatePath path)
      in (answer, write_through b' (budget_key project environment) routes'))"

text \<open>A run of requests, oldest first: the routes they are recorded under, and the budgets after them.\<close>

primrec route_all :: "route_budgets \<Rightarrow> (string \<times> string \<times> string) list \<Rightarrow> string list \<times> route_budgets" where
  "route_all b [] = ([], b)"
| "route_all b (q # qs) =
     (let (a, b') = routeBudgets_route b (fst q) (fst (snd q)) (snd (snd q)); (rest, b'') = route_all b' qs in (a # rest, b''))"

subsection \<open>What the map holds\<close>

definition lru_ok :: "'v lru \<Rightarrow> bool" where
  "lru_ok l \<longleftrightarrow> distinct (lr_order l) \<and> set (lr_order l) = dom (lr_entries l)
     \<and> length (lr_order l) \<le> lr_capacity l \<and> 0 < lr_capacity l"

text \<open>The keys a history asked for, the latest first (the history is the latest first as well).\<close>

primrec recency :: "'a list \<Rightarrow> 'a list" where
  "recency [] = []"
| "recency (x # xs) = x # removeAll x (recency xs)"

lemma set_recency [simp]: "set (recency xs) = set xs"
  by (induction xs) auto

lemma distinct_recency [simp]: "distinct (recency xs)"
  by (induction xs) (auto simp: distinct_removeAll)

text \<open>What a cache of the last \<open>n\<close> keys is: asked for one more key, it holds the \<open>n\<close> latest again.\<close>

locale recency_cache =
  fixes keys :: "'c \<Rightarrow> string list" and touch :: "'c \<Rightarrow> string \<Rightarrow> 'c" and bound :: "'c \<Rightarrow> nat" and ok :: "'c \<Rightarrow> bool"
  assumes ok_touch: "ok c \<Longrightarrow> ok (touch c k)"
    and bound_touch: "ok c \<Longrightarrow> bound (touch c k) = bound c"
    and keys_touch: "ok c \<Longrightarrow> keys (touch c k) = take (bound c) (k # removeAll k (keys c))"
begin

lemma take_removeAll:
  assumes "distinct L"
  shows "take n (k # removeAll k (take n L)) = take n (k # removeAll k L)"
proof (cases n)
  case (Suc m)
  have "take m (removeAll k (take (Suc m) L)) = take m (removeAll k L)" using assms
  proof (induction L arbitrary: m)
    case (Cons x L)
    then show ?case
    proof (cases "x = k")
      case True
      with Cons.prems have "k \<notin> set L" by simp
      then have "removeAll k (take m L) = take m L" "removeAll k L = L"
        by (metis in_set_takeD removeAll_id, metis removeAll_id)
      then show ?thesis using True by simp
    next
      case False
      then show ?thesis using Cons by (cases m) auto
    qed
  qed simp
  with Suc show ?thesis by simp
qed simp

lemma touched:
  assumes "ok c" "keys c = take (bound c) (recency h)"
  shows "keys (touch c k) = take (bound c) (recency (k # h))"
  using keys_touch [OF assms(1)] assms(2) take_removeAll [OF distinct_recency] by simp

lemma run:
  assumes "ok c" "keys c = take (bound c) (recency h)"
  shows "ok (foldl touch c ks) \<and> bound (foldl touch c ks) = bound c
    \<and> keys (foldl touch c ks) = take (bound c) (recency (rev ks @ h))"
  using assms
proof (induction ks arbitrary: c h)
  case (Cons k ks)
  from Cons.IH [of "touch c k" "k # h"] touched [OF Cons.prems] ok_touch [OF Cons.prems(1)] bound_touch [OF Cons.prems(1)]
  show ?case by simp
qed simp

end

text \<open>Asking the map for a key: it is put there when it is not held.\<close>

definition touch_lru :: "'v \<Rightarrow> 'v lru \<Rightarrow> string \<Rightarrow> 'v lru" where
  "touch_lru v l k = (case lru_get l k of (Some _, l') \<Rightarrow> l' | (None, l') \<Rightarrow> lru_put l' k v)"

lemma evict_once:
  "length (lr_order l) \<le> Suc (lr_capacity l) \<Longrightarrow>
    evict l = (if lr_capacity l < length (lr_order l) then drop_oldest l else l)"
  by (simp add: evict.simps [of l] evict.simps [of "drop_oldest l"]) (simp add: drop_oldest_def)

lemma move_to_front_alt: "distinct order \<Longrightarrow> move_to_front k order = k # removeAll k order"
  by (simp add: move_to_front_def distinct_remove1_removeAll)

lemma lru_get_cases:
  assumes "lru_ok l"
  shows "lru_get l k = (lr_entries l k, if k \<in> set (lr_order l) then l\<lparr>lr_order := k # removeAll k (lr_order l)\<rparr> else l)"
  using assms by (auto simp: lru_get_def lru_ok_def move_to_front_alt split: option.splits)

lemma map_drop: "S = dom e \<Longrightarrow> e(x := None) = (\<lambda>y. if y \<in> S - {x} then e y else None)"
  by (auto simp: fun_eq_iff domIff)

text \<open>A key that is not held: it comes to the front, and the oldest goes when there is one too many.\<close>

lemma lru_put_new:
  assumes "lru_ok l" "k \<notin> set (lr_order l)"
  shows "lr_order (lru_put l k v) = take (lr_capacity l) (k # lr_order l)"
    and "lr_capacity (lru_put l k v) = lr_capacity l"
    and "lr_entries (lru_put l k v) = (\<lambda>x. if x \<in> set (take (lr_capacity l) (k # lr_order l))
           then ((lr_entries l)(k \<mapsto> v)) x else None)"
    and "lru_ok (lru_put l k v)"
proof -
  have ok: "distinct (lr_order l)" "set (lr_order l) = dom (lr_entries l)" "length (lr_order l) \<le> lr_capacity l" "0 < lr_capacity l"
    using assms(1) by (auto simp: lru_ok_def)
  let ?l = "l\<lparr>lr_order := k # lr_order l, lr_entries := (lr_entries l)(k \<mapsto> v)\<rparr>"
  have "lr_entries l k = None" using ok(2) assms(2) by blast
  then have put: "lru_put l k v = (if lr_capacity l < Suc (length (lr_order l)) then drop_oldest ?l else ?l)"
    using ok(3) by (simp add: lru_put_def evict_once)
  let ?new = "k # lr_order l"
  have new: "distinct ?new" "set ?new = dom ((lr_entries l)(k \<mapsto> v))" using ok assms(2) by auto
  have keep: "take (lr_capacity l) ?new = (if lr_capacity l < Suc (length (lr_order l)) then butlast ?new else ?new)"
    using ok(3) by (cases "lr_capacity l = length (lr_order l)") (auto simp: butlast_conv_take)
  have gone: "set (butlast ?new) = set ?new - {last ?new}"
  proof -
    have "?new = butlast ?new @ [last ?new]" by (metis append_butlast_last_id list.distinct(1))
    with new(1) show ?thesis by (metis Diff_insert_absorb distinct_append insert_is_Un list.set(1) list.simps(15) rotate1.simps(2)
        set_append set_rotate1 Un_commute disjoint_insert(1))
  qed
  show order: "lr_order (lru_put l k v) = take (lr_capacity l) ?new"
    and "lr_capacity (lru_put l k v) = lr_capacity l"
    unfolding put keep by (simp_all add: drop_oldest_def)
  show entries: "lr_entries (lru_put l k v) = (\<lambda>x. if x \<in> set (take (lr_capacity l) ?new)
           then ((lr_entries l)(k \<mapsto> v)) x else None)"
  proof (cases "lr_capacity l < Suc (length (lr_order l))")
    case True
    have "((lr_entries l)(k \<mapsto> v))(last ?new := None) = (\<lambda>x. if x \<in> set (butlast ?new) then ((lr_entries l)(k \<mapsto> v)) x else None)"
      unfolding gone by (rule map_drop [OF new(2)])
    then show ?thesis unfolding put keep using True by (simp add: drop_oldest_def)
  next
    case False
    have "(lr_entries l)(k \<mapsto> v) = (\<lambda>x. if x \<in> set ?new then ((lr_entries l)(k \<mapsto> v)) x else None)"
      using new(2) by (auto simp: fun_eq_iff domIff)
    then show ?thesis unfolding put keep using False by simp
  qed
  have "set (take (lr_capacity l) ?new) \<subseteq> dom ((lr_entries l)(k \<mapsto> v))" using new(2) by (metis set_take_subset)
  then show "lru_ok (lru_put l k v)"
    unfolding lru_ok_def order entries using new(1) ok(4) put
    by (auto simp: dom_def drop_oldest_def split: if_splits simp del: distinct.simps intro: distinct_take)
qed

lemma touch_lru_held:
  assumes "lru_ok l" "k \<in> set (lr_order l)"
  shows "touch_lru v l k = l\<lparr>lr_order := k # removeAll k (lr_order l)\<rparr>"
proof -
  have "k \<in> dom (lr_entries l)" using assms by (auto simp: lru_ok_def)
  then show ?thesis using assms by (auto simp: touch_lru_def lru_get_cases)
qed

lemma touch_lru_new:
  assumes "lru_ok l" "k \<notin> set (lr_order l)"
  shows "touch_lru v l k = lru_put l k v"
proof -
  have "lr_entries l k = None" using assms by (auto simp: lru_ok_def)
  then show ?thesis using assms by (simp add: touch_lru_def lru_get_cases)
qed

lemma length_front: "distinct xs \<Longrightarrow> k \<in> set xs \<Longrightarrow> length (k # removeAll k xs) = length xs"
  using length_pos_if_in_set [of k xs] by (simp add: distinct_remove1_removeAll [symmetric] length_remove1)

lemma touch_lru_laws:
  assumes "lru_ok l"
  shows "lr_order (touch_lru v l k) = take (lr_capacity l) (k # removeAll k (lr_order l))"
    "lr_capacity (touch_lru v l k) = lr_capacity l" "lru_ok (touch_lru v l k)"
    "lr_entries (touch_lru v l k) = (\<lambda>x. if x \<in> set (lr_order (touch_lru v l k))
       then (if x = k \<and> k \<notin> set (lr_order l) then Some v else lr_entries l x) else None)"
proof -
  have ok: "distinct (lr_order l)" "set (lr_order l) = dom (lr_entries l)" "length (lr_order l) \<le> lr_capacity l" "0 < lr_capacity l"
    using assms by (auto simp: lru_ok_def)
  have "lr_order (touch_lru v l k) = take (lr_capacity l) (k # removeAll k (lr_order l))
    \<and> lr_capacity (touch_lru v l k) = lr_capacity l \<and> lru_ok (touch_lru v l k)
    \<and> lr_entries (touch_lru v l k) = (\<lambda>x. if x \<in> set (lr_order (touch_lru v l k))
         then (if x = k \<and> k \<notin> set (lr_order l) then Some v else lr_entries l x) else None)"
  proof (cases "k \<in> set (lr_order l)")
    case True
    have len: "length (k # removeAll k (lr_order l)) \<le> lr_capacity l" using length_front [OF ok(1) True] ok(3) by simp
    have "lr_entries l = (\<lambda>x. if x \<in> set (k # removeAll k (lr_order l))
        then (if x = k \<and> k \<notin> set (lr_order l) then Some v else lr_entries l x) else None)"
      using ok(2) True by (auto simp: fun_eq_iff domIff)
    then have entries: "lr_entries (touch_lru v l k) = (\<lambda>x. if x \<in> set (lr_order (touch_lru v l k))
        then (if x = k \<and> k \<notin> set (lr_order l) then Some v else lr_entries l x) else None)"
      unfolding touch_lru_held [OF assms True] by simp
    have "insert k (dom (lr_entries l)) = dom (lr_entries l)" using True ok(2) by auto
    then have "lru_ok (touch_lru v l k)"
      unfolding touch_lru_held [OF assms True] using len ok by (simp add: lru_ok_def distinct_removeAll)
    with entries show ?thesis unfolding touch_lru_held [OF assms True] using len by simp
  next
    case False
    then show ?thesis
      unfolding touch_lru_new [OF assms False] using lru_put_new [OF assms False, of v]
      by (auto simp: fun_eq_iff)
  qed
  then show "lr_order (touch_lru v l k) = take (lr_capacity l) (k # removeAll k (lr_order l))"
    "lr_capacity (touch_lru v l k) = lr_capacity l" "lru_ok (touch_lru v l k)"
    "lr_entries (touch_lru v l k) = (\<lambda>x. if x \<in> set (lr_order (touch_lru v l k))
       then (if x = k \<and> k \<notin> set (lr_order l) then Some v else lr_entries l x) else None)" by blast+
qed

interpretation held: recency_cache lr_order "touch_lru v" lr_capacity lru_ok for v
  by unfold_locales (simp_all add: touch_lru_laws)

lemma lru_ok_new [simp]: "0 < n \<Longrightarrow> lru_ok (newLRU n)"
  by (simp add: lru_ok_def newLRU_def)

text \<open>Both layers ask the map for a key and put it there when it is not held.\<close>

lemma charge_touch: "snd (charge routes t) = touch_lru () routes t"
  by (auto simp: charge_def touch_lru_def Let_def split: prod.splits option.splits)

lemma routesFor_touch: "snd (routesFor b p e) = touch_lru (newLRU routeBudget) b (budget_key p e)"
  by (auto simp: routesFor_def touch_lru_def Let_def split: prod.splits option.splits)

lemma routesFor_routes:
  assumes "lru_ok b"
  shows "fst (routesFor b p e) = (if budget_key p e \<in> set (lr_order b) then the (lr_entries b (budget_key p e)) else newLRU routeBudget)"
proof -
  have "budget_key p e \<in> set (lr_order b) \<longleftrightarrow> lr_entries b (budget_key p e) \<noteq> None" using assms by (auto simp: lru_ok_def)
  then show ?thesis using assms by (auto simp: routesFor_def lru_get_cases Let_def split: option.splits)
qed

lemma charge_answer:
  assumes "lru_ok routes"
  shows "fst (charge routes t) = (if t \<in> set (lr_order routes) \<or> length (lr_order routes) < routeBudget then t else overflowRoute)"
proof -
  have "t \<in> set (lr_order routes) \<longleftrightarrow> lr_entries routes t \<noteq> None" using assms by (auto simp: lru_ok_def)
  then show ?thesis using assms by (auto simp: charge_def lru_get_cases Let_def lru_len_def split: option.splits)
qed

subsection \<open>What the budgets hold\<close>

definition request_key :: "string \<times> string \<times> string \<Rightarrow> string" where
  "request_key q = budget_key (fst q) (fst (snd q))"

definition request_template :: "string \<times> string \<times> string \<Rightarrow> string" where
  "request_template q = templatePath (snd (snd q))"

text \<open>The templates an environment was asked for, of a history with the latest request first.\<close>

definition asked :: "string \<Rightarrow> (string \<times> string \<times> string) list \<Rightarrow> string list" where
  "asked k h = map request_template (filter (\<lambda>q. request_key q = k) h)"

definition set_ok :: "bool \<Rightarrow> string list \<Rightarrow> route_set \<Rightarrow> bool" where
  "set_ok exact ts r \<longleftrightarrow> lru_ok r \<and> lr_capacity r = routeBudget \<and> (exact \<longrightarrow> lr_order r = take routeBudget (recency ts))"

definition tracks_requests :: "route_budgets \<Rightarrow> (string \<times> string \<times> string) list \<Rightarrow> bool" where
  "tracks_requests b h \<longleftrightarrow> lru_ok b \<and> lr_capacity b = budgetedEnvironments
     \<and> lr_order b = take budgetedEnvironments (recency (map request_key h))
     \<and> (\<forall>k \<in> set (lr_order b). \<exists>r. lr_entries b k = Some r
          \<and> set_ok (length (recency (map request_key h)) \<le> budgetedEnvironments) (asked k h) r)"

lemma tracks_no_routes: "tracks_requests newRouteBudgets []"
  by (simp add: tracks_requests_def newRouteBudgets_def newLRU_def lru_ok_def budgetedEnvironments_def)

lemma set_ok_charge:
  assumes "set_ok exact ts r"
  shows "set_ok exact (t # ts) (snd (charge r t))"
  using assms held.touched [where c = r and h = ts and k = t and v = "()"] by (auto simp: set_ok_def charge_touch touch_lru_laws)

lemma set_ok_weaken: "set_ok exact ts r \<Longrightarrow> (exact' \<Longrightarrow> exact) \<Longrightarrow> set_ok exact' ts r"
  by (auto simp: set_ok_def)

lemma routesFor_set_ok:
  assumes "tracks_requests b h" "exact \<Longrightarrow> length (recency (k # map request_key h)) \<le> budgetedEnvironments" "k = budget_key p e"
  shows "set_ok exact (asked k h) (fst (routesFor b p e))"
proof -
  let ?all = "recency (map request_key h)"
  have ok: "lru_ok b" "lr_order b = take budgetedEnvironments ?all"
    "\<forall>k \<in> set (lr_order b). \<exists>r. lr_entries b k = Some r \<and> set_ok (length ?all \<le> budgetedEnvironments) (asked k h) r"
    using assms(1) unfolding tracks_requests_def by blast+
  show ?thesis
  proof (cases "k \<in> set (lr_order b)")
    case True
    obtain r where r: "lr_entries b k = Some r" "set_ok (length ?all \<le> budgetedEnvironments) (asked k h) r"
      using bspec [OF ok(3) True] by (elim exE conjE)
    have "length ?all \<le> length (recency (k # map request_key h))"
    proof -
      have "k \<in> set ?all" by (rule in_set_takeD [of _ budgetedEnvironments], use True ok(2) in simp)
      then have "length (k # removeAll k ?all) = length ?all" by (rule length_front [OF distinct_recency])
      then show ?thesis by simp
    qed
    then have "set_ok exact (asked k h) r" by (rule_tac set_ok_weaken [OF r(2)]) (drule assms(2), rule le_trans)
    then show ?thesis using r(1) True unfolding assms(3) by (simp add: routesFor_routes [OF ok(1)])
  next
    case False
    have "asked k h = []" if exact
    proof -
      have "k \<notin> set ?all"
      proof
        assume k: "k \<in> set ?all"
        have "length ?all \<le> budgetedEnvironments"
          using assms(2) [OF that] length_front [OF distinct_recency k] by simp
        then show False using k False ok(2) by simp
      qed
      then show ?thesis by (auto simp: asked_def filter_empty_conv)
    qed
    then have "set_ok exact (asked k h) (newLRU routeBudget)"
      by (auto simp: set_ok_def routeBudget_def lru_ok_new) (simp_all add: newLRU_def)
    then show ?thesis using False unfolding assms(3) by (simp add: routesFor_routes [OF ok(1)])
  qed
qed

lemma tracks_route:
  assumes "tracks_requests b h"
  shows "tracks_requests (snd (routeBudgets_route b p e path)) ((p, e, path) # h)"
proof -
  let ?k = "budget_key p e" and ?all = "recency (map request_key ((p, e, path) # h))"
  let ?exact = "length ?all \<le> budgetedEnvironments"
  define b' where "b' = snd (routesFor b p e)"
  define r where "r = snd (charge (fst (routesFor b p e)) (templatePath path))"
  have ok: "lru_ok b" "lr_capacity b = budgetedEnvironments" "lr_order b = take budgetedEnvironments (recency (map request_key h))"
    "\<forall>k \<in> set (lr_order b). \<exists>r. lr_entries b k = Some r
       \<and> set_ok (length (recency (map request_key h)) \<le> budgetedEnvironments) (asked k h) r"
    using assms unfolding tracks_requests_def by blast+
  have b': "lru_ok b'" "lr_capacity b' = budgetedEnvironments" "lr_order b' = take budgetedEnvironments ?all"
    using held.touched [where c = b and h = "map request_key h" and k = ?k and v = "newLRU routeBudget"] ok
    by (simp_all add: b'_def routesFor_touch touch_lru_laws request_key_def)
  have r: "set_ok ?exact (asked ?k ((p, e, path) # h)) r"
    using set_ok_charge [OF routesFor_set_ok [OF assms _ refl], of ?exact p e "templatePath path"]
    by (simp add: r_def asked_def request_key_def request_template_def)
  have route: "snd (routeBudgets_route b p e path) = write_through b' ?k r"
    by (simp add: routeBudgets_route_def b'_def r_def Let_def split: prod.splits)
  have front: "?k \<in> set (lr_order b')" unfolding b'(3) by (simp add: request_key_def budgetedEnvironments_def take_Cons')
  then have "lr_entries b' ?k \<noteq> None" using b'(1) by (auto simp: lru_ok_def)
  then have written: "write_through b' ?k r = b'\<lparr>lr_entries := (lr_entries b')(?k \<mapsto> r)\<rparr>"
    "dom ((lr_entries b')(?k \<mapsto> r)) = dom (lr_entries b')"
    by (auto simp: write_through_def)
  have "\<exists>r'. ((lr_entries b')(?k \<mapsto> r)) k = Some r' \<and> set_ok ?exact (asked k ((p, e, path) # h)) r'"
    if "k \<in> set (lr_order b')" for k
  proof (cases "k = ?k")
    case True
    then show ?thesis using r by simp
  next
    case False
    have held: "k \<in> set (lr_order b)" and same: "lr_entries b' k = lr_entries b k"
      using that False touch_lru_laws(1,4) [OF ok(1), of "newLRU routeBudget" ?k]
      by (auto simp: b'_def routesFor_touch dest: in_set_takeD)
    then obtain r' where r': "lr_entries b' k = Some r'" "set_ok (length (recency (map request_key h)) \<le> budgetedEnvironments) (asked k h) r'"
      using bspec [OF ok(4) held] unfolding same by (elim exE conjE)
    have "length (recency (map request_key h)) \<le> length ?all"
      by (metis distinct_card distinct_recency card_mono finite_set set_recency list.simps(9) set_subset_Cons)
    then have "set_ok ?exact (asked k ((p, e, path) # h)) r'"
      using set_ok_weaken [OF r'(2)] False by (simp add: asked_def request_key_def)
    then show ?thesis using r'(1) False by simp
  qed
  then show ?thesis
    using b' written by (simp add: tracks_requests_def route lru_ok_def)
qed

lemma tracks_route_all: "tracks_requests b h \<Longrightarrow> tracks_requests (snd (route_all b qs)) (rev qs @ h)"
proof (induction qs arbitrary: b h)
  case (Cons q qs)
  from Cons.IH [OF tracks_route [OF Cons.prems, of "fst q" "fst (snd q)" "snd (snd q)"]]
  show ?case by (simp add: Let_def case_prod_beta)
qed simp

subsection \<open>Properties\<close>

lemma length_recency: "length (recency xs) = card (set xs)"
  by (metis distinct_card distinct_recency set_recency)

lemma asked_rev: "asked k (rev qs) = rev (map request_template (filter (\<lambda>q. request_key q = k) qs))"
  by (simp add: asked_def rev_map rev_filter)

text \<open>
  C7. Which route a request is recorded under: its template, when the environment has been asked for
  fewer than 300 templates or for this one among the last 300, and the overflow route otherwise. The
  templates are counted from the first request on, as long as no more than 500 environments were asked.
\<close>

theorem route_exact:
  assumes "card (request_key ` set ((project, environment, path) # qs)) \<le> budgetedEnvironments"
    and "templates = recency (rev (map request_template (filter (\<lambda>q. request_key q = budget_key project environment) qs)))"
  shows "fst (routeBudgets_route (snd (route_all newRouteBudgets qs)) project environment path)
    = (if length templates < routeBudget \<or> templatePath path \<in> set (take routeBudget templates)
       then templatePath path else overflowRoute)"
proof -
  let ?b = "snd (route_all newRouteBudgets qs)" and ?k = "budget_key project environment"
  have tracked: "tracks_requests ?b (rev qs)" using tracks_route_all [OF tracks_no_routes] by simp
  have "length (recency (?k # map request_key (rev qs))) \<le> budgetedEnvironments"
    unfolding length_recency using assms(1) by (simp add: request_key_def)
  from routesFor_set_ok [OF tracked this refl, where exact = True]
  have r: "lru_ok (fst (routesFor ?b project environment))"
    "lr_order (fst (routesFor ?b project environment)) = take routeBudget templates"
    unfolding set_ok_def asked_rev assms(2) by blast+
  have "fst (routeBudgets_route ?b project environment path) = fst (charge (fst (routesFor ?b project environment)) (templatePath path))"
    by (simp add: routeBudgets_route_def Let_def case_prod_beta)
  then show ?thesis unfolding charge_answer [OF r(1)] r(2) by auto
qed

lemma route_all_append:
  "route_all b (xs @ ys) = (fst (route_all b xs) @ fst (route_all (snd (route_all b xs)) ys), snd (route_all (snd (route_all b xs)) ys))"
  by (induction xs arbitrary: b) (simp_all add: Let_def case_prod_beta)

lemma route_answer: "fst (routeBudgets_route b p e path) \<in> {templatePath path, overflowRoute}"
  by (simp add: routeBudgets_route_def charge_def Let_def case_prod_beta split: option.splits prod.splits)

lemma route_all_answers: "list_all2 (\<lambda>a q. a \<in> {request_template q, overflowRoute}) (fst (route_all b qs)) qs"
proof (induction qs arbitrary: b)
  case (Cons q qs)
  then show ?case
    using route_answer [of b "fst q" "fst (snd q)" "snd (snd q)"]
    by (simp add: Let_def case_prod_beta request_template_def)
qed simp

text \<open>
  C15. Whatever is requested, the budgets hold at most 500 environments of at most 300 templates each,
  and every request is recorded under its template or the overflow route, in at most 3125 bytes.
\<close>

theorem budgets_bounded:
  "let (answers, b) = route_all newRouteBudgets qs
   in lru_len b \<le> budgetedEnvironments \<and> (\<forall>k r. lr_entries b k = Some r \<longrightarrow> lru_len r \<le> routeBudget)
     \<and> list_all2 (\<lambda>a q. a \<in> {request_template q, overflowRoute}) answers qs \<and> list_all (\<lambda>a. length a \<le> 3125) answers"
proof -
  let ?b = "snd (route_all newRouteBudgets qs)"
  have tracked: "tracks_requests ?b (rev qs)" using tracks_route_all [OF tracks_no_routes] by simp
  have len: "lru_len ?b \<le> budgetedEnvironments"
    using tracked unfolding tracks_requests_def lru_ok_def lru_len_def by auto
  have each: "lru_len r \<le> routeBudget" if "lr_entries ?b k = Some r" for k r
  proof -
    have "k \<in> set (lr_order ?b)" using tracked that unfolding tracks_requests_def lru_ok_def by blast
    then obtain r' where "lr_entries ?b k = Some r'" "lru_ok r'" "lr_capacity r' = routeBudget"
      using tracked unfolding tracks_requests_def set_ok_def by blast
    with that show ?thesis by (simp add: lru_ok_def lru_len_def)
  qed
  have answers: "list_all2 (\<lambda>a q. a \<in> {request_template q, overflowRoute}) (fst (route_all newRouteBudgets qs)) qs"
    by (rule route_all_answers)
  then have "list_all (\<lambda>a. length a \<le> 3125) (fst (route_all newRouteBudgets qs))"
    by (induction rule: list_all2_induct)
      (auto simp: request_template_def templatePath_length overflowRoute_def overflowSegment_def ellipsis_def)
  with len each answers show ?thesis by (simp add: case_prod_beta)
qed

text \<open>
  C27. The budget does not bound how many routes an environment is recorded under: a template past it is
  remembered, so that its second request is recorded under it. Paths of as many templates as one likes,
  each asked for twice, are all recorded.
\<close>

theorem repeated_routes_recorded:
  assumes "distinct (map templatePath paths)"
  shows "templatePath ` set paths \<subseteq> set (fst (route_all newRouteBudgets (concat (map (\<lambda>p. replicate 2 (project, environment, p)) paths))))
    \<and> card (templatePath ` set paths) = length paths"
proof
  let ?twice = "\<lambda>ps. concat (map (\<lambda>p. replicate 2 (project, environment, p)) ps)"
  show "templatePath ` set paths \<subseteq> set (fst (route_all newRouteBudgets (?twice paths)))"
  proof (intro image_subsetI)
    fix p assume "p \<in> set paths"
    then obtain us vs where "paths = us @ p # vs" by (auto simp: in_set_conv_decomp)
    let ?qs = "?twice us @ [(project, environment, p)]"
    have run: "?twice paths = ?qs @ (project, environment, p) # ?twice vs"
      by (simp add: \<open>paths = us @ p # vs\<close> numeral_2_eq_2)
    have keys: "request_key ` set ((project, environment, p) # ?qs) = {budget_key project environment}"
      by (auto simp: request_key_def)
    have one: "card (request_key ` set ((project, environment, p) # ?qs)) \<le> budgetedEnvironments"
      unfolding keys by (simp add: budgetedEnvironments_def)
    have "fst (routeBudgets_route (snd (route_all newRouteBudgets ?qs)) project environment p) = templatePath p"
      using route_exact [OF one refl] by (simp add: request_key_def request_template_def routeBudget_def)
    then show "templatePath p \<in> set (fst (route_all newRouteBudgets (?twice paths)))"
      unfolding run route_all_append by (simp add: Let_def case_prod_beta)
  qed
  show "card (templatePath ` set paths) = length paths"
    using distinct_card [OF assms] by simp
qed

subsection \<open>Witnesses\<close>

lemma shop_template: "templatePath ''/users/12'' = ''/users/:id''"
  by code_simp

theorem route_exact_witness:
  "fst (routeBudgets_route (snd (route_all newRouteBudgets [(''shop'', ''live'', ''/users/7'')])) ''shop'' ''live'' ''/users/12'') = ''/users/:id''"
proof -
  have "card (request_key ` set [(''shop'', ''live'', ''/users/12''), (''shop'', ''live'', ''/users/7'')]) \<le> budgetedEnvironments"
    by (simp add: request_key_def budgetedEnvironments_def)
  from route_exact [OF this refl] show ?thesis by (simp add: request_key_def routeBudget_def shop_template)
qed

theorem budgets_bounded_witness:
  "lru_len (snd (route_all newRouteBudgets [(''shop'', ''live'', ''/users/7'')])) \<le> 500"
  using budgets_bounded [of "[(''shop'', ''live'', ''/users/7'')]"] by (simp add: case_prod_beta budgetedEnvironments_def Let_def)

text \<open>361 routes of one environment, where its budget is of 300.\<close>

definition letters :: "nat list" where "letters = [1..<20]"

definition many_paths :: "string list" where
  "many_paths = map (\<lambda>(i, j). ''/'' @ replicate i CHR ''z'' @ ''/'' @ replicate j CHR ''z'') (List.product letters letters)"

lemma template_of_letters: "list_all (\<lambda>i. templateSegment (replicate i CHR ''z'') = replicate i CHR ''z'') letters"
  by code_simp

lemma template_many: "map templatePath many_paths = many_paths"
proof -
  have two: "templatePath (''/'' @ replicate i CHR ''z'' @ ''/'' @ replicate j CHR ''z'') = ''/'' @ replicate i CHR ''z'' @ ''/'' @ replicate j CHR ''z''"
    if "i \<in> set letters" "j \<in> set letters" for i j
  proof -
    from that have "0 < i" "0 < j" unfolding letters_def set_upt by simp_all
    then obtain m n where ij: "i = Suc m" "j = Suc n" by (metis gr0_implies_Suc)
    have "trim_slashes (''/'' @ replicate i CHR ''z'' @ ''/'' @ replicate j CHR ''z'') = replicate i CHR ''z'' @ CHR ''/'' # replicate j CHR ''z''"
      by (simp add: trim_slashes_def ij replicate_append_same)
    moreover have "split_on CHR ''/'' (replicate i CHR ''z'' @ CHR ''/'' # replicate j CHR ''z'') = [replicate i CHR ''z'', replicate j CHR ''z'']"
      by (simp add: split_on_append split_on_none)
    moreover have "templateSegment (replicate i CHR ''z'') = replicate i CHR ''z''" "templateSegment (replicate j CHR ''z'') = replicate j CHR ''z''"
      using template_of_letters that by (simp_all add: list_all_iff)
    ultimately show ?thesis by (simp add: templatePath_def Let_def maxRouteDepth_def join_def ij)
  qed
  show ?thesis by (auto simp: many_paths_def intro!: two [simplified])
qed

lemma distinct_many: "distinct many_paths"
proof -
  have "inj_on (\<lambda>(i, j). ''/'' @ replicate i CHR ''z'' @ ''/'' @ replicate j CHR ''z'') (set (List.product letters letters))"
  proof (rule inj_onI, clarsimp)
    fix i j i' j' :: nat
    assume eq: "replicate i CHR ''z'' @ CHR ''/'' # replicate j CHR ''z'' = replicate i' CHR ''z'' @ CHR ''/'' # replicate j' CHR ''z''"
    have "split_on CHR ''/'' (replicate i CHR ''z'' @ CHR ''/'' # replicate j CHR ''z'') = [replicate i CHR ''z'', replicate j CHR ''z'']" for i j
      by (simp add: split_on_append split_on_none)
    with eq have "replicate i CHR ''z'' = replicate i' CHR ''z''" "replicate j CHR ''z'' = replicate j' CHR ''z''" by (metis list.inject)+
    then show "i = i' \<and> j = j'" by (metis length_replicate)
  qed
  moreover have "distinct (List.product letters letters)" by (rule distinct_product) (simp_all add: letters_def)
  ultimately show ?thesis unfolding many_paths_def by (simp only: distinct_map simp_thms)
qed

theorem repeated_routes_recorded_witness:
  "templatePath ` set many_paths
     \<subseteq> set (fst (route_all newRouteBudgets (concat (map (\<lambda>p. replicate 2 (''shop'', ''live'', p)) many_paths))))
    \<and> card (templatePath ` set many_paths) = 361 \<and> routeBudget < 361"
proof -
  have "distinct (map templatePath many_paths)" unfolding template_many by (rule distinct_many)
  moreover have "length many_paths = 361" by (simp add: many_paths_def letters_def length_product)
  ultimately show ?thesis using repeated_routes_recorded [of many_paths "''shop''" "''live''"] by (simp add: routeBudget_def)
qed

end
