(* ===== verification/EdgeTraffic.thy ===== *)
theory EdgeTraffic
  imports GoTime "HOL-Library.Word"
begin

section \<open>Whose request it was, and what was missed (internal/flows: hosts.go, requests.go, loss.go)\<close>

text \<open>
  The table of hostnames requests are attributed by and the index that keeps it current, the parts of
  a request row that need no state, and the ledger of what the follower did not observe. A route is
  cut down to its two labels (an absent one is empty), its hostnames, and per rule whether it has a
  backend and the types of its filters. The clock is an argument; it is after 1970, before which the
  ledger's index would be negative.
\<close>

subsection \<open>Hosts\<close>

record attribution =
  at_project :: string
  at_environment :: string

definition nobody :: attribution where
  "nobody = \<lparr>at_project = [], at_environment = []\<rparr>"

record http_rule =
  hu_backends :: nat
  hu_filters :: "string list"

record http_route =
  hr_project :: string
  hr_environment :: string
  hr_hostnames :: "string list"
  hr_rules :: "http_rule list"

record host_table =
  ht_exact :: "string \<rightharpoonup> attribution"
  ht_wildcards :: "(string \<times> attribution) list"

definition NormaliseHost :: "string \<Rightarrow> string" where
  "NormaliseHost authority =
     (let trimmed = trim_space authority;
          host = (case cut_last CHR ''@'' trimmed of None \<Rightarrow> trimmed | Some (_, h) \<Rightarrow> h);
          named = (if has_prefix host ''['' then
                     (case cut_first CHR '']'' host of None \<Rightarrow> host | Some (h, _) \<Rightarrow> h @ '']'')
                   else (case cut_last CHR '':'' host of None \<Rightarrow> host | Some (h, _) \<Rightarrow> h))
      in to_lower (case cut_suffix named ''.'' of None \<Rightarrow> named | Some h \<Rightarrow> h))"

definition table_lookup :: "host_table \<Rightarrow> string \<Rightarrow> attribution" where
  "table_lookup t authority =
     (let host = NormaliseHost authority
      in if host = [] then nobody
         else (case ht_exact t host of
             Some owner \<Rightarrow> owner
           | None \<Rightarrow>
               (case find (\<lambda>(dotted, _). has_suffix host dotted) (ht_wildcards t) of
                  Some (_, owner) \<Rightarrow> owner
                | None \<Rightarrow> nobody)))"

definition publish_name :: "attribution \<Rightarrow> host_table \<Rightarrow> string \<Rightarrow> host_table" where
  "publish_name owner t hostname =
     (let host = NormaliseHost hostname
      in if host = [] then t
         else if has_prefix host ''*.'' then t\<lparr>ht_wildcards := ht_wildcards t @ [(drop 1 host, owner)]\<rparr>
         else t\<lparr>ht_exact := (ht_exact t)(host \<mapsto> owner)\<rparr>)"

definition publish_route :: "host_table \<Rightarrow> http_route \<Rightarrow> host_table" where
  "publish_route t r =
     (let owner = \<lparr>at_project = hr_project r, at_environment = hr_environment r\<rparr>
      in if at_project owner = [] \<or> at_environment owner = [] then t
         else foldl (publish_name owner) t (hr_hostnames r))"

definition hostsFromRoutes :: "http_route list \<Rightarrow> host_table" where
  "hostsFromRoutes routes = foldl publish_route \<lparr>ht_exact = (\<lambda>_. None), ht_wildcards = []\<rparr> routes"

subsection \<open>Every name the platform published\<close>

text \<open>The exact names as the list of a map's keys.\<close>

record host_set =
  hs_exact :: "string list"
  hs_wildcards :: "string list"

definition Covers :: "host_set \<Rightarrow> string \<Rightarrow> bool" where
  "Covers s authority \<longleftrightarrow>
     (let host = NormaliseHost authority
      in if host = [] then False
         else if host \<in> set (hs_exact s) then True
         else list_ex (has_suffix host) (hs_wildcards s))"

definition set_len :: "host_set \<Rightarrow> nat" where
  "set_len s = length (hs_exact s) + length (hs_wildcards s)"

definition RequestRedirect :: string where "RequestRedirect = ''RequestRedirect''"

definition redirectsOnly :: "http_route \<Rightarrow> bool" where
  "redirectsOnly r \<longleftrightarrow>
     (if hr_rules r = [] then False
      else list_all (\<lambda>rule. if hu_backends rule > 0 then False else RequestRedirect \<in> set (hu_filters rule)) (hr_rules r))"

definition set_name :: "host_set \<Rightarrow> string \<Rightarrow> host_set" where
  "set_name s hostname =
     (let host = NormaliseHost hostname
      in if host = [] then s
         else if has_prefix host ''*.'' then s\<lparr>hs_wildcards := hs_wildcards s @ [drop 1 host]\<rparr>
         else s\<lparr>hs_exact := List.insert host (hs_exact s)\<rparr>)"

definition PublishedHosts :: "http_route list \<Rightarrow> host_set" where
  "PublishedHosts routes =
     foldl (\<lambda>s r. if redirectsOnly r then s else foldl set_name s (hr_hostnames r)) \<lparr>hs_exact = [], hs_wildcards = []\<rparr> routes"

subsection \<open>The index\<close>

definition hostRefreshInterval :: int where "hostRefreshInterval = 30 * second"
definition hostMissInterval :: int where "hostMissInterval = 5 * second"

record host_index =
  hi_table :: host_table
  hi_refreshed :: time
  hi_missed :: time

text \<open>A listing is None when it failed, which leaves the table as it was.\<close>

definition rebuild :: "host_index \<Rightarrow> time \<Rightarrow> http_route list option \<Rightarrow> host_index" where
  "rebuild i now listing =
     (case listing of
        None \<Rightarrow> i
      | Some routes \<Rightarrow> i\<lparr>hi_table := hostsFromRoutes routes, hi_refreshed := now\<rparr>)"

definition newHostIndex :: "time \<Rightarrow> http_route list option \<Rightarrow> host_index" where
  "newHostIndex now listing =
     rebuild \<lparr>hi_table = \<lparr>ht_exact = (\<lambda>_. None), ht_wildcards = []\<rparr>, hi_refreshed = zero_time, hi_missed = zero_time\<rparr> now listing"

text \<open>Whether a lookup asks for the routes again.\<close>

definition asks_again :: "host_index \<Rightarrow> time \<Rightarrow> string \<Rightarrow> bool" where
  "asks_again i now authority \<longleftrightarrow>
     \<not> (at_project (table_lookup (hi_table i) authority) \<noteq> [] \<or> authority = [] \<or> time_sub now (hi_missed i) < hostMissInterval)"

definition index_lookup :: "host_index \<Rightarrow> time \<Rightarrow> http_route list option \<Rightarrow> string \<Rightarrow> attribution \<times> host_index" where
  "index_lookup i now listing authority =
     (if \<not> asks_again i now authority then (table_lookup (hi_table i) authority, i)
      else let i' = rebuild (i\<lparr>hi_missed := now\<rparr>) now listing in (table_lookup (hi_table i') authority, i'))"

definition index_tick :: "host_index \<Rightarrow> time \<Rightarrow> http_route list option \<Rightarrow> host_index" where
  "index_tick i now listing = (if time_sub now (hi_refreshed i) < hostRefreshInterval then i else rebuild i now listing)"

subsection \<open>Request rows\<close>

definition methodOther :: string where "methodOther = ''OTHER''"

definition httpMethods :: "string list" where
  "httpMethods = [''GET'', ''HEAD'', ''POST'', ''PUT'', ''PATCH'', ''DELETE'', ''CONNECT'', ''OPTIONS'', ''TRACE'']"

text \<open>
  \<open>strings.ToUpper\<close>: ASCII letters, and the two code points whose upper case is an ASCII letter (the
  dotless i, bytes C4 B1, and the long s, bytes C5 BF). The case of other letters is kept.
\<close>

definition upper_char :: "char \<Rightarrow> char" where
  "upper_char c = (let n = (of_char c :: nat) in if 97 \<le> n \<and> n \<le> 122 then char_of (n - 32) else c)"

fun to_upper :: "string \<Rightarrow> string" where
  "to_upper [] = []"
| "to_upper (a # s) =
     (if a = CHR 0xC4 \<and> take 1 s = [CHR 0xB1] then CHR ''I'' # to_upper (drop 1 s)
      else if a = CHR 0xC5 \<and> take 1 s = [CHR 0xBF] then CHR ''S'' # to_upper (drop 1 s)
      else upper_char a # to_upper s)"

definition canonicalMethod :: "string \<Rightarrow> string" where
  "canonicalMethod verb =
     (if verb \<in> set httpMethods then verb
      else let upper = to_upper (trim_space verb) in if upper \<in> set httpMethods then upper else methodOther)"

definition traceIDLength :: nat where "traceIDLength = 32"

text \<open>The id of a trace context, by the text it carries.\<close>

definition traceIDOf :: "string \<Rightarrow> string" where
  "traceIDOf i =
     (if length i \<noteq> traceIDLength then []
      else let digit = (\<lambda>c. CHR ''0'' \<le> c \<and> c \<le> CHR ''9'');
               lower = (\<lambda>c. CHR ''a'' \<le> c \<and> c \<le> CHR ''f'');
               upper = (\<lambda>c. CHR ''A'' \<le> c \<and> c \<le> CHR ''F'')
           in if \<not> list_all (\<lambda>c. digit c \<or> lower c \<or> upper c) i then []
              else if list_all (\<lambda>c. c = CHR ''0'') i then []
              else map (\<lambda>c. if upper c then lower_char c else c) i)"

subsection \<open>The ledger of losses\<close>

definition lossBucket :: int where "lossBucket = minute"
definition lossBuckets :: nat where "lossBuckets = 60"
definition LossWindow :: int where "LossWindow = lossBucket * int lossBuckets"

record loss_count =
  lc_minute :: int
  lc_events :: "64 word"
  lc_notices :: "64 word"
  lc_reconnects :: "64 word"

record loss_ledger =
  ll_buckets :: "loss_count list"
  ll_latest :: time

record loss =
  ls_events :: "64 word"
  ls_notices :: "64 word"
  ls_reconnects :: "64 word"
  ls_window :: int
  ls_latest :: time

definition Lossless :: "loss \<Rightarrow> bool" where
  "Lossless l \<longleftrightarrow> ls_events l = 0 \<and> ls_notices l = 0 \<and> ls_reconnects l = 0"

definition fresh_count :: "int \<Rightarrow> loss_count" where
  "fresh_count m = \<lparr>lc_minute = m, lc_events = 0, lc_notices = 0, lc_reconnects = 0\<rparr>"

definition new_ledger :: loss_ledger where
  "new_ledger = \<lparr>ll_buckets = replicate lossBuckets (fresh_count 0), ll_latest = zero_time\<rparr>"

definition minute_of :: "time \<Rightarrow> int" where
  "minute_of t = (t div second) div (lossBucket div second)"

definition bucket_of :: "time \<Rightarrow> nat" where
  "bucket_of t = nat (minute_of t mod int lossBuckets)"

definition ledger_at :: "loss_ledger \<Rightarrow> time \<Rightarrow> loss_ledger" where
  "ledger_at l now =
     (if lc_minute (ll_buckets l ! bucket_of now) \<noteq> minute_of now
      then l\<lparr>ll_buckets := (ll_buckets l)[bucket_of now := fresh_count (minute_of now)]\<rparr> else l)"

definition lost :: "loss_ledger \<Rightarrow> time \<Rightarrow> 64 word \<Rightarrow> loss_ledger" where
  "lost l now events =
     (let l' = ledger_at l now; b = ll_buckets l' ! bucket_of now
      in \<lparr>ll_buckets = (ll_buckets l')[bucket_of now := b\<lparr>lc_events := lc_events b + events, lc_notices := lc_notices b + 1\<rparr>],
          ll_latest = now\<rparr>)"

definition reconnected :: "loss_ledger \<Rightarrow> time \<Rightarrow> loss_ledger" where
  "reconnected l now =
     (let l' = ledger_at l now; b = ll_buckets l' ! bucket_of now
      in \<lparr>ll_buckets = (ll_buckets l')[bucket_of now := b\<lparr>lc_reconnects := lc_reconnects b + 1\<rparr>], ll_latest = now\<rparr>)"

definition loss_window :: "int \<Rightarrow> int" where
  "loss_window window = (if window \<le> 0 \<or> LossWindow < window then LossWindow else window)"

definition oldest_minute :: "time \<Rightarrow> int \<Rightarrow> int" where
  "oldest_minute now window = minute_of (now - loss_window window)"

definition loss_snapshot :: "loss_ledger \<Rightarrow> time \<Rightarrow> int \<Rightarrow> loss" where
  "loss_snapshot l now window =
     foldl (\<lambda>s b. if lc_minute b < oldest_minute now window then s
         else s\<lparr>ls_events := ls_events s + lc_events b, ls_notices := ls_notices s + lc_notices b,
                ls_reconnects := ls_reconnects s + lc_reconnects b\<rparr>)
       \<lparr>ls_events = 0, ls_notices = 0, ls_reconnects = 0, ls_window = loss_window window, ls_latest = ll_latest l\<rparr>
       (ll_buckets l)"

subsection \<open>What the ledger answers\<close>

datatype loss_event = Missed "64 word" | Redialled

definition ledger_step :: "loss_ledger \<Rightarrow> time \<times> loss_event \<Rightarrow> loss_ledger" where
  "ledger_step l x = (case snd x of Missed n \<Rightarrow> lost l (fst x) n | Redialled \<Rightarrow> reconnected l (fst x))"

primrec events_of :: "loss_event \<Rightarrow> 64 word" where "events_of (Missed n) = n" | "events_of Redialled = 0"
primrec notices_of :: "loss_event \<Rightarrow> 64 word" where "notices_of (Missed n) = 1" | "notices_of Redialled = 0"
primrec reconnects_of :: "loss_event \<Rightarrow> 64 word" where "reconnects_of (Missed n) = 0" | "reconnects_of Redialled = 1"

text \<open>
  The reference: what a history adds up to from a minute on, less the minute an hour before one that
  lost something as well, whose bucket that one took.
\<close>

definition counted :: "(loss_event \<Rightarrow> 64 word) \<Rightarrow> int \<Rightarrow> (time \<times> loss_event) list \<Rightarrow> 64 word" where
  "counted weight oldest h =
     sum_list (map (\<lambda>x. weight (snd x))
       (filter (\<lambda>x. oldest \<le> minute_of (fst x) \<and> \<not> list_ex (\<lambda>y. minute_of (fst y) = minute_of (fst x) + 60) h) h))"

lemma minute_of_alt: "minute_of t = t div 60000000000"
  by (simp add: minute_of_def lossBucket_def minute_def second_def zdiv_zmult2_eq [symmetric])

lemma minute_of_mono: "t \<le> u \<Longrightarrow> minute_of t \<le> minute_of u"
  by (simp add: minute_of_alt zdiv_mono1)

lemma oldest_bound: "minute_of now - 60 \<le> oldest_minute now window"
proof -
  have "minute_of (now - 60 * 60000000000) \<le> minute_of (now - loss_window window)"
    by (rule minute_of_mono) (auto simp: loss_window_def LossWindow_def lossBucket_def lossBuckets_def minute_def second_def)
  moreover have "minute_of (now - 60 * 60000000000) = minute_of now - 60"
    using div_mult_self1 [of "60000000000 :: int" now "- 60"] by (simp add: minute_of_alt)
  ultimately show ?thesis by (simp add: oldest_minute_def)
qed

text \<open>The latest minute of a history that falls into a bucket, and zero for none.\<close>

definition minutes_in :: "(time \<times> loss_event) list \<Rightarrow> nat \<Rightarrow> int set" where
  "minutes_in h i = minute_of ` fst ` {x \<in> set h. bucket_of (fst x) = i}"

definition newest_minute :: "(time \<times> loss_event) list \<Rightarrow> nat \<Rightarrow> int" where
  "newest_minute h i = Max (insert 0 (minutes_in h i))"

definition sum_at :: "(loss_event \<Rightarrow> 64 word) \<Rightarrow> int \<Rightarrow> (time \<times> loss_event) list \<Rightarrow> 64 word" where
  "sum_at weight m h = sum_list (map (\<lambda>x. weight (snd x)) (filter (\<lambda>x. minute_of (fst x) = m) h))"

definition bucket_holds :: "(time \<times> loss_event) list \<Rightarrow> loss_count \<Rightarrow> int \<Rightarrow> bool" where
  "bucket_holds h b m \<longleftrightarrow> b = \<lparr>lc_minute = m, lc_events = sum_at events_of m h, lc_notices = sum_at notices_of m h,
     lc_reconnects = sum_at reconnects_of m h\<rparr>"

definition ledger_holds :: "(time \<times> loss_event) list \<Rightarrow> loss_ledger \<Rightarrow> bool" where
  "ledger_holds h l \<longleftrightarrow> length (ll_buckets l) = lossBuckets
     \<and> (\<forall>i < lossBuckets. bucket_holds h (ll_buckets l ! i) (newest_minute h i))
     \<and> ll_latest l = (if h = [] then zero_time else fst (last h))"

definition clocked :: "(time \<times> loss_event) list \<Rightarrow> bool" where
  "clocked h \<longleftrightarrow> sorted (map fst h) \<and> list_all (\<lambda>x. 0 < minute_of (fst x)) h"

lemma finite_minutes [simp]: "finite (minutes_in h i)"
  by (simp add: minutes_in_def)

lemma bucket_of_less: "bucket_of t < lossBuckets"
  by (simp add: bucket_of_def lossBuckets_def)

lemma in_minutes: "x \<in> set h \<Longrightarrow> minute_of (fst x) \<in> minutes_in h (bucket_of (fst x))"
  unfolding minutes_in_def by (intro imageI CollectI conjI refl)

lemma minutes_below: "\<forall>x \<in> set h. fst x \<le> t \<Longrightarrow> m \<in> minutes_in h i \<Longrightarrow> m \<le> minute_of t"
  unfolding minutes_in_def by (elim imageE CollectE conjE) (simp add: minute_of_mono)

lemma newest_snoc_other: "bucket_of t \<noteq> i \<Longrightarrow> newest_minute (h @ [(t, e)]) i = newest_minute h i"
  by (simp add: newest_minute_def minutes_in_def conj_disj_distribL Collect_disj_eq cong: conj_cong) (rule arg_cong [of _ _ Max], auto)

lemma newest_snoc_here:
  assumes "clocked (h @ [(t, e)])"
  shows "newest_minute (h @ [(t, e)]) (bucket_of t) = minute_of t"
  unfolding newest_minute_def
proof (rule Max_eqI)
  fix m assume "m \<in> insert 0 (minutes_in (h @ [(t, e)]) (bucket_of t))"
  then show "m \<le> minute_of t"
    using assms by (auto simp: minutes_in_def clocked_def sorted_append list_all_iff intro: minute_of_mono)
qed (use in_minutes [of "(t, e)" "h @ [(t, e)]"] in simp_all)

lemma newest_stale:
  assumes "clocked (h @ [(t, e)])" "newest_minute h (bucket_of t) \<noteq> minute_of t"
  shows "sum_at weight (minute_of t) h = 0"
proof -
  have "minute_of (fst x) \<noteq> minute_of t" if x: "x \<in> set h" for x
  proof
    assume same: "minute_of (fst x) = minute_of t"
    then have "minute_of t \<in> minutes_in h (bucket_of t)"
      using in_minutes [OF x] by (simp add: bucket_of_def)
    then have "minute_of t \<le> newest_minute h (bucket_of t)" by (simp add: newest_minute_def)
    moreover have "newest_minute h (bucket_of t) \<le> minute_of t"
      using assms(1) minutes_below [of h t] by (auto simp: newest_minute_def clocked_def sorted_append list_all_iff)
    ultimately show False using assms(2) by simp
  qed
  then show ?thesis by (simp add: sum_at_def filter_empty_conv)
qed

lemma newest_bucket:
  assumes "list_all (\<lambda>x. 0 < minute_of (fst x)) h" "0 < newest_minute h i"
  shows "newest_minute h i \<in> minutes_in h i"
  using Max_in [of "insert 0 (minutes_in h i)"] assms(2) by (auto simp: newest_minute_def)

lemma sum_at_snoc: "sum_at weight m (h @ [(t, e)]) = sum_at weight m h + (if minute_of t = m then weight e else 0)"
  by (simp add: sum_at_def)

lemma ledger_new: "ledger_holds [] new_ledger"
  by (simp add: ledger_holds_def new_ledger_def bucket_holds_def sum_at_def newest_minute_def minutes_in_def fresh_count_def)

lemma minute_of_bucket: "m \<in> minutes_in h i \<Longrightarrow> nat (m mod int lossBuckets) = i"
  by (auto simp: minutes_in_def bucket_of_def)

lemma ledger_step_holds:
  assumes "ledger_holds h l" "clocked (h @ [(t, e)])"
  shows "ledger_holds (h @ [(t, e)]) (ledger_step l (t, e))"
proof -
  let ?i = "bucket_of t" and ?b = "ll_buckets (ledger_at l t) ! bucket_of t" and ?h = "h @ [(t, e)]"
  have len: "length (ll_buckets l) = lossBuckets" using assms(1) by (simp add: ledger_holds_def)
  have here: "bucket_holds h (ll_buckets l ! ?i) (newest_minute h ?i)"
    using assms(1) bucket_of_less by (simp add: ledger_holds_def)
  have at: "bucket_holds h ?b (minute_of t)"
  proof (cases "newest_minute h ?i = minute_of t")
    case True
    then show ?thesis using here by (simp add: ledger_at_def bucket_holds_def)
  next
    case False
    then have "?b = fresh_count (minute_of t)"
      using here len bucket_of_less [of t] by (simp add: ledger_at_def bucket_holds_def)
    then show ?thesis using newest_stale [OF assms(2) False] by (simp add: bucket_holds_def fresh_count_def)
  qed
  have len': "length (ll_buckets (ledger_at l t)) = lossBuckets" using len by (simp add: ledger_at_def)
  have new: "length (ll_buckets (ledger_step l (t, e))) = lossBuckets" "ll_latest (ledger_step l (t, e)) = t"
    "bucket_holds ?h (ll_buckets (ledger_step l (t, e)) ! ?i) (minute_of t)"
    using at len' bucket_of_less [of t]
    by (cases e; simp add: ledger_step_def lost_def reconnected_def Let_def bucket_holds_def sum_at_snoc)+
  have "bucket_holds ?h (ll_buckets (ledger_step l (t, e)) ! i) (newest_minute ?h i)" if i: "i < lossBuckets" for i
  proof (cases "i = ?i")
    case True
    then show ?thesis using new(3) newest_snoc_here [OF assms(2)] by simp
  next
    case False
    have clock: "list_all (\<lambda>x. 0 < minute_of (fst x)) h" "0 < minute_of t" using assms(2) by (auto simp: clocked_def)
    have "newest_minute h i \<noteq> minute_of t"
    proof
      assume eq: "newest_minute h i = minute_of t"
      then have "minute_of t \<in> minutes_in h i" using newest_bucket [OF clock(1), of i] clock(2) by simp
      then have "?i = i" using minute_of_bucket by (simp add: bucket_of_def)
      with False show False by simp
    qed
    then have "bucket_holds ?h (ll_buckets l ! i) (newest_minute h i)"
      using assms(1) i by (simp add: ledger_holds_def bucket_holds_def sum_at_snoc)
    moreover have "ll_buckets (ledger_step l (t, e)) ! i = ll_buckets l ! i"
      using False by (cases e) (simp_all add: ledger_step_def lost_def reconnected_def Let_def ledger_at_def)
    ultimately show ?thesis using False newest_snoc_other [of t i h e] by simp
  qed
  with new show ?thesis by (simp add: ledger_holds_def)
qed

lemma ledger_run: "clocked h \<Longrightarrow> ledger_holds h (foldl ledger_step new_ledger h)"
proof (induction h rule: rev_induct)
  case (snoc x h)
  obtain t e where x: "x = (t, e)" by (cases x)
  have "clocked h" using snoc.prems by (auto simp: clocked_def sorted_append)
  then show ?case using ledger_step_holds [OF snoc.IH, of t e] snoc.prems by (simp add: x)
qed (simp add: ledger_new)

lemma sum_list_pick:
  fixes v :: "'a :: comm_monoid_add"
  assumes "distinct is" "\<And>i j. i \<in> set is \<Longrightarrow> j \<in> set is \<Longrightarrow> P i \<Longrightarrow> P j \<Longrightarrow> i = j"
  shows "sum_list (map (\<lambda>i. if P i then v else 0) is) = (if \<exists>i \<in> set is. P i then v else 0)"
  using assms
proof (induction "is")
  case (Cons i "is")
  have "sum_list (map (\<lambda>i. if P i then v else 0) is) = (if \<exists>i \<in> set is. P i then v else 0)"
    using Cons by simp
  moreover have "\<not> (\<exists>j \<in> set is. P j)" if "P i" using that Cons.prems by force
  ultimately show ?case by auto
qed simp

lemma sum_list_regroup:
  fixes g :: "'b \<Rightarrow> 'a :: comm_monoid_add"
  assumes "distinct is" "\<And>i j x. i \<in> set is \<Longrightarrow> j \<in> set is \<Longrightarrow> x \<in> set h \<Longrightarrow> P i x \<Longrightarrow> P j x \<Longrightarrow> i = j"
  shows "sum_list (map (\<lambda>i. sum_list (map g (filter (P i) h))) is) = sum_list (map g (filter (\<lambda>x. \<exists>i \<in> set is. P i x) h))"
  using assms(2)
proof (induction h)
  case (Cons x h)
  have "sum_list (map (\<lambda>i. sum_list (map g (filter (P i) (x # h)))) is)
    = sum_list (map (\<lambda>i. (if P i x then g x else 0) + sum_list (map g (filter (P i) h))) is)"
    by (rule arg_cong [of _ _ sum_list], rule map_cong) auto
  also have "\<dots> = (if \<exists>i \<in> set is. P i x then g x else 0) + sum_list (map (\<lambda>i. sum_list (map g (filter (P i) h))) is)"
    unfolding sum_list_addf
    by (rule arg_cong2 [of _ _ _ _ "(+)", OF sum_list_pick [OF assms(1)] refl]) (meson Cons.prems list.set_intros(1))
  also have "sum_list (map (\<lambda>i. sum_list (map g (filter (P i) h))) is) = sum_list (map g (filter (\<lambda>x. \<exists>i \<in> set is. P i x) h))"
    by (rule Cons.IH) (metis Cons.prems list.set_intros(2))
  finally show ?case by simp
qed simp

lemma snapshot_fold:
  "foldl (\<lambda>s b. if lc_minute b < oldest then s
         else s\<lparr>ls_events := ls_events s + lc_events b, ls_notices := ls_notices s + lc_notices b,
                ls_reconnects := ls_reconnects s + lc_reconnects b\<rparr>) s bs
   = s\<lparr>ls_events := ls_events s + sum_list (map lc_events (filter (\<lambda>b. \<not> lc_minute b < oldest) bs)),
       ls_notices := ls_notices s + sum_list (map lc_notices (filter (\<lambda>b. \<not> lc_minute b < oldest) bs)),
       ls_reconnects := ls_reconnects s + sum_list (map lc_reconnects (filter (\<lambda>b. \<not> lc_minute b < oldest) bs))\<rparr>"
  by (induction bs arbitrary: s) (simp_all add: add.assoc)

lemma sum_list_filter: "sum_list (map f (filter P xs)) = sum_list (map (\<lambda>x. if P x then f x else (0 :: 64 word)) xs)"
  by (induction xs) auto

lemma same_minute:
  fixes m n :: int
  assumes "m mod 60 = n mod 60" "n \<le> m" "m \<le> now" "now - 60 \<le> n" "m \<noteq> n + 60"
  shows "m = n"
proof -
  obtain k where "m - n = 60 * k" using assms(1) by (metis mod_eq_dvd_iff dvdE)
  moreover from this assms(2-4) have "0 \<le> k" "k \<le> 1" by linarith+
  ultimately show ?thesis using assms(5) by (cases "k = 0") auto
qed

lemma buckets_total:
  assumes "clocked h" "\<forall>x \<in> set h. fst x \<le> now" "length bs = lossBuckets"
    and "\<And>i. i < lossBuckets \<Longrightarrow> lc_minute (bs ! i) = newest_minute h i \<and> sel (bs ! i) = sum_at weight (newest_minute h i) h"
    and "minute_of now - 60 \<le> oldest"
  shows "sum_list (map sel (filter (\<lambda>b. \<not> lc_minute b < oldest) bs)) = counted weight oldest h"
proof -
  let ?P = "\<lambda>i x. \<not> newest_minute h i < oldest \<and> minute_of (fst x) = newest_minute h i"
  have pos: "list_all (\<lambda>x. 0 < minute_of (fst x)) h" using assms(1) by (simp add: clocked_def)
  have of_bucket: "bucket_of (fst x) = i" if "x \<in> set h" "minute_of (fst x) = newest_minute h i" for x i
  proof -
    have "0 < newest_minute h i" using pos that(1) unfolding list_all_iff that(2) [symmetric] by blast
    then have "minute_of (fst x) \<in> minutes_in h i" unfolding that(2) by (rule newest_bucket [OF pos])
    then show ?thesis unfolding bucket_of_def by (rule minute_of_bucket)
  qed
  have "sum_list (map sel (filter (\<lambda>b. \<not> lc_minute b < oldest) bs))
    = sum_list (map (\<lambda>i. if \<not> lc_minute (bs ! i) < oldest then sel (bs ! i) else 0) [0..<lossBuckets])"
    unfolding sum_list_filter assms(3) [symmetric] by (rule arg_cong [of _ _ sum_list], rule nth_equalityI) simp_all
  also have "\<dots> = sum_list (map (\<lambda>i. sum_list (map (\<lambda>x. weight (snd x)) (filter (?P i) h))) [0..<lossBuckets])"
    by (rule arg_cong [of _ _ sum_list], rule map_cong) (auto simp: assms(4) sum_at_def)
  also have "\<dots> = sum_list (map (\<lambda>x. weight (snd x)) (filter (\<lambda>x. \<exists>i \<in> set [0..<lossBuckets]. ?P i x) h))"
  proof (rule sum_list_regroup)
    show "i = j" if "x \<in> set h" "?P i x" "?P j x" for i j x
      using of_bucket [OF that(1) conjunct2 [OF that(2)]] of_bucket [OF that(1) conjunct2 [OF that(3)]] by simp
  qed simp
  also have "filter (\<lambda>x. \<exists>i \<in> set [0..<lossBuckets]. ?P i x) h
    = filter (\<lambda>x. oldest \<le> minute_of (fst x) \<and> \<not> list_ex (\<lambda>y. minute_of (fst y) = minute_of (fst x) + 60) h) h"
  proof (rule filter_cong [OF refl])
    fix x assume x: "x \<in> set h"
    let ?i = "bucket_of (fst x)"
    have in_bucket: "minute_of (fst x) \<in> minutes_in h ?i" by (rule in_minutes [OF x])
    then have le: "minute_of (fst x) \<le> newest_minute h ?i" by (simp add: newest_minute_def)
    show "(\<exists>i \<in> set [0..<lossBuckets]. ?P i x)
      \<longleftrightarrow> oldest \<le> minute_of (fst x) \<and> \<not> list_ex (\<lambda>y. minute_of (fst y) = minute_of (fst x) + 60) h"
    proof
      assume "\<exists>i \<in> set [0..<lossBuckets]. ?P i x"
      then obtain i where p: "?P i x" by blast
      then have i: "i = ?i" using of_bucket [OF x] by simp
      have False if y: "y \<in> set h" "minute_of (fst y) = minute_of (fst x) + 60" for y
      proof -
        have "bucket_of (fst y) = ?i" using y(2) by (simp add: bucket_of_def lossBuckets_def)
        then have "minute_of (fst y) \<in> minutes_in h ?i" using in_minutes [OF y(1)] by simp
        then have "minute_of (fst y) \<le> newest_minute h ?i" by (simp add: newest_minute_def)
        then show False using p y(2) unfolding i by simp
      qed
      with p show "oldest \<le> minute_of (fst x) \<and> \<not> list_ex (\<lambda>y. minute_of (fst y) = minute_of (fst x) + 60) h"
        by (auto simp: list_ex_iff)
    next
      assume r: "oldest \<le> minute_of (fst x) \<and> \<not> list_ex (\<lambda>y. minute_of (fst y) = minute_of (fst x) + 60) h"
      have "0 < minute_of (fst x)" using pos x unfolding list_all_iff by blast
      then have "0 < newest_minute h ?i" using le by simp
      then have newest: "newest_minute h ?i \<in> minutes_in h ?i" by (rule newest_bucket [OF pos])
      then obtain y where y: "y \<in> set h" "newest_minute h ?i = minute_of (fst y)" by (auto simp: minutes_in_def)
      have below: "newest_minute h ?i \<le> minute_of now" using assms(2) newest by (rule minutes_below)
      have residue: "(newest_minute h ?i) mod 60 = minute_of (fst x) mod 60"
      proof -
        have "nat (newest_minute h ?i mod int lossBuckets) = nat (minute_of (fst x) mod int lossBuckets)"
          unfolding minute_of_bucket [OF newest] minute_of_bucket [OF in_bucket] ..
        then have "newest_minute h ?i mod int lossBuckets = minute_of (fst x) mod int lossBuckets"
          by (subst (asm) eq_nat_nat_iff) (simp_all add: lossBuckets_def)
        then show ?thesis by (simp only: lossBuckets_def of_nat_numeral)
      qed
      have other: "newest_minute h ?i \<noteq> minute_of (fst x) + 60" using conjunct2 [OF r] y(1) unfolding y(2) list_ex_iff by blast
      have "minute_of now - 60 \<le> minute_of (fst x)" using conjunct1 [OF r] assms(5) by simp
      then have "newest_minute h ?i = minute_of (fst x)" by (rule same_minute [OF residue le below _ other])
      then have "?P ?i x" "?i \<in> set [0..<lossBuckets]" using r bucket_of_less [of "fst x"] by simp_all
      then show "\<exists>i \<in> set [0..<lossBuckets]. ?P i x" by blast
    qed
  qed
  finally show ?thesis by (simp add: counted_def)
qed

text \<open>
  C36. What the ledger answers for a window is what its history adds up to: the losses of the minutes
  from the window's first one on, modulo 2^64, with the time of the last of them. Of a whole hour the first
  minute is left out when the current one has lost something as well.
\<close>

theorem ledger_exact:
  assumes "sorted (map fst h)" "list_all (\<lambda>x. 0 < minute_of (fst x) \<and> fst x \<le> now) h"
  shows "loss_snapshot (foldl ledger_step new_ledger h) now window =
    \<lparr>ls_events = counted events_of (oldest_minute now window) h, ls_notices = counted notices_of (oldest_minute now window) h,
     ls_reconnects = counted reconnects_of (oldest_minute now window) h, ls_window = loss_window window,
     ls_latest = (if h = [] then zero_time else fst (last h))\<rparr>"
proof -
  have clocked: "clocked h" using assms by (auto simp: clocked_def list_all_iff)
  have past: "\<forall>x \<in> set h. fst x \<le> now" using assms(2) by (auto simp: list_all_iff)
  note holds = ledger_run [OF clocked, unfolded ledger_holds_def bucket_holds_def]
  note total = buckets_total [OF clocked past conjunct1 [OF holds] _ oldest_bound [of now window]]
  show ?thesis
    unfolding loss_snapshot_def snapshot_fold
    by (simp add: total holds)
qed

subsection \<open>Who a host is attributed to\<close>

text \<open>Every name a labelled route publishes, in the order of the listing, with its owner.\<close>

definition published_names :: "http_route list \<Rightarrow> (string \<times> attribution) list" where
  "published_names routes =
     concat (map (\<lambda>r. if hr_project r = [] \<or> hr_environment r = [] then []
       else map (\<lambda>n. (NormaliseHost n, \<lparr>at_project = hr_project r, at_environment = hr_environment r\<rparr>)) (hr_hostnames r)) routes)"

definition wild :: "string \<Rightarrow> bool" where
  "wild host \<longleftrightarrow> has_prefix host ''*.''"

definition table_of :: "(string \<times> attribution) list \<Rightarrow> host_table" where
  "table_of names = \<lparr>ht_exact = map_of (rev (filter (\<lambda>(n, _). n \<noteq> [] \<and> \<not> wild n) names)),
     ht_wildcards = map (\<lambda>(n, o'). (drop 1 n, o')) (filter (\<lambda>(n, _). wild n) names)\<rparr>"

lemma wild_nonempty: "wild n \<Longrightarrow> n \<noteq> []"
  by (auto simp: wild_def has_prefix_def)

lemma publish_names:
  "foldl (publish_name owner) (table_of names) hostnames = table_of (names @ map (\<lambda>n. (NormaliseHost n, owner)) hostnames)"
proof (induction hostnames arbitrary: names)
  case (Cons n ns)
  have "publish_name owner (table_of names) n = table_of (names @ [(NormaliseHost n, owner)])"
    using wild_nonempty [of "NormaliseHost n"] by (auto simp: publish_name_def table_of_def Let_def wild_def [symmetric])
  then show ?case using Cons [of "names @ [(NormaliseHost n, owner)]"] by simp
qed simp

lemma publish_routes: "foldl publish_route (table_of names) routes = table_of (names @ published_names routes)"
proof (induction routes arbitrary: names)
  case (Cons r rs)
  then show ?case by (simp add: publish_route_def Let_def publish_names published_names_def)
qed (simp add: published_names_def)

lemma hosts_table: "hostsFromRoutes routes = table_of (published_names routes)"
  using publish_routes [of "[]" routes] by (simp add: hostsFromRoutes_def table_of_def)

lemma map_of_rev_last:
  "map_of (rev xs) k = (case filter (\<lambda>x. fst x = k) xs of [] \<Rightarrow> None | ys \<Rightarrow> Some (snd (last ys)))"
proof (induction xs rule: rev_induct)
  case (snoc x xs)
  then show ?case by (cases x) (auto split: list.splits)
qed simp

lemma find_first: "find P xs = (case filter P xs of [] \<Rightarrow> None | x # _ \<Rightarrow> Some x)"
  by (induction xs) auto

lemma filter_wilds:
  "filter (\<lambda>(dotted, _). has_suffix host dotted) (map (\<lambda>(n, o'). (drop 1 n, o')) (filter (\<lambda>(n, _). wild n) names))
    = map (\<lambda>(n, o'). (drop 1 n, o')) (filter (\<lambda>(n, _). wild n \<and> has_suffix host (drop 1 n)) names)"
  by (induction names) auto

text \<open>
  C33. A request is attributed to the route that published its host last, to the first one with a wildcard
  over it when none published it by name, and to nobody otherwise; only routes of an environment count,
  and names are compared as the routes publish them, whatever port, user or case the request spelled.
\<close>

theorem host_attribution:
  assumes "host = NormaliseHost authority" "host \<noteq> []"
  shows "table_lookup (hostsFromRoutes routes) authority =
    (case filter (\<lambda>(n, _). n = host \<and> \<not> wild n) (published_names routes) of
       [] \<Rightarrow> (case filter (\<lambda>(n, _). wild n \<and> has_suffix host (drop 1 n)) (published_names routes) of
           [] \<Rightarrow> nobody
         | x # _ \<Rightarrow> snd x)
     | xs \<Rightarrow> snd (last xs))"
proof -
  let ?names = "published_names routes"
  have exact: "filter (\<lambda>x. fst x = host) (filter (\<lambda>(n, _). n \<noteq> [] \<and> \<not> wild n) ?names) = filter (\<lambda>(n, _). n = host \<and> \<not> wild n) ?names"
    unfolding filter_filter by (rule filter_cong [OF refl]) (use assms(2) in auto)
  have wilds: "filter (\<lambda>(dotted, _). has_suffix host dotted) (map (\<lambda>(n, o'). (drop 1 n, o')) (filter (\<lambda>(n, _). wild n) ?names))
      = map (\<lambda>(n, o'). (drop 1 n, o')) (filter (\<lambda>(n, _). wild n \<and> has_suffix host (drop 1 n)) ?names)"
    by (rule filter_wilds)
  show ?thesis
    unfolding table_lookup_def hosts_table table_of_def Let_def assms(1) [symmetric] if_not_P [OF assms(2)]
      host_table.select_convs map_of_rev_last exact find_first wilds
    by (simp split: list.splits prod.splits)
qed

subsection \<open>Witnesses\<close>

theorem ledger_exact_witness:
  "loss_snapshot (foldl ledger_step new_ledger [(600 * second, Missed 3), (660 * second, Redialled)]) (700 * second) 0
    = \<lparr>ls_events = 3, ls_notices = 1, ls_reconnects = 1, ls_window = LossWindow, ls_latest = 660 * second\<rparr>"
proof -
  let ?h = "[(600 * second, Missed 3), (660 * second, Redialled)]"
  have "sorted (map fst ?h)" "list_all (\<lambda>x. 0 < minute_of (fst x) \<and> fst x \<le> 700 * second) ?h"
    by (simp_all add: second_def minute_of_alt)
  from ledger_exact [OF this, of 0] show ?thesis
    by (simp add: counted_def oldest_minute_def loss_window_def minute_of_alt second_def LossWindow_def lossBucket_def lossBuckets_def minute_def)
qed

theorem host_attribution_witness:
  "table_lookup (hostsFromRoutes [\<lparr>hr_project = ''shop'', hr_environment = ''live'', hr_hostnames = [''shop.example.com''], hr_rules = []\<rparr>])
     ''Shop.Example.com:443'' = \<lparr>at_project = ''shop'', at_environment = ''live''\<rparr>"
proof -
  have "''shop.example.com'' = NormaliseHost ''Shop.Example.com:443''" "NormaliseHost ''shop.example.com'' = ''shop.example.com''"
    by code_simp+
  from host_attribution [OF this(1)] this(2) show ?thesis by (simp add: published_names_def wild_def has_prefix_def)
qed

end
