(* ===== verification/PolicyEngine.thy ===== *)
theory PolicyEngine
  imports AuditChain Json
begin

section \<open>The policy engine and its exceptions (internal/policy, exception_types.go, exception_controller.go)\<close>

text \<open>
  Bundles and the digest that names them, the resolver that finds one, the reading of what the rules
  denied, the waiving of fired rules by exceptions and the verdict. The Rego evaluator is an argument:
  what a bundle answers for an input, or why it cannot be evaluated. A bundle is the list of its files,
  no path twice. Of an input the facts the rules see besides the named fields are one text.
\<close>

subsection \<open>Bundles\<close>

type_synonym policy_bundle = "(string \<times> string) list"

definition bundle_bytes :: "policy_bundle \<Rightarrow> string" where
  "bundle_bytes b = concat (map (\<lambda>(path, body). writeField path @ writeField body) (sort_key fst b))"

definition Digest :: "policy_bundle \<Rightarrow> string" where
  "Digest b = ''sha256:'' @ hex (sha256 (bundle_bytes b))"

definition VerifyBundle :: "string \<Rightarrow> policy_bundle \<Rightarrow> bool" where
  "VerifyBundle d b \<longleftrightarrow> Digest b = d"

record bundle_info =
  bi_digest :: string
  bi_source :: string
  bi_bundle :: policy_bundle

definition SourceBuiltIn :: string where "SourceBuiltIn = ''built-in''"

text \<open>The built-in bundle first, then the labelled ConfigMaps by name; None when they cannot be listed.\<close>

definition ListBundles :: "policy_bundle \<Rightarrow> (string \<times> policy_bundle) list \<Rightarrow> bundle_info list" where
  "ListBundles built_in config_maps =
     \<lparr>bi_digest = Digest built_in, bi_source = SourceBuiltIn, bi_bundle = built_in\<rparr>
     # map (\<lambda>(name, b). \<lparr>bi_digest = Digest b, bi_source = ''configmap/'' @ name, bi_bundle = b\<rparr>) (sort_key fst config_maps)"

datatype policy_error =
    BundlesUnlisted
  | BundleNotFound string
  | BundleEmpty
  | TwoDataFiles string string
  | DataNotObject string
  | AlienFile string
  | NoModules
  | EngineFailed string
  | NoEntryPoint
  | NotASet
  | NotAnObject
  | AnonymousEntry

definition Resolve :: "policy_bundle \<Rightarrow> (string \<times> policy_bundle) list option \<Rightarrow> string \<Rightarrow> policy_error + bundle_info" where
  "Resolve built_in config_maps d =
     (case config_maps of
        None \<Rightarrow> Inl BundlesUnlisted
      | Some maps \<Rightarrow>
          (case find (\<lambda>info. bi_digest info = d) (ListBundles built_in maps) of
             None \<Rightarrow> Inl (BundleNotFound d)
           | Some info \<Rightarrow> Inr info))"

subsection \<open>Verdicts\<close>

definition VerdictAllowed :: string where "VerdictAllowed = ''allowed''"
definition VerdictAllowedWithException :: string where "VerdictAllowedWithException = ''allowed-with-exception''"
definition VerdictBlocked :: string where "VerdictBlocked = ''blocked''"

lemmas verdict_defs = VerdictAllowed_def VerdictAllowedWithException_def VerdictBlocked_def

record fired_rule =
  fr_rule :: string
  fr_message :: string
  fr_waived :: bool
  fr_exception :: string

record policy_result =
  vr_verdict :: string
  vr_fired :: "fired_rule list"

record policy_exception =
  px_name :: string
  px_rules :: "string list"
  px_expires :: time
  px_approved :: string
  px_reason :: string

definition KindPromotion :: string where "KindPromotion = ''promotion''"
definition KindRescan :: string where "KindRescan = ''rescan''"

record policy_input =
  in_kind :: string
  in_at :: time
  in_project :: string
  in_environment :: string
  in_release :: string
  in_image :: string
  in_snapshot :: string
  in_requested :: string
  in_exceptions :: "policy_exception list"
  in_facts :: string

text \<open>The exceptions of an evaluation walked over one rule.\<close>

fun waive :: "time \<Rightarrow> policy_exception list \<Rightarrow> fired_rule \<Rightarrow> fired_rule" where
  "waive at [] r = r"
| "waive at (x # xs) r =
     (if is_zero (px_expires x) \<or> \<not> at < px_expires x then waive at xs r
      else let r' = (if fr_rule r \<in> set (px_rules x) then r\<lparr>fr_waived := True, fr_exception := px_name x\<rparr> else r)
           in if fr_waived r' then r' else waive at xs r')"

definition ApplyExceptions :: "fired_rule list \<Rightarrow> policy_exception list \<Rightarrow> time \<Rightarrow> fired_rule list" where
  "ApplyExceptions fired exceptions at = map (waive at exceptions) fired"

definition verdictOf :: "fired_rule list \<Rightarrow> string" where
  "verdictOf fired =
     (if fired = [] then VerdictAllowed
      else if list_ex (\<lambda>r. \<not> fr_waived r) fired then VerdictBlocked
      else VerdictAllowedWithException)"

subsection \<open>Evaluation\<close>

definition text_member :: "(string \<times> gojson) list \<Rightarrow> string \<Rightarrow> string" where
  "text_member kvs key = (case json_get kvs key of Some (JString s) \<Rightarrow> s | _ \<Rightarrow> [])"

fun fired_entries :: "gojson list \<Rightarrow> policy_error + fired_rule list" where
  "fired_entries [] = Inr []"
| "fired_entries (entry # entries) =
     (case entry of
        JObject kvs \<Rightarrow>
          if text_member kvs ''rule'' = [] then Inl AnonymousEntry
          else (case fired_entries entries of
              Inl e \<Rightarrow> Inl e
            | Inr fired \<Rightarrow> Inr (\<lparr>fr_rule = text_member kvs ''rule'', fr_message = text_member kvs ''message'',
                fr_waived = False, fr_exception = []\<rparr> # fired))
      | _ \<Rightarrow> Inl NotAnObject)"

fun fired_values :: "gojson list \<Rightarrow> policy_error + fired_rule list" where
  "fired_values [] = Inr []"
| "fired_values (v # vs) =
     (case v of
        JArray entries \<Rightarrow>
          (case fired_entries entries of
             Inl e \<Rightarrow> Inl e
           | Inr fired \<Rightarrow> (case fired_values vs of Inl e \<Rightarrow> Inl e | Inr others \<Rightarrow> Inr (fired @ others)))
      | _ \<Rightarrow> Inl NotASet)"

definition firedFrom :: "gojson list \<Rightarrow> policy_error + fired_rule list" where
  "firedFrom results = (case fired_values results of Inl e \<Rightarrow> Inl e | Inr fired \<Rightarrow> Inr (sort_key (\<lambda>r. (fr_rule r, fr_message r)) fired))"

text \<open>The files of a bundle, in order of their paths: how many are modules, and the one that is data.\<close>

fun scan_files :: "policy_bundle \<Rightarrow> nat \<Rightarrow> string \<Rightarrow> policy_error + nat" where
  "scan_files [] modules data_path = Inr modules"
| "scan_files ((path, body) # files) modules data_path =
     (if has_suffix path ''.rego'' then scan_files files (Suc modules) data_path
      else if path = ''data.json'' \<or> has_suffix path ''/data.json'' then
        (if data_path \<noteq> [] then Inl (TwoDataFiles data_path path)
         else (case unmarshal body of
             Some (JObject _) \<Rightarrow> scan_files files modules path
           | Some JNull \<Rightarrow> scan_files files modules path
           | _ \<Rightarrow> Inl (DataNotObject path)))
      else Inl (AlienFile path))"

type_synonym rego = "policy_bundle \<Rightarrow> policy_input \<Rightarrow> string + gojson list"

definition Evaluate_bundle :: "rego \<Rightarrow> policy_bundle \<Rightarrow> policy_input \<Rightarrow> policy_error + policy_result" where
  "Evaluate_bundle rego b input =
     (if b = [] then Inl BundleEmpty
      else (case scan_files (sort_key fst b) 0 [] of
          Inl e \<Rightarrow> Inl e
        | Inr modules \<Rightarrow>
            if modules = 0 then Inl NoModules
            else (case rego b input of
                Inl reason \<Rightarrow> Inl (EngineFailed reason)
              | Inr results \<Rightarrow>
                  if results = [] then Inl NoEntryPoint
                  else (case firedFrom results of
                      Inl e \<Rightarrow> Inl e
                    | Inr fired \<Rightarrow>
                        let out = ApplyExceptions fired (in_exceptions input) (in_at input)
                        in Inr \<lparr>vr_verdict = verdictOf out, vr_fired = out\<rparr>))))"

subsection \<open>Grants\<close>

datatype grant_phase = GrantNew | GrantActive | GrantExpired | GrantResolved

text \<open>An Exception; the release it is narrowed to is empty when it names none.\<close>

record grant =
  xc_name :: string
  xc_project :: string
  xc_environment :: string
  xc_release :: string
  xc_rules :: "string list"
  xc_reason :: string
  xc_requested :: string
  xc_approved :: string
  xc_incident :: string
  xc_expires :: time
  xc_rollback :: bool
  xc_phase :: grant_phase
  xc_used :: "string list"

definition EffectivePhase :: "grant \<Rightarrow> time \<Rightarrow> grant_phase" where
  "EffectivePhase g at =
     (if xc_phase g = GrantResolved then GrantResolved
      else if \<not> is_zero (xc_expires g) \<and> \<not> at < xc_expires g then GrantExpired
      else GrantActive)"

definition grant_covers :: "grant \<Rightarrow> string \<Rightarrow> string \<Rightarrow> string \<Rightarrow> bool" where
  "grant_covers g project env release \<longleftrightarrow>
     (if xc_project g \<noteq> project \<or> xc_environment g \<noteq> env then False
      else if xc_release g = [] then True else xc_release g = release)"

definition WaivesRule :: "grant \<Rightarrow> string \<Rightarrow> bool" where
  "WaivesRule g rule \<longleftrightarrow> rule \<in> set (xc_rules g)"

definition ActiveExceptionsFor :: "grant list \<Rightarrow> string \<Rightarrow> string \<Rightarrow> string \<Rightarrow> time \<Rightarrow> grant list" where
  "ActiveExceptionsFor grants project env release at =
     filter (\<lambda>g. grant_covers g project env release \<and> EffectivePhase g at = GrantActive) grants"

definition PolicyExceptions :: "grant list \<Rightarrow> policy_exception list" where
  "PolicyExceptions grants = map (\<lambda>g. \<lparr>px_name = xc_name g, px_rules = xc_rules g, px_expires = xc_expires g,
     px_approved = xc_approved g, px_reason = xc_reason g\<rparr>) grants"

text \<open>
  The reconciler that stamps a grant's phase: whether the audit log took the record and the API server the
  status; what it leaves, whether an expiry was logged, and when it asks to be run again.
\<close>

datatype exception_result = ExceptionDone | ExceptionAgain time | ExceptionFailed

definition reconcile_exception :: "bool \<Rightarrow> bool \<Rightarrow> bool \<Rightarrow> time \<Rightarrow> grant \<Rightarrow> grant \<times> bool \<times> exception_result" where
  "reconcile_exception logged stored deleting now g =
     (if deleting then (g, False, ExceptionDone)
      else if xc_phase g = GrantResolved \<or> xc_phase g = GrantExpired then (g, False, ExceptionDone)
      else if EffectivePhase g now = GrantExpired then
        (if \<not> logged then (g, False, ExceptionFailed)
         else if \<not> stored then (g, True, ExceptionFailed)
         else (g\<lparr>xc_phase := GrantExpired\<rparr>, True, ExceptionDone))
      else if xc_phase g \<noteq> GrantActive \<and> \<not> stored then (g, False, ExceptionFailed)
      else (g\<lparr>xc_phase := GrantActive\<rparr>, False, ExceptionAgain (xc_expires g - now + second)))"

text \<open>
  Stamping never changes what a grant waives, an expiry is stamped only after it was logged, and what a pass
  that does not fail leaves is the phase the clock says, or one that is final.
\<close>

lemma reconcile_exception_honest:
  assumes "reconcile_exception logged stored deleting now g = (g', said, res)"
  shows "EffectivePhase g' at = EffectivePhase g at \<and> PolicyExceptions [g'] = PolicyExceptions [g] \<and> xc_used g' = xc_used g
    \<and> (xc_phase g' = GrantExpired \<longrightarrow> xc_phase g = GrantExpired \<or> said)
    \<and> (res \<noteq> ExceptionFailed \<and> \<not> deleting \<longrightarrow> xc_phase g' = EffectivePhase g now \<or> xc_phase g = GrantExpired)"
  using assms by (auto simp: reconcile_exception_def EffectivePhase_def PolicyExceptions_def split: if_splits)

subsection \<open>What a verdict means\<close>

text \<open>Whether a grant waives a rule for a promotion of a release into an environment.\<close>

definition waives_for :: "grant \<Rightarrow> string \<Rightarrow> string \<Rightarrow> string \<Rightarrow> time \<Rightarrow> string \<Rightarrow> bool" where
  "waives_for g project env release at rule \<longleftrightarrow>
     grant_covers g project env release \<and> xc_phase g \<noteq> GrantResolved \<and> \<not> is_zero (xc_expires g) \<and> at < xc_expires g \<and> WaivesRule g rule"

lemma waive_rule [simp]: "fr_rule (waive at xs r) = fr_rule r" "fr_message (waive at xs r) = fr_message r"
  by (induction xs arbitrary: r) (simp_all add: Let_def)

lemma waive_iff:
  "fr_waived (waive at xs r) \<longleftrightarrow> fr_waived r \<or> (\<exists>x \<in> set xs. \<not> is_zero (px_expires x) \<and> at < px_expires x \<and> fr_rule r \<in> set (px_rules x))"
  by (induction xs arbitrary: r) (auto simp: Let_def)

lemma waive_by:
  assumes "\<not> fr_waived r" "fr_waived (waive at xs r)"
  shows "\<exists>x \<in> set xs. fr_exception (waive at xs r) = px_name x \<and> \<not> is_zero (px_expires x) \<and> at < px_expires x \<and> fr_rule r \<in> set (px_rules x)"
  using assms by (induction xs arbitrary: r) (auto simp: Let_def split: if_splits)

lemma waive_unwaived: "\<not> fr_waived r \<Longrightarrow> \<not> fr_waived (waive at xs r) \<Longrightarrow> waive at xs r = r"
  by (induction xs arbitrary: r) (auto simp: Let_def split: if_splits)

lemma fired_entries_fresh: "fired_entries es = Inr fired \<Longrightarrow> list_all (\<lambda>r. \<not> fr_waived r \<and> fr_exception r = [] \<and> fr_rule r \<noteq> []) fired"
  by (induction es arbitrary: fired) (auto split: gojson.splits if_splits sum.splits)

lemma fired_values_fresh: "fired_values vs = Inr fired \<Longrightarrow> list_all (\<lambda>r. \<not> fr_waived r \<and> fr_exception r = [] \<and> fr_rule r \<noteq> []) fired"
  by (induction vs arbitrary: fired) (auto split: gojson.splits sum.splits dest: fired_entries_fresh)

lemma firedFrom_fresh: "firedFrom vs = Inr fired \<Longrightarrow> list_all (\<lambda>r. \<not> fr_waived r \<and> fr_exception r = [] \<and> fr_rule r \<noteq> []) fired"
  by (auto simp: firedFrom_def list_all_iff split: sum.splits dest: fired_values_fresh)

lemma Evaluate_bundle_Inr:
  assumes "Evaluate_bundle rego b input = Inr res"
  obtains results fired where "rego b input = Inr results" "firedFrom results = Inr fired"
    "vr_fired res = ApplyExceptions fired (in_exceptions input) (in_at input)" "vr_verdict res = verdictOf (vr_fired res)"
  using assms by (auto simp: Evaluate_bundle_def Let_def split: if_splits sum.splits)

lemma waived_by_grant:
  assumes "xs = PolicyExceptions (ActiveExceptionsFor grants project env release at)"
  shows "(\<exists>x \<in> set xs. \<not> is_zero (px_expires x) \<and> at < px_expires x \<and> rule \<in> set (px_rules x))
    \<longleftrightarrow> (\<exists>g \<in> set grants. waives_for g project env release at rule)"
  unfolding assms
  by (auto simp: PolicyExceptions_def ActiveExceptionsFor_def waives_for_def WaivesRule_def EffectivePhase_def split: if_splits)

lemma exception_of_grant:
  assumes "x \<in> set (PolicyExceptions (ActiveExceptionsFor grants project env release at))"
    "\<not> is_zero (px_expires x)" "at < px_expires x" "rule \<in> set (px_rules x)"
  shows "\<exists>g \<in> set grants. waives_for g project env release at rule \<and> px_name x = xc_name g"
  using assms by (auto simp: PolicyExceptions_def ActiveExceptionsFor_def waives_for_def WaivesRule_def EffectivePhase_def split: if_splits)

text \<open>
  C18. What the verdict says. The rules that fired are what the bundle denied, none added and none
  removed; the release is allowed exactly when none fired, blocked exactly when one of them is waived by no
  unresolved grant of the triple whose expiry is ahead of the evaluation's clock, and allowed with an exception
  exactly when rules fired and each is waived so, by the grant the result names.
\<close>

theorem verdict_exact:
  assumes "Evaluate_bundle rego b input = Inr res"
    and "in_exceptions input = PolicyExceptions (ActiveExceptionsFor grants project env release (in_at input))"
  shows "(\<exists>results fired. rego b input = Inr results \<and> firedFrom results = Inr fired
      \<and> map (\<lambda>r. (fr_rule r, fr_message r)) (vr_fired res) = map (\<lambda>r. (fr_rule r, fr_message r)) fired)
    \<and> (vr_verdict res = VerdictAllowed \<longleftrightarrow> vr_fired res = [])
    \<and> (vr_verdict res = VerdictBlocked \<longleftrightarrow>
        (\<exists>r \<in> set (vr_fired res). \<not> (\<exists>g \<in> set grants. waives_for g project env release (in_at input) (fr_rule r))))
    \<and> (vr_verdict res = VerdictAllowedWithException \<longleftrightarrow>
        vr_fired res \<noteq> [] \<and> (\<forall>r \<in> set (vr_fired res). \<exists>g \<in> set grants.
          waives_for g project env release (in_at input) (fr_rule r) \<and> fr_exception r = xc_name g))"
proof -
  from Evaluate_bundle_Inr [OF assms(1)] obtain results fired where r:
    "rego b input = Inr results" "firedFrom results = Inr fired"
    "vr_fired res = ApplyExceptions fired (in_exceptions input) (in_at input)" "vr_verdict res = verdictOf (vr_fired res)" by blast
  have fresh: "\<not> fr_waived f" if "f \<in> set fired" for f using firedFrom_fresh [OF r(2)] that by (simp add: list_all_iff)
  let ?waived = "\<lambda>rule. \<exists>g \<in> set grants. waives_for g project env release (in_at input) rule"
  have waived: "fr_waived f \<longleftrightarrow> ?waived (fr_rule f)" if "f \<in> set (vr_fired res)" for f
    using that fresh waived_by_grant [OF assms(2)] by (auto simp: r(3) ApplyExceptions_def waive_iff)
  have named: "\<exists>g \<in> set grants. waives_for g project env release (in_at input) (fr_rule f) \<and> fr_exception f = xc_name g"
    if "f \<in> set (vr_fired res)" "fr_waived f" for f
  proof -
    from that(1) obtain f0 where f0: "f0 \<in> set fired" "f = waive (in_at input) (in_exceptions input) f0"
      by (auto simp: r(3) ApplyExceptions_def)
    have "fr_waived (waive (in_at input) (in_exceptions input) f0)" using that(2) f0(2) by simp
    from waive_by [OF fresh [OF f0(1)] this] obtain x where x: "x \<in> set (in_exceptions input)"
      "fr_exception f = px_name x" "\<not> is_zero (px_expires x)" "in_at input < px_expires x" "fr_rule f \<in> set (px_rules x)"
      unfolding f0(2) by (auto simp only: waive_rule)
    from exception_of_grant [OF x(1) [unfolded assms(2)] x(3-5)] x(2) show ?thesis by simp
  qed
  have "map (\<lambda>r. (fr_rule r, fr_message r)) (vr_fired res) = map (\<lambda>r. (fr_rule r, fr_message r)) fired"
    by (simp add: r(3) ApplyExceptions_def)
  moreover have "vr_verdict res = VerdictAllowed \<longleftrightarrow> vr_fired res = []"
    by (simp add: r(4) verdictOf_def verdict_defs)
  moreover have "vr_verdict res = VerdictBlocked \<longleftrightarrow> (\<exists>f \<in> set (vr_fired res). \<not> ?waived (fr_rule f))"
    using waived by (auto simp: r(4) verdictOf_def verdict_defs list_ex_iff)
  moreover have "vr_verdict res = VerdictAllowedWithException \<longleftrightarrow> vr_fired res \<noteq> [] \<and> (\<forall>f \<in> set (vr_fired res). fr_waived f)"
    by (auto simp: r(4) verdictOf_def verdict_defs list_ex_iff)
  moreover have "(\<forall>f \<in> set (vr_fired res). fr_waived f) \<longleftrightarrow> (\<forall>f \<in> set (vr_fired res). \<exists>g \<in> set grants.
      waives_for g project env release (in_at input) (fr_rule f) \<and> fr_exception f = xc_name g)"
    using named waived by blast
  ultimately show ?thesis using r(1,2) by blast
qed

text \<open>Two bundles one digest names hold the same files, or exhibit a collision of SHA-256.\<close>

lemma writeField_nonempty: "writeField v \<noteq> []"
  using length_be64 [of "int (length v)"] by (cases "be64 (int (length v))") (simp_all add: writeField_def writeUint_def)

lemma fields_inj:
  "concat (map writeField xs) = concat (map writeField ys) \<Longrightarrow> list_all go_string xs \<Longrightarrow> list_all go_string ys \<Longrightarrow> xs = ys"
proof (induction xs arbitrary: ys)
  case Nil
  then show ?case using writeField_nonempty by (cases ys) auto
next
  case (Cons x xs)
  then obtain y ys' where ys: "ys = y # ys'" using writeField_nonempty by (cases ys) auto
  have "x = y \<and> concat (map writeField xs) = concat (map writeField ys')"
    by (rule writeField_append_inj) (use Cons.prems ys in auto)
  then show ?case using Cons ys by auto
qed

lemma bundle_bytes_fields: "bundle_bytes b = concat (map writeField (concat (map (\<lambda>(p, c). [p, c]) (sort_key fst b))))"
proof -
  have "concat (map (\<lambda>(p, c). writeField p @ writeField c) fs) = concat (map writeField (concat (map (\<lambda>(p, c). [p, c]) fs)))" for fs
    by (induction fs) auto
  then show ?thesis by (simp add: bundle_bytes_def)
qed

lemma pairs_flat_inj: "concat (map (\<lambda>(p, c). [p, c]) fs) = concat (map (\<lambda>(p, c). [p, c]) gs) \<Longrightarrow> fs = gs"
proof (induction fs arbitrary: gs)
  case Nil
  then show ?case by (cases gs) auto
next
  case (Cons f fs)
  then show ?case by (cases f; cases gs) auto
qed

lemma digest_names_bundle:
  assumes "Digest a = Digest b" "\<forall>(p, c) \<in> set a \<union> set b. go_string p \<and> go_string c"
  shows "mset a = mset b \<or> (bundle_bytes a \<noteq> bundle_bytes b \<and> sha256 (bundle_bytes a) = sha256 (bundle_bytes b))"
proof (cases "bundle_bytes a = bundle_bytes b")
  case True
  have go: "list_all go_string (concat (map (\<lambda>(p, c). [p, c]) (sort_key fst x)))" if "x \<in> {a, b}" for x
    using that assms(2) by (auto simp: list_all_iff)
  have "concat (map (\<lambda>(p, c). [p, c]) (sort_key fst a)) = concat (map (\<lambda>(p, c). [p, c]) (sort_key fst b))"
    by (rule fields_inj) (use True go in \<open>simp_all add: bundle_bytes_fields\<close>)
  then have "sort_key fst a = sort_key fst b" by (rule pairs_flat_inj)
  then show ?thesis by (metis mset_sort)
next
  case False
  have "sha256 (bundle_bytes a) = sha256 (bundle_bytes b)"
    by (rule hex_inj) (use assms(1) in \<open>simp add: Digest_def\<close>)
  with False show ?thesis by simp
qed

subsection \<open>Witnesses\<close>

definition demo_bundle :: policy_bundle where
  "demo_bundle = [(''promotion.rego'', ''package kitchen.promotion'')]"

text \<open>An engine that denies what scanned badly.\<close>

definition demo_rego :: rego where
  "demo_rego b input = Inr [JArray (if in_facts input = ''critical'' then [JObject [(''rule'', JString ''max-severity'')]] else [])]"

definition demo_grant :: grant where
  "demo_grant = \<lparr>xc_name = ''exc-1'', xc_project = ''shop'', xc_environment = ''shop-production'', xc_release = [],
     xc_rules = [''max-severity''], xc_reason = ''hotfix'', xc_requested = ''grace'', xc_approved = ''heidi'', xc_incident = [],
     xc_expires = 1000, xc_rollback = True, xc_phase = GrantActive, xc_used = []\<rparr>"

definition demo_input :: "time \<Rightarrow> policy_input" where
  "demo_input at = \<lparr>in_kind = KindPromotion, in_at = at, in_project = ''shop'', in_environment = ''shop-production'', in_release = ''shop-1'',
     in_image = [], in_snapshot = [], in_requested = ''anna'',
     in_exceptions = PolicyExceptions (ActiveExceptionsFor [demo_grant] ''shop'' ''shop-production'' ''shop-1'' at), in_facts = ''critical''\<rparr>"

lemma demo_evaluated:
  "Evaluate_bundle demo_rego demo_bundle (demo_input 10) = Inr \<lparr>vr_verdict = VerdictAllowedWithException,
     vr_fired = [\<lparr>fr_rule = ''max-severity'', fr_message = [], fr_waived = True, fr_exception = ''exc-1''\<rparr>]\<rparr>"
  by (simp add: Evaluate_bundle_def demo_bundle_def demo_rego_def demo_input_def firedFrom_def text_member_def json_get_def has_suffix_def
      has_prefix_def ApplyExceptions_def PolicyExceptions_def ActiveExceptionsFor_def demo_grant_def grant_covers_def EffectivePhase_def
      is_zero_def zero_time_def Let_def verdictOf_def)

theorem verdict_exact_witness:
  "waives_for demo_grant ''shop'' ''shop-production'' ''shop-1'' 10 ''max-severity''"
proof -
  have "in_exceptions (demo_input 10) = PolicyExceptions (ActiveExceptionsFor [demo_grant] ''shop'' ''shop-production'' ''shop-1'' (in_at (demo_input 10)))"
    by (simp add: demo_input_def)
  from verdict_exact [OF demo_evaluated this] show ?thesis by (simp add: demo_input_def verdict_defs)
qed

end
