(* ===== verification/Promotion.thy ===== *)
theory Promotion
  imports PolicyEngine Environments Kube
begin

section \<open>Promotions (internal/controller/promotion_controller.go, policyeval.go, policydecision.go)\<close>

text \<open>
  The reconciler that moves an environment onto a release, the evaluation it asks and the recording of
  the decision. A pass is a function of the cluster: every call it makes is named, and a script says for
  each whether it is answered, refused before it had an effect, or had its effect with the answer lost; a
  call that is not answered ends the pass, which is then run again. What the calls answer besides the
  objects below (the build, its claims and evidence, the labelled ConfigMaps) is part of the script. Stale
  reads of the cache are refused writes: the API server compares versions. Attestations and the activity
  feed are best effort and change nothing here; the sentences of messages are kept as what they are made of.
\<close>

subsection \<open>Objects\<close>

datatype promotion_phase =
    PhaseNew | PromotionPending | PromotionEvaluating | PromotionAllowed | PromotionAllowedWithException
  | PromotionBlocked | PromotionApplied | PromotionFailed

datatype promotion_refusal =
    Absent string string
  | ForeignEnvironment string string string
  | ForeignRelease string string string
  | ClassRefused class_refusal
  | Unevaluable policy_error

text \<open>An exception that ran out, when it did, and the rules it no longer waives.\<close>

datatype expired_note = ExpiredNote string time "string list"

datatype promotion_message =
    NoMessage
  | RefusedBecause promotion_refusal
  | NoRequirements string
  | ClearsBundle string
  | ClearsWaived string
  | BlockedBy string "(string \<times> string) list" "expired_note list"
  | RunsRelease string string

datatype promotion_trigger = PromotionManual | PromotionAutomatic

record promotion =
  pm_name :: string
  pm_uid :: string
  pm_deleting :: bool
  pm_project :: string
  pm_environment :: string
  pm_release :: string
  pm_requested :: string
  pm_trigger :: promotion_trigger
  pm_phase :: promotion_phase
  pm_verdict :: string
  pm_decision :: string
  pm_evaluated :: "time option"
  pm_applied :: "time option"
  pm_unmet :: "string list"
  pm_message :: promotion_message
  pm_ready :: "(bool \<times> string) option"

record promotion_stage =
  sg_name :: string
  sg_environment :: string
  sg_auto :: bool

text \<open>No stages stand for an absent promotion policy.\<close>

record staged_project =
  jp_name :: string
  jp_class :: string
  jp_stages :: "promotion_stage list"

datatype move_reason = ReleaseMovePromoted | ReleaseMoveRolledBack | ReleaseMoveSuperseded

record release_move =
  mv_release :: string
  mv_from :: time
  mv_to :: time
  mv_reason :: move_reason
  mv_by :: string

text \<open>What the re-evaluation sweep knows of the release an environment runs.\<close>

datatype rescan_phase = RescanScanning | RescanEvaluated | RescanFailed

datatype rescan_message =
    NamesNoDigest
  | MatchingAgainst string
  | JobIsGone
  | ScanDidNotRun string
  | LeftNoReport
  | ProducedNoFindings string
  | FindingsUnread
  | FindingsUnattested
  | BarUnevaluated promotion_refusal
  | BarSays promotion_message

record rescan_state =
  rs_phase :: rescan_phase
  rs_release :: string
  rs_artifact :: string
  rs_job :: string
  rs_started :: "time option"
  rs_finished :: "time option"
  rs_snapshot :: string
  rs_findings :: nat
  rs_verdict :: string
  rs_unmet :: "string list"
  rs_decision :: string
  rs_message :: rescan_message

record target_env =
  te_name :: string
  te_uid :: string
  te_project :: string
  te_class :: string
  te_release :: string
  te_requirements :: "string option"
  te_created :: time
  te_history :: "release_move list"
  te_deleting :: bool
  te_rescan :: "rescan_state option"

record release_object =
  ro_name :: string
  ro_project :: string
  ro_image :: string

text \<open>A scanner's Job: the artifact it was created for, how it stands, and the report its pods left.\<close>

record scan_report =
  sp_blob :: string
  sp_snapshot :: string
  sp_finished :: "time option"
  sp_error :: string

record scan_job =
  sj_artifact :: string
  sj_complete :: bool
  sj_failed :: bool
  sj_said :: string
  sj_report :: "scan_report option"

text \<open>A vulnerability scan signed onto an artifact: the findings' blob and the database they were matched against.\<close>

record scan_evidence =
  se_artifact :: string
  se_blob :: string
  se_snapshot :: string

text \<open>What the audit log holds of decisions and of what is done about them, oldest first.\<close>

datatype log_entry =
    DecisionMade string string string string string string "string list" "string list"
  | BreakGlassUsed string string "string list"
  | EnvironmentMoved string string string string string string
  | PromotionGaveUp string promotion_phase promotion_refusal
  | PromotionCreated string string string
  | RolledBack string string string string "string list" string

record promotion_world =
  wd_promotions :: "string \<rightharpoonup> promotion"
  wd_projects :: "string \<rightharpoonup> staged_project"
  wd_environments :: "string \<rightharpoonup> target_env"
  wd_releases :: "string \<rightharpoonup> release_object"
  wd_grants :: "grant list"
  wd_bundles :: "(string \<times> policy_bundle) list"
  wd_decisions :: "(string \<times> string) list"
  wd_jobs :: "string \<times> string \<rightharpoonup> scan_job"
  wd_evidence :: "scan_evidence list"
  wd_log :: "log_entry list"

subsection \<open>Calls\<close>

datatype call =
    GetPromotion | GetProject | GetEnvironment | GetRelease | SetEvaluating | GetKitchen
  | GetBuild | ListClaims | ListBundleMaps | ReadEvidence | ListGrants | ListForNote
  | LogDecision | StoreDecision | GetGrant string | LogBreakGlass string | MarkUsed string
  | SetVerdict | LogMove | MoveEnvironment | KeepHistory | GetNext | LogNext | CreateNext | SetApplied
  | LogFailure | SetFailed
  | CreateJob | GetJob | DeleteJob | ListPods | ReadAttester | ReadFindings | AttachScan | GetEnvAgain | SetRescan
  | ListExpired | GetUser string | GetPrevious | LogRollback | GetEnvCurrent | MoveBack | KeepRollback

datatype call_outcome = Answered | Refused | Lost

text \<open>
  What one pass is answered with: the clock of the evaluation and of the move, the random id of a
  decision that is not a promotion's, the facts the input is materialized from, and what the rest of the
  platform writes before a pass reads an object again.
\<close>

record pass_script =
  sc_outcome :: "call \<Rightarrow> call_outcome"
  sc_at :: time
  sc_now :: time
  sc_random :: string
  sc_facts :: string
  sc_meanwhile :: "promotion_world \<Rightarrow> promotion_world"

record policy_engine =
  pe_rego :: rego
  pe_builtin :: policy_bundle

type_synonym 'a pass = "promotion_world \<Rightarrow> 'a option \<times> promotion_world"

definition give :: "'a \<Rightarrow> 'a pass" where
  "give x w = (Some x, w)"

definition after :: "'a pass \<Rightarrow> ('a \<Rightarrow> 'b pass) \<Rightarrow> 'b pass" where
  "after m f w = (case m w of (None, w') \<Rightarrow> (None, w') | (Some x, w') \<Rightarrow> f x w')"

definition reading :: "pass_script \<Rightarrow> call \<Rightarrow> (promotion_world \<Rightarrow> 'a) \<Rightarrow> 'a pass" where
  "reading s c f w = (case sc_outcome s c of Answered \<Rightarrow> (Some (f w), w) | _ \<Rightarrow> (None, w))"

definition writing :: "pass_script \<Rightarrow> call \<Rightarrow> (promotion_world \<Rightarrow> promotion_world) \<Rightarrow> unit pass" where
  "writing s c f w = (case sc_outcome s c of Answered \<Rightarrow> (Some (), f w) | Refused \<Rightarrow> (None, w) | Lost \<Rightarrow> (None, f w))"

definition log_that :: "log_entry \<Rightarrow> promotion_world \<Rightarrow> promotion_world" where
  "log_that e w = w\<lparr>wd_log := wd_log w @ [e]\<rparr>"

definition keep_promotion :: "promotion \<Rightarrow> promotion_world \<Rightarrow> promotion_world" where
  "keep_promotion p w = w\<lparr>wd_promotions := (wd_promotions w)(pm_name p \<mapsto> p)\<rparr>"

subsection \<open>References\<close>

definition resolve_references :: "pass_script \<Rightarrow> promotion \<Rightarrow> (promotion_refusal + staged_project \<times> target_env \<times> release_object) pass" where
  "resolve_references s p =
     after (reading s GetProject (\<lambda>w. wd_projects w (pm_project p))) (\<lambda>project.
     case project of None \<Rightarrow> give (Inl (Absent ''project'' (pm_project p))) | Some project \<Rightarrow>
     after (reading s GetEnvironment (\<lambda>w. wd_environments w (pm_environment p))) (\<lambda>env.
     case env of None \<Rightarrow> give (Inl (Absent ''environment'' (pm_environment p))) | Some env \<Rightarrow>
     after (reading s GetRelease (\<lambda>w. wd_releases w (pm_release p))) (\<lambda>release.
     case release of None \<Rightarrow> give (Inl (Absent ''release'' (pm_release p))) | Some release \<Rightarrow>
       if te_project env \<noteq> pm_project p then give (Inl (ForeignEnvironment (te_name env) (te_project env) (pm_project p)))
       else if ro_project release \<noteq> pm_project p then give (Inl (ForeignRelease (ro_name release) (ro_project release) (pm_project p)))
       else give (Inr (project, env, release)))))"

subsection \<open>The evaluation (policyeval.go)\<close>

record evaluation =
  ev_input :: policy_input
  ev_result :: policy_result
  ev_bundle :: policy_bundle
  ev_message :: promotion_message

record evaluation_request =
  rq_kind :: string
  rq_at :: time
  rq_snapshot :: string
  rq_requested :: string

definition materialized :: "pass_script \<Rightarrow> evaluation_request \<Rightarrow> staged_project \<Rightarrow> target_env \<Rightarrow> release_object \<Rightarrow> grant list \<Rightarrow> policy_input" where
  "materialized s rq project env release grants =
     \<lparr>in_kind = rq_kind rq, in_at = rq_at rq, in_project = jp_name project, in_environment = te_name env, in_release = ro_name release,
      in_image = ro_image release, in_snapshot = rq_snapshot rq, in_requested = rq_requested rq, in_exceptions = PolicyExceptions grants,
      in_facts = sc_facts s\<rparr>"

definition unmetRules :: "policy_result \<Rightarrow> (string \<times> string) list" where
  "unmetRules result = map (\<lambda>r. (fr_rule r, fr_message r)) (filter (\<lambda>r. \<not> fr_waived r) (vr_fired result))"

definition unmetRuleIDs :: "policy_result \<Rightarrow> string list" where
  "unmetRuleIDs result = map fr_rule (filter (\<lambda>r. \<not> fr_waived r) (vr_fired result))"

text \<open>A bundle that was found is asked with the evidence and the active exceptions.\<close>

definition ask_bundle ::
    "policy_engine \<Rightarrow> pass_script \<Rightarrow> evaluation_request \<Rightarrow> staged_project \<Rightarrow> target_env \<Rightarrow> release_object \<Rightarrow> string \<Rightarrow> policy_bundle \<Rightarrow> (promotion_refusal + evaluation) pass" where
  "ask_bundle eng s rq project env release d bundle =
     after (reading s ReadEvidence (\<lambda>_. ())) (\<lambda>_.
     after (reading s ListGrants (\<lambda>w. ActiveExceptionsFor (wd_grants w) (te_project env) (te_name env) (ro_name release) (rq_at rq))) (\<lambda>grants.
     let input = materialized s rq project env release grants
     in case Evaluate_bundle (pe_rego eng) bundle input of
          Inl e \<Rightarrow> give (Inl (Unevaluable e))
        | Inr result \<Rightarrow> give (Inr \<lparr>ev_input = input, ev_result = result, ev_bundle = bundle,
            ev_message = (if vr_verdict result = VerdictAllowed then ClearsBundle d
              else if vr_verdict result = VerdictAllowedWithException then ClearsWaived d
              else BlockedBy d (unmetRules result) [])\<rparr>)))"

definition ask_requirements ::
    "policy_engine \<Rightarrow> pass_script \<Rightarrow> evaluation_request \<Rightarrow> staged_project \<Rightarrow> target_env \<Rightarrow> release_object \<Rightarrow> (promotion_refusal + evaluation) pass" where
  "ask_requirements eng s rq project env release =
     (case te_requirements env of
       None \<Rightarrow>
         (case dataClassRefusalBetween (jp_class project) (te_class env) of
            Some refused \<Rightarrow> give (Inl (ClassRefused refused))
          | None \<Rightarrow> give (Inr \<lparr>ev_input = materialized s rq project env release [],
              ev_result = \<lparr>vr_verdict = VerdictAllowed, vr_fired = []\<rparr>, ev_bundle = [], ev_message = NoRequirements (te_name env)\<rparr>))
     | Some d \<Rightarrow>
         (\<lambda>w. case Resolve (pe_builtin eng) (if sc_outcome s ListBundleMaps = Answered then Some (wd_bundles w) else None) d of
            Inl e \<Rightarrow> give (Inl (Unevaluable e)) w
          | Inr info \<Rightarrow> ask_bundle eng s rq project env release d (bi_bundle info) w))"

definition evaluate_requirements ::
    "policy_engine \<Rightarrow> pass_script \<Rightarrow> evaluation_request \<Rightarrow> staged_project \<Rightarrow> target_env \<Rightarrow> release_object \<Rightarrow> (promotion_refusal + evaluation) pass" where
  "evaluate_requirements eng s rq project env release =
     after (reading s GetBuild (\<lambda>_. ())) (\<lambda>_.
     after (reading s ListClaims (\<lambda>_. ())) (\<lambda>_. ask_requirements eng s rq project env release))"

text \<open>The note of the grants that ran out; a listing that fails loses the note and nothing else.\<close>

definition expired_notes :: "promotion \<Rightarrow> policy_result \<Rightarrow> time \<Rightarrow> grant list \<Rightarrow> expired_note list" where
  "expired_notes p result at grants =
     List.map_filter (\<lambda>g.
       if \<not> grant_covers g (pm_project p) (pm_environment p) (pm_release p) then None
       else if EffectivePhase g at \<noteq> GrantExpired then None
       else let covered = filter (WaivesRule g) (unmetRuleIDs result)
            in if covered = [] then None else Some (ExpiredNote (xc_name g) (xc_expires g) covered)) grants"

definition with_note :: "pass_script \<Rightarrow> promotion \<Rightarrow> evaluation \<Rightarrow> promotion_world \<Rightarrow> evaluation" where
  "with_note s p ev w =
     (if vr_verdict (ev_result ev) = VerdictBlocked \<and> sc_outcome s ListForNote = Answered then
        (case ev_message ev of
           BlockedBy d unmet _ \<Rightarrow> ev\<lparr>ev_message := BlockedBy d unmet (expired_notes p (ev_result ev) (sc_at s) (wd_grants w))\<rparr>
         | _ \<Rightarrow> ev)
      else ev)"

definition promotion_request :: "pass_script \<Rightarrow> promotion \<Rightarrow> evaluation_request" where
  "promotion_request s p = \<lparr>rq_kind = KindPromotion, rq_at = sc_at s, rq_snapshot = [], rq_requested = pm_requested p\<rparr>"

definition evaluate :: "policy_engine \<Rightarrow> pass_script \<Rightarrow> promotion \<Rightarrow> staged_project \<Rightarrow> target_env \<Rightarrow> release_object \<Rightarrow> (promotion_refusal + evaluation) pass" where
  "evaluate eng s p project env release =
     after (evaluate_requirements eng s (promotion_request s p) project env release) (\<lambda>answer.
       case answer of Inl r \<Rightarrow> give (Inl r) | Inr ev \<Rightarrow> (\<lambda>w. give (Inr (with_note s p ev w)) w))"

subsection \<open>The decision (policydecision.go)\<close>

definition hex_of :: "string \<Rightarrow> nat \<Rightarrow> nat \<Rightarrow> string" where
  "hex_of b lo hi = hex (take (hi - lo) (drop lo b))"

definition decisionIDFor :: "pass_script \<Rightarrow> string \<Rightarrow> string \<Rightarrow> string" where
  "decisionIDFor s kind uid =
     (if kind \<noteq> KindPromotion \<or> uid = [] then sc_random s
      else let digest = take 16 (sha256 (''kitchen-promotion-decision'' @ [CHR 0x00] @ uid));
               six = char_of (of_char (digest ! 6) mod 16 + 80 :: nat);
               eight = char_of (of_char (digest ! 8) mod 64 + 128 :: nat);
               b = digest[6 := six, 8 := eight]
           in hex_of b 0 4 @ ''-'' @ hex_of b 4 6 @ ''-'' @ hex_of b 6 8 @ ''-'' @ hex_of b 8 10 @ ''-'' @ hex_of b 10 16)"

definition waivers_of :: "policy_result \<Rightarrow> string list" where
  "waivers_of result = sort (remdups (map fr_exception (filter (\<lambda>r. fr_waived r \<and> fr_exception r \<noteq> []) (vr_fired result))))"

text \<open>The row of a decision is kept by its id: one that is there already stays as it is.\<close>

definition InsertDecision :: "string \<Rightarrow> string \<Rightarrow> promotion_world \<Rightarrow> promotion_world" where
  "InsertDecision decision verdict w =
     (if decision \<in> fst ` set (wd_decisions w) then w else w\<lparr>wd_decisions := wd_decisions w @ [(decision, verdict)]\<rparr>)"

definition record_decision :: "pass_script \<Rightarrow> string \<Rightarrow> string \<Rightarrow> evaluation \<Rightarrow> string pass" where
  "record_decision s about uid ev =
     (let input = ev_input ev; result = ev_result ev; decision = decisionIDFor s (in_kind input) uid
      in after (writing s LogDecision (log_that (DecisionMade (in_kind input) about (in_environment input) (in_release input)
             (vr_verdict result) decision (unmetRuleIDs result) (waivers_of result)))) (\<lambda>_ w.
         give decision (if sc_outcome s StoreDecision = Refused then w else InsertDecision decision (vr_verdict result) w)))"

definition waived_by :: "policy_result \<Rightarrow> string \<Rightarrow> string list" where
  "waived_by result name = map fr_rule (filter (\<lambda>r. fr_waived r \<and> fr_exception r = name) (vr_fired result))"

definition grant_named :: "string \<Rightarrow> promotion_world \<Rightarrow> grant option" where
  "grant_named name w = find (\<lambda>g. xc_name g = name) (wd_grants w)"

definition appendUsedBy :: "string \<Rightarrow> string \<Rightarrow> promotion_world \<Rightarrow> promotion_world" where
  "appendUsedBy name p w = w\<lparr>wd_grants := map (\<lambda>g. if xc_name g = name then g\<lparr>xc_used := xc_used g @ [p]\<rparr> else g) (wd_grants w)\<rparr>"

fun recordBreakGlass :: "pass_script \<Rightarrow> promotion \<Rightarrow> policy_result \<Rightarrow> string list \<Rightarrow> unit pass" where
  "recordBreakGlass s p result [] = give ()"
| "recordBreakGlass s p result (name # names) =
     after (reading s (GetGrant name) (grant_named name)) (\<lambda>g.
       case g of
         None \<Rightarrow> recordBreakGlass s p result names
       | Some g \<Rightarrow>
           if pm_name p \<in> set (xc_used g) then recordBreakGlass s p result names
           else after (writing s (LogBreakGlass name) (log_that (BreakGlassUsed (pm_name p) name (waived_by result name)))) (\<lambda>_.
                after (writing s (MarkUsed name) (appendUsedBy name (pm_name p))) (\<lambda>_.
                recordBreakGlass s p result names)))"

subsection \<open>The move\<close>

definition MaxReleaseHistory :: nat where "MaxReleaseHistory = 10"

definition RecordReleaseMove :: "target_env \<Rightarrow> string \<Rightarrow> move_reason \<Rightarrow> string \<Rightarrow> time \<Rightarrow> target_env option" where
  "RecordReleaseMove env outgoing reason by_name now =
     (if outgoing = [] then None
      else if te_history env \<noteq> [] \<and> mv_release (te_history env ! 0) = outgoing then None
      else let began = (if te_history env \<noteq> [] then mv_to (te_history env ! 0) else te_created env)
           in Some (env\<lparr>te_history := take MaxReleaseHistory (\<lparr>mv_release = outgoing, mv_from = began, mv_to = now,
               mv_reason = reason, mv_by = by_name\<rparr> # te_history env)\<rparr>))"

definition keep_env :: "target_env \<Rightarrow> promotion_world \<Rightarrow> promotion_world" where
  "keep_env env w = w\<lparr>wd_environments := (wd_environments w)(te_name env \<mapsto> env)\<rparr>"

definition StageIndex :: "promotion_stage list \<Rightarrow> string \<Rightarrow> nat option" where
  "StageIndex stages env =
     (let i = length (takeWhile (\<lambda>g. sg_environment g \<noteq> env) stages) in if i < length stages then Some i else None)"

definition NextStage :: "promotion_stage list \<Rightarrow> string \<Rightarrow> promotion_stage option" where
  "NextStage stages env =
     (case StageIndex stages env of
        None \<Rightarrow> None
      | Some i \<Rightarrow> if i + 1 \<ge> length stages then None else Some (stages ! (i + 1)))"

definition automaticPromotionName :: "string \<Rightarrow> string \<Rightarrow> string \<Rightarrow> string" where
  "automaticPromotionName project release env =
     take 46 project @ ''-promo-'' @ take 10 (hex (sha256 (release @ [CHR 0x00] @ env)))"

text \<open>The identity a new object gets is the API server's.\<close>

definition createAutomaticPromotion :: "pass_script \<Rightarrow> string \<Rightarrow> string \<Rightarrow> string \<Rightarrow> string \<Rightarrow> string \<Rightarrow> unit pass" where
  "createAutomaticPromotion s uid project env release requested =
     (let name = automaticPromotionName project release env;
          p = \<lparr>pm_name = name, pm_uid = uid, pm_deleting = False, pm_project = project, pm_environment = env, pm_release = release,
               pm_requested = requested, pm_trigger = PromotionAutomatic, pm_phase = PhaseNew, pm_verdict = [], pm_decision = [],
               pm_evaluated = None, pm_applied = None, pm_unmet = [], pm_message = NoMessage, pm_ready = None\<rparr>
      in after (reading s GetNext (\<lambda>w. wd_promotions w name)) (\<lambda>there.
         case there of
           Some _ \<Rightarrow> give ()
         | None \<Rightarrow>
             after (writing s LogNext (log_that (PromotionCreated name env release))) (\<lambda>_.
             writing s CreateNext (keep_promotion p))))"

definition promotionController :: string where "promotionController = ''system:controller/promotion''"

definition apply_move :: "pass_script \<Rightarrow> promotion \<Rightarrow> target_env \<Rightarrow> release_object \<Rightarrow> unit pass" where
  "apply_move s p env release =
     (if te_release env = ro_name release then give ()
      else let outgoing = te_release env; moved = env\<lparr>te_release := ro_name release\<rparr>
           in after (writing s LogMove (log_that (EnvironmentMoved (pm_name p) (te_name env) outgoing (ro_name release) (pm_verdict p) (pm_decision p)))) (\<lambda>_.
              after (writing s MoveEnvironment (keep_env moved)) (\<lambda>_.
              case RecordReleaseMove moved outgoing ReleaseMovePromoted (pm_name p) (sc_now s) of
                None \<Rightarrow> give ()
              | Some recorded \<Rightarrow> writing s KeepHistory (keep_env recorded))))"

definition apply_promotion :: "pass_script \<Rightarrow> string \<Rightarrow> promotion \<Rightarrow> staged_project \<Rightarrow> target_env \<Rightarrow> release_object \<Rightarrow> unit pass" where
  "apply_promotion s uid p project env release =
     after (apply_move s p env release) (\<lambda>_.
     after (case NextStage (jp_stages project) (te_name env) of
              Some g \<Rightarrow> if sg_auto g then createAutomaticPromotion s uid (jp_name project) (sg_environment g) (ro_name release) promotionController else give ()
            | None \<Rightarrow> give ()) (\<lambda>_.
     let applied = RunsRelease (te_name env) (ro_name release)
     in writing s SetApplied (keep_promotion (p\<lparr>pm_phase := PromotionApplied, pm_applied := Some (sc_now s),
          pm_message := (if pm_message p = NoMessage then applied else pm_message p), pm_ready := Some (True, ''Applied'')\<rparr>))))"

definition fail_promotion :: "pass_script \<Rightarrow> promotion \<Rightarrow> promotion_refusal \<Rightarrow> unit pass" where
  "fail_promotion s p r =
     after (writing s LogFailure (log_that (PromotionGaveUp (pm_name p) (pm_phase p) r))) (\<lambda>_.
     writing s SetFailed (keep_promotion (p\<lparr>pm_phase := PromotionFailed, pm_message := RefusedBecause r, pm_ready := Some (False, ''Failed'')\<rparr>)))"

subsection \<open>A pass\<close>

definition decided :: "pass_script \<Rightarrow> promotion \<Rightarrow> evaluation \<Rightarrow> string \<Rightarrow> promotion" where
  "decided s p ev decision =
     p\<lparr>pm_verdict := vr_verdict (ev_result ev), pm_decision := decision, pm_evaluated := Some (sc_now s),
       pm_unmet := unmetRuleIDs (ev_result ev), pm_message := ev_message ev\<rparr>"

definition act_on_verdict :: "pass_script \<Rightarrow> string \<Rightarrow> promotion \<Rightarrow> staged_project \<Rightarrow> target_env \<Rightarrow> release_object \<Rightarrow> unit pass" where
  "act_on_verdict s uid p project env release =
     (if pm_verdict p = VerdictBlocked then
        writing s SetVerdict (keep_promotion (p\<lparr>pm_phase := PromotionBlocked, pm_ready := Some (False, ''Blocked'')\<rparr>))
      else let allowed = p\<lparr>pm_phase := (if pm_verdict p = VerdictAllowedWithException then PromotionAllowedWithException else PromotionAllowed)\<rparr>
           in after (writing s SetVerdict (keep_promotion allowed)) (\<lambda>_. apply_promotion s uid allowed project env release))"

definition judge :: "policy_engine \<Rightarrow> pass_script \<Rightarrow> string \<Rightarrow> promotion \<Rightarrow> staged_project \<Rightarrow> target_env \<Rightarrow> release_object \<Rightarrow> unit pass" where
  "judge eng s uid p project env release =
     after (reading s GetKitchen (\<lambda>_. ())) (\<lambda>_.
     after (evaluate eng s p project env release) (\<lambda>answer.
       case answer of
         Inl r \<Rightarrow> fail_promotion s p r
       | Inr ev \<Rightarrow>
           after (record_decision s (pm_name p) (pm_uid p) ev) (\<lambda>decision.
           after (if vr_verdict (ev_result ev) = VerdictAllowedWithException
                  then recordBreakGlass s p (ev_result ev) (waivers_of (ev_result ev)) else give ()) (\<lambda>_.
           act_on_verdict s uid (decided s p ev decision) project env release))))"

definition terminal :: "promotion_phase \<Rightarrow> bool" where
  "terminal ph \<longleftrightarrow> ph \<in> {PromotionApplied, PromotionBlocked, PromotionFailed}"

definition drive :: "policy_engine \<Rightarrow> pass_script \<Rightarrow> string \<Rightarrow> promotion \<Rightarrow> unit pass" where
  "drive eng s uid p =
     after (resolve_references s p) (\<lambda>answer.
       case answer of
         Inl r \<Rightarrow> fail_promotion s p r
       | Inr (project, env, release) \<Rightarrow>
           if pm_phase p = PromotionAllowed \<or> pm_phase p = PromotionAllowedWithException then apply_promotion s uid p project env release
           else let p' = p\<lparr>pm_phase := PromotionEvaluating\<rparr>
                in after (if pm_phase p \<noteq> PromotionEvaluating then writing s SetEvaluating (keep_promotion p') else give ()) (\<lambda>_.
                   judge eng s uid p' project env release))"

definition Reconcile :: "policy_engine \<Rightarrow> pass_script \<Rightarrow> string \<Rightarrow> string \<Rightarrow> unit pass" where
  "Reconcile eng s uid name =
     after (reading s GetPromotion (\<lambda>w. wd_promotions w name)) (\<lambda>found.
       case found of
         None \<Rightarrow> give ()
       | Some p \<Rightarrow> if pm_deleting p then give () else if terminal (pm_phase p) then give () else drive eng s uid p)"

end
