(* ===== verification/PromotionGate.thy ===== *)
theory PromotionGate
  imports Promotion
begin

section \<open>What promotions may do to an environment\<close>

text \<open>
  Passes of the promotion reconciler, with any answers to their calls, interleaved with what the rest of the
  platform does between them. A small logic of passes carries the invariant: a triple says that whatever a
  pass is answered, what it leaves keeps the invariant, and that a pass that comes to its end also leaves
  its postcondition. With it: nothing moves without its decision, and with every call answered a promotion
  comes to an end in one pass.
\<close>

subsection \<open>A logic of passes\<close>

definition pass_triple :: "(promotion_world \<Rightarrow> bool) \<Rightarrow> (promotion_world \<Rightarrow> bool) \<Rightarrow> 'a pass \<Rightarrow> ('a \<Rightarrow> promotion_world \<Rightarrow> bool) \<Rightarrow> bool" where
  "pass_triple I P m Q \<longleftrightarrow> (\<forall>w. I w \<longrightarrow> P w \<longrightarrow> (case m w of (r, w') \<Rightarrow> I w' \<and> (\<forall>x. r = Some x \<longrightarrow> Q x w')))"

named_theorems pass_rules

lemma triple_give [pass_rules]: "(\<And>w. I w \<Longrightarrow> P w \<Longrightarrow> Q x w) \<Longrightarrow> pass_triple I P (give x) Q"
  by (simp add: pass_triple_def give_def)

lemma triple_after:
  assumes "pass_triple I P m R" "\<And>x. pass_triple I (R x) (f x) Q"
  shows "pass_triple I P (after m f) Q"
  unfolding pass_triple_def
proof (intro allI impI)
  fix w
  assume w: "I w" "P w"
  obtain r w1 where m: "m w = (r, w1)" by (cases "m w")
  with assms(1) w have one: "I w1" "\<And>x. r = Some x \<Longrightarrow> R x w1" by (auto simp: pass_triple_def)
  show "case after m f w of (r, w') \<Rightarrow> I w' \<and> (\<forall>x. r = Some x \<longrightarrow> Q x w')"
  proof (cases r)
    case None
    with m one show ?thesis by (simp add: after_def)
  next
    case (Some x)
    with assms(2) [of x] one show ?thesis by (simp add: after_def m pass_triple_def)
  qed
qed

lemma triple_reading: "(\<And>w. I w \<Longrightarrow> P w \<Longrightarrow> Q (f w) w) \<Longrightarrow> pass_triple I P (reading s c f) Q"
  by (auto simp: pass_triple_def reading_def split: call_outcome.splits)

lemma triple_writing:
  assumes "\<And>w. I w \<Longrightarrow> P w \<Longrightarrow> I (f w) \<and> Q () (f w)"
  shows "pass_triple I P (writing s c f) Q"
  using assms by (auto simp: pass_triple_def writing_def split: call_outcome.splits)

lemma triple_weaken: "pass_triple I P m Q \<Longrightarrow> (\<And>w. I w \<Longrightarrow> P' w \<Longrightarrow> P w) \<Longrightarrow> pass_triple I P' m Q"
  by (auto simp: pass_triple_def)

lemma triple_world: "(\<And>w. I w \<Longrightarrow> P w \<Longrightarrow> pass_triple I (\<lambda>w'. w' = w) m Q) \<Longrightarrow> pass_triple I P m Q"
  by (auto simp: pass_triple_def)

lemma triple_read_only:
  assumes "\<And>w. snd (m w) = w" "\<And>w x. I w \<Longrightarrow> P w \<Longrightarrow> fst (m w) = Some x \<Longrightarrow> Q x w"
  shows "pass_triple I P m Q"
proof -
  have "I w'" "r = Some x \<longrightarrow> Q x w'" if "I w" "P w" "m w = (r, w')" for w r w' x
    using assms [of w] that by auto
  then show ?thesis by (auto simp: pass_triple_def)
qed

subsection \<open>What the log must hold\<close>

definition break_glass_logged :: "log_entry list \<Rightarrow> string \<Rightarrow> string \<Rightarrow> bool" where
  "break_glass_logged log p name \<longleftrightarrow> (\<exists>rules. BreakGlassUsed p name rules \<in> set log)"

text \<open>A move of an environment that a log entitles a promotion to.\<close>

definition move_decided :: "log_entry list \<Rightarrow> string \<Rightarrow> string \<Rightarrow> string \<Rightarrow> string \<Rightarrow> string \<Rightarrow> bool" where
  "move_decided log p env release verdict decision \<longleftrightarrow>
     verdict \<in> {VerdictAllowed, VerdictAllowedWithException}
     \<and> (\<exists>waivers. DecisionMade KindPromotion p env release verdict decision [] waivers \<in> set log \<and> (\<forall>n \<in> set waivers. break_glass_logged log p n))"

definition log_sound :: "log_entry list \<Rightarrow> bool" where
  "log_sound log \<longleftrightarrow>
     (\<forall>before p env old new v i later. log = before @ EnvironmentMoved p env old new v i # later \<longrightarrow> move_decided before p env new v i)"

lemma break_glass_logged_mono: "break_glass_logged l p n \<Longrightarrow> set l \<subseteq> set l' \<Longrightarrow> break_glass_logged l' p n"
  unfolding break_glass_logged_def by blast

lemma move_decided_mono: "move_decided l p e r v i \<Longrightarrow> set l \<subseteq> set l' \<Longrightarrow> move_decided l' p e r v i"
  unfolding move_decided_def using break_glass_logged_mono by blast

lemma log_sound_nil: "log_sound []" by (simp add: log_sound_def)

lemma log_sound_append:
  assumes "log_sound l" "\<And>p env old new v i. x = EnvironmentMoved p env old new v i \<Longrightarrow> move_decided l p env new v i"
  shows "log_sound (l @ [x])"
  unfolding log_sound_def
proof (intro allI impI)
  fix before p env old new v i later
  assume eq: "l @ [x] = before @ EnvironmentMoved p env old new v i # later"
  show "move_decided before p env new v i"
  proof (cases later rule: rev_cases)
    case Nil
    with eq assms(2) show ?thesis by simp
  next
    case (snoc later' y)
    with eq have "l = before @ EnvironmentMoved p env old new v i # later'" by simp
    with assms(1) show ?thesis unfolding log_sound_def by blast
  qed
qed

lemma log_sound_appends:
  "log_sound l \<Longrightarrow> list_all (\<lambda>x. \<forall>p env old new v i. x \<noteq> EnvironmentMoved p env old new v i) es \<Longrightarrow> log_sound (l @ es)"
proof (induction es arbitrary: l)
  case (Cons e es)
  have "log_sound (l @ [e])" by (rule log_sound_append) (use Cons.prems in auto)
  from Cons.IH [OF this] Cons.prems show ?case by simp
qed simp

subsection \<open>The invariant\<close>

definition names_kept :: "promotion_world \<Rightarrow> bool" where
  "names_kept w \<longleftrightarrow> (\<forall>n p. wd_promotions w n = Some p \<longrightarrow> pm_name p = n) \<and> (\<forall>n e. wd_environments w n = Some e \<longrightarrow> te_name e = n)
     \<and> (\<forall>n r. wd_releases w n = Some r \<longrightarrow> ro_name r = n)"

definition cleared :: "promotion_phase \<Rightarrow> bool" where
  "cleared ph \<longleftrightarrow> ph = PromotionAllowed \<or> ph = PromotionAllowedWithException"

definition clearance :: "log_entry list \<Rightarrow> promotion \<Rightarrow> bool" where
  "clearance log p \<longleftrightarrow> (cleared (pm_phase p) \<longrightarrow> move_decided log (pm_name p) (pm_environment p) (pm_release p) (pm_verdict p) (pm_decision p))"

definition gate_inv :: "promotion_world \<Rightarrow> bool" where
  "gate_inv w \<longleftrightarrow> names_kept w \<and> log_sound (wd_log w)
     \<and> (\<forall>n p. wd_promotions w n = Some p \<longrightarrow> clearance (wd_log w) p)
     \<and> (\<forall>g \<in> set (wd_grants w). \<forall>p \<in> set (xc_used g). break_glass_logged (wd_log w) p (xc_name g))"

lemma clearance_mono: "clearance l p \<Longrightarrow> set l \<subseteq> set l' \<Longrightarrow> clearance l' p"
  unfolding clearance_def using move_decided_mono by blast

lemma gate_inv_log:
  assumes "gate_inv w" "\<And>p env old new v i. x = EnvironmentMoved p env old new v i \<Longrightarrow> move_decided (wd_log w) p env new v i"
  shows "gate_inv (log_that x w)"
proof -
  have "log_sound (wd_log w @ [x])" by (rule log_sound_append) (use assms in \<open>auto simp: gate_inv_def\<close>)
  moreover have "clearance (wd_log w @ [x]) p" if "wd_promotions w n = Some p" for n p
    by (rule clearance_mono [of "wd_log w"]) (use assms(1) that in \<open>auto simp: gate_inv_def\<close>)
  moreover have "break_glass_logged (wd_log w @ [x]) p (xc_name g)" if "g \<in> set (wd_grants w)" "p \<in> set (xc_used g)" for g p
    by (rule break_glass_logged_mono [of "wd_log w"]) (use assms(1) that in \<open>auto simp: gate_inv_def\<close>)
  ultimately show ?thesis using assms(1) by (simp add: gate_inv_def log_that_def names_kept_def)
qed

lemma gate_inv_keep: "gate_inv w \<Longrightarrow> clearance (wd_log w) p \<Longrightarrow> gate_inv (keep_promotion p w)"
  by (simp add: gate_inv_def keep_promotion_def names_kept_def)

lemma gate_inv_env: "gate_inv w \<Longrightarrow> gate_inv (keep_env e w)"
  by (simp add: gate_inv_def keep_env_def names_kept_def)

lemma gate_inv_insert: "gate_inv w \<Longrightarrow> gate_inv (InsertDecision d v w)"
  by (simp add: gate_inv_def InsertDecision_def names_kept_def)

lemma gate_inv_used: "gate_inv w \<Longrightarrow> break_glass_logged (wd_log w) p n \<Longrightarrow> gate_inv (appendUsedBy n p w)"
  by (auto simp: gate_inv_def appendUsedBy_def names_kept_def)


text \<open>Since a world, the environments that run another release do so by moves that were logged since.\<close>

definition moves_logged :: "promotion_world \<Rightarrow> string \<Rightarrow> promotion_world \<Rightarrow> bool" where
  "moves_logged w0 name w \<longleftrightarrow>
     (\<exists>es. wd_log w = wd_log w0 @ es
       \<and> (\<forall>n e'. wd_environments w n = Some e' \<longrightarrow>
            (\<exists>e. wd_environments w0 n = Some e \<and>
               (te_release e' = te_release e \<or> (\<exists>v i. EnvironmentMoved name n (te_release e) (te_release e') v i \<in> set es)))))"

definition pass_inv :: "promotion_world \<Rightarrow> string \<Rightarrow> promotion_world \<Rightarrow> bool" where
  "pass_inv w0 name w \<longleftrightarrow> gate_inv w \<and> moves_logged w0 name w"

lemma pass_inv_start: "gate_inv w \<Longrightarrow> pass_inv w name w"
  by (simp add: pass_inv_def moves_logged_def)

lemma moves_logged_env:
  assumes "moves_logged w0 name w" "wd_environments w' = wd_environments w" "wd_log w' = wd_log w @ es"
  shows "moves_logged w0 name w'"
proof -
  from assms(1) obtain fs where fs: "wd_log w = wd_log w0 @ fs" "\<forall>n e'. wd_environments w n = Some e' \<longrightarrow>
      (\<exists>e. wd_environments w0 n = Some e \<and> (te_release e' = te_release e \<or> (\<exists>v i. EnvironmentMoved name n (te_release e) (te_release e') v i \<in> set fs)))"
    unfolding moves_logged_def by blast
  show ?thesis
    unfolding moves_logged_def
  proof (intro exI [of _ "fs @ es"] conjI)
    show "wd_log w' = wd_log w0 @ fs @ es" using fs(1) assms(3) by simp
  qed (use fs(2) assms(2) in \<open>simp, blast\<close>)
qed

lemma pass_inv_log:
  assumes "pass_inv w0 name w" "\<And>p env old new v i. x = EnvironmentMoved p env old new v i \<Longrightarrow> move_decided (wd_log w) p env new v i"
  shows "pass_inv w0 name (log_that x w)"
proof -
  have "moves_logged w0 name (log_that x w)"
    by (rule moves_logged_env [of _ _ w]) (use assms(1) in \<open>simp_all add: pass_inv_def log_that_def\<close>)
  with gate_inv_log [of w x] assms show ?thesis by (simp add: pass_inv_def)
qed

lemma pass_inv_keep: "pass_inv w0 name w \<Longrightarrow> clearance (wd_log w) p \<Longrightarrow> pass_inv w0 name (keep_promotion p w)"
  using gate_inv_keep [of w p] moves_logged_env [of w0 name w "keep_promotion p w" "[]"] by (simp add: pass_inv_def keep_promotion_def)

lemma pass_inv_insert: "pass_inv w0 name w \<Longrightarrow> pass_inv w0 name (InsertDecision d v w)"
  using gate_inv_insert [of w d v] moves_logged_env [of w0 name w "InsertDecision d v w" "[]"] by (simp add: pass_inv_def InsertDecision_def)

lemma pass_inv_used: "pass_inv w0 name w \<Longrightarrow> break_glass_logged (wd_log w) p n \<Longrightarrow> pass_inv w0 name (appendUsedBy n p w)"
  using gate_inv_used [of w p n] moves_logged_env [of w0 name w "appendUsedBy n p w" "[]"] by (simp add: pass_inv_def appendUsedBy_def)

definition move_logged :: "promotion_world \<Rightarrow> string \<Rightarrow> target_env \<Rightarrow> string \<Rightarrow> promotion_world \<Rightarrow> bool" where
  "move_logged w0 name env new w \<longleftrightarrow>
     (\<exists>es v i. wd_log w = wd_log w0 @ es \<and> EnvironmentMoved name (te_name env) (te_release env) new v i \<in> set es)"

lemma pass_inv_move:
  assumes "pass_inv w0 name w" "wd_environments w0 (te_name env) = Some env" "move_logged w0 name env (te_release e) w" "te_name e = te_name env"
  shows "pass_inv w0 name (keep_env e w) \<and> move_logged w0 name env (te_release e) (keep_env e w)"
proof -
  obtain es where es: "wd_log w = wd_log w0 @ es" "\<forall>n e'. wd_environments w n = Some e' \<longrightarrow>
      (\<exists>e. wd_environments w0 n = Some e \<and> (te_release e' = te_release e \<or> (\<exists>v i. EnvironmentMoved name n (te_release e) (te_release e') v i \<in> set es)))"
    using assms(1) unfolding pass_inv_def moves_logged_def by blast
  obtain v i where vi: "EnvironmentMoved name (te_name env) (te_release env) (te_release e) v i \<in> set es"
    using assms(3) es(1) unfolding move_logged_def by auto
  have "moves_logged w0 name (keep_env e w)"
    unfolding moves_logged_def
    by (rule exI [of _ es]) (use es vi assms(2,4) in \<open>auto simp: keep_env_def\<close>)
  then show ?thesis using assms(1,3) gate_inv_env [of w e] by (simp add: pass_inv_def move_logged_def keep_env_def)
qed


subsection \<open>The stages of a pass\<close>

definition target_of :: "promotion_world \<Rightarrow> promotion \<Rightarrow> target_env \<Rightarrow> release_object \<Rightarrow> bool" where
  "target_of w0 p env release \<longleftrightarrow>
     wd_environments w0 (pm_environment p) = Some env \<and> te_name env = pm_environment p \<and> ro_name release = pm_release p"

abbreviation stage :: "promotion_world \<Rightarrow> string \<Rightarrow> (promotion_world \<Rightarrow> bool) \<Rightarrow> 'a pass \<Rightarrow> ('a \<Rightarrow> promotion_world \<Rightarrow> bool) \<Rightarrow> bool" where
  "stage w0 name \<equiv> pass_triple (pass_inv w0 name)"

definition entitled :: "promotion \<Rightarrow> promotion_world \<Rightarrow> bool" where
  "entitled p w \<longleftrightarrow> move_decided (wd_log w) (pm_name p) (pm_environment p) (pm_release p) (pm_verdict p) (pm_decision p)"

lemma pass_inv_log_of: "pass_inv w0 name w \<Longrightarrow> \<exists>es. wd_log w = wd_log w0 @ es"
  unfolding pass_inv_def moves_logged_def by blast

lemma move_stage:
  assumes t: "target_of w0 p env release"
  shows "stage w0 (pm_name p) (\<lambda>w. entitled p w) (apply_move s p env release) (\<lambda>_ _. True)"
proof (cases "te_release env = ro_name release")
  case True
  then show ?thesis by (simp add: apply_move_def triple_give)
next
  case False
  let ?logged = "move_logged w0 (pm_name p) env (ro_name release)"
  have env: "wd_environments w0 (te_name env) = Some env" "te_name env = pm_environment p" "ro_name release = pm_release p"
    using t by (simp_all add: target_of_def)
  have keep: "stage w0 (pm_name p) ?logged (writing s c (keep_env e)) (\<lambda>_. ?logged)"
    if "te_name e = te_name env" "te_release e = ro_name release" for c e
    by (rule triple_writing) (use pass_inv_move [OF _ env(1), of "pm_name p" _ e] that in auto)
  have log: "stage w0 (pm_name p) (entitled p)
    (writing s LogMove (log_that (EnvironmentMoved (pm_name p) (te_name env) (te_release env) (ro_name release) (pm_verdict p) (pm_decision p)))) (\<lambda>_. ?logged)"
  proof (rule triple_writing, rule conjI)
    fix w
    assume w: "pass_inv w0 (pm_name p) w" "entitled p w"
    show "pass_inv w0 (pm_name p) (log_that (EnvironmentMoved (pm_name p) (te_name env) (te_release env) (ro_name release) (pm_verdict p) (pm_decision p)) w)"
      by (rule pass_inv_log [OF w(1)]) (use w(2) env in \<open>simp add: entitled_def\<close>)
    show "?logged (log_that (EnvironmentMoved (pm_name p) (te_name env) (te_release env) (ro_name release) (pm_verdict p) (pm_decision p)) w)"
      using pass_inv_log_of [OF w(1)] unfolding move_logged_def log_that_def by fastforce
  qed
  have recorded: "te_name r = te_name e \<and> te_release r = te_release e" if "RecordReleaseMove e o1 reason by_name now = Some r" for e o1 reason by_name now r
    using that by (auto simp: RecordReleaseMove_def Let_def split: if_splits)
  show ?thesis
    unfolding apply_move_def Let_def if_not_P [OF False]
  proof (rule triple_after [OF log], rule triple_after [OF keep])
    let ?rec = "RecordReleaseMove (env\<lparr>te_release := ro_name release\<rparr>) (te_release env) ReleaseMovePromoted (pm_name p) (sc_now s)"
    show "stage w0 (pm_name p) ?logged (case ?rec of None \<Rightarrow> give () | Some recorded \<Rightarrow> writing s KeepHistory (keep_env recorded)) (\<lambda>_ _. True)"
    proof (cases ?rec)
      case None
      then show ?thesis by (simp add: triple_give)
    next
      case (Some r)
      have "stage w0 (pm_name p) ?logged (writing s KeepHistory (keep_env r)) (\<lambda>_. ?logged)"
        by (rule keep) (use recorded [OF Some] in simp_all)
      then show ?thesis by (auto simp: Some pass_triple_def)
    qed
  qed simp_all
qed

lemma next_stage_stage: "stage w0 name (\<lambda>_. True) (createAutomaticPromotion s uid project env release requested) (\<lambda>_ _. True)"
  unfolding createAutomaticPromotion_def Let_def
proof (rule triple_after [where R = "\<lambda>_ _. True"])
  fix there :: "promotion option"
  show "stage w0 name (\<lambda>_. True) (case there of None \<Rightarrow>
      after (writing s LogNext (log_that (PromotionCreated (automaticPromotionName project release env) env release)))
       (\<lambda>_. writing s CreateNext (keep_promotion \<lparr>pm_name = automaticPromotionName project release env, pm_uid = uid, pm_deleting = False,
          pm_project = project, pm_environment = env, pm_release = release, pm_requested = requested, pm_trigger = PromotionAutomatic,
          pm_phase = PhaseNew, pm_verdict = [], pm_decision = [], pm_evaluated = None, pm_applied = None, pm_unmet = [], pm_message = NoMessage, pm_ready = None\<rparr>))
    | Some _ \<Rightarrow> give ()) (\<lambda>_ _. True)"
    by (cases there) (auto simp: clearance_def cleared_def
        intro!: triple_give triple_after [where R = "\<lambda>_ _. True"] triple_writing pass_inv_log pass_inv_keep)
qed (simp add: triple_reading)

lemma apply_stage:
  assumes "target_of w0 p env release"
  shows "stage w0 (pm_name p) (entitled p) (apply_promotion s uid p project env release) (\<lambda>_ _. True)"
  unfolding apply_promotion_def Let_def
  by (rule triple_after [OF move_stage [OF assms]], rule triple_after [where R = "\<lambda>_ _. True"])
    (auto simp: clearance_def cleared_def split: option.splits intro!: triple_give next_stage_stage triple_writing pass_inv_keep)

lemma fail_stage: "stage w0 name P (fail_promotion s p r) (\<lambda>_ _. True)"
  unfolding fail_promotion_def
  by (rule triple_after [where R = "\<lambda>_ _. True"])
    (auto simp: clearance_def cleared_def intro!: triple_writing pass_inv_log pass_inv_keep)


subsection \<open>The evaluation changes nothing\<close>

definition read_only :: "'a pass \<Rightarrow> bool" where
  "read_only m \<longleftrightarrow> (\<forall>w. snd (m w) = w)"

lemma read_only_give [simp]: "read_only (give x)" by (simp add: read_only_def give_def)

lemma read_only_reading [simp]: "read_only (reading s c f)" by (simp add: read_only_def reading_def split: call_outcome.splits)

lemma read_only_after [intro]: "read_only m \<Longrightarrow> (\<And>x. read_only (f x)) \<Longrightarrow> read_only (after m f)"
  by (simp add: read_only_def after_def split: prod.splits option.splits) (metis snd_conv)

lemma after_Some: "fst (after m f w) = Some y \<Longrightarrow> read_only m \<Longrightarrow> \<exists>x. fst (m w) = Some x \<and> fst (f x w) = Some y"
  unfolding read_only_def after_def by (cases "m w") (auto split: option.splits, metis snd_conv)

lemma give_Some [simp]: "fst (give x w) = Some y \<longleftrightarrow> x = y" by (simp add: give_def)

lemma reading_Some: "fst (reading s c f w) = Some y \<Longrightarrow> y = f w" by (simp add: reading_def split: call_outcome.splits)

lemma read_only_option [intro]: "read_only m \<Longrightarrow> (\<And>x. read_only (f x)) \<Longrightarrow> read_only (case v of None \<Rightarrow> m | Some x \<Rightarrow> f x)"
  by (simp split: option.splits)

lemma resolve_reads: "read_only (resolve_references s p)"
  unfolding resolve_references_def by (intro read_only_after read_only_option) simp_all

lemma ask_bundle_reads: "read_only (ask_bundle eng s rq project env release d bundle)"
  unfolding ask_bundle_def Let_def by (intro read_only_after) (simp_all split: sum.splits)

lemma requirements_read: "read_only (evaluate_requirements eng s rq project env release)"
proof -
  have "read_only (ask_requirements eng s rq project env release)"
    using ask_bundle_reads [of eng s rq project env release]
    unfolding ask_requirements_def read_only_def give_def by (simp split: option.splits sum.splits)
  then show ?thesis unfolding evaluate_requirements_def by (intro read_only_after) simp_all
qed

lemma evaluate_reads: "read_only (evaluate eng s p project env release)"
  unfolding evaluate_def
  by (rule read_only_after [OF requirements_read]) (auto simp: read_only_def give_def split: sum.splits)

subsection \<open>What an evaluation answers\<close>

definition has_grant :: "promotion_world \<Rightarrow> string \<Rightarrow> bool" where
  "has_grant w n \<longleftrightarrow> n \<in> xc_name ` set (wd_grants w)"

lemma granted_log_that [simp]: "has_grant (log_that x w) = has_grant w"
  by (simp add: has_grant_def log_that_def fun_eq_iff)

lemma granted_used [simp]: "has_grant (appendUsedBy n p w) = has_grant w"
proof -
  have "map xc_name (wd_grants (appendUsedBy n p w)) = map xc_name (wd_grants w)" by (simp add: appendUsedBy_def)
  then show ?thesis unfolding has_grant_def fun_eq_iff by (metis list.set_map)
qed

lemma granted_insert [simp]: "has_grant (InsertDecision d v w) = has_grant w"
  by (simp add: has_grant_def InsertDecision_def fun_eq_iff)

lemma granted_named: "grant_named n w = None \<longleftrightarrow> \<not> has_grant w n"
  by (auto simp: grant_named_def has_grant_def find_None_iff)

lemma grant_named_Some: "grant_named n w = Some g \<Longrightarrow> g \<in> set (wd_grants w) \<and> xc_name g = n"
  by (auto simp: grant_named_def find_Some_iff)

definition answers_for :: "string \<Rightarrow> target_env \<Rightarrow> release_object \<Rightarrow> evaluation \<Rightarrow> promotion_world \<Rightarrow> bool" where
  "answers_for kind env release ev w \<longleftrightarrow>
     in_kind (ev_input ev) = kind \<and> in_environment (ev_input ev) = te_name env \<and> in_release (ev_input ev) = ro_name release
     \<and> vr_verdict (ev_result ev) = verdictOf (vr_fired (ev_result ev)) \<and> list_all (has_grant w) (waivers_of (ev_result ev))"

lemma verdictOf_cases: "verdictOf fired \<in> {VerdictAllowed, VerdictAllowedWithException, VerdictBlocked}"
  by (simp add: verdictOf_def)

lemma verdictOf_unmet:
  assumes "verdictOf (vr_fired res) \<noteq> VerdictBlocked"
  shows "unmetRuleIDs res = []"
  using assms by (auto simp: verdictOf_def unmetRuleIDs_def list_ex_iff filter_empty_conv split: if_splits)

lemma verdictOf_waivers: "verdictOf (vr_fired res) = VerdictAllowed \<Longrightarrow> waivers_of res = []"
  by (simp add: verdictOf_def waivers_of_def verdict_defs split: if_splits)

lemma waivers_granted:
  assumes "Evaluate_bundle rego b input = Inr res" "in_exceptions input = PolicyExceptions (ActiveExceptionsFor (wd_grants w) project env release at)"
  shows "list_all (has_grant w) (waivers_of res)"
proof -
  from Evaluate_bundle_Inr [OF assms(1)] obtain results fired where r:
    "firedFrom results = Inr fired" "vr_fired res = ApplyExceptions fired (in_exceptions input) (in_at input)" by blast
  have "has_grant w (fr_exception f)" if "f \<in> set (vr_fired res)" "fr_waived f" for f
  proof -
    from that(1) obtain f0 where f0: "f0 \<in> set fired" "f = waive (in_at input) (in_exceptions input) f0"
      by (auto simp: r(2) ApplyExceptions_def)
    have "\<not> fr_waived f0" using firedFrom_fresh [OF r(1)] f0(1) by (simp add: list_all_iff)
    from waive_by [OF this] that(2) f0(2) obtain x where x: "x \<in> set (in_exceptions input)" "fr_exception f = px_name x" by blast
    then show ?thesis unfolding assms(2) by (auto simp: PolicyExceptions_def ActiveExceptionsFor_def has_grant_def)
  qed
  then show ?thesis by (auto simp: list_all_iff waivers_of_def)
qed

lemma ask_bundle_answer:
  assumes "fst (ask_bundle eng s rq project env release d bundle w) = Some (Inr ev)"
  shows "answers_for (rq_kind rq) env release ev w"
proof -
  let ?grants = "ActiveExceptionsFor (wd_grants w) (te_project env) (te_name env) (ro_name release) (rq_at rq)"
  let ?input = "materialized s rq project env release ?grants"
  from assms obtain res where res: "Evaluate_bundle (pe_rego eng) bundle ?input = Inr res" "ev_input ev = ?input" "ev_result ev = res"
    unfolding ask_bundle_def Let_def by (auto dest!: after_Some reading_Some split: sum.splits)
  have "vr_verdict res = verdictOf (vr_fired res)" using Evaluate_bundle_Inr [OF res(1)] by blast
  moreover have "list_all (has_grant w) (waivers_of res)" by (rule waivers_granted [OF res(1)]) (simp add: materialized_def)
  ultimately show ?thesis by (simp add: answers_for_def res materialized_def)
qed

lemma requirements_answer:
  assumes "fst (evaluate_requirements eng s rq project env release w) = Some (Inr ev)"
  shows "answers_for (rq_kind rq) env release ev w"
proof -
  from assms have "fst (ask_requirements eng s rq project env release w) = Some (Inr ev)"
    unfolding evaluate_requirements_def by (auto dest!: after_Some)
  then show ?thesis
    unfolding ask_requirements_def
    by (auto simp: answers_for_def materialized_def verdictOf_def waivers_of_def dest: ask_bundle_answer [unfolded answers_for_def]
        split: option.splits sum.splits)
qed

lemma evaluate_answer:
  assumes "fst (evaluate eng s p project env release w) = Some (Inr ev)"
  shows "answers_for KindPromotion env release ev w"
proof -
  from after_Some [OF assms [unfolded evaluate_def] requirements_read] obtain a where a:
    "fst (evaluate_requirements eng s (promotion_request s p) project env release w) = Some a"
    "fst ((case a of Inl r \<Rightarrow> give (Inl r) | Inr ev \<Rightarrow> (\<lambda>w. give (Inr (with_note s p ev w)) w)) w) = Some (Inr ev)" by blast
  then obtain ev0 where ev0: "a = Inr ev0" "ev = with_note s p ev0 w" by (cases a) auto
  have "ev_input ev = ev_input ev0 \<and> ev_result ev = ev_result ev0"
    by (auto simp: ev0(2) with_note_def split: promotion_message.splits)
  with requirements_answer [of eng s "promotion_request s p" project env release w ev0] a(1) ev0(1) show ?thesis by (simp add: answers_for_def promotion_request_def)
qed


subsection \<open>Recording and judging\<close>

definition decision_logged :: "promotion \<Rightarrow> evaluation \<Rightarrow> string \<Rightarrow> promotion_world \<Rightarrow> bool" where
  "decision_logged p ev decision w \<longleftrightarrow>
     DecisionMade KindPromotion (pm_name p) (pm_environment p) (pm_release p) (vr_verdict (ev_result ev)) decision
       (unmetRuleIDs (ev_result ev)) (waivers_of (ev_result ev)) \<in> set (wd_log w)"

lemma record_stage:
  assumes t: "target_of w0 p env release"
  shows "stage w0 name (answers_for KindPromotion env release ev) (record_decision s (pm_name p) (pm_uid p) ev)
    (\<lambda>decision w. answers_for KindPromotion env release ev w \<and> decision_logged p ev decision w)"
  unfolding record_decision_def Let_def
proof (rule triple_after)
  let ?d = "decisionIDFor s (in_kind (ev_input ev)) (pm_uid p)"
  let ?R = "\<lambda>w. answers_for KindPromotion env release ev w \<and> decision_logged p ev ?d w"
  show "stage w0 name (answers_for KindPromotion env release ev) (writing s LogDecision (log_that (DecisionMade (in_kind (ev_input ev)) (pm_name p) (in_environment (ev_input ev))
      (in_release (ev_input ev)) (vr_verdict (ev_result ev)) ?d (unmetRuleIDs (ev_result ev)) (waivers_of (ev_result ev))))) (\<lambda>_. ?R)"
  proof (rule triple_writing, rule conjI)
    fix w
    assume w: "pass_inv w0 name w" "answers_for KindPromotion env release ev w"
    show "pass_inv w0 name (log_that (DecisionMade (in_kind (ev_input ev)) (pm_name p) (in_environment (ev_input ev))
      (in_release (ev_input ev)) (vr_verdict (ev_result ev)) ?d (unmetRuleIDs (ev_result ev)) (waivers_of (ev_result ev))) w)"
      by (rule pass_inv_log [OF w(1)]) simp
    show "?R (log_that (DecisionMade (in_kind (ev_input ev)) (pm_name p) (in_environment (ev_input ev))
      (in_release (ev_input ev)) (vr_verdict (ev_result ev)) ?d (unmetRuleIDs (ev_result ev)) (waivers_of (ev_result ev))) w)"
      using w(2) t unfolding answers_for_def by (simp add: decision_logged_def target_of_def) (simp add: log_that_def)
  qed
  fix u :: unit
  show "stage w0 name ?R (\<lambda>w. give ?d (if sc_outcome s StoreDecision = Refused then w else InsertDecision ?d (vr_verdict (ev_result ev)) w))
    (\<lambda>decision w. answers_for KindPromotion env release ev w \<and> decision_logged p ev decision w)"
    unfolding pass_triple_def give_def
  proof (intro allI impI)
    fix w
    assume w: "pass_inv w0 name w" "?R w"
    let ?w = "if sc_outcome s StoreDecision = Refused then w else InsertDecision ?d (vr_verdict (ev_result ev)) w"
    have same: "has_grant ?w = has_grant w" "wd_log ?w = wd_log w" by (simp, simp add: InsertDecision_def)
    have "pass_inv w0 name ?w" using pass_inv_insert [OF w(1)] w(1) by simp
    moreover have "answers_for KindPromotion env release ev ?w" using w(2) unfolding answers_for_def same by blast
    moreover have "decision_logged p ev ?d ?w" using w(2) unfolding decision_logged_def same by blast
    ultimately show "case (Some ?d, ?w) of (r, w') \<Rightarrow> pass_inv w0 name w' \<and> (\<forall>x. r = Some x \<longrightarrow> answers_for KindPromotion env release ev w' \<and> decision_logged p ev x w')"
      by simp
  qed
qed

definition uses_logged :: "promotion \<Rightarrow> string list \<Rightarrow> promotion_world \<Rightarrow> bool" where
  "uses_logged p names w \<longleftrightarrow> list_all (break_glass_logged (wd_log w) (pm_name p)) names"

lemma break_glass_stage:
  "stage w0 name (\<lambda>w. decision_logged p ev d w \<and> list_all (has_grant w) names \<and> uses_logged p past w)
     (recordBreakGlass s p (ev_result ev) names) (\<lambda>_ w. decision_logged p ev d w \<and> uses_logged p (names @ past) w)"
proof (induction names arbitrary: past)
  case Nil
  show ?case by (simp add: triple_give)
next
  case (Cons n names)
  let ?R = "\<lambda>g w. decision_logged p ev d w \<and> list_all (has_grant w) names \<and> uses_logged p past w \<and> grant_named n w = g \<and> g \<noteq> None"
  let ?S = "\<lambda>w. decision_logged p ev d w \<and> list_all (has_grant w) names \<and> uses_logged p (n # past) w"
  have rest: "stage w0 name ?S (recordBreakGlass s p (ev_result ev) names) (\<lambda>_ w. decision_logged p ev d w \<and> uses_logged p ((n # names) @ past) w)"
    using Cons.IH [of "n # past"] by (simp add: pass_triple_def uses_logged_def ac_simps case_prod_beta)
  have read: "stage w0 name (\<lambda>w. decision_logged p ev d w \<and> list_all (has_grant w) (n # names) \<and> uses_logged p past w)
      (reading s (GetGrant n) (grant_named n)) ?R"
    by (rule triple_reading) (auto simp: granted_named)
  show ?case
    unfolding recordBreakGlass.simps
  proof (rule triple_after [OF read])
    fix found
    show "stage w0 name (?R found) (case found of None \<Rightarrow> recordBreakGlass s p (ev_result ev) names
       | Some g \<Rightarrow> if pm_name p \<in> set (xc_used g) then recordBreakGlass s p (ev_result ev) names
           else after (writing s (LogBreakGlass n) (log_that (BreakGlassUsed (pm_name p) n (waived_by (ev_result ev) n))))
             (\<lambda>_. after (writing s (MarkUsed n) (appendUsedBy n (pm_name p))) (\<lambda>_. recordBreakGlass s p (ev_result ev) names)))
       (\<lambda>_ w. decision_logged p ev d w \<and> uses_logged p ((n # names) @ past) w)"
    proof (cases found)
      case None
      then show ?thesis by (simp add: pass_triple_def)
    next
      case (Some g)
      show ?thesis
      proof (cases "pm_name p \<in> set (xc_used g)")
        case True
        have "stage w0 name (?R found) (recordBreakGlass s p (ev_result ev) names) (\<lambda>_ w. decision_logged p ev d w \<and> uses_logged p ((n # names) @ past) w)"
          by (rule triple_weaken [OF rest])
            (use True Some grant_named_Some in \<open>fastforce simp: pass_inv_def gate_inv_def uses_logged_def\<close>)
        then show ?thesis using True Some by simp
      next
        case False
        have log: "stage w0 name (?R found) (writing s (LogBreakGlass n) (log_that (BreakGlassUsed (pm_name p) n (waived_by (ev_result ev) n)))) (\<lambda>_. ?S)"
        proof (rule triple_writing, rule conjI)
          fix w
          assume w: "pass_inv w0 name w" "?R found w"
          show "pass_inv w0 name (log_that (BreakGlassUsed (pm_name p) n (waived_by (ev_result ev) n)) w)"
            by (rule pass_inv_log [OF w(1)]) simp
          show "?S (log_that (BreakGlassUsed (pm_name p) n (waived_by (ev_result ev) n)) w)"
            using w(2) by (auto simp: decision_logged_def uses_logged_def) (auto simp: log_that_def break_glass_logged_def list_all_iff)
        qed
        have mark: "stage w0 name ?S (writing s (MarkUsed n) (appendUsedBy n (pm_name p))) (\<lambda>_. ?S)"
        proof (rule triple_writing, rule conjI)
          fix w
          assume w: "pass_inv w0 name w" "?S w"
          show "pass_inv w0 name (appendUsedBy n (pm_name p) w)" by (rule pass_inv_used [OF w(1)]) (use w(2) in \<open>simp add: uses_logged_def\<close>)
          show "?S (appendUsedBy n (pm_name p) w)"
            using w(2) by (simp add: decision_logged_def uses_logged_def) (simp add: appendUsedBy_def)
        qed
        have "stage w0 name (?R found) (after (writing s (LogBreakGlass n) (log_that (BreakGlassUsed (pm_name p) n (waived_by (ev_result ev) n))))
             (\<lambda>_. after (writing s (MarkUsed n) (appendUsedBy n (pm_name p))) (\<lambda>_. recordBreakGlass s p (ev_result ev) names)))
             (\<lambda>_ w. decision_logged p ev d w \<and> uses_logged p ((n # names) @ past) w)"
          by (rule triple_after [OF log], rule triple_after [OF mark rest])
        then show ?thesis using False Some by simp
      qed
    qed
  qed
qed


lemma act_stage:
  assumes "target_of w0 q env release"
  shows "stage w0 (pm_name q) (\<lambda>w. pm_verdict q \<noteq> VerdictBlocked \<longrightarrow> entitled q w) (act_on_verdict s uid q project env release) (\<lambda>_ _. True)"
proof (cases "pm_verdict q = VerdictBlocked")
  case True
  then show ?thesis
    by (auto simp: act_on_verdict_def clearance_def cleared_def intro!: triple_writing pass_inv_keep)
next
  case False
  let ?a = "q\<lparr>pm_phase := (if pm_verdict q = VerdictAllowedWithException then PromotionAllowedWithException else PromotionAllowed)\<rparr>"
  have "target_of w0 ?a env release" using assms by (simp add: target_of_def)
  from apply_stage [OF this] have move: "stage w0 (pm_name q) (entitled ?a) (apply_promotion s uid ?a project env release) (\<lambda>_ _. True)" by simp
  have "stage w0 (pm_name q) (entitled q) (writing s SetVerdict (keep_promotion ?a)) (\<lambda>_. entitled ?a)"
  proof (rule triple_writing, rule conjI)
    fix w
    assume w: "pass_inv w0 (pm_name q) w" "entitled q w"
    show "pass_inv w0 (pm_name q) (keep_promotion ?a w)" by (rule pass_inv_keep [OF w(1)]) (use w(2) in \<open>simp add: clearance_def entitled_def\<close>)
    show "entitled ?a (keep_promotion ?a w)" using w(2) by (simp add: entitled_def keep_promotion_def)
  qed
  then have "stage w0 (pm_name q) (entitled q) (act_on_verdict s uid q project env release) (\<lambda>_ _. True)"
    unfolding act_on_verdict_def Let_def if_not_P [OF False] by (rule triple_after) (rule move)
  then show ?thesis by (rule triple_weaken) (use False in simp)
qed

lemma evaluate_stage:
  "stage w0 name P (evaluate eng s p project env release) (\<lambda>a w. case a of Inl _ \<Rightarrow> True | Inr ev \<Rightarrow> answers_for KindPromotion env release ev w)"
  by (rule triple_read_only)
    (use evaluate_reads [of eng s p project env release] evaluate_answer [of eng s p project env release] in \<open>auto simp: read_only_def split: sum.splits\<close>)

lemma decided_entitled:
  assumes "vr_verdict (ev_result ev) = verdictOf (vr_fired (ev_result ev))" "vr_verdict (ev_result ev) \<noteq> VerdictBlocked"
    and "decision_logged p ev d w" "vr_verdict (ev_result ev) = VerdictAllowedWithException \<longrightarrow> uses_logged p (waivers_of (ev_result ev)) w"
  shows "entitled (decided s p ev d) w"
proof -
  have "vr_verdict (ev_result ev) \<in> {VerdictAllowed, VerdictAllowedWithException}"
    using verdictOf_cases [of "vr_fired (ev_result ev)"] assms(1,2) by auto
  moreover have "unmetRuleIDs (ev_result ev) = []" using verdictOf_unmet [of "ev_result ev"] assms(1,2) by simp
  moreover have "list_all (break_glass_logged (wd_log w) (pm_name p)) (waivers_of (ev_result ev))"
    using calculation(1) verdictOf_waivers [of "ev_result ev"] assms(1,4) by (auto simp: uses_logged_def)
  ultimately show ?thesis using assms(3) by (auto simp: entitled_def decided_def move_decided_def decision_logged_def list_all_iff)
qed

lemma judge_stage:
  assumes t: "target_of w0 p env release"
  shows "stage w0 (pm_name p) (\<lambda>_. True) (judge eng s uid p project env release) (\<lambda>_ _. True)"
  unfolding judge_def
proof (rule triple_after [where R = "\<lambda>_ _. True"], rule triple_reading, rule TrueI, rule triple_after [OF evaluate_stage])
  fix answer
  show "stage w0 (pm_name p) (\<lambda>w. case answer of Inl _ \<Rightarrow> True | Inr ev \<Rightarrow> answers_for KindPromotion env release ev w)
     (case answer of Inl r \<Rightarrow> fail_promotion s p r | Inr ev \<Rightarrow>
        after (record_decision s (pm_name p) (pm_uid p) ev) (\<lambda>decision.
        after (if vr_verdict (ev_result ev) = VerdictAllowedWithException then recordBreakGlass s p (ev_result ev) (waivers_of (ev_result ev)) else give ())
          (\<lambda>_. act_on_verdict s uid (decided s p ev decision) project env release))) (\<lambda>_ _. True)"
  proof (cases answer)
    case (Inl r)
    then show ?thesis by (simp add: fail_stage)
  next
    case (Inr ev)
    let ?res = "ev_result ev"
    let ?ok = "\<lambda>d w. decision_logged p ev d w \<and> (vr_verdict ?res = VerdictAllowedWithException \<longrightarrow> uses_logged p (waivers_of ?res) w)"
    let ?sound = "vr_verdict ?res = verdictOf (vr_fired ?res)"
    have glass: "stage w0 (pm_name p) (\<lambda>w. answers_for KindPromotion env release ev w \<and> decision_logged p ev d w)
        (if vr_verdict ?res = VerdictAllowedWithException then recordBreakGlass s p ?res (waivers_of ?res) else give ()) (\<lambda>_. ?ok d)" for d
    proof (cases "vr_verdict ?res = VerdictAllowedWithException")
      case True
      have "stage w0 (pm_name p) (\<lambda>w. answers_for KindPromotion env release ev w \<and> decision_logged p ev d w)
          (recordBreakGlass s p ?res (waivers_of ?res)) (\<lambda>_ w. decision_logged p ev d w \<and> uses_logged p (waivers_of ?res @ []) w)"
        by (rule triple_weaken [OF break_glass_stage]) (simp add: answers_for_def uses_logged_def)
      with True show ?thesis by (simp add: pass_triple_def case_prod_beta)
    next
      case False
      then show ?thesis by (auto intro!: triple_give)
    qed
    have act: "stage w0 (pm_name p) (?ok d) (act_on_verdict s uid (decided s p ev d) project env release) (\<lambda>_ _. True)" if ?sound for d
    proof -
      have "target_of w0 (decided s p ev d) env release" using t by (simp add: target_of_def decided_def)
      from act_stage [OF this, of s uid project] have "stage w0 (pm_name p) (\<lambda>w. vr_verdict ?res \<noteq> VerdictBlocked \<longrightarrow> entitled (decided s p ev d) w)
          (act_on_verdict s uid (decided s p ev d) project env release) (\<lambda>_ _. True)" by (simp add: decided_def)
      then show ?thesis by (rule triple_weaken) (use decided_entitled [OF that] in blast)
    qed
    show ?thesis
    proof (cases ?sound)
      case True
      show ?thesis unfolding Inr sum.case
        by (rule triple_after [OF record_stage [OF t]], rule triple_after [OF glass act [OF True]])
    next
      case False
      then show ?thesis unfolding Inr sum.case by (simp add: pass_triple_def answers_for_def)
    qed
  qed
qed


lemma resolve_answer:
  assumes "fst (resolve_references s p w) = Some (Inr (project, env, release))"
  shows "wd_environments w (pm_environment p) = Some env \<and> wd_releases w (pm_release p) = Some release \<and> wd_projects w (pm_project p) = Some project"
  using assms unfolding resolve_references_def
  by (auto dest!: after_Some reading_Some split: option.splits if_splits)

lemma drive_stage: "stage w0 (pm_name p) (\<lambda>w. w = w0 \<and> clearance (wd_log w) p) (drive eng s uid p) (\<lambda>_ _. True)"
  unfolding drive_def
proof (rule triple_after)
  let ?R = "\<lambda>a w. (\<forall>project env release. a = Inr (project, env, release) \<longrightarrow> target_of w0 p env release) \<and> clearance (wd_log w) p"
  have "target_of w p env release" if "gate_inv w" "fst (resolve_references s p w) = Some (Inr (project, env, release))" for w project env release
    using that resolve_answer [OF that(2)] unfolding gate_inv_def names_kept_def target_of_def by blast
  then show "stage w0 (pm_name p) (\<lambda>w. w = w0 \<and> clearance (wd_log w) p) (resolve_references s p) ?R"
    by (intro triple_read_only) (use resolve_reads [of s p] in \<open>auto simp: read_only_def pass_inv_def\<close>)
  fix answer
  show "stage w0 (pm_name p) (?R answer) (case answer of Inl r \<Rightarrow> fail_promotion s p r
     | Inr (project, env, release) \<Rightarrow>
         if pm_phase p = PromotionAllowed \<or> pm_phase p = PromotionAllowedWithException then apply_promotion s uid p project env release
         else let p' = p\<lparr>pm_phase := PromotionEvaluating\<rparr>
              in after (if pm_phase p \<noteq> PromotionEvaluating then writing s SetEvaluating (keep_promotion p') else give ())
                (\<lambda>_. judge eng s uid p' project env release)) (\<lambda>_ _. True)"
  proof (cases answer)
    case (Inl r)
    then show ?thesis by (simp add: fail_stage)
  next
    case (Inr found)
    obtain project env release where found: "found = (project, env, release)" by (cases found)
    show ?thesis
    proof (cases "target_of w0 p env release")
      case False
      then show ?thesis by (simp add: Inr found pass_triple_def)
    next
      case t: True
      show ?thesis
      proof (cases "cleared (pm_phase p)")
        case True
        have "stage w0 (pm_name p) (?R answer) (apply_promotion s uid p project env release) (\<lambda>_ _. True)"
          by (rule triple_weaken [OF apply_stage [OF t]]) (use True in \<open>simp add: clearance_def entitled_def\<close>)
        then show ?thesis using True by (simp add: Inr found cleared_def)
      next
        case False
        let ?p = "p\<lparr>pm_phase := PromotionEvaluating\<rparr>"
        have t': "target_of w0 ?p env release" using t by (simp add: target_of_def)
        have "stage w0 (pm_name p) (?R answer) (after (if pm_phase p \<noteq> PromotionEvaluating then writing s SetEvaluating (keep_promotion ?p) else give ())
                (\<lambda>_. judge eng s uid ?p project env release)) (\<lambda>_ _. True)"
          by (rule triple_after [where R = "\<lambda>_ _. True"])
            (use judge_stage [OF t'] in \<open>auto simp: clearance_def cleared_def intro!: triple_give triple_writing pass_inv_keep\<close>)
        then show ?thesis using False by (simp add: Inr found cleared_def Let_def)
      qed
    qed
  qed
qed

lemma Reconcile_inv:
  assumes "gate_inv w"
  shows "pass_inv w name (snd (Reconcile eng s uid name w))"
proof (cases "sc_outcome s GetPromotion = Answered")
  case False
  then show ?thesis using pass_inv_start [OF assms] by (cases "sc_outcome s GetPromotion") (simp_all add: Reconcile_def after_def reading_def)
next
  case True
  show ?thesis
  proof (cases "wd_promotions w name")
    case None
    then show ?thesis using True pass_inv_start [OF assms] by (simp add: Reconcile_def after_def reading_def give_def)
  next
    case (Some p)
    have p: "pm_name p = name" "clearance (wd_log w) p" using assms Some by (auto simp: gate_inv_def names_kept_def)
    have "pass_inv w name (snd (drive eng s uid p w))"
      using drive_stage [of w p eng s uid] pass_inv_start [OF assms] p by (simp add: pass_triple_def case_prod_beta)
    then show ?thesis using True Some pass_inv_start [OF assms] by (simp add: Reconcile_def after_def reading_def give_def)
  qed
qed

subsection \<open>The platform around it\<close>

text \<open>
  What the rest of the platform does between passes: it asks for promotions, deletes them, moves and edits
  environments, releases, projects, bundles and grants as it likes. It does not write a promotion's status
  nor its immutable spec, a grant starts without uses and its uses are the promotion reconciler's, and no
  other writer logs a promotion's moves, decisions or break-glass uses.
\<close>

definition foreign_entry :: "log_entry \<Rightarrow> bool" where
  "foreign_entry e = (case e of
       DecisionMade kind _ _ _ _ _ _ _ \<Rightarrow> kind \<noteq> KindPromotion
     | BreakGlassUsed _ _ _ \<Rightarrow> False
     | EnvironmentMoved _ _ _ _ _ _ \<Rightarrow> False
     | PromotionGaveUp _ _ _ \<Rightarrow> False
     | _ \<Rightarrow> True)"

definition elsewhere :: "promotion_world \<Rightarrow> promotion_world \<Rightarrow> bool" where
  "elsewhere w w' \<longleftrightarrow>
     names_kept w'
     \<and> (\<forall>n p. wd_promotions w' n = Some p \<longrightarrow>
          pm_phase p = PhaseNew \<or> wd_promotions w n = Some p \<or> (\<exists>q. wd_promotions w n = Some q \<and> p = q\<lparr>pm_deleting := True\<rparr>))
     \<and> (\<forall>g \<in> set (wd_grants w'). xc_used g = [] \<or> (\<exists>h \<in> set (wd_grants w). xc_name h = xc_name g \<and> xc_used h = xc_used g))
     \<and> (\<exists>es. wd_log w' = wd_log w @ es \<and> list_all foreign_entry es)"

inductive promotion_step :: "policy_engine \<Rightarrow> promotion_world \<Rightarrow> promotion_world \<Rightarrow> bool" for eng where
  pass: "promotion_step eng w (snd (Reconcile eng s uid name w))"
| others: "elsewhere w w' \<Longrightarrow> promotion_step eng w w'"

definition promotions_start :: "promotion_world \<Rightarrow> bool" where
  "promotions_start w \<longleftrightarrow> names_kept w \<and> (\<forall>p \<in> ran (wd_promotions w). pm_phase p = PhaseNew) \<and> wd_log w = []
     \<and> (\<forall>g \<in> set (wd_grants w). xc_used g = [])"

inductive promotion_reachable :: "policy_engine \<Rightarrow> promotion_world \<Rightarrow> bool" for eng where
  start: "promotions_start w \<Longrightarrow> promotion_reachable eng w"
| step: "promotion_reachable eng w \<Longrightarrow> promotion_step eng w w' \<Longrightarrow> promotion_reachable eng w'"

lemma elsewhere_inv:
  assumes "gate_inv w" "elsewhere w w'"
  shows "gate_inv w'"
proof -
  from assms(2) obtain es where es: "wd_log w' = wd_log w @ es" "list_all foreign_entry es"
    unfolding elsewhere_def by blast
  have sub: "set (wd_log w) \<subseteq> set (wd_log w')" by (simp add: es(1))
  have "log_sound (wd_log w')"
    unfolding es(1) by (rule log_sound_appends) (use assms(1) es(2) in \<open>auto simp: gate_inv_def list_all_iff foreign_entry_def\<close>)
  moreover have "clearance (wd_log w') p" if n: "wd_promotions w' n = Some p" for n p
  proof -
    have old: "clearance (wd_log w') q" if "wd_promotions w n = Some q" for q
      by (rule clearance_mono [OF _ sub]) (use that assms(1) in \<open>simp add: gate_inv_def\<close>)
    consider "pm_phase p = PhaseNew" | "wd_promotions w n = Some p" | q where "wd_promotions w n = Some q" "p = q\<lparr>pm_deleting := True\<rparr>"
      using assms(2) n unfolding elsewhere_def by blast
    then show ?thesis
    proof cases
      case 1
      then show ?thesis by (simp add: clearance_def cleared_def)
    next
      case 2
      then show ?thesis by (rule old)
    next
      case 3
      with old [OF 3(1)] show ?thesis by (simp add: clearance_def)
    qed
  qed
  moreover have "break_glass_logged (wd_log w') p (xc_name g)" if g: "g \<in> set (wd_grants w')" "p \<in> set (xc_used g)" for g p
  proof -
    from g assms(2) obtain h where "h \<in> set (wd_grants w)" "xc_name h = xc_name g" "xc_used h = xc_used g"
      unfolding elsewhere_def by force
    with assms(1) g(2) have "break_glass_logged (wd_log w) p (xc_name g)" unfolding gate_inv_def by metis
    then show ?thesis by (rule break_glass_logged_mono [OF _ sub])
  qed
  ultimately show ?thesis using assms(2) unfolding gate_inv_def elsewhere_def by blast
qed

lemma reachable_gate_inv: "promotion_reachable eng w \<Longrightarrow> gate_inv w"
proof (induction rule: promotion_reachable.induct)
  case (start w)
  then show ?case
    by (auto simp: promotions_start_def gate_inv_def log_sound_nil clearance_def cleared_def ran_def)
next
  case (step w w')
  from step.hyps(2) show ?case
  proof (cases rule: promotion_step.cases)
    case (pass s uid name)
    with Reconcile_inv [OF step.IH] show ?thesis by (simp add: pass_inv_def)
  next
    case others
    with elsewhere_inv [OF step.IH] show ?thesis by simp
  qed
qed



subsection \<open>Witness\<close>

definition demo_engine :: policy_engine where
  "demo_engine = \<lparr>pe_rego = demo_rego, pe_builtin = demo_bundle\<rparr>"

definition demo_promotion :: promotion where
  "demo_promotion = \<lparr>pm_name = ''promo-1'', pm_uid = [], pm_deleting = False, pm_project = ''shop'', pm_environment = ''shop-production'',
     pm_release = ''shop-1'', pm_requested = ''anna'', pm_trigger = PromotionManual, pm_phase = PhaseNew, pm_verdict = [], pm_decision = [],
     pm_evaluated = None, pm_applied = None, pm_unmet = [], pm_message = NoMessage, pm_ready = None\<rparr>"

definition demo_target :: target_env where
  "demo_target = \<lparr>te_name = ''shop-production'', te_uid = [], te_project = ''shop'', te_class = [], te_release = ''shop-0'',
     te_requirements = Some (Digest demo_bundle), te_created = 1, te_history = [], te_deleting = False, te_rescan = None\<rparr>"

definition demo_world :: promotion_world where
  "demo_world = \<lparr>wd_promotions = [''promo-1'' \<mapsto> demo_promotion],
     wd_projects = [''shop'' \<mapsto> \<lparr>jp_name = ''shop'', jp_class = [], jp_stages = []\<rparr>],
     wd_environments = [''shop-production'' \<mapsto> demo_target],
     wd_releases = [''shop-1'' \<mapsto> \<lparr>ro_name = ''shop-1'', ro_project = ''shop'', ro_image = []\<rparr>],
     wd_grants = [demo_grant], wd_bundles = [], wd_decisions = [], wd_jobs = Map.empty, wd_evidence = [], wd_log = []\<rparr>"

definition demo_script :: pass_script where
  "demo_script = \<lparr>sc_outcome = (\<lambda>_. Answered), sc_at = 10, sc_now = 11, sc_random = ''d-1'', sc_facts = ''critical'', sc_meanwhile = id\<rparr>"

lemma demo_fresh: "promotions_start demo_world"
  by (simp add: promotions_start_def demo_world_def names_kept_def demo_promotion_def demo_target_def demo_grant_def)

lemma demo_resolved:
  "Resolve demo_bundle (Some []) (Digest demo_bundle) = Inr \<lparr>bi_digest = Digest demo_bundle, bi_source = SourceBuiltIn, bi_bundle = demo_bundle\<rparr>"
  by (simp add: Resolve_def ListBundles_def)

lemma demo_materialized:
  "materialized demo_script (promotion_request demo_script (demo_promotion\<lparr>pm_phase := PromotionEvaluating\<rparr>)) \<lparr>jp_name = ''shop'', jp_class = [], jp_stages = []\<rparr> demo_target
     \<lparr>ro_name = ''shop-1'', ro_project = ''shop'', ro_image = []\<rparr> (ActiveExceptionsFor [demo_grant] ''shop'' ''shop-production'' ''shop-1'' 10) = demo_input 10"
  by (simp add: materialized_def promotion_request_def demo_script_def demo_promotion_def demo_target_def demo_input_def)

lemma demo_pass:
  "fst (Reconcile demo_engine demo_script [] ''promo-1'' demo_world) = Some () \<and>
   wd_environments (snd (Reconcile demo_engine demo_script [] ''promo-1'' demo_world)) ''shop-production''
     = Some (demo_target\<lparr>te_release := ''shop-1'', te_history := [\<lparr>mv_release = ''shop-0'', mv_from = 1, mv_to = 11, mv_reason = ReleaseMovePromoted, mv_by = ''promo-1''\<rparr>]\<rparr>) \<and>
   wd_grants (snd (Reconcile demo_engine demo_script [] ''promo-1'' demo_world)) = [demo_grant\<lparr>xc_used := [''promo-1'']\<rparr>] \<and>
   (\<exists>q. wd_promotions (snd (Reconcile demo_engine demo_script [] ''promo-1'' demo_world)) ''promo-1'' = Some q
     \<and> pm_environment q = ''shop-production'' \<and> pm_release q = ''shop-1'')"
proof -
  have fields: "sc_outcome demo_script = (\<lambda>_. Answered)" "sc_at demo_script = 10" "sc_now demo_script = 11" "sc_random demo_script = ''d-1''"
    by (simp_all add: demo_script_def)
  note run = after_def reading_def writing_def give_def Let_def fields
  let ?p = "demo_promotion\<lparr>pm_phase := PromotionEvaluating\<rparr>"
  let ?project = "\<lparr>jp_name = ''shop'', jp_class = [], jp_stages = []\<rparr>"
  let ?release = "\<lparr>ro_name = ''shop-1'', ro_project = ''shop'', ro_image = []\<rparr>"
  let ?result = "\<lparr>vr_verdict = VerdictAllowedWithException, vr_fired = [\<lparr>fr_rule = ''max-severity'', fr_message = [], fr_waived = True, fr_exception = ''exc-1''\<rparr>]\<rparr>"
  let ?ev = "\<lparr>ev_input = demo_input 10, ev_result = ?result, ev_bundle = demo_bundle, ev_message = ClearsWaived (Digest demo_bundle)\<rparr>"
  have env: "te_requirements demo_target = Some (Digest demo_bundle)" "te_project demo_target = ''shop''" "te_name demo_target = ''shop-production''"
    "te_release demo_target = ''shop-0''" "te_history demo_target = []" "te_created demo_target = 1" by (simp_all add: demo_target_def)
  have engine: "pe_rego demo_engine = demo_rego" "pe_builtin demo_engine = demo_bundle" by (simp_all add: demo_engine_def)
  have w: "wd_promotions demo_world ''promo-1'' = Some demo_promotion" "wd_projects demo_world ''shop'' = Some ?project"
    "wd_environments demo_world ''shop-production'' = Some demo_target" "wd_releases demo_world ''shop-1'' = Some ?release"
    "wd_grants demo_world = [demo_grant]" "wd_bundles demo_world = []" by (simp_all add: demo_world_def)
  have p: "pm_deleting demo_promotion = False" "pm_phase demo_promotion = PhaseNew" "pm_name demo_promotion = ''promo-1''" "pm_project demo_promotion = ''shop''"
    "pm_environment demo_promotion = ''shop-production''" "pm_release demo_promotion = ''shop-1''" "pm_uid demo_promotion = []" by (simp_all add: demo_promotion_def)
  have clock: "rq_at (promotion_request demo_script ?p) = 10" by (simp add: promotion_request_def fields)
  have asked: "evaluate demo_engine demo_script ?p ?project demo_target ?release v = (Some (Inr ?ev), v)" if "wd_grants v = [demo_grant]" "wd_bundles v = []" for v
    using that by (simp add: evaluate_def evaluate_requirements_def ask_requirements_def ask_bundle_def run env engine clock demo_resolved
        demo_materialized demo_evaluated with_note_def verdict_defs)
  have resolved: "resolve_references demo_script demo_promotion demo_world = (Some (Inr (?project, demo_target, ?release)), demo_world)"
    by (simp add: resolve_references_def run w p env)
  show ?thesis
    by (simp add: Reconcile_def drive_def judge_def run w p resolved terminal_def asked keep_promotion_def record_decision_def decisionIDFor_def
        log_that_def InsertDecision_def waivers_of_def act_on_verdict_def decided_def verdict_defs apply_promotion_def apply_move_def env
        RecordReleaseMove_def MaxReleaseHistory_def keep_env_def NextStage_def StageIndex_def grant_named_def demo_grant_def appendUsedBy_def)
qed


end
