(* ===== verification/PromotionEnds.thy ===== *)
theory PromotionEnds
  imports PromotionGate
begin

section \<open>Promotions come to an end\<close>

text \<open>
  With every call answered one pass brings a promotion to one of its ends; the total counterpart of the logic
  of passes says a pass is answered and what it then leaves. Then what a pass whose answers were lost does
  when it is run again: a decision already stored keeps its first verdict, and an allowed promotion that
  could not be applied is applied later, over whatever moved the environment meanwhile.
\<close>

subsection \<open>Answered passes\<close>

definition all_answered :: "pass_script \<Rightarrow> bool" where
  "all_answered s \<longleftrightarrow> sc_outcome s = (\<lambda>_. Answered)"

definition pass_runs :: "(promotion_world \<Rightarrow> bool) \<Rightarrow> 'a pass \<Rightarrow> ('a \<Rightarrow> promotion_world \<Rightarrow> bool) \<Rightarrow> bool" where
  "pass_runs P m Q \<longleftrightarrow> (\<forall>w. P w \<longrightarrow> (\<exists>x w'. m w = (Some x, w') \<and> Q x w'))"

lemma runs_give: "(\<And>w. P w \<Longrightarrow> Q x w) \<Longrightarrow> pass_runs P (give x) Q"
  by (simp add: pass_runs_def give_def)

lemma runs_after:
  assumes "pass_runs P m R" "\<And>x. pass_runs (R x) (f x) Q"
  shows "pass_runs P (after m f) Q"
  unfolding pass_runs_def
proof (intro allI impI)
  fix w
  assume "P w"
  with assms(1) obtain x w1 where m: "m w = (Some x, w1)" "R x w1" unfolding pass_runs_def by blast
  with assms(2) obtain y w2 where "f x w1 = (Some y, w2)" "Q y w2" unfolding pass_runs_def by blast
  with m show "\<exists>x w'. after m f w = (Some x, w') \<and> Q x w'" by (simp add: after_def)
qed

lemma runs_reading: "all_answered s \<Longrightarrow> (\<And>w. P w \<Longrightarrow> Q (f w) w) \<Longrightarrow> pass_runs P (reading s c f) Q"
  by (simp add: pass_runs_def reading_def all_answered_def)

lemma runs_writing: "all_answered s \<Longrightarrow> (\<And>w. P w \<Longrightarrow> Q () (f w)) \<Longrightarrow> pass_runs P (writing s c f) Q"
  by (simp add: pass_runs_def writing_def all_answered_def)

lemma runs_weaken: "pass_runs P m Q \<Longrightarrow> (\<And>w. P' w \<Longrightarrow> P w) \<Longrightarrow> (\<And>x w. Q x w \<Longrightarrow> Q' x w) \<Longrightarrow> pass_runs P' m Q'"
  unfolding pass_runs_def by meson

definition env_runs :: "promotion \<Rightarrow> promotion_world \<Rightarrow> bool" where
  "env_runs p w \<longleftrightarrow> (\<exists>e. wd_environments w (pm_environment p) = Some e \<and> te_release e = pm_release p)"

definition at_end :: "promotion \<Rightarrow> promotion_world \<Rightarrow> bool" where
  "at_end p w \<longleftrightarrow> (\<exists>p'. wd_promotions w (pm_name p) = Some p' \<and> pm_environment p' = pm_environment p \<and> pm_release p' = pm_release p
     \<and> terminal (pm_phase p') \<and> (pm_phase p' = PromotionApplied \<longrightarrow> env_runs p w))"

lemma at_end_same: "pm_name q = pm_name p \<Longrightarrow> pm_environment q = pm_environment p \<Longrightarrow> pm_release q = pm_release p \<Longrightarrow> at_end q w = at_end p w"
  by (simp add: at_end_def env_runs_def)

definition still :: "promotion_world \<Rightarrow> promotion_world \<Rightarrow> bool" where
  "still w0 w \<longleftrightarrow> wd_environments w = wd_environments w0"

lemma still_log [simp]: "still w0 (log_that x w) = still w0 w" by (simp add: still_def log_that_def)
lemma still_keep [simp]: "still w0 (keep_promotion p w) = still w0 w" by (simp add: still_def keep_promotion_def)
lemma still_used [simp]: "still w0 (appendUsedBy n p w) = still w0 w" by (simp add: still_def appendUsedBy_def)
lemma still_insert [simp]: "still w0 (InsertDecision d v w) = still w0 w" by (simp add: still_def InsertDecision_def)
lemma env_runs_log [simp]: "env_runs p (log_that x w) = env_runs p w" by (simp add: env_runs_def log_that_def)
lemma env_runs_keep [simp]: "env_runs p (keep_promotion q w) = env_runs p w" by (simp add: env_runs_def keep_promotion_def)

lemma move_runs:
  assumes a: "all_answered s" and t: "target_of w0 p env release"
  shows "pass_runs (still w0) (apply_move s p env release) (\<lambda>_. env_runs p)"
proof (cases "te_release env = ro_name release")
  case True
  then show ?thesis using t by (auto simp: apply_move_def still_def env_runs_def target_of_def intro!: runs_give)
next
  case False
  have put: "env_runs p (keep_env e w)" if "te_name e = te_name env" "te_release e = ro_name release" for e w
    using that t by (simp add: env_runs_def keep_env_def target_of_def)
  have recorded: "te_name r = te_name e \<and> te_release r = te_release e" if "RecordReleaseMove e o1 reason by_name now = Some r" for e o1 reason by_name now r
    using that by (auto simp: RecordReleaseMove_def Let_def split: if_splits)
  show ?thesis
    unfolding apply_move_def Let_def if_not_P [OF False]
  proof (rule runs_after [where R = "\<lambda>_ _. True"], rule runs_writing [OF a], rule TrueI, rule runs_after [where R = "\<lambda>_. env_runs p"],
      rule runs_writing [OF a], rule put)
    show "pass_runs (env_runs p) (case RecordReleaseMove (env\<lparr>te_release := ro_name release\<rparr>) (te_release env) ReleaseMovePromoted (pm_name p) (sc_now s)
        of None \<Rightarrow> give () | Some recorded \<Rightarrow> writing s KeepHistory (keep_env recorded)) (\<lambda>_. env_runs p)"
    proof (cases "RecordReleaseMove (env\<lparr>te_release := ro_name release\<rparr>) (te_release env) ReleaseMovePromoted (pm_name p) (sc_now s)")
      case None
      then show ?thesis by (simp add: runs_give)
    next
      case (Some r)
      show ?thesis unfolding Some option.case
        by (rule runs_writing [OF a], rule put) (use recorded [OF Some] in simp_all)
    qed
  qed simp_all
qed

lemma next_runs:
  assumes a: "all_answered s"
  shows "pass_runs (env_runs p) (createAutomaticPromotion s uid project env release requested) (\<lambda>_. env_runs p)"
  unfolding createAutomaticPromotion_def Let_def
proof (rule runs_after [where R = "\<lambda>_. env_runs p"], rule runs_reading [OF a], assumption)
  fix there :: "promotion option"
  show "pass_runs (env_runs p) (case there of None \<Rightarrow>
      after (writing s LogNext (log_that (PromotionCreated (automaticPromotionName project release env) env release)))
       (\<lambda>_. writing s CreateNext (keep_promotion \<lparr>pm_name = automaticPromotionName project release env, pm_uid = uid, pm_deleting = False,
          pm_project = project, pm_environment = env, pm_release = release, pm_requested = requested, pm_trigger = PromotionAutomatic,
          pm_phase = PhaseNew, pm_verdict = [], pm_decision = [], pm_evaluated = None, pm_applied = None, pm_unmet = [], pm_message = NoMessage, pm_ready = None\<rparr>))
    | Some _ \<Rightarrow> give ()) (\<lambda>_. env_runs p)"
    by (cases there) (auto intro!: runs_give runs_after [where R = "\<lambda>_. env_runs p"] runs_writing [OF a])
qed

lemma apply_runs:
  assumes a: "all_answered s" and t: "target_of w0 p env release"
  shows "pass_runs (still w0) (apply_promotion s uid p project env release) (\<lambda>_ w. at_end p w \<and> env_runs p w)"
  unfolding apply_promotion_def Let_def
proof (rule runs_after [OF move_runs [OF a t]], rule runs_after [where R = "\<lambda>_. env_runs p"])
  show "pass_runs (env_runs p) (case NextStage (jp_stages project) (te_name env) of
              Some g \<Rightarrow> if sg_auto g then createAutomaticPromotion s uid (jp_name project) (sg_environment g) (ro_name release) promotionController else give ()
            | None \<Rightarrow> give ()) (\<lambda>_. env_runs p)"
    by (auto split: option.splits intro!: runs_give next_runs [OF a])
qed (rule runs_writing [OF a], auto simp: at_end_def terminal_def env_runs_def keep_promotion_def)

lemma fail_runs: "all_answered s \<Longrightarrow> pass_runs P (fail_promotion s p r) (\<lambda>_. at_end p)"
  unfolding fail_promotion_def
  by (rule runs_after [where R = "\<lambda>_ _. True"]) (auto intro!: runs_writing simp: at_end_def terminal_def keep_promotion_def)

lemma glass_runs: "all_answered s \<Longrightarrow> pass_runs (still w0) (recordBreakGlass s p result names) (\<lambda>_. still w0)"
proof (induction names)
  case (Cons n names)
  show ?case
    unfolding recordBreakGlass.simps
  proof (rule runs_after [where R = "\<lambda>_. still w0"], rule runs_reading [OF Cons.prems], assumption)
    fix g :: "grant option"
    show "pass_runs (still w0) (case g of None \<Rightarrow> recordBreakGlass s p result names
       | Some g \<Rightarrow> if pm_name p \<in> set (xc_used g) then recordBreakGlass s p result names
           else after (writing s (LogBreakGlass n) (log_that (BreakGlassUsed (pm_name p) n (waived_by result n))))
             (\<lambda>_. after (writing s (MarkUsed n) (appendUsedBy n (pm_name p))) (\<lambda>_. recordBreakGlass s p result names))) (\<lambda>_. still w0)"
      using Cons by (auto split: option.splits intro!: runs_writing runs_after [where R = "\<lambda>_. still w0"])
  qed
qed (simp add: runs_give)

lemma record_runs: "all_answered s \<Longrightarrow> pass_runs (still w0) (record_decision s (pm_name p) (pm_uid p) ev) (\<lambda>_. still w0)"
  unfolding record_decision_def Let_def
  by (rule runs_after [where R = "\<lambda>_. still w0"]) (auto simp: pass_runs_def give_def writing_def all_answered_def)

lemma evaluate_runs:
  assumes a: "all_answered s"
  shows "pass_runs (still w0) (evaluate eng s p project env release) (\<lambda>_. still w0)"
proof -
  have ask: "\<exists>x. ask_bundle eng s rq project env release d b w = (Some x, w)" for rq d b w
    using a by (simp add: ask_bundle_def Let_def after_def reading_def give_def all_answered_def split: sum.splits)
  have "\<exists>x. ask_requirements eng s rq project env release w = (Some x, w)" for rq w
    using ask by (auto simp: ask_requirements_def give_def split: option.splits sum.splits)
  then have "\<exists>x. evaluate_requirements eng s rq project env release w = (Some x, w)" for rq w
    using a by (simp add: evaluate_requirements_def after_def reading_def all_answered_def)
  then have "\<exists>x. evaluate eng s p project env release w = (Some x, w)" for w
    by (metis (mono_tags, lifting) evaluate_def after_def give_def case_prod_conv option.simps(5) sum.exhaust sum.simps(5,6))
  then show ?thesis unfolding pass_runs_def by metis
qed

lemma act_runs:
  assumes a: "all_answered s" and t: "target_of w0 q env release"
  shows "pass_runs (still w0) (act_on_verdict s uid q project env release) (\<lambda>_. at_end q)"
proof (cases "pm_verdict q = VerdictBlocked")
  case True
  then show ?thesis by (auto simp: act_on_verdict_def at_end_def terminal_def keep_promotion_def intro!: runs_writing [OF a])
next
  case False
  let ?a = "q\<lparr>pm_phase := (if pm_verdict q = VerdictAllowedWithException then PromotionAllowedWithException else PromotionAllowed)\<rparr>"
  have "target_of w0 ?a env release" using t by (simp add: target_of_def)
  note move = apply_runs [OF a this, of uid project]
  show ?thesis unfolding act_on_verdict_def Let_def if_not_P [OF False]
    by (rule runs_after [where R = "\<lambda>_. still w0"], rule runs_writing [OF a], simp, rule runs_weaken [OF move])
      (simp_all add: at_end_same [of ?a q])
qed

lemma judge_runs:
  assumes a: "all_answered s" and t: "target_of w0 p env release"
  shows "pass_runs (still w0) (judge eng s uid p project env release) (\<lambda>_. at_end p)"
  unfolding judge_def
proof (rule runs_after [where R = "\<lambda>_. still w0"], rule runs_reading [OF a], assumption, rule runs_after [OF evaluate_runs [OF a]])
  fix answer
  have act: "pass_runs (still w0) (act_on_verdict s uid (decided s p ev d) project env release) (\<lambda>_. at_end p)" for ev d
  proof -
    have "target_of w0 (decided s p ev d) env release" using t by (simp add: target_of_def decided_def)
    moreover have "at_end (decided s p ev d) w = at_end p w" for w by (rule at_end_same) (simp_all add: decided_def)
    ultimately show ?thesis using act_runs [OF a, of w0 "decided s p ev d"] by (auto simp: pass_runs_def)
  qed
  show "pass_runs (still w0) (case answer of Inl r \<Rightarrow> fail_promotion s p r | Inr ev \<Rightarrow>
        after (record_decision s (pm_name p) (pm_uid p) ev) (\<lambda>decision.
        after (if vr_verdict (ev_result ev) = VerdictAllowedWithException then recordBreakGlass s p (ev_result ev) (waivers_of (ev_result ev)) else give ())
          (\<lambda>_. act_on_verdict s uid (decided s p ev decision) project env release))) (\<lambda>_. at_end p)"
  proof (cases answer)
    case (Inl r)
    then show ?thesis by (simp add: fail_runs [OF a])
  next
    case (Inr ev)
    show ?thesis unfolding Inr sum.case
      by (rule runs_after [OF record_runs [OF a]], rule runs_after [where R = "\<lambda>_. still w0"])
        (auto intro: act glass_runs [OF a] runs_give)
  qed
qed


lemma drive_runs:
  assumes a: "all_answered s" and w0: "names_kept w0"
  shows "pass_runs (\<lambda>w. w = w0) (drive eng s uid p) (\<lambda>_. at_end p)"
proof -
  let ?R = "\<lambda>answer w. still w0 w \<and> (\<forall>project env release. answer = Inr (project, env, release) \<longrightarrow> target_of w0 p env release)"
  have "\<exists>x. resolve_references s p w = (Some x, w)" for w
    using a by (simp add: resolve_references_def after_def reading_def give_def all_answered_def split: option.splits)
  then have refs: "pass_runs (\<lambda>w. w = w0) (resolve_references s p) ?R"
    unfolding pass_runs_def
  proof (intro allI impI)
    fix w
    assume w: "w = w0"
    from \<open>\<And>w. \<exists>x. resolve_references s p w = (Some x, w)\<close> obtain x where x: "resolve_references s p w0 = (Some x, w0)" by blast
    have "target_of w0 p env release" if "x = Inr (project, env, release)" for project env release
      using resolve_answer [of s p w0 project env release] x that w0 unfolding names_kept_def target_of_def by auto
    with x w show "\<exists>x w'. resolve_references s p w = (Some x, w') \<and> ?R x w'" by (simp add: still_def)
  qed
  show ?thesis
    unfolding drive_def
  proof (rule runs_after [OF refs])
    fix answer
    show "pass_runs (?R answer) (case answer of Inl r \<Rightarrow> fail_promotion s p r
       | Inr (project, env, release) \<Rightarrow>
           if pm_phase p = PromotionAllowed \<or> pm_phase p = PromotionAllowedWithException then apply_promotion s uid p project env release
           else let p' = p\<lparr>pm_phase := PromotionEvaluating\<rparr>
                in after (if pm_phase p \<noteq> PromotionEvaluating then writing s SetEvaluating (keep_promotion p') else give ())
                  (\<lambda>_. judge eng s uid p' project env release)) (\<lambda>_. at_end p)"
    proof (cases answer)
      case (Inl r)
      then show ?thesis by (simp add: fail_runs [OF a])
    next
      case (Inr found)
      obtain project env release where found: "found = (project, env, release)" by (cases found)
      let ?p = "p\<lparr>pm_phase := PromotionEvaluating\<rparr>"
      show ?thesis
      proof (cases "target_of w0 p env release")
        case False
        then show ?thesis by (simp add: Inr found pass_runs_def)
      next
        case t: True
        have "target_of w0 ?p env release" using t by (simp add: target_of_def)
        moreover have "at_end ?p w = at_end p w" for w by (rule at_end_same) simp_all
        ultimately have judged: "pass_runs (still w0) (judge eng s uid ?p project env release) (\<lambda>_. at_end p)"
          using judge_runs [OF a, of w0 ?p] by (auto simp: pass_runs_def)
        have "pass_runs (still w0) (after (if pm_phase p \<noteq> PromotionEvaluating then writing s SetEvaluating (keep_promotion ?p) else give ())
                  (\<lambda>_. judge eng s uid ?p project env release)) (\<lambda>_. at_end p)"
          by (rule runs_after [OF _ judged]) (auto intro!: runs_writing [OF a] runs_give)
        with apply_runs [OF a t, of uid project] show ?thesis
          by (auto simp: Inr found Let_def intro: runs_weaken)
      qed
    qed
  qed
qed

text \<open>
  C40. A pass ends a promotion. When every call of a pass is answered, the pass comes to its end and leaves a
  promotion that was not at an end, and is not being deleted, in one of the three: applied, blocked or
  failed. Applied means the environment it names now runs the release it names. And an end is final: no
  later pass over it, whatever it is answered, changes anything at all.
\<close>

theorem promotions_end:
  assumes "all_answered s" "names_kept w"
    and "wd_promotions w name = Some p" "\<not> pm_deleting p" "\<not> terminal (pm_phase p)"
  shows "\<exists>w' p'. Reconcile eng s uid name w = (Some (), w') \<and> wd_promotions w' name = Some p'
    \<and> pm_phase p' \<in> {PromotionApplied, PromotionBlocked, PromotionFailed}
    \<and> (pm_phase p' = PromotionApplied \<longrightarrow> (\<exists>env. wd_environments w' (pm_environment p) = Some env \<and> te_release env = pm_release p))
    \<and> (\<forall>eng' s' uid'. snd (Reconcile eng' s' uid' name w') = w')"
proof -
  have name: "pm_name p = name" using assms(2,3) by (simp add: names_kept_def)
  have "Reconcile eng s uid name w = drive eng s uid p w"
    using assms by (simp add: Reconcile_def after_def reading_def all_answered_def)
  moreover obtain w' where w': "drive eng s uid p w = (Some (), w')" "at_end p w'"
    using drive_runs [OF assms(1,2), of eng uid p] unfolding pass_runs_def by auto
  moreover from w'(2) obtain p' where p': "wd_promotions w' name = Some p'" "terminal (pm_phase p')" "pm_phase p' = PromotionApplied \<longrightarrow> env_runs p w'"
    unfolding at_end_def name by blast
  moreover have "snd (Reconcile eng' s' uid' name w') = w'" for eng' s' uid'
    using p'(1,2) by (cases "sc_outcome s' GetPromotion") (simp_all add: Reconcile_def after_def reading_def give_def)
  ultimately show ?thesis
    unfolding terminal_def env_runs_def by (intro exI [of _ w'] exI [of _ p'] conjI allI) simp_all
qed


theorem promotions_end_witness:
  "\<exists>w' p'. Reconcile demo_engine demo_script [] ''promo-1'' demo_world = (Some (), w') \<and> wd_promotions w' ''promo-1'' = Some p'
    \<and> pm_phase p' \<in> {PromotionApplied, PromotionBlocked, PromotionFailed}"
proof -
  have "all_answered demo_script" by (simp add: all_answered_def demo_script_def)
  moreover have "names_kept demo_world" using demo_fresh by (simp add: promotions_start_def)
  moreover have "wd_promotions demo_world ''promo-1'' = Some demo_promotion" by (simp add: demo_world_def)
  moreover have "\<not> pm_deleting demo_promotion" "\<not> terminal (pm_phase demo_promotion)" by (simp_all add: demo_promotion_def terminal_def)
  ultimately show ?thesis using promotions_end [of demo_script demo_world "''promo-1''" demo_promotion demo_engine "[]"] by blast
qed

subsection \<open>A pass run again\<close>

text \<open>A decision that is stored again under its id changes nothing, whatever the verdict is now.\<close>

lemma stored_decision_stays:
  assumes "(decision, verdict) \<in> set (wd_decisions w)"
  shows "InsertDecision decision verdict' w = w"
  using assms by (force simp: InsertDecision_def)

definition no_decision_since :: "promotion_world \<Rightarrow> promotion_world \<Rightarrow> bool" where
  "no_decision_since w0 w \<longleftrightarrow>
     (\<forall>kind q e r v d u x. DecisionMade kind q e r v d u x \<in> set (wd_log w) \<longrightarrow> DecisionMade kind q e r v d u x \<in> set (wd_log w0))"

lemma apply_undecided: "pass_triple (no_decision_since w0) (\<lambda>_. True) (apply_promotion s uid p project env release) (\<lambda>_ _. True)"
proof -
  let ?I = "no_decision_since w0"
  have keeps: "?I (keep_promotion q w)" "?I (keep_env e w)" "?I (log_that (EnvironmentMoved a b c d f g) w)" "?I (log_that (PromotionCreated a b c) w)"
    if "?I w" for q e w a b c d f g
    using that by (auto simp: no_decision_since_def keep_promotion_def keep_env_def log_that_def)
  note step = triple_after [where R = "\<lambda>_ _. True" and P = "\<lambda>_. True"]
  have move: "pass_triple ?I (\<lambda>_. True) (apply_move s p env release) (\<lambda>_ _. True)"
    unfolding apply_move_def Let_def
    by (auto intro!: triple_give step triple_writing keeps split: option.splits)
  have "pass_triple ?I (\<lambda>_. True) (createAutomaticPromotion s uid a b c d) (\<lambda>_ _. True)" for a b c d
    unfolding createAutomaticPromotion_def Let_def
    by (auto intro!: triple_give step triple_reading triple_writing keeps split: option.splits)
  with move show ?thesis
    unfolding apply_promotion_def Let_def
    by (auto intro!: triple_give step triple_writing keeps split: option.splits)
qed

text \<open>
  An allowed promotion is applied whenever its next pass comes: over whatever release the environment runs by
  then, with no further decision.
\<close>

lemma late_apply_overrides:
  assumes "sc_outcome s = (\<lambda>_. Answered)" "pm_phase p = PromotionAllowed" "wd_promotions w (pm_name p) = Some p" "\<not> pm_deleting p"
    and "wd_projects w (pm_project p) = Some project" "wd_environments w (pm_environment p) = Some env" "wd_releases w (pm_release p) = Some release"
    and "te_project env = pm_project p" "ro_project release = pm_project p" "te_name env = pm_environment p" "ro_name release = pm_release p"
  shows "\<exists>w'. Reconcile eng s uid (pm_name p) w = (Some (), w') \<and> env_runs p w'
    \<and> no_decision_since w w'"
proof -
  have a: "all_answered s" by (simp add: all_answered_def assms(1))
  have "Reconcile eng s uid (pm_name p) w = apply_promotion s uid p project env release w"
    using assms by (simp add: Reconcile_def drive_def resolve_references_def after_def reading_def give_def terminal_def)
  moreover obtain w' where w': "apply_promotion s uid p project env release w = (Some (), w')" "env_runs p w'"
    using apply_runs [OF a, of w p env release uid project] assms by (auto simp: pass_runs_def still_def target_of_def)
  moreover have "no_decision_since w w" by (simp add: no_decision_since_def)
  then have "no_decision_since w w'"
    using apply_undecided [of w s uid p project env release] w'(1) by (auto simp: pass_triple_def split: prod.splits)
  ultimately show ?thesis by auto
qed

end
