(* ===== verification/Rescan.thy ===== *)
theory Rescan
  imports PromotionEnds AuditTransition
begin

section \<open>The re-evaluation sweep (internal/controller/rescan.go)\<close>

text \<open>
  The sweep that scans what is deployed again, asks the environment's bar about it again, and, for a grant that
  asked for it and has expired, retreats the environment to the release before. One environment's part of
  a sweep is a pass like a promotion's: its calls are answered, refused or lost, and what others write
  before a rollback reads its environment again is part of its script. The copy of the environment a pass works
  from is its argument, so it may be stale. Of a scanner's report the parsers are left out: what a blob
  of findings holds is an argument. The evidence index of a build (best effort) is left out.
\<close>

record sweep_config =
  cf_enabled :: bool
  cf_scanner_image :: string
  cf_scanner_version :: string
  cf_attestation :: bool
  cf_operator_image :: string
  cf_interval :: int
  cf_concurrency :: "32 word"
  cf_findings :: "string \<Rightarrow> nat \<times> string"

definition EffectiveInterval :: "int \<Rightarrow> int" where
  "EffectiveInterval interval = (if interval < hour then 24 * hour else interval)"

definition EffectiveConcurrency :: "32 word \<Rightarrow> int" where
  "EffectiveConcurrency n = (if sint n < 1 then 4 else sint n)"

datatype sweep_off = ReevaluationOff | NoScanner | AttestationOff | OwnImageUnknown

text \<open>An absent scanner has no image.\<close>

definition check_sweep :: "sweep_config \<Rightarrow> sweep_off option" where
  "check_sweep cf =
     (if \<not> cf_enabled cf then Some ReevaluationOff
      else if cf_scanner_image cf = [] then Some NoScanner
      else if \<not> cf_attestation cf then Some AttestationOff
      else if cf_operator_image cf = [] then Some OwnImageUnknown
      else None)"

definition inFlight :: "target_env \<Rightarrow> bool" where
  "inFlight env \<longleftrightarrow> (case te_rescan env of None \<Rightarrow> False | Some r \<Rightarrow> rs_phase r = RescanScanning \<and> rs_release r = te_release env)"

definition rescanJobName :: "string \<Rightarrow> string \<Rightarrow> string" where
  "rescanJobName envName releaseName =
     (let name = envName @ ''-scan-'' @ releaseName
      in if length name \<le> 63 then name
         else let room = 63 - int (length envName) - 6
              in if room < 1 then name else envName @ ''-scan-'' @ take (nat room) releaseName)"

definition date_string :: "time \<Rightarrow> string" where
  "date_string at = (case civil (at div day + unix_days) of (y, m, d) \<Rightarrow> pad_int 4 y @ ''-'' @ pad_int 2 m @ ''-'' @ pad_int 2 d)"

definition dataSnapshot :: "string \<Rightarrow> string \<Rightarrow> sweep_config \<Rightarrow> time \<Rightarrow> string" where
  "dataSnapshot fromScanner fromReport cf at =
     (if trim_space fromScanner \<noteq> [] then trim_space fromScanner
      else if trim_space fromReport \<noteq> [] then trim_space fromReport
      else ''unpinned:'' @ (if cf_scanner_version cf = [] then cf_scanner_image cf else cf_scanner_version cf) @ ''@'' @ date_string at)"

subsection \<open>What is recorded\<close>

definition failed_scan :: "pass_script \<Rightarrow> rescan_state \<Rightarrow> rescan_message \<Rightarrow> rescan_state" where
  "failed_scan s st msg =
     \<lparr>rs_phase = RescanFailed, rs_release = rs_release st, rs_artifact = rs_artifact st, rs_job = rs_job st, rs_started = rs_started st,
      rs_finished = Some (sc_now s), rs_snapshot = [], rs_findings = 0, rs_verdict = [], rs_unmet = [], rs_decision = [], rs_message = msg\<rparr>"

definition record_rescan :: "pass_script \<Rightarrow> target_env \<Rightarrow> rescan_state \<Rightarrow> unit pass" where
  "record_rescan s env st =
     after (reading s GetEnvAgain (\<lambda>w. wd_environments w (te_name env))) (\<lambda>found.
       case found of
         None \<Rightarrow> give ()
       | Some now \<Rightarrow>
           if te_release now \<noteq> rs_release st then give ()
           else writing s SetRescan (keep_env (now\<lparr>te_rescan := Some st\<rparr>)))"

subsection \<open>Starting a scan\<close>

definition put_job :: "string \<times> string \<Rightarrow> scan_job option \<Rightarrow> promotion_world \<Rightarrow> promotion_world" where
  "put_job key j w = w\<lparr>wd_jobs := (wd_jobs w)(key := j)\<rparr>"

text \<open>Whether the Job was created; it was not when one of the name is there.\<close>

definition create_job :: "pass_script \<Rightarrow> string \<times> string \<Rightarrow> scan_job \<Rightarrow> bool pass" where
  "create_job s key j w =
     (if wd_jobs w key = None then after (writing s CreateJob (put_job key (Some j))) (\<lambda>_. give True) w
      else after (reading s CreateJob (\<lambda>_. ())) (\<lambda>_. give False) w)"

definition adopt :: "pass_script \<Rightarrow> string \<times> string \<Rightarrow> bool pass" where
  "adopt s key =
     after (reading s GetJob (\<lambda>w. wd_jobs w key)) (\<lambda>found.
       case found of
         None \<Rightarrow> give False
       | Some j \<Rightarrow>
           if \<not> sj_complete j \<and> \<not> sj_failed j then give True
           else after (writing s DeleteJob (put_job key None)) (\<lambda>_. give False))"

definition job_for :: "string \<Rightarrow> scan_job" where
  "job_for artifact = \<lparr>sj_artifact = artifact, sj_complete = False, sj_failed = False, sj_said = [], sj_report = None\<rparr>"

definition pass_error :: "'a pass" where "pass_error w = (None, w)"

text \<open>The artifact a release names by digest, if it does.\<close>

definition by_digest :: "string \<Rightarrow> string option" where
  "by_digest img = (case cut_first CHR ''@'' img of None \<Rightarrow> None | Some (repository, digest) \<Rightarrow> if digest = [] then None else Some (repository @ ''@'' @ digest))"

definition start_scan :: "sweep_config \<Rightarrow> pass_script \<Rightarrow> target_env \<Rightarrow> bool pass" where
  "start_scan cf s env =
     after (reading s GetProject (\<lambda>w. wd_projects w (te_project env))) (\<lambda>project.
     case project of None \<Rightarrow> pass_error | Some project \<Rightarrow>
     after (reading s GetRelease (\<lambda>w. wd_releases w (te_release env))) (\<lambda>release.
     case release of None \<Rightarrow> give False | Some release \<Rightarrow>
     case by_digest (ro_image release) of
       None \<Rightarrow>
         after (record_rescan s env \<lparr>rs_phase = RescanFailed, rs_release = ro_name release, rs_artifact = [], rs_job = [], rs_started = None,
             rs_finished = Some (sc_now s), rs_snapshot = [], rs_findings = 0, rs_verdict = [], rs_unmet = [], rs_decision = [],
             rs_message = NamesNoDigest\<rparr>) (\<lambda>_. give False)
     | Some artifact \<Rightarrow>
         let name = rescanJobName (te_name env) (ro_name release); key = (AppNamespace (jp_name project), name)
         in after (create_job s key (job_for artifact)) (\<lambda>created.
            after (if created then give True else adopt s key) (\<lambda>running.
            if \<not> running then give False
            else after (record_rescan s env \<lparr>rs_phase = RescanScanning, rs_release = ro_name release, rs_artifact = artifact, rs_job = name,
                rs_started = Some (sc_now s), rs_finished = None, rs_snapshot = [], rs_findings = 0, rs_verdict = [], rs_unmet = [],
                rs_decision = [], rs_message = MatchingAgainst (cf_scanner_image cf)\<rparr>) (\<lambda>_. give True)))))"


subsection \<open>The rollback of an expired grant\<close>

fun reliedOnBy :: "pass_script \<Rightarrow> string list \<Rightarrow> string \<Rightarrow> string \<Rightarrow> bool pass" where
  "reliedOnBy s [] env release = give False"
| "reliedOnBy s (name # names) env release =
     after (reading s (GetUser name) (\<lambda>w. wd_promotions w name)) (\<lambda>found.
       case found of
         None \<Rightarrow> reliedOnBy s names env release
       | Some p \<Rightarrow> if pm_environment p = env \<and> pm_release p = release then give True else reliedOnBy s names env release)"

definition rollback_target :: "target_env \<Rightarrow> string \<Rightarrow> string option" where
  "rollback_target env release = map_option mv_release (find (\<lambda>m. mv_release m \<noteq> [] \<and> mv_release m \<noteq> release) (te_history env))"

definition rescanSweep :: string where "rescanSweep = ControllerActor ''rescan''"

definition meanwhile :: "pass_script \<Rightarrow> unit pass" where
  "meanwhile s w = (Some (), sc_meanwhile s w)"

definition move_back :: "pass_script \<Rightarrow> target_env \<Rightarrow> string \<Rightarrow> string \<Rightarrow> unit pass" where
  "move_back s env release target =
     after (meanwhile s) (\<lambda>_.
     after (reading s GetEnvCurrent (\<lambda>w. wd_environments w (te_name env))) (\<lambda>found.
     case found of
       None \<Rightarrow> give ()
     | Some now \<Rightarrow>
         if te_release now \<noteq> release then give ()
         else let moved = now\<lparr>te_release := target\<rparr>
              in after (writing s MoveBack (keep_env moved)) (\<lambda>_.
                 case RecordReleaseMove moved release ReleaseMoveRolledBack rescanSweep (sc_now s) of
                   None \<Rightarrow> give ()
                 | Some recorded \<Rightarrow> writing s KeepRollback (keep_env (recorded\<lparr>te_rescan := None\<rparr>)))))"

definition rollBack :: "pass_script \<Rightarrow> target_env \<Rightarrow> string \<Rightarrow> grant \<Rightarrow> string list \<Rightarrow> string \<Rightarrow> unit pass" where
  "rollBack s env release g covered decision =
     (case rollback_target env release of
        None \<Rightarrow> give ()
      | Some target \<Rightarrow>
          after (reading s GetPrevious (\<lambda>w. wd_releases w target)) (\<lambda>previous.
          case previous of
            None \<Rightarrow> give ()
          | Some _ \<Rightarrow>
              after (writing s LogRollback (log_that (RolledBack (te_name env) release target (xc_name g) covered decision))) (\<lambda>_.
              move_back s env release target)))"

fun rollback_loop :: "pass_script \<Rightarrow> string \<Rightarrow> target_env \<Rightarrow> string \<Rightarrow> policy_result \<Rightarrow> time \<Rightarrow> string \<Rightarrow> grant list \<Rightarrow> unit pass" where
  "rollback_loop s project env release result at decision [] = give ()"
| "rollback_loop s project env release result at decision (g # gs) =
     (let covered = filter (WaivesRule g) (unmetRuleIDs result)
      in if \<not> xc_rollback g \<or> \<not> grant_covers g project (te_name env) release \<or> EffectivePhase g at \<noteq> GrantExpired \<or> covered = []
         then rollback_loop s project env release result at decision gs
         else after (reliedOnBy s (xc_used g) (te_name env) release) (\<lambda>relied.
              if \<not> relied then rollback_loop s project env release result at decision gs
              else rollBack s env release g covered decision))"

definition rollBackForExpiry :: "pass_script \<Rightarrow> string \<Rightarrow> target_env \<Rightarrow> string \<Rightarrow> policy_result \<Rightarrow> time \<Rightarrow> string \<Rightarrow> unit pass" where
  "rollBackForExpiry s project env release result at decision =
     after (reading s ListExpired wd_grants) (rollback_loop s project env release result at decision)"

subsection \<open>Collecting a scan\<close>

definition attach_scan :: "scan_evidence \<Rightarrow> promotion_world \<Rightarrow> promotion_world" where
  "attach_scan e w = w\<lparr>wd_evidence := wd_evidence w @ [e]\<rparr>"

definition rescan_request :: "pass_script \<Rightarrow> string \<Rightarrow> evaluation_request" where
  "rescan_request s snapshot = \<lparr>rq_kind = KindRescan, rq_at = sc_at s, rq_snapshot = snapshot, rq_requested = []\<rparr>"

text \<open>The bar asked again about a scanned release, its answer recorded and, when it is blocked, a rollback.\<close>

definition reevaluate :: "policy_engine \<Rightarrow> pass_script \<Rightarrow> staged_project \<Rightarrow> target_env \<Rightarrow> rescan_state \<Rightarrow> string \<Rightarrow> nat \<Rightarrow> time \<Rightarrow> (nat \<times> nat) pass" where
  "reevaluate eng s project env st snapshot findings scannedAt =
     after (reading s GetRelease (\<lambda>w. wd_releases w (rs_release st))) (\<lambda>release.
     case release of None \<Rightarrow> give (0, 0) | Some release \<Rightarrow>
     after (evaluate_requirements eng s (rescan_request s snapshot) project env release) (\<lambda>answer.
     case answer of
       Inl r \<Rightarrow> after (record_rescan s env (failed_scan s st (BarUnevaluated r))) (\<lambda>_. give (0, 0))
     | Inr ev \<Rightarrow>
         after (record_decision s (te_name env) (te_uid env) ev) (\<lambda>decision.
         after (record_rescan s env \<lparr>rs_phase = RescanEvaluated, rs_release = rs_release st, rs_artifact = rs_artifact st, rs_job = rs_job st,
             rs_started = rs_started st, rs_finished = Some scannedAt, rs_snapshot = snapshot, rs_findings = findings,
             rs_verdict = vr_verdict (ev_result ev), rs_unmet = unmetRuleIDs (ev_result ev), rs_decision = decision,
             rs_message = BarSays (ev_message ev)\<rparr>) (\<lambda>_.
         after (if vr_verdict (ev_result ev) = VerdictBlocked
                then rollBackForExpiry s (jp_name project) env (ro_name release) (ev_result ev) (sc_at s) decision else give ()) (\<lambda>_.
         give (0, 1))))))"

definition publish_scan :: "policy_engine \<Rightarrow> sweep_config \<Rightarrow> pass_script \<Rightarrow> staged_project \<Rightarrow> target_env \<Rightarrow> rescan_state \<Rightarrow> scan_report \<Rightarrow> (nat \<times> nat) pass" where
  "publish_scan eng cf s project env st report =
     after (reading s ReadAttester (\<lambda>_. ())) (\<lambda>_.
     if sc_outcome s ReadFindings \<noteq> Answered then after (record_rescan s env (failed_scan s st FindingsUnread)) (\<lambda>_. give (0, 0))
     else let (findings, fromReport) = cf_findings cf (sp_blob report);
              scannedAt = (case sp_finished report of Some t \<Rightarrow> t | None \<Rightarrow> sc_now s);
              snapshot = dataSnapshot (sp_snapshot report) fromReport cf scannedAt;
              attached = attach_scan \<lparr>se_artifact = rs_artifact st, se_blob = sp_blob report, se_snapshot = snapshot\<rparr>;
              unattested = after (record_rescan s env (failed_scan s st FindingsUnattested)) (\<lambda>_. give (0, 0))
          in (\<lambda>w. case sc_outcome s AttachScan of
                Answered \<Rightarrow> reevaluate eng s project env st snapshot findings scannedAt (attached w)
              | Refused \<Rightarrow> unattested w
              | Lost \<Rightarrow> unattested (attached w)))"

definition scan_report_of :: "pass_script \<Rightarrow> scan_job \<Rightarrow> scan_report option" where
  "scan_report_of s j =
     (if sc_outcome s ListPods \<noteq> Answered then None
      else case sj_report j of None \<Rightarrow> None | Some r \<Rightarrow> if sp_blob r \<noteq> [] \<or> sp_error r \<noteq> [] then Some r else None)"

definition pod_failure :: "pass_script \<Rightarrow> scan_job \<Rightarrow> string" where
  "pod_failure s j = (case scan_report_of s j of None \<Rightarrow> [] | Some r \<Rightarrow> sp_error r)"

definition collect_scan :: "policy_engine \<Rightarrow> sweep_config \<Rightarrow> pass_script \<Rightarrow> target_env \<Rightarrow> rescan_state \<Rightarrow> (nat \<times> nat) pass" where
  "collect_scan eng cf s env st =
     after (reading s GetProject (\<lambda>w. wd_projects w (te_project env))) (\<lambda>project.
     case project of None \<Rightarrow> pass_error | Some project \<Rightarrow>
     let failing = (\<lambda>msg. after (record_rescan s env (failed_scan s st msg)) (\<lambda>_. give (0, 0)))
     in after (reading s GetJob (\<lambda>w. wd_jobs w (AppNamespace (jp_name project), rs_job st))) (\<lambda>found.
        case found of
          None \<Rightarrow> failing JobIsGone
        | Some j \<Rightarrow>
            if sj_failed j then failing (ScanDidNotRun (if pod_failure s j \<noteq> [] then pod_failure s j else sj_said j))
            else if \<not> sj_complete j then give (0, 0)
            else (case scan_report_of s j of
                None \<Rightarrow> failing LeftNoReport
              | Some report \<Rightarrow>
                  if sp_error report \<noteq> [] then failing (ProducedNoFindings (sp_error report))
                  else publish_scan eng cf s project env st report)))"

subsection \<open>A sweep\<close>

text \<open>How many scans an environment's step started, and how many decisions it recorded.\<close>

definition advance :: "policy_engine \<Rightarrow> sweep_config \<Rightarrow> pass_script \<Rightarrow> target_env \<Rightarrow> int \<Rightarrow> (nat \<times> nat) pass" where
  "advance eng cf s env budget =
     (let st = (case te_rescan env of None \<Rightarrow> None | Some r \<Rightarrow> if rs_release r \<noteq> te_release env then None else Some r);
          here = env\<lparr>te_rescan := st\<rparr>;
          due = (case st of None \<Rightarrow> True | Some r \<Rightarrow>
            (case rs_finished r of None \<Rightarrow> True | Some finished \<Rightarrow> \<not> time_sub (sc_now s) finished < EffectiveInterval (cf_interval cf)));
          begin_scan = (if \<not> due then give (0, 0)
            else if budget \<le> 0 then give (0, 0)
            else after (start_scan cf s here) (\<lambda>started. give (if started then (1, 0) else (0, 0))))
      in case st of
           Some r \<Rightarrow> if rs_phase r = RescanScanning then collect_scan eng cf s here r else begin_scan
         | None \<Rightarrow> begin_scan)"

record sweep_report =
  sw_environments :: nat
  sw_started :: nat
  sw_evaluated :: nat

definition deployed :: "target_env \<Rightarrow> bool" where
  "deployed env \<longleftrightarrow> te_release env \<noteq> [] \<and> \<not> te_deleting env"

fun sweep_items :: "policy_engine \<Rightarrow> sweep_config \<Rightarrow> (string \<Rightarrow> pass_script) \<Rightarrow> target_env list \<Rightarrow> int \<Rightarrow> sweep_report \<Rightarrow> promotion_world \<Rightarrow> sweep_report \<times> promotion_world" where
  "sweep_items eng cf ss [] budget rep w = (rep, w)"
| "sweep_items eng cf ss (env # items) budget rep w =
     (case advance eng cf (ss (te_name env)) env budget w of
        (None, w') \<Rightarrow> sweep_items eng cf ss items budget rep w'
      | (Some (started, evaluated), w') \<Rightarrow>
          sweep_items eng cf ss items (budget - int started)
            (rep\<lparr>sw_started := sw_started rep + started, sw_evaluated := sw_evaluated rep + evaluated\<rparr>) w')"

definition env_items :: "promotion_world \<Rightarrow> target_env list" where
  "env_items w = filter deployed (map (\<lambda>n. the (wd_environments w n)) (sorted_list_of_set (dom (wd_environments w))))"

definition SweepOnce :: "policy_engine \<Rightarrow> sweep_config \<Rightarrow> (string \<Rightarrow> pass_script) \<Rightarrow> promotion_world \<Rightarrow> sweep_report option \<times> promotion_world" where
  "SweepOnce eng cf ss w =
     (case check_sweep cf of
        Some _ \<Rightarrow> (None, w)
      | None \<Rightarrow>
          let items = env_items w; budget = EffectiveConcurrency (cf_concurrency cf) - int (length (filter inFlight items));
              (rep, w') = sweep_items eng cf ss items budget \<lparr>sw_environments = length items, sw_started = 0, sw_evaluated = 0\<rparr> w
          in (Some rep, w'))"

end
