(* ===== verification/RescanGuard.thy ===== *)
theory RescanGuard
  imports Rescan
begin

section \<open>What the sweep may do to an environment\<close>

text \<open>
  The logic of passes applied to the sweep: an environment retreats only by a logged rollback, and a rollback
  is logged only after a blocked decision about the release it leaves, for an expired grant that asked for
  it and that a promotion of that release stood on.
\<close>

subsection \<open>Rollbacks are warranted\<close>

text \<open>What a rollback of a log since a world needs: the grant, the promotion that stood on it, and the decision.\<close>

definition rollback_warranted ::
    "promotion_world \<Rightarrow> time \<Rightarrow> log_entry list \<Rightarrow> string \<Rightarrow> string \<Rightarrow> string \<Rightarrow> string \<Rightarrow> string list \<Rightarrow> string \<Rightarrow> bool" where
  "rollback_warranted v at log env old new exception covered decision \<longleftrightarrow>
     new \<noteq> old \<and> covered \<noteq> []
     \<and> (\<exists>g \<in> set (wd_grants v). xc_name g = exception \<and> xc_rollback g \<and> xc_environment g = env \<and> (xc_release g = [] \<or> xc_release g = old)
          \<and> EffectivePhase g at = GrantExpired \<and> set covered \<subseteq> set (xc_rules g)
          \<and> (\<exists>p \<in> set (xc_used g). \<exists>q. wd_promotions v p = Some q \<and> pm_environment q = env \<and> pm_release q = old))
     \<and> (\<exists>unmet waivers. DecisionMade KindRescan env env old VerdictBlocked decision unmet waivers \<in> set log \<and> set covered \<subseteq> set unmet)"

lemma rollback_warranted_mono: "rollback_warranted v at l e o1 n x c d \<Longrightarrow> set l \<subseteq> set l' \<Longrightarrow> rollback_warranted v at l' e o1 n x c d"
  unfolding rollback_warranted_def by blast

definition rollbacks_ok :: "promotion_world \<Rightarrow> time \<Rightarrow> log_entry list \<Rightarrow> bool" where
  "rollbacks_ok v at es \<longleftrightarrow> (\<forall>before env old new exception covered decision later.
     es = before @ RolledBack env old new exception covered decision # later
       \<longrightarrow> rollback_warranted v at before env old new exception covered decision)"

definition not_rollback :: "log_entry \<Rightarrow> bool" where
  "not_rollback x \<longleftrightarrow> (\<forall>env old new exception covered decision. x \<noteq> RolledBack env old new exception covered decision)"

lemma rollbacks_ok_snoc:
  assumes "rollbacks_ok v at es"
    "\<And>env old new exception covered decision. x = RolledBack env old new exception covered decision
       \<Longrightarrow> rollback_warranted v at es env old new exception covered decision"
  shows "rollbacks_ok v at (es @ [x])"
  unfolding rollbacks_ok_def
proof (intro allI impI)
  fix before env old new exception covered decision later
  assume eq: "es @ [x] = before @ RolledBack env old new exception covered decision # later"
  show "rollback_warranted v at before env old new exception covered decision"
  proof (cases later rule: rev_cases)
    case Nil
    with eq assms(2) show ?thesis by simp
  next
    case (snoc later' y)
    with eq have "es = before @ RolledBack env old new exception covered decision # later'" by simp
    with assms(1) show ?thesis unfolding rollbacks_ok_def by blast
  qed
qed

lemma rollbacks_ok_append: "rollbacks_ok v at es \<Longrightarrow> list_all not_rollback fs \<Longrightarrow> rollbacks_ok v at (es @ fs)"
proof (induction fs arbitrary: es)
  case (Cons f fs)
  have "rollbacks_ok v at (es @ [f])" by (rule rollbacks_ok_snoc) (use Cons.prems in \<open>auto simp: not_rollback_def\<close>)
  from Cons.IH [OF this] Cons.prems show ?case by simp
qed simp

text \<open>Since a world, the environments that run another release retreated by a rollback that was logged since.\<close>

definition moved_back :: "promotion_world \<Rightarrow> log_entry list \<Rightarrow> promotion_world \<Rightarrow> bool" where
  "moved_back v es w \<longleftrightarrow> (\<forall>n e'. wd_environments w n = Some e' \<longrightarrow> (\<exists>e. wd_environments v n = Some e
     \<and> (te_release e' = te_release e \<or> (\<exists>x c d. RolledBack n (te_release e) (te_release e') x c d \<in> set es))))"

definition sweep_inv :: "promotion_world \<Rightarrow> time \<Rightarrow> promotion_world \<Rightarrow> bool" where
  "sweep_inv v at w \<longleftrightarrow> names_kept w \<and> (\<exists>es. wd_log w = wd_log v @ es \<and> rollbacks_ok v at es \<and> moved_back v es w)"

text \<open>What others write before an environment is read again: anything but releases of environments and rollbacks.\<close>

definition calm :: "pass_script \<Rightarrow> bool" where
  "calm s \<longleftrightarrow> (\<forall>u. names_kept u \<longrightarrow> names_kept (sc_meanwhile s u)
     \<and> (\<forall>n. map_option te_release (wd_environments (sc_meanwhile s u) n) = map_option te_release (wd_environments u n))
     \<and> (\<exists>es. wd_log (sc_meanwhile s u) = wd_log u @ es \<and> list_all not_rollback es))"

lemma sweep_inv_start: "names_kept v \<Longrightarrow> sweep_inv v at v"
  unfolding sweep_inv_def by (intro conjI exI [of _ "[]"]) (auto simp: rollbacks_ok_def moved_back_def)

lemma moved_back_mono: "moved_back v es w \<Longrightarrow> set es \<subseteq> set fs \<Longrightarrow> moved_back v fs w"
  unfolding moved_back_def by (meson subsetD)

lemma moved_back_release:
  assumes "moved_back v es w" "\<And>n. map_option te_release (wd_environments w' n) = map_option te_release (wd_environments w n)"
  shows "moved_back v es w'"
  unfolding moved_back_def
proof (intro allI impI)
  fix n e'
  assume e': "wd_environments w' n = Some e'"
  with assms(2) [of n] obtain e where e: "wd_environments w n = Some e" "te_release e = te_release e'"
    by (cases "wd_environments w n") auto
  from assms(1) [unfolded moved_back_def, rule_format, OF e(1)] show
    "\<exists>f. wd_environments v n = Some f \<and> (te_release e' = te_release f \<or> (\<exists>x c d. RolledBack n (te_release f) (te_release e') x c d \<in> set es))"
    unfolding e(2) .
qed

lemma sweep_inv_quiet:
  assumes "sweep_inv v at w" "names_kept w'" "wd_log w' = wd_log w @ fs" "list_all not_rollback fs"
    "\<And>n. map_option te_release (wd_environments w' n) = map_option te_release (wd_environments w n)"
  shows "sweep_inv v at w'"
proof -
  from assms(1) obtain es where es: "wd_log w = wd_log v @ es" "rollbacks_ok v at es" "moved_back v es w" unfolding sweep_inv_def by blast
  have "moved_back v (es @ fs) w'"
    by (rule moved_back_mono [OF moved_back_release [OF es(3) assms(5)]]) auto
  moreover have "rollbacks_ok v at (es @ fs)" by (rule rollbacks_ok_append [OF es(2) assms(4)])
  ultimately show ?thesis using assms(2,3) es(1) unfolding sweep_inv_def by auto
qed

lemma sweep_inv_log: "sweep_inv v at w \<Longrightarrow> not_rollback x \<Longrightarrow> sweep_inv v at (log_that x w)"
  by (rule sweep_inv_quiet [of v at w _ "[x]"]) (auto simp: sweep_inv_def names_kept_def log_that_def)

lemma sweep_inv_data:
  assumes "sweep_inv v at w" "wd_environments w' = wd_environments w" "wd_promotions w' = wd_promotions w" "wd_releases w' = wd_releases w" "wd_log w' = wd_log w"
  shows "sweep_inv v at w'"
  by (rule sweep_inv_quiet [of v at w w' "[]"]) (use assms in \<open>auto simp: sweep_inv_def names_kept_def\<close>)

lemma sweep_inv_env:
  assumes "sweep_inv v at w" "wd_environments w n = Some e" "te_release e' = te_release e" "te_name e' = te_name e"
  shows "sweep_inv v at (keep_env e' w)"
proof -
  have name: "te_name e = n" using assms(1,2) by (simp add: sweep_inv_def names_kept_def)
  show ?thesis
    by (rule sweep_inv_quiet [of v at w _ "[]"])
      (use assms name in \<open>auto simp: sweep_inv_def names_kept_def keep_env_def\<close>)
qed

lemma sweep_inv_meanwhile: "calm s \<Longrightarrow> sweep_inv v at w \<Longrightarrow> sweep_inv v at (sc_meanwhile s w)"
  unfolding calm_def by (meson sweep_inv_quiet sweep_inv_def)


subsection \<open>The stages of an environment's step\<close>

abbreviation swept :: "promotion_world \<Rightarrow> time \<Rightarrow> (promotion_world \<Rightarrow> bool) \<Rightarrow> 'a pass \<Rightarrow> ('a \<Rightarrow> promotion_world \<Rightarrow> bool) \<Rightarrow> bool" where
  "swept v at \<equiv> pass_triple (sweep_inv v at)"

definition untouched :: "promotion_world \<Rightarrow> promotion_world \<Rightarrow> bool" where
  "untouched v w \<longleftrightarrow> wd_grants w = wd_grants v \<and> wd_promotions w = wd_promotions v"

definition blocked_logged :: "target_env \<Rightarrow> string \<Rightarrow> policy_result \<Rightarrow> string \<Rightarrow> promotion_world \<Rightarrow> bool" where
  "blocked_logged env release result decision w \<longleftrightarrow>
     (\<exists>waivers. DecisionMade KindRescan (te_name env) (te_name env) release VerdictBlocked decision (unmetRuleIDs result) waivers \<in> set (wd_log w))"

lemma untouched_keep [simp]: "untouched v (keep_env e w) = untouched v w" by (simp add: untouched_def keep_env_def)
lemma untouched_log [simp]: "untouched v (log_that x w) = untouched v w" by (simp add: untouched_def log_that_def)
lemma untouched_insert [simp]: "untouched v (InsertDecision d x w) = untouched v w" by (simp add: untouched_def InsertDecision_def)
lemma untouched_attach [simp]: "untouched v (attach_scan e w) = untouched v w" by (simp add: untouched_def attach_scan_def)
lemma blocked_keep [simp]: "blocked_logged env r res d (keep_env e w) = blocked_logged env r res d w" by (simp add: blocked_logged_def keep_env_def)

definition still_runs :: "promotion_world \<Rightarrow> promotion_world \<Rightarrow> bool" where
  "still_runs v w \<longleftrightarrow> (\<forall>n. map_option te_release (wd_environments w n) = map_option te_release (wd_environments v n))"

lemma still_runs_keep:
  "still_runs v w \<Longrightarrow> names_kept w \<Longrightarrow> wd_environments w n = Some now \<Longrightarrow> te_release e = te_release now \<Longrightarrow> te_name e = te_name now
   \<Longrightarrow> still_runs v (keep_env e w)"
proof -
  assume a: "still_runs v w" "names_kept w" "wd_environments w n = Some now" "te_release e = te_release now" "te_name e = te_name now"
  have "te_name now = n" using a(2,3) by (simp add: names_kept_def)
  then have "wd_environments (keep_env e w) m = (if m = n then Some e else wd_environments w m)" for m
    using a(5) by (simp add: keep_env_def)
  moreover have "map_option te_release (wd_environments v n) = Some (te_release now)"
    using a(1,3) unfolding still_runs_def by (metis option.map(2))
  ultimately show ?thesis using a(1,4) unfolding still_runs_def by auto
qed

lemma still_runs_data: "wd_environments w' = wd_environments w \<Longrightarrow> still_runs v w' = still_runs v w"
  by (simp add: still_runs_def)

lemma record_rescan_stage:
  assumes "\<And>w n now e. P w \<Longrightarrow> names_kept w \<Longrightarrow> wd_environments w n = Some now \<Longrightarrow> te_release e = te_release now \<Longrightarrow> te_name e = te_name now \<Longrightarrow> P (keep_env e w)"
  shows "swept v at P (record_rescan s env st) (\<lambda>_. P)"
  unfolding record_rescan_def
proof (rule triple_after)
  show "swept v at P (reading s GetEnvAgain (\<lambda>w. wd_environments w (te_name env))) (\<lambda>found w. P w \<and> wd_environments w (te_name env) = found)"
    by (rule triple_reading) simp
  fix found
  show "swept v at (\<lambda>w. P w \<and> wd_environments w (te_name env) = found) (case found of None \<Rightarrow> give ()
     | Some now \<Rightarrow> if te_release now \<noteq> rs_release st then give () else writing s SetRescan (keep_env (now\<lparr>te_rescan := Some st\<rparr>))) (\<lambda>_. P)"
  proof (cases found)
    case None
    then show ?thesis by (auto intro: triple_give)
  next
    case (Some now)
    have "swept v at (\<lambda>w. P w \<and> wd_environments w (te_name env) = found) (writing s SetRescan (keep_env (now\<lparr>te_rescan := Some st\<rparr>))) (\<lambda>_. P)"
    proof (rule triple_writing)
      fix w
      assume w: "sweep_inv v at w" "P w \<and> wd_environments w (te_name env) = found"
      show "sweep_inv v at (keep_env (now\<lparr>te_rescan := Some st\<rparr>) w) \<and> P (keep_env (now\<lparr>te_rescan := Some st\<rparr>) w)"
        using sweep_inv_env [OF w(1), of "te_name env" now "now\<lparr>te_rescan := Some st\<rparr>"]
          assms [of w "te_name env" now "now\<lparr>te_rescan := Some st\<rparr>"] w Some by (simp add: sweep_inv_def)
    qed
    then show ?thesis by (auto simp: Some intro: triple_give)
  qed
qed

definition rollback_said :: "promotion_world \<Rightarrow> string \<Rightarrow> string \<Rightarrow> string \<Rightarrow> promotion_world \<Rightarrow> bool" where
  "rollback_said v n old new w \<longleftrightarrow> (\<exists>x c d es. wd_log w = wd_log v @ es \<and> RolledBack n old new x c d \<in> set es)"

lemma sweep_inv_move:
  assumes "sweep_inv v at w" "rollback_said v n old new w" "still_runs v w" "wd_environments w n = Some now" "te_release now = old"
    and "te_name e = te_name now" "te_release e = new"
  shows "sweep_inv v at (keep_env e w)"
proof -
  from assms(1) obtain es where es: "wd_log w = wd_log v @ es" "rollbacks_ok v at es" "moved_back v es w" unfolding sweep_inv_def by blast
  have name: "te_name now = n" using assms(1,4) unfolding sweep_inv_def names_kept_def by blast
  obtain x c d where x: "RolledBack n old new x c d \<in> set es" using assms(2) es(1) unfolding rollback_said_def by auto
  obtain e0 where e0: "wd_environments v n = Some e0" "te_release e0 = old"
    using assms(3) [unfolded still_runs_def, rule_format, of n] assms(4,5) by (cases "wd_environments v n") auto
  have "\<exists>f. wd_environments v m = Some f \<and> (te_release e' = te_release f \<or> (\<exists>x c d. RolledBack m (te_release f) (te_release e') x c d \<in> set es))"
    if "wd_environments (keep_env e w) m = Some e'" for m e'
  proof (cases "m = n")
    case True
    with that assms(6,7) name have "e' = e" by (simp add: keep_env_def)
    with True e0 x assms(7) show ?thesis by blast
  next
    case False
    with that assms(6) name have "wd_environments w m = Some e'" by (simp add: keep_env_def split: if_splits)
    with es(3) show ?thesis unfolding moved_back_def by blast
  qed
  then have "moved_back v es (keep_env e w)" unfolding moved_back_def by blast
  moreover have "names_kept (keep_env e w)" using assms(1) by (simp add: sweep_inv_def names_kept_def keep_env_def)
  ultimately show ?thesis using es(1,2) unfolding sweep_inv_def by (auto simp: keep_env_def)
qed

lemma meanwhile_stage:
  assumes "calm s"
  shows "swept v at (\<lambda>w. rollback_said v n old new w \<and> still_runs v w) (meanwhile s) (\<lambda>_ w. rollback_said v n old new w \<and> still_runs v w)"
proof -
  have "sweep_inv v at (sc_meanwhile s w) \<and> rollback_said v n old new (sc_meanwhile s w) \<and> still_runs v (sc_meanwhile s w)"
    if w: "sweep_inv v at w" "rollback_said v n old new w" "still_runs v w" for w
  proof -
    from w(1) assms obtain es where es: "wd_log (sc_meanwhile s w) = wd_log w @ es" unfolding calm_def sweep_inv_def by meson
    have "still_runs v (sc_meanwhile s w)" using assms w(1,3) unfolding calm_def still_runs_def sweep_inv_def by simp
    moreover have "rollback_said v n old new (sc_meanwhile s w)" using w(2) es unfolding rollback_said_def by fastforce
    ultimately show ?thesis using sweep_inv_meanwhile [OF assms w(1)] by blast
  qed
  then show ?thesis by (simp add: pass_triple_def meanwhile_def)
qed

lemma move_back_stage:
  assumes "calm s"
  shows "swept v at (\<lambda>w. rollback_said v (te_name env) old new w \<and> still_runs v w) (move_back s env old new) (\<lambda>_ _. True)"
  unfolding move_back_def
proof (rule triple_after [OF meanwhile_stage [OF assms]])
  let ?R = "\<lambda>found w. rollback_said v (te_name env) old new w \<and> still_runs v w \<and> wd_environments w (te_name env) = found"
  show "swept v at (\<lambda>w. rollback_said v (te_name env) old new w \<and> still_runs v w)
    (after (reading s GetEnvCurrent (\<lambda>w. wd_environments w (te_name env))) (\<lambda>found. case found of None \<Rightarrow> give ()
     | Some now \<Rightarrow>
         if te_release now \<noteq> old then give ()
         else let moved = now\<lparr>te_release := new\<rparr>
              in after (writing s MoveBack (keep_env moved)) (\<lambda>_.
                 case RecordReleaseMove moved old ReleaseMoveRolledBack rescanSweep (sc_now s) of
                   None \<Rightarrow> give ()
                 | Some recorded \<Rightarrow> writing s KeepRollback (keep_env (recorded\<lparr>te_rescan := None\<rparr>))))) (\<lambda>_ _. True)"
  proof (rule triple_after [where R = ?R], rule triple_reading, simp)
    fix found
    show "swept v at (?R found) (case found of None \<Rightarrow> give ()
     | Some now \<Rightarrow>
         if te_release now \<noteq> old then give ()
         else let moved = now\<lparr>te_release := new\<rparr>
              in after (writing s MoveBack (keep_env moved)) (\<lambda>_.
                 case RecordReleaseMove moved old ReleaseMoveRolledBack rescanSweep (sc_now s) of
                   None \<Rightarrow> give ()
                 | Some recorded \<Rightarrow> writing s KeepRollback (keep_env (recorded\<lparr>te_rescan := None\<rparr>)))) (\<lambda>_ _. True)"
    proof (cases found)
      case None
      then show ?thesis by (simp add: triple_give)
    next
      case (Some now)
      let ?moved = "now\<lparr>te_release := new\<rparr>"
      let ?there = "\<lambda>w. wd_environments w (te_name now) = Some ?moved"
      have put: "swept v at (?R found) (writing s MoveBack (keep_env ?moved)) (\<lambda>_. ?there)" if "te_release now = old"
        by (rule triple_writing) (use sweep_inv_move [of v at _ "te_name env" old new now ?moved] that Some in \<open>auto simp: keep_env_def\<close>)
      have recorded: "te_name r = te_name e \<and> te_release r = te_release e" if "RecordReleaseMove e o1 reason by_name t = Some r" for e o1 reason by_name t r
        using that by (auto simp: RecordReleaseMove_def Let_def split: if_splits)
      have history: "swept v at ?there (case RecordReleaseMove ?moved old ReleaseMoveRolledBack rescanSweep (sc_now s) of
                   None \<Rightarrow> give ()
                 | Some recorded \<Rightarrow> writing s KeepRollback (keep_env (recorded\<lparr>te_rescan := None\<rparr>))) (\<lambda>_ _. True)"
      proof (cases "RecordReleaseMove ?moved old ReleaseMoveRolledBack rescanSweep (sc_now s)")
        case None
        then show ?thesis by (simp add: triple_give)
      next
        case (Some r)
        show ?thesis unfolding Some option.case
          by (rule triple_writing) (use recorded [OF Some] sweep_inv_env in auto)
      qed
      have "swept v at (?R found) (after (writing s MoveBack (keep_env ?moved)) (\<lambda>_.
                 case RecordReleaseMove ?moved old ReleaseMoveRolledBack rescanSweep (sc_now s) of
                   None \<Rightarrow> give ()
                 | Some recorded \<Rightarrow> writing s KeepRollback (keep_env (recorded\<lparr>te_rescan := None\<rparr>)))) (\<lambda>_ _. True)" if "te_release now = old"
        by (rule triple_after [OF put [OF that] history])
      then show ?thesis by (auto simp: Some Let_def intro: triple_give)
    qed
  qed
qed


lemma reliedOnBy_reads: "read_only (reliedOnBy s names env release)"
  by (induction names) (auto intro!: read_only_after split: option.splits)

lemma reliedOnBy_answer:
  "fst (reliedOnBy s names env release w) = Some True
   \<Longrightarrow> \<exists>p \<in> set names. \<exists>q. wd_promotions w p = Some q \<and> pm_environment q = env \<and> pm_release q = release"
proof (induction names)
  case (Cons n names)
  from after_Some [OF Cons.prems [unfolded reliedOnBy.simps] read_only_reading] obtain found where
    found: "found = wd_promotions w n"
      "fst ((case found of None \<Rightarrow> reliedOnBy s names env release
         | Some p \<Rightarrow> if pm_environment p = env \<and> pm_release p = release then give True else reliedOnBy s names env release) w) = Some True"
    by (auto dest: reading_Some)
  then show ?case using Cons.IH by (auto split: option.splits if_splits)
qed simp

lemma target_differs: "rollback_target env release = Some new \<Longrightarrow> new \<noteq> release"
  by (auto simp: rollback_target_def find_Some_iff)

text \<open>What holds of the world until a rollback is logged.\<close>

definition judged :: "promotion_world \<Rightarrow> target_env \<Rightarrow> string \<Rightarrow> policy_result \<Rightarrow> string \<Rightarrow> promotion_world \<Rightarrow> bool" where
  "judged v env release result decision w \<longleftrightarrow>
     untouched v w \<and> still_runs v w \<and> (\<exists>waivers es. wd_log w = wd_log v @ es
       \<and> DecisionMade KindRescan (te_name env) (te_name env) release VerdictBlocked decision (unmetRuleIDs result) waivers \<in> set es)"

lemma rollBack_stage:
  assumes "calm s" and g: "g \<in> set (wd_grants v)" "xc_rollback g" "grant_covers g project (te_name env) release" "EffectivePhase g at = GrantExpired"
    and covered: "covered \<noteq> []" "covered = filter (WaivesRule g) (unmetRuleIDs result)"
    and used: "\<exists>p \<in> set (xc_used g). \<exists>q. wd_promotions v p = Some q \<and> pm_environment q = te_name env \<and> pm_release q = release"
  shows "swept v at (judged v env release result decision) (rollBack s env release g covered decision) (\<lambda>_ _. True)"
proof (cases "rollback_target env release")
  case None
  then show ?thesis by (simp add: rollBack_def triple_give)
next
  case (Some new)
  let ?e = "RolledBack (te_name env) release new (xc_name g) covered decision"
  have log: "swept v at (judged v env release result decision) (writing s LogRollback (log_that ?e)) (\<lambda>_ w. rollback_said v (te_name env) release new w \<and> still_runs v w)"
  proof (rule triple_writing, rule conjI)
    fix w
    assume w: "sweep_inv v at w" "judged v env release result decision w"
    from w(1) obtain es where es: "wd_log w = wd_log v @ es" "rollbacks_ok v at es" "moved_back v es w" unfolding sweep_inv_def by blast
    from w(2) es(1) obtain waivers where made:
      "DecisionMade KindRescan (te_name env) (te_name env) release VerdictBlocked decision (unmetRuleIDs result) waivers \<in> set es"
      unfolding judged_def by auto
    have "rollback_warranted v at es (te_name env) release new (xc_name g) covered decision"
      unfolding rollback_warranted_def
    proof (intro conjI)
      show "new \<noteq> release" using target_differs [OF Some] .
      show "covered \<noteq> []" by (rule covered(1))
      show "\<exists>unmet waivers. DecisionMade KindRescan (te_name env) (te_name env) release VerdictBlocked decision unmet waivers \<in> set es \<and> set covered \<subseteq> set unmet"
        using made covered(2) by (intro exI [of _ "unmetRuleIDs result"] exI [of _ waivers]) auto
      show "\<exists>h \<in> set (wd_grants v). xc_name h = xc_name g \<and> xc_rollback h \<and> xc_environment h = te_name env \<and> (xc_release h = [] \<or> xc_release h = release)
          \<and> EffectivePhase h at = GrantExpired \<and> set covered \<subseteq> set (xc_rules h)
          \<and> (\<exists>p \<in> set (xc_used h). \<exists>q. wd_promotions v p = Some q \<and> pm_environment q = te_name env \<and> pm_release q = release)"
        by (intro bexI [OF _ g(1)]) (use g(2-4) covered(2) used in \<open>auto simp: grant_covers_def WaivesRule_def split: if_splits\<close>)
    qed
    then have "rollbacks_ok v at (es @ [?e])" by (intro rollbacks_ok_snoc [OF es(2)]) auto
    moreover have "moved_back v (es @ [?e]) (log_that ?e w)"
      by (rule moved_back_release [OF moved_back_mono [OF es(3)]]) (auto simp: log_that_def)
    ultimately show "sweep_inv v at (log_that ?e w)"
      using w(1) es(1) unfolding sweep_inv_def by (auto simp: log_that_def names_kept_def)
    have "rollback_said v (te_name env) release new (log_that ?e w)"
      unfolding rollback_said_def using es(1)
      by (intro exI [of _ "xc_name g"] exI [of _ covered] exI [of _ decision] exI [of _ "es @ [?e]"]) (simp add: log_that_def)
    moreover have "still_runs v (log_that ?e w)" using w(2) by (simp add: judged_def still_runs_def log_that_def)
    ultimately show "rollback_said v (te_name env) release new (log_that ?e w) \<and> still_runs v (log_that ?e w)" by blast
  qed
  show ?thesis
    unfolding rollBack_def Some option.case
  proof (rule triple_after [where R = "\<lambda>_. judged v env release result decision"], rule triple_reading, assumption)
    fix previous :: "release_object option"
    show "swept v at (judged v env release result decision) (case previous of None \<Rightarrow> give ()
          | Some _ \<Rightarrow> after (writing s LogRollback (log_that ?e)) (\<lambda>_. move_back s env release new)) (\<lambda>_ _. True)"
      by (cases previous) (auto intro: triple_give triple_after [OF log move_back_stage [OF assms(1)]])
  qed
qed

lemma rollback_loop_stage:
  assumes "calm s"
  shows "set gs \<subseteq> set (wd_grants v) \<Longrightarrow> swept v at (judged v env release result decision) (rollback_loop s project env release result at decision gs) (\<lambda>_ _. True)"
proof (induction gs)
  case Nil
  show ?case by (simp add: triple_give)
next
  case (Cons g gs)
  let ?covered = "filter (WaivesRule g) (unmetRuleIDs result)"
  have rest: "swept v at (judged v env release result decision) (rollback_loop s project env release result at decision gs) (\<lambda>_ _. True)"
    using Cons by simp
  show ?case
  proof (cases "\<not> xc_rollback g \<or> \<not> grant_covers g project (te_name env) release \<or> EffectivePhase g at \<noteq> GrantExpired \<or> ?covered = []")
    case True
    then show ?thesis using rest by (simp add: Let_def)
  next
    case False
    let ?R = "\<lambda>relied w. judged v env release result decision w
      \<and> (relied \<longrightarrow> (\<exists>p \<in> set (xc_used g). \<exists>q. wd_promotions v p = Some q \<and> pm_environment q = te_name env \<and> pm_release q = release))"
    have rely: "swept v at (judged v env release result decision) (reliedOnBy s (xc_used g) (te_name env) release) ?R"
    proof (rule triple_read_only)
      show "snd (reliedOnBy s (xc_used g) (te_name env) release w) = w" for w
        using reliedOnBy_reads [of s "xc_used g" "te_name env" release] by (simp add: read_only_def)
      fix w relied
      assume w: "judged v env release result decision w" "fst (reliedOnBy s (xc_used g) (te_name env) release w) = Some relied"
      have "wd_promotions w = wd_promotions v" using w(1) by (simp add: judged_def untouched_def)
      then show "?R relied w" using w reliedOnBy_answer [of s "xc_used g" "te_name env" release w] by (cases relied) auto
    qed
    have "swept v at (?R relied) (if \<not> relied then rollback_loop s project env release result at decision gs
        else rollBack s env release g ?covered decision) (\<lambda>_ _. True)" for relied
    proof (cases relied)
      case True
      show ?thesis
      proof (cases "\<exists>p \<in> set (xc_used g). \<exists>q. wd_promotions v p = Some q \<and> pm_environment q = te_name env \<and> pm_release q = release")
        case used: True
        have "swept v at (judged v env release result decision) (rollBack s env release g ?covered decision) (\<lambda>_ _. True)"
          by (rule rollBack_stage [OF assms, where project = project]) (use Cons.prems False used in auto)
        then show ?thesis using True used by simp
      next
        case False
        then show ?thesis using True by (auto simp: pass_triple_def)
      qed
    next
      case False
      then show ?thesis using rest by simp
    qed
    then have "swept v at (judged v env release result decision) (after (reliedOnBy s (xc_used g) (te_name env) release) (\<lambda>relied.
        if \<not> relied then rollback_loop s project env release result at decision gs else rollBack s env release g ?covered decision)) (\<lambda>_ _. True)"
      by (rule triple_after [OF rely])
    then show ?thesis using False by (simp add: Let_def)
  qed
qed


definition quiet_since :: "promotion_world \<Rightarrow> promotion_world \<Rightarrow> bool" where
  "quiet_since v w \<longleftrightarrow> untouched v w \<and> still_runs v w"

lemma quiet_data:
  "wd_environments w' = wd_environments w \<Longrightarrow> wd_grants w' = wd_grants w \<Longrightarrow> wd_promotions w' = wd_promotions w \<Longrightarrow> quiet_since v w' = quiet_since v w"
  by (simp add: quiet_since_def untouched_def still_runs_def)

lemma quiet_record: "swept v at (quiet_since v) (record_rescan s env st) (\<lambda>_. quiet_since v)"
  by (rule record_rescan_stage) (use still_runs_keep in \<open>auto simp: quiet_since_def\<close>)

lemma quiet_record_done: "swept v at (quiet_since v) (after (record_rescan s env st) (\<lambda>_. give x)) (\<lambda>_ _. True)"
  by (rule triple_after [OF quiet_record]) (simp add: triple_give)

definition decision_of :: "promotion_world \<Rightarrow> target_env \<Rightarrow> release_object \<Rightarrow> evaluation \<Rightarrow> string \<Rightarrow> promotion_world \<Rightarrow> bool" where
  "decision_of v env release ev decision w \<longleftrightarrow> quiet_since v w \<and> (\<exists>waivers es. wd_log w = wd_log v @ es
     \<and> DecisionMade KindRescan (te_name env) (te_name env) (ro_name release) (vr_verdict (ev_result ev)) decision (unmetRuleIDs (ev_result ev)) waivers \<in> set es)"

lemma sweep_inv_logs: "sweep_inv v at w \<Longrightarrow> \<exists>es. wd_log w = wd_log v @ es"
  unfolding sweep_inv_def by blast

lemma decision_stage:
  "swept v at (\<lambda>w. quiet_since v w \<and> answers_for KindRescan env release ev w) (record_decision s (te_name env) uid ev) (decision_of v env release ev)"
  unfolding record_decision_def Let_def
proof (rule triple_after)
  let ?d = "decisionIDFor s (in_kind (ev_input ev)) uid"
  let ?e = "DecisionMade (in_kind (ev_input ev)) (te_name env) (in_environment (ev_input ev)) (in_release (ev_input ev))
      (vr_verdict (ev_result ev)) ?d (unmetRuleIDs (ev_result ev)) (waivers_of (ev_result ev))"
  show "swept v at (\<lambda>w. quiet_since v w \<and> answers_for KindRescan env release ev w) (writing s LogDecision (log_that ?e)) (\<lambda>_. decision_of v env release ev ?d)"
  proof (rule triple_writing, rule conjI)
    fix w
    assume w: "sweep_inv v at w" "quiet_since v w \<and> answers_for KindRescan env release ev w"
    show "sweep_inv v at (log_that ?e w)" by (rule sweep_inv_log [OF w(1)]) (simp add: not_rollback_def)
    have "quiet_since v (log_that ?e w)" using w(2) quiet_data [of "log_that ?e w" w v] by (simp add: log_that_def)
    moreover obtain es where "wd_log w = wd_log v @ es" using sweep_inv_logs [OF w(1)] by blast
    ultimately show "decision_of v env release ev ?d (log_that ?e w)"
      using w(2) unfolding decision_of_def
      by (intro conjI exI [of _ "waivers_of (ev_result ev)"] exI [of _ "es @ [?e]"]) (simp_all add: log_that_def answers_for_def)
  qed
  fix u :: unit
  show "swept v at (decision_of v env release ev ?d)
    (\<lambda>w. give ?d (if sc_outcome s StoreDecision = Refused then w else InsertDecision ?d (vr_verdict (ev_result ev)) w)) (decision_of v env release ev)"
  proof -
    have "sweep_inv v at (InsertDecision ?d x w) \<and> decision_of v env release ev ?d (InsertDecision ?d x w)"
      if "sweep_inv v at w" "decision_of v env release ev ?d w" for w x
      using sweep_inv_data [OF that(1), of "InsertDecision ?d x w"] that(2) quiet_data [of "InsertDecision ?d x w" w v]
      by (simp add: decision_of_def InsertDecision_def)
    then show ?thesis by (simp add: pass_triple_def give_def)
  qed
qed

lemma decision_kept: "decision_of v env release ev d w \<Longrightarrow> names_kept w \<Longrightarrow> wd_environments w n = Some now \<Longrightarrow> te_release e = te_release now
   \<Longrightarrow> te_name e = te_name now \<Longrightarrow> decision_of v env release ev d (keep_env e w)"
  using still_runs_keep [of v w n now e] by (simp add: decision_of_def quiet_since_def) (simp add: keep_env_def)

lemma expiry_stage:
  assumes "calm s" "vr_verdict (ev_result ev) = VerdictBlocked"
  shows "swept v at (decision_of v env release ev decision)
    (rollBackForExpiry s project env (ro_name release) (ev_result ev) at decision) (\<lambda>_ _. True)"
  unfolding rollBackForExpiry_def
proof (rule triple_after [where R = "\<lambda>gs w. gs = wd_grants v \<and> judged v env (ro_name release) (ev_result ev) decision w"])
  show "swept v at (decision_of v env release ev decision) (reading s ListExpired wd_grants)
      (\<lambda>gs w. gs = wd_grants v \<and> judged v env (ro_name release) (ev_result ev) decision w)"
    by (rule triple_reading) (use assms(2) in \<open>auto simp: decision_of_def judged_def quiet_since_def untouched_def\<close>)
  fix gs
  show "swept v at (\<lambda>w. gs = wd_grants v \<and> judged v env (ro_name release) (ev_result ev) decision w)
      (rollback_loop s project env (ro_name release) (ev_result ev) at decision gs) (\<lambda>_ _. True)"
    using rollback_loop_stage [OF assms(1), of gs v at env "ro_name release" "ev_result ev" decision project]
    by (cases "gs = wd_grants v") (auto simp: pass_triple_def)
qed


lemma reevaluate_stage:
  assumes "calm s" "sc_at s = at"
  shows "swept v at (quiet_since v) (reevaluate eng s project env st snapshot findings scannedAt) (\<lambda>_ _. True)"
  unfolding reevaluate_def
proof (rule triple_after [where R = "\<lambda>_. quiet_since v"], rule triple_reading, assumption)
  fix found
  show "swept v at (quiet_since v) (case found of None \<Rightarrow> give (0, 0) | Some release \<Rightarrow>
     after (evaluate_requirements eng s (rescan_request s snapshot) project env release) (\<lambda>answer.
     case answer of
       Inl r \<Rightarrow> after (record_rescan s env (failed_scan s st (BarUnevaluated r))) (\<lambda>_. give (0, 0))
     | Inr ev \<Rightarrow>
         after (record_decision s (te_name env) (te_uid env) ev) (\<lambda>decision.
         after (record_rescan s env \<lparr>rs_phase = RescanEvaluated, rs_release = rs_release st, rs_artifact = rs_artifact st, rs_job = rs_job st,
             rs_started = rs_started st, rs_finished = Some scannedAt, rs_snapshot = snapshot, rs_findings = findings,
             rs_verdict = vr_verdict (ev_result ev), rs_unmet = unmetRuleIDs (ev_result ev), rs_decision = decision,
             rs_message = BarSays (ev_message ev)\<rparr>) (\<lambda>_.
         after (if vr_verdict (ev_result ev) = VerdictBlocked
                then rollBackForExpiry s (jp_name project) env (ro_name release) (ev_result ev) (sc_at s) decision else give ()) (\<lambda>_.
         give (0, 1)))))) (\<lambda>_ _. True)"
  proof (cases found)
    case None
    then show ?thesis by (simp add: triple_give)
  next
    case (Some release)
    let ?R = "\<lambda>a w. quiet_since v w \<and> (case a of Inl _ \<Rightarrow> True | Inr ev \<Rightarrow> answers_for KindRescan env release ev w)"
    have asked: "swept v at (quiet_since v) (evaluate_requirements eng s (rescan_request s snapshot) project env release) ?R"
      by (rule triple_read_only)
        (use requirements_read [of eng s "rescan_request s snapshot" project env release]
          requirements_answer [of eng s "rescan_request s snapshot" project env release]
          in \<open>auto simp: read_only_def rescan_request_def split: sum.splits\<close>)
    show ?thesis unfolding Some option.case
    proof (rule triple_after [OF asked])
      fix answer
      show "swept v at (?R answer) (case answer of
           Inl r \<Rightarrow> after (record_rescan s env (failed_scan s st (BarUnevaluated r))) (\<lambda>_. give (0, 0))
         | Inr ev \<Rightarrow>
             after (record_decision s (te_name env) (te_uid env) ev) (\<lambda>decision.
             after (record_rescan s env \<lparr>rs_phase = RescanEvaluated, rs_release = rs_release st, rs_artifact = rs_artifact st, rs_job = rs_job st,
                 rs_started = rs_started st, rs_finished = Some scannedAt, rs_snapshot = snapshot, rs_findings = findings,
                 rs_verdict = vr_verdict (ev_result ev), rs_unmet = unmetRuleIDs (ev_result ev), rs_decision = decision,
                 rs_message = BarSays (ev_message ev)\<rparr>) (\<lambda>_.
             after (if vr_verdict (ev_result ev) = VerdictBlocked
                    then rollBackForExpiry s (jp_name project) env (ro_name release) (ev_result ev) (sc_at s) decision else give ()) (\<lambda>_.
             give (0, 1))))) (\<lambda>_ _. True)"
      proof (cases answer)
        case (Inl r)
        then show ?thesis by (simp add: quiet_record_done)
      next
        case (Inr ev)
        have tail: "swept v at (decision_of v env release ev d) (if vr_verdict (ev_result ev) = VerdictBlocked
            then rollBackForExpiry s (jp_name project) env (ro_name release) (ev_result ev) (sc_at s) d else give ()) (\<lambda>_ _. True)" for d
          using expiry_stage [OF assms(1), of ev v at env release d "jp_name project"] assms(2) by (auto intro: triple_give)
        show ?thesis unfolding Inr sum.case
        proof (rule triple_after)
          show "swept v at (\<lambda>w. quiet_since v w \<and> answers_for KindRescan env release ev w)
              (record_decision s (te_name env) (te_uid env) ev) (decision_of v env release ev)" by (rule decision_stage)
          fix d
          show "swept v at (decision_of v env release ev d) (after (record_rescan s env \<lparr>rs_phase = RescanEvaluated, rs_release = rs_release st,
                 rs_artifact = rs_artifact st, rs_job = rs_job st,
                 rs_started = rs_started st, rs_finished = Some scannedAt, rs_snapshot = snapshot, rs_findings = findings,
                 rs_verdict = vr_verdict (ev_result ev), rs_unmet = unmetRuleIDs (ev_result ev), rs_decision = d,
                 rs_message = BarSays (ev_message ev)\<rparr>) (\<lambda>_.
             after (if vr_verdict (ev_result ev) = VerdictBlocked
                    then rollBackForExpiry s (jp_name project) env (ro_name release) (ev_result ev) (sc_at s) d else give ()) (\<lambda>_.
             give (0, 1)))) (\<lambda>_ _. True)"
            by (rule triple_after [OF record_rescan_stage [of "decision_of v env release ev d"]], erule (4) decision_kept,
                rule triple_after [OF tail]) (simp add: triple_give)
        qed
      qed
    qed
  qed
qed

lemma triple_branch:
  assumes "\<And>w. I w \<Longrightarrow> P w \<Longrightarrow> I (g w) \<and> P (g w)" "pass_triple I P A Q" "pass_triple I P B Q"
  shows "pass_triple I P (\<lambda>w. case x of Answered \<Rightarrow> A (g w) | Refused \<Rightarrow> B w | Lost \<Rightarrow> B (g w)) Q"
  using assms by (cases x) (simp_all add: pass_triple_def)

lemma publish_stage:
  assumes "calm s" "sc_at s = at"
  shows "swept v at (quiet_since v) (publish_scan eng cf s project env st report) (\<lambda>_ _. True)"
proof -
  obtain findings fromReport where f: "cf_findings cf (sp_blob report) = (findings, fromReport)" by (cases "cf_findings cf (sp_blob report)")
  let ?scannedAt = "case sp_finished report of Some t \<Rightarrow> t | None \<Rightarrow> sc_now s"
  let ?snapshot = "dataSnapshot (sp_snapshot report) fromReport cf ?scannedAt"
  let ?attached = "attach_scan \<lparr>se_artifact = rs_artifact st, se_blob = sp_blob report, se_snapshot = ?snapshot\<rparr>"
  have attached: "sweep_inv v at (?attached w) \<and> quiet_since v (?attached w)" if "sweep_inv v at w" "quiet_since v w" for w
    using sweep_inv_data [OF that(1), of "?attached w"] that(2) quiet_data [of "?attached w" w v] by (simp add: attach_scan_def)
  have re: "swept v at (quiet_since v) (reevaluate eng s project env st ?snapshot findings ?scannedAt) (\<lambda>_ _. True)"
    by (rule reevaluate_stage [OF assms])
  have un: "swept v at (quiet_since v) (after (record_rescan s env (failed_scan s st msg)) (\<lambda>_. give (0 :: nat, 0 :: nat))) (\<lambda>_ _. True)" for msg
    by (rule quiet_record_done)
  have both: "swept v at (quiet_since v) (\<lambda>w. case sc_outcome s AttachScan of
                Answered \<Rightarrow> reevaluate eng s project env st ?snapshot findings ?scannedAt (?attached w)
              | Refused \<Rightarrow> after (record_rescan s env (failed_scan s st FindingsUnattested)) (\<lambda>_. give (0, 0)) w
              | Lost \<Rightarrow> after (record_rescan s env (failed_scan s st FindingsUnattested)) (\<lambda>_. give (0, 0)) (?attached w)) (\<lambda>_ _. True)"
    by (rule triple_branch [OF attached re un])
  show ?thesis
    unfolding publish_scan_def f Let_def prod.case
    by (rule triple_after [where R = "\<lambda>_. quiet_since v"], rule triple_reading, assumption)
      (use un both in \<open>simp split: if_splits\<close>)
qed


lemma triple_error: "pass_triple I P pass_error Q"
  by (simp add: pass_triple_def pass_error_def)

lemma collect_stage:
  assumes "calm s" "sc_at s = at"
  shows "swept v at (quiet_since v) (collect_scan eng cf s env st) (\<lambda>_ _. True)"
proof -
  have failing: "swept v at (quiet_since v) (after (record_rescan s env (failed_scan s st msg)) (\<lambda>_. give (0 :: nat, 0 :: nat))) (\<lambda>_ _. True)" for msg
    by (rule quiet_record_done)
  have job: "swept v at (quiet_since v) (case found of
          None \<Rightarrow> after (record_rescan s env (failed_scan s st JobIsGone)) (\<lambda>_. give (0, 0))
        | Some j \<Rightarrow>
            if sj_failed j then after (record_rescan s env (failed_scan s st (ScanDidNotRun (if pod_failure s j \<noteq> [] then pod_failure s j else sj_said j)))) (\<lambda>_. give (0, 0))
            else if \<not> sj_complete j then give (0, 0)
            else (case scan_report_of s j of
                None \<Rightarrow> after (record_rescan s env (failed_scan s st LeftNoReport)) (\<lambda>_. give (0, 0))
              | Some report \<Rightarrow>
                  if sp_error report \<noteq> [] then after (record_rescan s env (failed_scan s st (ProducedNoFindings (sp_error report)))) (\<lambda>_. give (0, 0))
                  else publish_scan eng cf s project env st report)) (\<lambda>_ _. True)" for found project
    by (auto intro: failing triple_give publish_stage [OF assms] split: option.splits)
  show ?thesis
    unfolding collect_scan_def Let_def
  proof (rule triple_after [where R = "\<lambda>_. quiet_since v"], rule triple_reading, assumption)
    fix project :: "staged_project option"
    show "swept v at (quiet_since v) (case project of None \<Rightarrow> pass_error | Some project \<Rightarrow>
       after (reading s GetJob (\<lambda>w. wd_jobs w (AppNamespace (jp_name project), rs_job st))) (\<lambda>found.
        case found of
          None \<Rightarrow> after (record_rescan s env (failed_scan s st JobIsGone)) (\<lambda>_. give (0, 0))
        | Some j \<Rightarrow>
            if sj_failed j then after (record_rescan s env (failed_scan s st (ScanDidNotRun (if pod_failure s j \<noteq> [] then pod_failure s j else sj_said j)))) (\<lambda>_. give (0, 0))
            else if \<not> sj_complete j then give (0, 0)
            else (case scan_report_of s j of
                None \<Rightarrow> after (record_rescan s env (failed_scan s st LeftNoReport)) (\<lambda>_. give (0, 0))
              | Some report \<Rightarrow>
                  if sp_error report \<noteq> [] then after (record_rescan s env (failed_scan s st (ProducedNoFindings (sp_error report)))) (\<lambda>_. give (0, 0))
                  else publish_scan eng cf s project env st report))) (\<lambda>_ _. True)"
    proof (cases project)
      case None
      then show ?thesis by (simp add: triple_error)
    next
      case (Some p)
      show ?thesis unfolding Some option.case
        by (rule triple_after [where R = "\<lambda>_. quiet_since v"], rule triple_reading, assumption, rule job)
    qed
  qed
qed

lemma start_stage: "swept v at (quiet_since v) (start_scan cf s env) (\<lambda>_. quiet_since v)"
proof -
  have jobs: "sweep_inv v at (put_job key j w) \<and> quiet_since v (put_job key j w)" if "sweep_inv v at w" "quiet_since v w" for key j w
    using sweep_inv_data [OF that(1), of "put_job key j w"] that(2) quiet_data [of "put_job key j w" w v] by (simp add: put_job_def)
  have make: "swept v at (quiet_since v) (create_job s key j) (\<lambda>_. quiet_since v)" for key j
  proof -
    have "swept v at (quiet_since v) (after (writing s CreateJob (put_job key (Some j))) (\<lambda>_. give True)) (\<lambda>_. quiet_since v)"
      by (rule triple_after [where R = "\<lambda>_. quiet_since v"], rule triple_writing) (use jobs in \<open>auto intro: triple_give\<close>)
    moreover have "swept v at (quiet_since v) (after (reading s CreateJob (\<lambda>_. ())) (\<lambda>_. give False)) (\<lambda>_. quiet_since v)"
      by (rule triple_after [where R = "\<lambda>_. quiet_since v"], rule triple_reading) (auto intro: triple_give)
    ultimately show ?thesis unfolding pass_triple_def create_job_def by simp
  qed
  have adopted: "swept v at (quiet_since v) (adopt s key) (\<lambda>_. quiet_since v)" for key
    unfolding adopt_def
  proof (rule triple_after [where R = "\<lambda>_. quiet_since v"], rule triple_reading, assumption)
    fix found :: "scan_job option"
    have "swept v at (quiet_since v) (after (writing s DeleteJob (put_job key None)) (\<lambda>_. give False)) (\<lambda>_. quiet_since v)"
      by (rule triple_after [where R = "\<lambda>_. quiet_since v"], rule triple_writing) (use jobs in \<open>auto intro: triple_give\<close>)
    then show "swept v at (quiet_since v) (case found of None \<Rightarrow> give False
       | Some j \<Rightarrow> if \<not> sj_complete j \<and> \<not> sj_failed j then give True else after (writing s DeleteJob (put_job key None)) (\<lambda>_. give False)) (\<lambda>_. quiet_since v)"
      by (auto intro: triple_give split: option.splits)
  qed
  have noted: "swept v at (quiet_since v) (after (record_rescan s env st) (\<lambda>_. give x)) (\<lambda>_. quiet_since v)" for st and x :: bool
    by (rule triple_after [OF quiet_record]) (simp add: triple_give)
  have run: "swept v at (quiet_since v) (after (create_job s key j) (\<lambda>created.
            after (if created then give True else adopt s key) (\<lambda>running.
            if \<not> running then give False else after (record_rescan s env st) (\<lambda>_. give True)))) (\<lambda>_. quiet_since v)" for key j st
    by (rule triple_after [OF make], rule triple_after [where R = "\<lambda>_. quiet_since v"]) (auto intro: adopted noted triple_give)
  have release: "swept v at (quiet_since v) (after (reading s GetRelease (\<lambda>w. wd_releases w (te_release env))) (\<lambda>release.
     case release of None \<Rightarrow> give False | Some release \<Rightarrow>
     case by_digest (ro_image release) of
       None \<Rightarrow> after (record_rescan s env (failed release)) (\<lambda>_. give False)
     | Some artifact \<Rightarrow> after (create_job s (k release) (job_for artifact)) (\<lambda>created.
            after (if created then give True else adopt s (k release)) (\<lambda>running.
            if \<not> running then give False else after (record_rescan s env (scanning release artifact)) (\<lambda>_. give True))))) (\<lambda>_. quiet_since v)"
    for failed k scanning
    by (rule triple_after [where R = "\<lambda>_. quiet_since v"], rule triple_reading, assumption)
      (auto intro: triple_give noted run split: option.splits)
  show ?thesis
    unfolding start_scan_def Let_def
  proof (rule triple_after [where R = "\<lambda>_. quiet_since v"], rule triple_reading, assumption, goal_cases)
    case (1 project)
    show ?case by (cases project) (auto intro: triple_error release)
  qed
qed

lemma advance_stage:
  assumes "calm s" "sc_at s = at"
  shows "swept v at (quiet_since v) (advance eng cf s env budget) (\<lambda>_ _. True)"
proof -
  have first: "swept v at (quiet_since v) (after (start_scan cf s here) (\<lambda>started. give (if started then (1 :: nat, 0 :: nat) else (0, 0)))) (\<lambda>_ _. True)" for here
    by (rule triple_after [OF start_stage]) (simp add: triple_give)
  show ?thesis
    unfolding advance_def Let_def
    by (auto intro: first collect_stage [OF assms] triple_give split: option.splits)
qed

lemma advance_inv:
  assumes "calm s" "names_kept v"
  shows "sweep_inv v (sc_at s) (snd (advance eng cf s env budget v))"
proof -
  have "quiet_since v v" by (simp add: quiet_since_def untouched_def still_runs_def)
  then show ?thesis
    using advance_stage [OF assms(1) refl, of v eng cf env budget] sweep_inv_start [OF assms(2)] by (simp add: pass_triple_def case_prod_beta)
qed


subsection \<open>A sweep is one of the other writers\<close>

definition kept_by :: "pass_script \<Rightarrow> (promotion_world \<Rightarrow> bool) \<Rightarrow> bool" where
  "kept_by s I \<longleftrightarrow> (\<forall>w. I w \<longrightarrow> (\<forall>x. foreign_entry x \<longrightarrow> I (log_that x w)) \<and> (\<forall>e. I (keep_env e w)) \<and> (\<forall>d x. I (InsertDecision d x w))
     \<and> (\<forall>e. I (attach_scan e w)) \<and> (\<forall>k j. I (put_job k j w)) \<and> I (sc_meanwhile s w))"

lemma kept_byD:
  assumes "kept_by s I" "I w"
  shows "foreign_entry x \<Longrightarrow> I (log_that x w)" "I (keep_env e w)" "I (InsertDecision d y w)" "I (attach_scan ev w)" "I (put_job k j w)" "I (sc_meanwhile s w)"
  using assms unfolding kept_by_def by blast+

lemma kept_steps:
  assumes k: "kept_by s I"
  shows kept_record: "pass_triple I (\<lambda>_. True) (record_rescan s env st) (\<lambda>_ _. True)"
    and kept_rollback: "pass_triple I (\<lambda>_. True) (rollBack s env r g c d) (\<lambda>_ _. True)"
    and kept_start: "pass_triple I (\<lambda>_. True) (start_scan cf s env) (\<lambda>_ _. True)"
proof -
  note step = triple_after [where R = "\<lambda>_ _. True" and P = "\<lambda>_. True"]
  note puts = triple_writing [where Q = "\<lambda>_ _. True" and P = "\<lambda>_. True"]
  note keeps = kept_byD [OF k]
  show rec: "pass_triple I (\<lambda>_. True) (record_rescan s env st) (\<lambda>_ _. True)" for env st
    unfolding record_rescan_def by (auto intro!: step triple_reading triple_give puts keeps split: option.splits)
  have others: "pass_triple I (\<lambda>_. True) (meanwhile s) (\<lambda>_ _. True)"
    by (auto simp: pass_triple_def meanwhile_def intro: keeps)
  have "pass_triple I (\<lambda>_. True) (move_back s env r n) (\<lambda>_ _. True)" for n
    unfolding move_back_def Let_def by (auto intro!: step triple_reading triple_give puts keeps others split: option.splits)
  then show "pass_triple I (\<lambda>_. True) (rollBack s env r g c d) (\<lambda>_ _. True)"
    unfolding rollBack_def by (auto intro!: step triple_reading triple_give puts keeps simp: foreign_entry_def split: option.splits)
  have "pass_triple I (\<lambda>_. True) (create_job s key j) (\<lambda>_ _. True)" for key j
  proof -
    have "pass_triple I (\<lambda>_. True) (after (writing s CreateJob (put_job key (Some j))) (\<lambda>_. give True)) (\<lambda>_ _. True)"
      "pass_triple I (\<lambda>_. True) (after (reading s CreateJob (\<lambda>_. ())) (\<lambda>_. give False)) (\<lambda>_ _. True)"
      by (auto intro!: step triple_reading triple_give puts keeps)
    then show ?thesis unfolding pass_triple_def create_job_def by simp
  qed
  moreover have "pass_triple I (\<lambda>_. True) (adopt s key) (\<lambda>_ _. True)" for key
    unfolding adopt_def by (auto intro!: step triple_reading triple_give puts keeps split: option.splits)
  ultimately show "pass_triple I (\<lambda>_. True) (start_scan cf s env) (\<lambda>_ _. True)"
    unfolding start_scan_def Let_def by (auto intro!: step triple_reading triple_give triple_error rec split: option.splits)
qed

lemma kept_loop:
  assumes "kept_by s I"
  shows "pass_triple I (\<lambda>_. True) (rollback_loop s project env r result at d gs) (\<lambda>_ _. True)"
proof (induction gs)
  case Nil
  show ?case by (simp add: triple_give)
next
  case (Cons g gs)
  have rely: "pass_triple I (\<lambda>_. True) (reliedOnBy s (xc_used g) (te_name env) r) (\<lambda>_ _. True)"
    by (rule triple_read_only) (use reliedOnBy_reads [of s "xc_used g" "te_name env" r] in \<open>auto simp: read_only_def\<close>)
  have "pass_triple I (\<lambda>_. True) (after (reliedOnBy s (xc_used g) (te_name env) r) (\<lambda>relied.
      if \<not> relied then rollback_loop s project env r result at d gs
      else rollBack s env r g (filter (WaivesRule g) (unmetRuleIDs result)) d)) (\<lambda>_ _. True)"
    by (rule triple_after [OF rely]) (use Cons.IH kept_rollback [OF assms] in auto)
  with Cons.IH show ?case by (simp add: Let_def)
qed

lemma kept_decision:
  assumes "kept_by s I"
  shows "pass_triple I (answers_for KindRescan env release ev) (record_decision s about uid ev) (\<lambda>_ _. True)"
  unfolding record_decision_def Let_def
proof (rule triple_after [where R = "\<lambda>_ _. True"], rule triple_writing)
  fix w
  assume "I w" "answers_for KindRescan env release ev w"
  then show "I (log_that (DecisionMade (in_kind (ev_input ev)) about (in_environment (ev_input ev)) (in_release (ev_input ev))
      (vr_verdict (ev_result ev)) (decisionIDFor s (in_kind (ev_input ev)) uid) (unmetRuleIDs (ev_result ev)) (waivers_of (ev_result ev))) w) \<and> True"
    using kept_byD(1) [OF assms] by (simp add: answers_for_def foreign_entry_def KindRescan_def KindPromotion_def)
qed (use kept_byD(3) [OF assms] in \<open>auto simp: pass_triple_def give_def\<close>)

lemma kept_reevaluate:
  assumes k: "kept_by s I"
  shows "pass_triple I (\<lambda>_. True) (reevaluate eng s project env st snapshot findings scannedAt) (\<lambda>_ _. True)"
proof -
  note step = triple_after [where R = "\<lambda>_ _. True" and P = "\<lambda>_. True"]
  have expiry: "pass_triple I (\<lambda>_. True) (rollBackForExpiry s pr env r res at d) (\<lambda>_ _. True)" for pr r res at d
    unfolding rollBackForExpiry_def by (auto intro!: step triple_reading kept_loop [OF k])
  have ask: "pass_triple I (\<lambda>_. True) (evaluate_requirements eng s (rescan_request s snapshot) project env release)
      (\<lambda>a w. case a of Inl _ \<Rightarrow> True | Inr ev \<Rightarrow> answers_for KindRescan env release ev w)" for release
    by (rule triple_read_only)
      (use requirements_read [of eng s "rescan_request s snapshot" project env release]
        requirements_answer [of eng s "rescan_request s snapshot" project env release]
        in \<open>auto simp: read_only_def rescan_request_def split: sum.splits\<close>)
  show ?thesis
    unfolding reevaluate_def
  proof (rule triple_after [where R = "\<lambda>_ _. True"], rule triple_reading, rule TrueI)
    fix found :: "release_object option"
    show "pass_triple I (\<lambda>_. True) (case found of None \<Rightarrow> give (0, 0) | Some release \<Rightarrow>
     after (evaluate_requirements eng s (rescan_request s snapshot) project env release) (\<lambda>answer.
     case answer of
       Inl r \<Rightarrow> after (record_rescan s env (failed_scan s st (BarUnevaluated r))) (\<lambda>_. give (0, 0))
     | Inr ev \<Rightarrow>
         after (record_decision s (te_name env) (te_uid env) ev) (\<lambda>decision.
         after (record_rescan s env \<lparr>rs_phase = RescanEvaluated, rs_release = rs_release st, rs_artifact = rs_artifact st, rs_job = rs_job st,
             rs_started = rs_started st, rs_finished = Some scannedAt, rs_snapshot = snapshot, rs_findings = findings,
             rs_verdict = vr_verdict (ev_result ev), rs_unmet = unmetRuleIDs (ev_result ev), rs_decision = decision,
             rs_message = BarSays (ev_message ev)\<rparr>) (\<lambda>_.
         after (if vr_verdict (ev_result ev) = VerdictBlocked
                then rollBackForExpiry s (jp_name project) env (ro_name release) (ev_result ev) (sc_at s) decision else give ()) (\<lambda>_.
         give (0, 1)))))) (\<lambda>_ _. True)"
    proof (cases found)
      case None
      then show ?thesis by (simp add: triple_give)
    next
      case (Some release)
      show ?thesis unfolding Some option.case
      proof (rule triple_after [OF ask], goal_cases)
        case (1 answer)
        show ?case
        proof (cases answer)
          case (Inl r)
          then show ?thesis by (auto intro!: step kept_record [OF k] triple_give)
        next
          case (Inr ev)
          show ?thesis unfolding Inr sum.case
            by (rule triple_after [OF kept_decision [OF k]], rule step [OF kept_record [OF k]], rule step)
              (auto intro: expiry triple_give)
        qed
      qed
    qed
  qed
qed

lemma kept_advance:
  assumes k: "kept_by s I"
  shows "pass_triple I (\<lambda>_. True) (advance eng cf s env budget) (\<lambda>_ _. True)"
proof -
  note step = triple_after [where R = "\<lambda>_ _. True" and P = "\<lambda>_. True"]
  have failing: "pass_triple I (\<lambda>_. True) (after (record_rescan s env st) (\<lambda>_. give x)) (\<lambda>_ _. True)" for env st and x :: "nat \<times> nat"
    by (auto intro!: step kept_record [OF k] triple_give)
  have publish: "pass_triple I (\<lambda>_. True) (publish_scan eng cf s project env st report) (\<lambda>_ _. True)" for project env st report
  proof -
    obtain findings fromReport where f: "cf_findings cf (sp_blob report) = (findings, fromReport)" by (cases "cf_findings cf (sp_blob report)")
    have "pass_triple I (\<lambda>_. True) (\<lambda>w. case sc_outcome s AttachScan of
                Answered \<Rightarrow> reevaluate eng s project env st sn findings t (attach_scan e w)
              | Refused \<Rightarrow> after (record_rescan s env (failed_scan s st FindingsUnattested)) (\<lambda>_. give (0, 0)) w
              | Lost \<Rightarrow> after (record_rescan s env (failed_scan s st FindingsUnattested)) (\<lambda>_. give (0, 0)) (attach_scan e w)) (\<lambda>_ _. True)" for sn t e
      by (rule triple_branch [OF _ kept_reevaluate [OF k] failing]) (use kept_byD(4) [OF k] in simp)
    then show ?thesis
      unfolding publish_scan_def f Let_def prod.case
      by (intro step triple_reading TrueI) (use failing in \<open>simp split: if_splits\<close>)
  qed
  have collect: "pass_triple I (\<lambda>_. True) (collect_scan eng cf s env st) (\<lambda>_ _. True)" for env st
    unfolding collect_scan_def Let_def by (auto intro!: step triple_reading triple_give triple_error failing publish split: option.splits)
  have first: "pass_triple I (\<lambda>_. True) (after (start_scan cf s here) (\<lambda>started. give (if started then (1 :: nat, 0 :: nat) else (0, 0)))) (\<lambda>_ _. True)" for here
    by (rule step [OF kept_start [OF k]]) (simp add: triple_give)
  show ?thesis
    unfolding advance_def Let_def by (auto intro: first collect triple_give split: option.splits)
qed

end
