(* ===== verification/RescanOutcomes.thy ===== *)
theory RescanOutcomes
  imports RescanGuard
begin

section \<open>Sweeps beside promotions, and what the sweep does not see to\<close>

text \<open>
  A sweep is one of the other writers the promotions tolerate, so what is proved of promotions holds beside
  it; and the break-glass a rollback acts on was logged when the promotion stood on it. A sweep starts no more
  scans than its concurrency leaves. Then two behaviours:
  two expired grants send an environment to and fro between two releases, and the Job of one release is
  taken for the scan of another when their names are cut to the same one.
\<close>

subsection \<open>Sweeps and promotions together\<close>

lemma elsewhere_refl: "names_kept v \<Longrightarrow> elsewhere v v"
  unfolding elsewhere_def by (auto intro: exI [of _ "[]"])

lemma elsewhere_keeps:
  assumes "elsewhere v w" "names_kept w'" "wd_promotions w' = wd_promotions w" "wd_grants w' = wd_grants w"
    and "wd_log w' = wd_log w @ es" "list_all foreign_entry es"
  shows "elsewhere v w'"
proof -
  from assms(1) obtain fs where "wd_log w = wd_log v @ fs" "list_all foreign_entry fs" unfolding elsewhere_def by blast
  then have "\<exists>gs. wd_log w' = wd_log v @ gs \<and> list_all foreign_entry gs"
    using assms(5,6) by (intro exI [of _ "fs @ es"]) simp
  then show ?thesis using assms(1-4) unfolding elsewhere_def by simp
qed

lemma elsewhere_trans:
  assumes "elsewhere u v" "elsewhere v w"
  shows "elsewhere u w"
proof -
  from assms obtain es fs where "wd_log v = wd_log u @ es" "list_all foreign_entry es" "wd_log w = wd_log v @ fs" "list_all foreign_entry fs"
    unfolding elsewhere_def by blast
  then have log: "\<exists>gs. wd_log w = wd_log u @ gs \<and> list_all foreign_entry gs" by (intro exI [of _ "es @ fs"]) simp
  have "pm_phase p = PhaseNew \<or> wd_promotions u n = Some p \<or> (\<exists>q. wd_promotions u n = Some q \<and> p = q\<lparr>pm_deleting := True\<rparr>)"
    if p: "wd_promotions w n = Some p" for n p
  proof -
    consider "pm_phase p = PhaseNew" | "wd_promotions v n = Some p" | q where "wd_promotions v n = Some q" "p = q\<lparr>pm_deleting := True\<rparr>"
      using assms(2) p unfolding elsewhere_def by blast
    then show ?thesis
    proof cases
      case 2
      with assms(1) show ?thesis unfolding elsewhere_def by blast
    next
      case 3
      then have "pm_phase q = PhaseNew \<or> wd_promotions u n = Some q \<or> (\<exists>r. wd_promotions u n = Some r \<and> q = r\<lparr>pm_deleting := True\<rparr>)"
        using assms(1) unfolding elsewhere_def by blast
      with 3 show ?thesis by auto
    qed simp
  qed
  moreover have "xc_used g = [] \<or> (\<exists>h \<in> set (wd_grants u). xc_name h = xc_name g \<and> xc_used h = xc_used g)" if g: "g \<in> set (wd_grants w)" for g
  proof -
    from g assms(2) consider "xc_used g = []" | h where "h \<in> set (wd_grants v)" "xc_name h = xc_name g" "xc_used h = xc_used g"
      unfolding elsewhere_def by blast
    then show ?thesis
    proof cases
      case 2
      with assms(1) have "xc_used h = [] \<or> (\<exists>k \<in> set (wd_grants u). xc_name k = xc_name h \<and> xc_used k = xc_used h)"
        unfolding elsewhere_def by blast
      with 2 show ?thesis by metis
    qed simp
  qed
  ultimately show ?thesis using assms(2) log unfolding elsewhere_def by blast
qed

lemma advance_elsewhere:
  assumes "names_kept v" "\<And>u. names_kept u \<Longrightarrow> elsewhere u (sc_meanwhile s u)"
  shows "elsewhere v (snd (advance eng cf s env budget v))"
proof -
  have named: "names_kept w" if "elsewhere v w" for w using that by (simp add: elsewhere_def)
  have "elsewhere v (log_that x w)" if "elsewhere v w" "foreign_entry x" for x w
    by (rule elsewhere_keeps [OF that(1), where es = "[x]"]) (use named [OF that(1)] that(2) in \<open>auto simp: log_that_def names_kept_def\<close>)
  moreover have "elsewhere v (keep_env e w) \<and> elsewhere v (InsertDecision d x w) \<and> elsewhere v (attach_scan ev w) \<and> elsewhere v (put_job k j w)"
    if "elsewhere v w" for e d x ev k j w
    by (intro conjI; rule elsewhere_keeps [OF that, where es = "[]"])
      (use named [OF that] in \<open>auto simp: keep_env_def InsertDecision_def attach_scan_def put_job_def names_kept_def\<close>)
  moreover have "elsewhere v (sc_meanwhile s w)" if "elsewhere v w" for w
    by (rule elsewhere_trans [OF that assms(2) [OF named [OF that]]])
  ultimately have "kept_by s (elsewhere v)" unfolding kept_by_def by blast
  from kept_advance [OF this] elsewhere_refl [OF assms(1)] show ?thesis by (simp add: pass_triple_def case_prod_beta)
qed

lemma sweep_reachable:
  assumes "promotion_reachable eng v" "\<And>u. names_kept u \<Longrightarrow> elsewhere u (sc_meanwhile s u)"
  shows "promotion_reachable eng (snd (advance eng' cf s env budget v))"
proof -
  have "names_kept v" using reachable_gate_inv [OF assms(1)] by (simp add: gate_inv_def)
  from advance_elsewhere [OF this assms(2)] show ?thesis by (intro promotion_reachable.step [OF assms(1)] promotion_step.others)
qed

text \<open>
  C14. A retreat is warranted. In a world that passes and the platform around them reach, an environment that
  a sweep's step leaves on another release than it ran was rolled back in the log, after a decision of this
  step that the release it left is blocked there. The grant the rollback names had asked for it, covers that
  release there, has expired unresolved by the evaluation's clock and waived rules that are now unmet, and
  one of the promotions that stood on it, as the log says, was of that release into that environment.
\<close>

theorem retreats_are_warranted:
  assumes "promotion_reachable eng v" "calm s" "v' = snd (advance eng cf s copy budget v)"
    and "wd_environments v n = Some env" "wd_environments v' n = Some env'" "te_release env' \<noteq> te_release env"
  shows "\<exists>before after g covered decision unmet waivers p q rules.
      wd_log v' = wd_log v @ before @ RolledBack n (te_release env) (te_release env') (xc_name g) covered decision # after
    \<and> DecisionMade KindRescan n n (te_release env) VerdictBlocked decision unmet waivers \<in> set before
    \<and> g \<in> set (wd_grants v) \<and> xc_rollback g \<and> xc_environment g = n \<and> (xc_release g = [] \<or> xc_release g = te_release env)
    \<and> EffectivePhase g (sc_at s) = GrantExpired
    \<and> covered \<noteq> [] \<and> set covered \<subseteq> set unmet \<inter> set (xc_rules g)
    \<and> p \<in> set (xc_used g) \<and> BreakGlassUsed p (xc_name g) rules \<in> set (wd_log v)
    \<and> wd_promotions v p = Some q \<and> pm_environment q = n \<and> pm_release q = te_release env"
proof -
  have inv: "gate_inv v" by (rule reachable_gate_inv [OF assms(1)])
  then have "names_kept v" by (simp add: gate_inv_def)
  from advance_inv [OF assms(2) this] obtain es where es: "wd_log v' = wd_log v @ es" "rollbacks_ok v (sc_at s) es" "moved_back v es v'"
    unfolding assms(3) sweep_inv_def by blast
  obtain x c d where "RolledBack n (te_release env) (te_release env') x c d \<in> set es"
    using es(3) [unfolded moved_back_def, rule_format, OF assms(5)] assms(4,6) by auto
  then obtain ante post where split: "es = ante @ RolledBack n (te_release env) (te_release env') x c d # post" by (meson split_list)
  with es(2) have "rollback_warranted v (sc_at s) ante n (te_release env) (te_release env') x c d" unfolding rollbacks_ok_def by blast
  then obtain g p q unmet waivers where w: "c \<noteq> []" "g \<in> set (wd_grants v)" "xc_name g = x" "xc_rollback g" "xc_environment g = n"
    "xc_release g = [] \<or> xc_release g = te_release env" "EffectivePhase g (sc_at s) = GrantExpired" "set c \<subseteq> set (xc_rules g)"
    "p \<in> set (xc_used g)" "wd_promotions v p = Some q" "pm_environment q = n" "pm_release q = te_release env"
    "DecisionMade KindRescan n n (te_release env) VerdictBlocked d unmet waivers \<in> set ante" "set c \<subseteq> set unmet"
    unfolding rollback_warranted_def by (elim conjE bexE exE)
  have "break_glass_logged (wd_log v) p (xc_name g)" using inv w(2,9) unfolding gate_inv_def by blast
  then obtain rules where rules: "BreakGlassUsed p (xc_name g) rules \<in> set (wd_log v)" unfolding break_glass_logged_def by blast
  have log: "wd_log v' = wd_log v @ ante @ RolledBack n (te_release env) (te_release env') (xc_name g) c d # post"
    by (simp add: es(1) split w(3))
  show ?thesis
    by (intro exI [of _ ante] exI [of _ post] exI [of _ g] exI [of _ c] exI [of _ d] exI [of _ unmet] exI [of _ waivers]
        exI [of _ p] exI [of _ q] exI [of _ rules] conjI) (rule log w rules | simp add: w)+
qed

subsection \<open>How many scans a sweep starts\<close>

lemma no_starts: "pass_triple (\<lambda>_. True) (\<lambda>_. True) (reevaluate eng s project env st snapshot findings at) (\<lambda>x _. fst x = 0)"
  unfolding reevaluate_def
  by (auto simp: pass_triple_def after_def give_def split: option.splits sum.splits prod.splits)

lemma advance_starts:
  assumes "advance eng cf s env budget w = (Some (started, evaluated), w')"
  shows "int started \<le> (if 0 < budget then 1 else 0)"
proof -
  have re: "n = 0" if "reevaluate eng s project e st snapshot findings at u = (Some (n, k), u')" for project e st snapshot findings at u n k u'
    using no_starts [of eng s project e st snapshot findings at, unfolded pass_triple_def, THEN spec [of _ u]] that by simp
  have "n = 0" if "publish_scan eng cf s project e st report u = (Some (n, k), u')" for project e st report u n k u'
    using that by (auto simp: publish_scan_def after_def give_def Let_def reading_def split: option.splits prod.splits call_outcome.splits if_splits dest: re)
  then have collect: "n = 0" if "collect_scan eng cf s e st u = (Some (n, k), u')" for e st u n k u'
    using that by (auto simp: collect_scan_def after_def give_def Let_def reading_def pass_error_def split: option.splits prod.splits call_outcome.splits if_splits)
  show ?thesis
    using assms by (auto simp: advance_def Let_def after_def give_def split: option.splits prod.splits if_splits dest!: collect)
qed

lemma sweep_items_starts:
  "int (sw_started (fst (sweep_items eng cf ss items budget rep w))) \<le> int (sw_started rep) + max 0 budget"
proof (induction items arbitrary: budget rep w)
  case (Cons env items)
  show ?case
  proof (cases "fst (advance eng cf (ss (te_name env)) env budget w)")
    case None
    then show ?thesis using Cons.IH by (auto simp: case_prod_beta split: prod.splits)
  next
    case (Some x)
    then obtain n k w' where a: "advance eng cf (ss (te_name env)) env budget w = (Some (n, k), w')" by (cases x, metis prod.collapse)
    note Cons.IH [of "budget - int n" "rep\<lparr>sw_started := sw_started rep + n, sw_evaluated := sw_evaluated rep + k\<rparr>" w']
    with advance_starts [OF a] show ?thesis by (simp add: a split: if_splits)
  qed
qed simp

text \<open>However many environments are due, a sweep starts no more scans than the concurrency leaves beside those in flight.\<close>

lemma sweep_starts:
  assumes "SweepOnce eng cf ss w = (Some rep, w')"
  shows "int (sw_started rep) \<le> max 0 (EffectiveConcurrency (cf_concurrency cf) - int (length (filter inFlight (env_items w))))"
  using sweep_items_starts [of eng cf ss "env_items w" "EffectiveConcurrency (cf_concurrency cf) - int (length (filter inFlight (env_items w)))"
      "\<lparr>sw_environments = length (env_items w), sw_started = 0, sw_evaluated = 0\<rparr>" w] assms
  by (auto simp: SweepOnce_def Let_def case_prod_beta split: option.splits)

subsection \<open>To and fro\<close>

lemma reading_answered: "all_answered s \<Longrightarrow> reading s c f w = (Some (f w), w)"
  by (simp add: reading_def all_answered_def)

lemma writing_answered: "all_answered s \<Longrightarrow> writing s c f w = (Some (), f w)"
  by (simp add: writing_def all_answered_def)

lemma rollback_step:
  assumes "all_answered s" "sc_meanwhile s = id" "wd_environments w n = Some e" "te_name e = n" "te_release e = old" "old \<noteq> []"
    and "rollback_target e old = Some new" "te_history e = [] \<or> mv_release (te_history e ! 0) \<noteq> old" "wd_releases w new \<noteq> None"
  shows "\<exists>w' e'. rollBack s e old g covered d w = (Some (), w') \<and> wd_environments w' n = Some e' \<and> te_name e' = n \<and> te_release e' = new
    \<and> rollback_target e' new = Some old \<and> te_history e' \<noteq> [] \<and> mv_release (te_history e' ! 0) \<noteq> new \<and> wd_releases w' = wd_releases w"
proof -
  from assms(9) obtain r where r: "wd_releases w new = Some r" by blast
  have differ: "new \<noteq> old" by (rule target_differs [OF assms(7)])
  show ?thesis
    using assms(3-8) r differ
    by (auto simp: rollBack_def move_back_def meanwhile_def assms(2) reading_answered [OF assms(1)]
        writing_answered [OF assms(1)] after_def give_def log_that_def keep_env_def RecordReleaseMove_def Let_def MaxReleaseHistory_def rollback_target_def)
qed

text \<open>
  C24. A retreat is undone by the next. An environment that was rolled back from one release to the one before
  has the release it left at the head of its history, so a rollback from where it went takes it back there,
  and leaves it where the first rollback found it, with the same target. Two releases that each stand on an
  expired grant that asked for a rollback are exchanged for each other by every sweep that blocks them.
\<close>

theorem retreat_returns:
  assumes "all_answered s" "all_answered s'" "sc_meanwhile s = id" "sc_meanwhile s' = id"
    and "wd_environments w n = Some e" "te_name e = n" "te_release e = old" "old \<noteq> []"
    and "rollback_target e old = Some new" "te_history e = [] \<or> mv_release (te_history e ! 0) \<noteq> old"
    and "wd_releases w new \<noteq> None" "wd_releases w old \<noteq> None"
  shows "\<exists>w' e' w'' e''. rollBack s e old g covered d w = (Some (), w') \<and> wd_environments w' n = Some e' \<and> te_release e' = new
    \<and> rollBack s' e' new g' covered' d' w' = (Some (), w'') \<and> wd_environments w'' n = Some e'' \<and> te_release e'' = old
    \<and> rollback_target e'' old = Some new"
proof -
  from rollback_step [OF assms(1,3,5-11), of g covered d] obtain w' e' where one: "rollBack s e old g covered d w = (Some (), w')"
    "wd_environments w' n = Some e'" "te_name e' = n" "te_release e' = new" "rollback_target e' new = Some old"
    "mv_release (te_history e' ! 0) \<noteq> new" "wd_releases w' = wd_releases w" by blast
  have "new \<noteq> []" using assms(9) by (auto simp: rollback_target_def find_Some_iff)
  with rollback_step [OF assms(2,4) one(2-4) _ one(5)] one(6,7) assms(12) obtain w'' e'' where
    "rollBack s' e' new g' covered' d' w' = (Some (), w'')" "wd_environments w'' n = Some e''" "te_release e'' = old" "rollback_target e'' old = Some new"
    by metis
  with one show ?thesis by blast
qed

subsection \<open>A Job taken for another's\<close>

lemma production_jobs_share_names:
  assumes "21 \<le> length p" "length p \<le> 45"
  shows "rescanJobName (p @ ''-production'') (p @ ''-rel-'' @ a) = rescanJobName (p @ ''-production'') (p @ ''-rel-'' @ b)"
proof -
  have "take (46 - length p) (p @ ''-rel-'' @ c) = take (46 - length p) (p @ ''-rel-'')" for c
    using assms(1) take_append [of "46 - length p" "p @ ''-rel-''" c] by simp
  moreover have "rescanJobName (p @ ''-production'') (p @ ''-rel-'' @ c)
      = (p @ ''-production'') @ ''-scan-'' @ take (46 - length p) (p @ ''-rel-'' @ c)" for c
    using assms by (simp add: rescanJobName_def Let_def nat_diff_distrib del: take_append)
  ultimately show ?thesis by metis
qed

lemma adopted_start:
  assumes "all_answered s" "wd_projects v (te_project env) = Some project" "wd_releases v (te_release env) = Some r" "ro_name r = te_release env"
    and "by_digest (ro_image r) = Some artifact"
    and "wd_jobs v (AppNamespace (jp_name project), rescanJobName (te_name env) (te_release env)) = Some job" "\<not> sj_complete job" "\<not> sj_failed job"
    and "wd_environments v (te_name env) = Some now" "te_release now = te_release env"
  shows "\<exists>st. start_scan cf s env v = (Some True, keep_env (now\<lparr>te_rescan := Some st\<rparr>) v) \<and> rs_phase st = RescanScanning \<and> rs_artifact st = artifact
    \<and> rs_release st = te_release env \<and> rs_job st = rescanJobName (te_name env) (te_release env)"
  using assms(2-) by (simp add: start_scan_def create_job_def adopt_def record_rescan_def after_def give_def Let_def
      reading_answered [OF assms(1)] writing_answered [OF assms(1)])
    (rule exI, rule conjI, rule refl, simp)

lemma collected_evidence:
  assumes "all_answered s" "sc_meanwhile s = id" "wd_projects v (te_project env) = Some project"
    and "wd_jobs v (AppNamespace (jp_name project), rs_job st) = Some job" "sj_complete job" "\<not> sj_failed job"
    and "sj_report job = Some report" "sp_blob report \<noteq> []" "sp_error report = []"
  shows "\<exists>snapshot. \<lparr>se_artifact = rs_artifact st, se_blob = sp_blob report, se_snapshot = snapshot\<rparr> \<in> set (wd_evidence (snd (collect_scan eng cf s env st v)))"
proof -
  obtain findings fromReport where f: "cf_findings cf (sp_blob report) = (findings, fromReport)" by (cases "cf_findings cf (sp_blob report)")
  define at where "at = (case sp_finished report of Some t \<Rightarrow> t | None \<Rightarrow> sc_now s)"
  define snapshot where "snapshot = dataSnapshot (sp_snapshot report) fromReport cf at"
  let ?e = "\<lparr>se_artifact = rs_artifact st, se_blob = sp_blob report, se_snapshot = snapshot\<rparr>"
  have out: "sc_outcome s = (\<lambda>_. Answered)" using assms(1) by (simp add: all_answered_def)
  have "collect_scan eng cf s env st v = reevaluate eng s project env st snapshot findings at (attach_scan ?e v)"
    using assms(3-) by (simp add: collect_scan_def publish_scan_def scan_report_of_def after_def give_def f out reading_answered [OF assms(1)]
        snapshot_def at_def Let_def)
  moreover have "kept_by s (\<lambda>w. ?e \<in> set (wd_evidence w))"
    by (simp add: kept_by_def assms(2) log_that_def keep_env_def InsertDecision_def attach_scan_def put_job_def)
  from kept_reevaluate [OF this, of eng project env st snapshot findings at]
  have "?e \<in> set (wd_evidence (snd (reevaluate eng s project env st snapshot findings at (attach_scan ?e v))))"
    by (simp add: pass_triple_def case_prod_beta attach_scan_def)
  ultimately show ?thesis by metis
qed


subsection \<open>Witnesses\<close>

text \<open>The grant of the promotion above has run out, the release it let in is scanned and blocked.\<close>

definition demo_moved :: promotion_world where
  "demo_moved = snd (Reconcile demo_engine demo_script [] ''promo-1'' demo_world)"

definition demo_scanning :: target_env where
  "demo_scanning = demo_target\<lparr>te_release := ''shop-1'',
     te_history := [\<lparr>mv_release = ''shop-0'', mv_from = 1, mv_to = 11, mv_reason = ReleaseMovePromoted, mv_by = ''promo-1''\<rparr>],
     te_rescan := Some \<lparr>rs_phase = RescanScanning, rs_release = ''shop-1'', rs_artifact = ''r@d'', rs_job = ''scan-1'', rs_started = Some 1900,
       rs_finished = None, rs_snapshot = [], rs_findings = 0, rs_verdict = [], rs_unmet = [], rs_decision = [], rs_message = MatchingAgainst ''trivy''\<rparr>\<rparr>"

definition demo_scanned :: promotion_world where
  "demo_scanned = demo_moved\<lparr>wd_environments := [''shop-production'' \<mapsto> demo_scanning],
     wd_projects := [''shop'' \<mapsto> \<lparr>jp_name = ''shop'', jp_class = [], jp_stages = []\<rparr>], wd_bundles := [],
     wd_releases := [''shop-0'' \<mapsto> \<lparr>ro_name = ''shop-0'', ro_project = ''shop'', ro_image = []\<rparr>,
                     ''shop-1'' \<mapsto> \<lparr>ro_name = ''shop-1'', ro_project = ''shop'', ro_image = []\<rparr>],
     wd_jobs := [(''kitchen-shop'', ''scan-1'') \<mapsto> \<lparr>sj_artifact = ''r@d'', sj_complete = True, sj_failed = False, sj_said = [],
       sj_report = Some \<lparr>sp_blob = ''findings'', sp_snapshot = ''db-1'', sp_finished = Some 1990, sp_error = []\<rparr>\<rparr>]\<rparr>"

definition demo_sweep :: sweep_config where
  "demo_sweep = \<lparr>cf_enabled = True, cf_scanner_image = ''trivy'', cf_scanner_version = [], cf_attestation = True, cf_operator_image = ''kitchen'',
     cf_interval = 0, cf_concurrency = 0, cf_findings = (\<lambda>_. (1, []))\<rparr>"

definition demo_late :: pass_script where
  "demo_late = \<lparr>sc_outcome = (\<lambda>_. Answered), sc_at = 2000, sc_now = 2001, sc_random = ''d-2'', sc_facts = ''critical'', sc_meanwhile = id\<rparr>"

lemma demo_moved_reachable: "promotion_reachable demo_engine demo_moved"
  unfolding demo_moved_def by (rule promotion_reachable.step [OF promotion_reachable.start [OF demo_fresh] promotion_step.pass])

lemma demo_moved_grants: "wd_grants demo_moved = [demo_grant\<lparr>xc_used := [''promo-1'']\<rparr>]"
  unfolding demo_moved_def by (rule conjunct1 [OF conjunct2 [OF conjunct2 [OF demo_pass]]])

lemma demo_moved_promotion:
  "\<exists>q. wd_promotions demo_moved ''promo-1'' = Some q \<and> pm_environment q = ''shop-production'' \<and> pm_release q = ''shop-1''"
  unfolding demo_moved_def by (rule conjunct2 [OF conjunct2 [OF conjunct2 [OF demo_pass]]])

lemma demo_scanned_reachable: "promotion_reachable demo_engine demo_scanned"
proof -
  have "names_kept demo_moved" using reachable_gate_inv [OF demo_moved_reachable] by (simp add: gate_inv_def)
  then have "elsewhere demo_moved demo_scanned"
    by (intro elsewhere_keeps [OF elsewhere_refl, where es = "[]"]) (auto simp: demo_scanned_def names_kept_def demo_scanning_def demo_target_def)
  then show ?thesis by (intro promotion_reachable.step [OF demo_moved_reachable] promotion_step.others)
qed

lemma demo_late_calm: "calm demo_late"
  by (simp add: calm_def demo_late_def)

lemma demo_late_input:
  "materialized demo_late rq project env release (ActiveExceptionsFor [demo_grant\<lparr>xc_used := u\<rparr>] ''shop'' ''shop-production'' r 2000)
   = \<lparr>in_kind = rq_kind rq, in_at = rq_at rq, in_project = jp_name project, in_environment = te_name env, in_release = ro_name release,
      in_image = ro_image release, in_snapshot = rq_snapshot rq, in_requested = rq_requested rq, in_exceptions = [], in_facts = ''critical''\<rparr>"
  by (simp add: materialized_def demo_late_def PolicyExceptions_def ActiveExceptionsFor_def demo_grant_def grant_covers_def EffectivePhase_def
      is_zero_def zero_time_def)

lemma demo_late_verdict:
  "in_exceptions i = [] \<Longrightarrow> in_facts i = ''critical'' \<Longrightarrow> Evaluate_bundle demo_rego demo_bundle i = Inr \<lparr>vr_verdict = VerdictBlocked,
     vr_fired = [\<lparr>fr_rule = ''max-severity'', fr_message = [], fr_waived = False, fr_exception = []\<rparr>]\<rparr>"
  by (simp add: Evaluate_bundle_def demo_bundle_def demo_rego_def firedFrom_def text_member_def json_get_def has_suffix_def
      has_prefix_def ApplyExceptions_def Let_def verdictOf_def)

lemma demo_snapshot: "dataSnapshot ''db-1'' [] cf at = ''db-1''"
proof -
  have "trim_space ''db-1'' = ''db-1''" by code_simp
  then show ?thesis by (simp add: dataSnapshot_def)
qed

lemma demo_retreat:
  "\<exists>env'. wd_environments (snd (advance demo_engine demo_sweep demo_late demo_scanning 4 demo_scanned)) ''shop-production'' = Some env'
     \<and> te_release env' = ''shop-0''"
proof -
  have fields: "sc_outcome demo_late = (\<lambda>_. Answered)" "sc_at demo_late = 2000" "sc_now demo_late = 2001" "sc_random demo_late = ''d-2''"
    "sc_meanwhile demo_late = id" by (simp_all add: demo_late_def)
  note run = after_def reading_def writing_def give_def Let_def fields
  let ?project = "\<lparr>jp_name = ''shop'', jp_class = [], jp_stages = []\<rparr>"
  let ?release = "\<lparr>ro_name = ''shop-1'', ro_project = ''shop'', ro_image = []\<rparr>"
  let ?job = "\<lparr>sj_artifact = ''r@d'', sj_complete = True, sj_failed = False, sj_said = [],
     sj_report = Some \<lparr>sp_blob = ''findings'', sp_snapshot = ''db-1'', sp_finished = Some 1990, sp_error = []\<rparr>\<rparr>"
  let ?g = "demo_grant\<lparr>xc_used := [''promo-1'']\<rparr>"
  have env: "te_requirements demo_scanning = Some (Digest demo_bundle)" "te_project demo_scanning = ''shop''" "te_name demo_scanning = ''shop-production''"
    "te_release demo_scanning = ''shop-1''" "te_uid demo_scanning = []"
    "te_history demo_scanning = [\<lparr>mv_release = ''shop-0'', mv_from = 1, mv_to = 11, mv_reason = ReleaseMovePromoted, mv_by = ''promo-1''\<rparr>]"
    by (simp_all add: demo_scanning_def demo_target_def)
  have w: "wd_projects demo_scanned ''shop'' = Some ?project" "wd_environments demo_scanned ''shop-production'' = Some demo_scanning"
    "wd_releases demo_scanned ''shop-1'' = Some ?release" "wd_releases demo_scanned ''shop-0'' \<noteq> None" "wd_bundles demo_scanned = []"
    "wd_grants demo_scanned = [?g]" "wd_jobs demo_scanned (''kitchen-shop'', ''scan-1'') = Some ?job"
    by (simp_all add: demo_scanned_def demo_moved_grants)
  obtain q where q: "wd_promotions demo_scanned ''promo-1'' = Some q" "pm_environment q = ''shop-production''" "pm_release q = ''shop-1''"
    using demo_moved_promotion by (auto simp: demo_scanned_def)
  have engine: "pe_rego demo_engine = demo_rego" "pe_builtin demo_engine = demo_bundle" by (simp_all add: demo_engine_def)
  obtain st where st: "te_rescan demo_scanning = Some st" "rs_release st = ''shop-1''" "rs_phase st = RescanScanning" "rs_job st = ''scan-1''" "rs_artifact st = ''r@d''"
    by (simp add: demo_scanning_def)
  have here: "demo_scanning\<lparr>te_rescan := Some st\<rparr> = demo_scanning" unfolding st(1) [symmetric] by simp
  define attached where "attached = attach_scan \<lparr>se_artifact = ''r@d'', se_blob = ''findings'', se_snapshot = ''db-1''\<rparr> demo_scanned"
  have "advance demo_engine demo_sweep demo_late demo_scanning 4 demo_scanned = collect_scan demo_engine demo_sweep demo_late demo_scanning st demo_scanned"
    by (simp add: advance_def st env here)
  also have "\<dots> = reevaluate demo_engine demo_late ?project demo_scanning st ''db-1'' 1 1990 attached"
    by (simp add: collect_scan_def run w env st AppNamespace_def scan_report_of_def publish_scan_def demo_sweep_def demo_snapshot attached_def)
  finally have start: "advance demo_engine demo_sweep demo_late demo_scanning 4 demo_scanned
    = reevaluate demo_engine demo_late ?project demo_scanning st ''db-1'' 1 1990 attached" .
  have a: "wd_environments attached = wd_environments demo_scanned" "wd_releases attached = wd_releases demo_scanned" "wd_bundles attached = wd_bundles demo_scanned"
     "wd_grants attached = wd_grants demo_scanned" "wd_promotions attached = wd_promotions demo_scanned" by (simp_all add: attached_def attach_scan_def)
  let ?result = "\<lparr>vr_verdict = VerdictBlocked, vr_fired = [\<lparr>fr_rule = ''max-severity'', fr_message = [], fr_waived = False, fr_exception = []\<rparr>]\<rparr>"
  have asked: "\<exists>ev. evaluate_requirements demo_engine demo_late (rescan_request demo_late ''db-1'') ?project demo_scanning ?release attached = (Some (Inr ev), attached)
     \<and> ev_result ev = ?result"
    by (simp add: evaluate_requirements_def ask_requirements_def ask_bundle_def run env engine a w demo_resolved
        rescan_request_def demo_late_input demo_late_verdict)
  then obtain ev where ev: "evaluate_requirements demo_engine demo_late (rescan_request demo_late ''db-1'') ?project demo_scanning ?release attached = (Some (Inr ev), attached)"
     "ev_result ev = ?result" by blast
  have bar: "WaivesRule ?g ''max-severity''" "xc_rollback ?g" "grant_covers ?g ''shop'' ''shop-production'' ''shop-1''" "EffectivePhase ?g 2000 = GrantExpired"
    "xc_used ?g = [''promo-1'']"
    by (simp_all add: demo_grant_def WaivesRule_def grant_covers_def EffectivePhase_def is_zero_def zero_time_def)
  have target: "rollback_target demo_scanning ''shop-1'' = Some ''shop-0''" by (simp add: rollback_target_def env)
  have "\<exists>env'. wd_environments (snd (reevaluate demo_engine demo_late ?project demo_scanning st ''db-1'' 1 1990 attached)) ''shop-production'' = Some env'
     \<and> te_release env' = ''shop-0''"
    using ev w q
    by (simp add: reevaluate_def run st a env record_decision_def log_that_def InsertDecision_def record_rescan_def keep_env_def
       unmetRuleIDs_def verdict_defs rollBackForExpiry_def bar target rollBack_def move_back_def meanwhile_def RecordReleaseMove_def MaxReleaseHistory_def
       split: option.splits)
  then show ?thesis by (simp only: start)
qed

theorem retreats_are_warranted_witness:
  "\<exists>covered decision. RolledBack ''shop-production'' ''shop-1'' ''shop-0'' ''exc-1'' covered decision
     \<in> set (wd_log (snd (advance demo_engine demo_sweep demo_late demo_scanning 4 demo_scanned)))"
proof -
  obtain env' where env': "wd_environments (snd (advance demo_engine demo_sweep demo_late demo_scanning 4 demo_scanned)) ''shop-production'' = Some env'"
    "te_release env' = ''shop-0''" using demo_retreat by blast
  have env: "wd_environments demo_scanned ''shop-production'' = Some demo_scanning" "te_release demo_scanning = ''shop-1''"
    by (simp_all add: demo_scanned_def demo_scanning_def)
  have "te_release env' \<noteq> te_release demo_scanning" by (simp add: env env')
  from retreats_are_warranted [OF demo_scanned_reachable demo_late_calm refl env(1) env'(1) this]
  obtain ante post g covered decision where g: "g \<in> set (wd_grants demo_scanned)"
    "wd_log (snd (advance demo_engine demo_sweep demo_late demo_scanning 4 demo_scanned))
      = wd_log demo_scanned @ ante @ RolledBack ''shop-production'' (te_release demo_scanning) (te_release env') (xc_name g) covered decision # post"
    by (elim exE conjE)
  have "xc_name g = ''exc-1''" using g(1) by (simp add: demo_scanned_def demo_moved_grants demo_grant_def)
  then show ?thesis by (intro exI [of _ covered] exI [of _ decision]) (simp add: g(2) env env')
qed

lemma demo_scanned_releases: "wd_releases demo_scanned ''shop-0'' \<noteq> None" "wd_releases demo_scanned ''shop-1'' \<noteq> None"
  by (simp_all add: demo_scanned_def)

lemma demo_scanning_fields: "te_name demo_scanning = ''shop-production''" "te_release demo_scanning = ''shop-1''"
  "te_history demo_scanning = [\<lparr>mv_release = ''shop-0'', mv_from = 1, mv_to = 11, mv_reason = ReleaseMovePromoted, mv_by = ''promo-1''\<rparr>]"
  by (simp_all add: demo_scanning_def demo_target_def)

theorem retreat_returns_witness:
  "\<exists>w' e' w'' e''. rollBack demo_late demo_scanning ''shop-1'' demo_grant [''max-severity''] ''d-2'' demo_scanned = (Some (), w')
     \<and> wd_environments w' ''shop-production'' = Some e' \<and> te_release e' = ''shop-0''
     \<and> rollBack demo_late e' ''shop-0'' demo_grant [''max-severity''] ''d-3'' w' = (Some (), w'')
     \<and> wd_environments w'' ''shop-production'' = Some e'' \<and> te_release e'' = ''shop-1'' \<and> rollback_target e'' ''shop-1'' = Some ''shop-0''"
proof -
  have s: "all_answered demo_late" "sc_meanwhile demo_late = id" by (simp_all add: all_answered_def demo_late_def)
  have "wd_environments demo_scanned ''shop-production'' = Some demo_scanning" by (simp add: demo_scanned_def)
  then show ?thesis
    by (intro retreat_returns [OF s(1) s(1) s(2) s(2)]) (simp_all add: demo_scanning_fields rollback_target_def demo_scanned_releases)
qed

definition demo_portal :: target_env where
  "demo_portal = \<lparr>te_name = ''customer-portal-north-production'', te_uid = [], te_project = ''customer-portal-north'', te_class = [],
     te_release = ''customer-portal-north-rel-2'', te_requirements = None, te_created = 1, te_history = [], te_deleting = False, te_rescan = None\<rparr>"

definition demo_portal_job :: scan_job where
  "demo_portal_job = \<lparr>sj_artifact = ''r@one'', sj_complete = False, sj_failed = False, sj_said = [], sj_report = None\<rparr>"

definition demo_portal_world :: promotion_world where
  "demo_portal_world = demo_world\<lparr>wd_projects := [''customer-portal-north'' \<mapsto> \<lparr>jp_name = ''customer-portal-north'', jp_class = [], jp_stages = []\<rparr>],
     wd_environments := [''customer-portal-north-production'' \<mapsto> demo_portal],
     wd_releases := [''customer-portal-north-rel-2'' \<mapsto> \<lparr>ro_name = ''customer-portal-north-rel-2'', ro_project = ''customer-portal-north'', ro_image = ''r@two''\<rparr>],
     wd_jobs := [(AppNamespace ''customer-portal-north'', rescanJobName ''customer-portal-north-production'' ''customer-portal-north-rel-1'') \<mapsto> demo_portal_job]\<rparr>"


end
