(* ===== verification/Spec2Isabelle.thy ===== *)
theory Spec2Isabelle
  imports AuditPage AuditReplicas Survey RegistryAccounts GateFlow SignalLoop SignalCorrelation SignalAlerts ApiReach RouteBudget EdgeTraffic RescanOutcomes
begin

section \<open>Kitchen\<close>

text \<open>
  Kitchen is a platform-as-a-service on Kubernetes, written in Go: an operator whose controllers reconcile
  projects, builds, releases and environments, an API in several replicas, a registry token service, a gate in
  front of protected previews, a follower of network flows, and a telemetry store (ClickHouse) behind them.
  This development models the parts of it that decide something: what is recorded and can be proved later, who
  may do what, which names and hosts belong to whom, what is raised as a condition, and what may move an
  environment onto a release. It is read off the sources below src/ (paths are relative to it).

  \<^bold>\<open>How the parts interact.\<close> A controller or handler that changes something first hands a transition to the
  audit recorder, which seals it into a hash chain under a number claimed through one ConfigMap; without the
  record the change is not made. The API asks the enforcement table, which asks the access model for a caller's
  role, personal key and scopes. The registry and the preview gate ask the same cluster for their own grants.
  The detection loop evaluates the catalogue of rules once a round, diffs it against the last round in the
  tracker and appends what opened and resolved to the store; the alerts are folded from those rows and from
  what people did about them. A promotion asks the policy engine about an environment's bar, records the
  decision, and moves the environment; the re-evaluation sweep asks again later and may move it back.

  \<^bold>\<open>Shared theories.\<close>
  \<^item> \<open>Prelude\<close>: Go strings as byte lists, \<open>int64\<close> with its wrap-around, the functions of package strings and
    strconv that are used, lemmas on lists and maps. \<open>EqualFold\<close> and \<open>ToLower\<close> fold ASCII only.
  \<^item> \<open>GoTime\<close> (instants in nanoseconds, calendars, RFC 3339), \<open>GoSha256\<close> (FIPS 180-4), \<open>GoBase64\<close> (and HMAC),
    \<open>GoRegexp\<close>, \<open>GoUrl\<close>, \<open>Json\<close> (encoder, decoder and their round trip), \<open>Kube\<close> (the refusals of the API server).

  \<^bold>\<open>Audit log\<close> (internal/audit, internal/api/audit.go, internal/clickhouse/audit.go). \<open>AuditChain\<close> is chain.go:
  a record and its hash, \<open>Seal\<close>, \<open>Verify\<close>, \<open>AgainstAnchor\<close>; its lemmas show that the hashed encoding determines
  the content, that what \<open>Seal\<close> builds verifies, and what a run that verifies must be, so that edits, deletions
  and truncation are found or exhibit a SHA-256 collision. \<open>AuditTransition\<close> is privilege.go and the row a
  transition becomes. \<open>AuditHead\<close> is head.go and recorder.go: the head object, its claiming (\<open>headClaimAttempts\<close>
  is 5), adopting and releasing. \<open>AuditAppend\<close> states what the recorder relies on of its services as the locale
  \<open>audit_services\<close>, interprets it on a model of the cluster with faults, and proves what an answer of \<open>Record\<close>
  means. \<open>AuditReplicas\<close> interleaves the calls of several replicas. \<open>AuditPage\<close> is the verification endpoint.

  \<^bold>\<open>Access\<close> (internal/access, api/v1alpha1/access_types.go). \<open>Access\<close>: the two ladders of roles (locale
  \<open>role_ladder\<close>, interpreted twice), whom an entry is about, personal keys, scopes. \<open>Survey\<close>: identities.go.
  \<open>ApiGuard\<close> and \<open>ApiReach\<close> are the enforcement table of internal/api/policy.go, every route of it, the resolvers
  and guards in front of the handlers, and what follows for viewers, scopes, narrowed keys and hidden objects.

  \<^bold>\<open>Registry\<close> (internal/registrytoken, internal/controller/registryaccounts.go). \<open>RegistryToken\<close>: grants, scopes
  and the endpoint; \<open>RegistryAccounts\<close>: the accounts of the platform and of projects (locale \<open>accounts\<close>,
  interpreted on the cluster's and on the static accounts) and the boundary between projects.

  \<^bold>\<open>Hosts and previews\<close> (internal/platformhost, internal/controller/environment_controller.go, projecttarget.go,
  internal/previewgate). \<open>Environments\<close>: project names, hostnames, data classes. \<open>GateToken\<close>, \<open>PreviewGate\<close>,
  \<open>GateFlow\<close>: the signed tokens of the gate, its handlers, and every sequence of requests it may be sent by
  anybody who cannot forge a signature.

  \<^bold>\<open>Signals\<close> (internal/signals, internal/detection/loop.go, internal/clickhouse/transitions.go). \<open>Signals\<close> (findings,
  tiers, thresholds, the registry), \<open>SignalBuilds\<close> and \<open>SignalCorrelation\<close> (the rules about builds and the rule
  over a whole round), \<open>SignalTracker\<close>, \<open>SignalHistory\<close> (rows against the specification of a history),
  \<open>SignalStore\<close> (the locale \<open>history\<close> and the store's interpretation), \<open>SignalRounds\<close>, \<open>SignalLoop\<close> (rounds, faults
  and restarts as steps) and \<open>SignalAlerts\<close> (mitigation and escalation).

  \<^bold>\<open>Flows\<close> (internal/flows). \<open>RouteTemplates\<close> (paths.go), \<open>RouteBudget\<close> (budget.go, on the locale
  \<open>recency_cache\<close>), \<open>EdgeTraffic\<close> (hosts.go, requests.go, loss.go).

  \<^bold>\<open>Policy, promotions and the sweep\<close> (internal/policy, api/v1alpha1, internal/controller). \<open>PolicyEngine\<close>: bundles and
  their digest, the resolver, verdicts, exceptions and their controller. \<open>Promotion\<close>: the reconciler of
  promotion_controller.go with policyeval.go and policydecision.go; a pass is a function of the cluster and of a
  script that says of every call whether it is answered, refused, or had its effect with the answer lost.
  \<open>PromotionGate\<close> is a logic of such passes (whatever is answered, the invariant stays) and what holds of every
  world passes and other writers reach; \<open>PromotionEnds\<close> is its total counterpart. \<open>Rescan\<close> is rescan.go,
  \<open>RescanGuard\<close> the same logic applied to it, \<open>RescanOutcomes\<close> sweeps beside promotions, and two behaviours the
  code does not intend: a retreat that the next sweep takes back, and a scanner's Job taken for another release's.
\<close>

text \<open>
  \<^bold>\<open>Bounds.\<close> The JSON parser is given its input's length as fuel, which \<open>Json\<close> shows to be enough for all that the
  encoder writes. Retries are the code's own: five attempts at the head object. Where the code ranges over a Go
  map the model has a list or a set and the result is sorted by keys no two of which agree, so the order is not
  seen; \<open>sort.Slice\<close> is taken to keep the order of ties. The rounds of the detection loop come at distinct
  milliseconds, and an insert of a round's rows is all or nothing; the retention of the tables is not modelled.
  The ledger of losses has a clock after 1970. That a route's template has at most 3125 bytes is proved.
  A pass of the promotion reconciler or of the sweep is atomic towards other writers, except that anything may
  happen before a rollback reads its environment again; a write made over a stale read is refused by the API
  server and is one of the refused calls of a script.

  \<^bold>\<open>Parameters.\<close> RSA, the parsers of x509, random bytes, what net/http parses of a request, the identity
  provider, the API server's answers, the Rego evaluator, the evidence an evaluation reads (one text of its
  input), what a scanner's report holds, the gathering of a round and the rules other than those about builds
  and the correlation. What is assumed of them is a hypothesis of the theorem that needs it.

  \<^bold>\<open>Not modelled.\<close> The wording of errors, messages and pages (an error is the constructor that says which it is);
  the path cleaning of \<open>http.Redirect\<close>; metrics, activity feed and logging; attestations beyond what the sweep
  attaches; the Kubernetes objects that controllers render; and the parts that are pure input and output or
  drivers of other systems: the build controller, resource claims, Git providers, backups, the command line,
  repository detection and the schema and queries of the store.
\<close>

end
